(* ===== verification/Prelude.thy ===== *)
theory Prelude
  imports Main "HOL-Library.Multiset"
begin

text \<open>
  Generic material shared by every component: Go slices over lists, order and
  distinctness lemmas, and the collections of rules that component proofs use.
  Nothing in this theory is about the program; it is the library the components
  are written over.
\<close>

named_theorems go_defs \<open>definitions of the Go library functions used by the model\<close>
named_theorems store_defs \<open>definitions of the operations of the CCR stores\<close>
named_theorems eval_defs \<open>definitions unfolded to evaluate a component at a concrete input\<close>

section \<open>Go slices\<close>

text \<open>
  \<open>xs[a:b]\<close> of Go for \<open>0 \<le> a \<le> b \<le> len(xs)\<close>. Outside these bounds Go panics; every
  use in the model is guarded by the same bounds check as in the source.
\<close>

definition slice :: "'a list \<Rightarrow> int \<Rightarrow> int \<Rightarrow> 'a list" where
  "slice xs a b = take (nat b - nat a) (drop (nat a) xs)"

lemma length_slice [simp]:
  "0 \<le> a \<Longrightarrow> a \<le> b \<Longrightarrow> b \<le> int (length xs) \<Longrightarrow> length (slice xs a b) = nat (b - a)"
  by (simp add: slice_def nat_diff_distrib)

lemma slice_empty [simp]: "slice xs a a = []"
  by (simp add: slice_def)

lemma slice_append_slice:
  "0 \<le> a \<Longrightarrow> a \<le> b \<Longrightarrow> b \<le> c \<Longrightarrow> slice xs a b @ slice xs b c = slice xs a c"
proof -
  assume h: "0 \<le> a" "a \<le> b" "b \<le> c"
  have b: "nat b = (nat b - nat a) + nat a" using h by (simp add: nat_mono)
  have c: "nat c - nat a = (nat b - nat a) + (nat c - nat b)" using h by (simp add: nat_mono)
  have "take (nat c - nat a) (drop (nat a) xs)
      = take (nat b - nat a) (drop (nat a) xs) @ take (nat c - nat b) (drop (nat b - nat a) (drop (nat a) xs))"
    unfolding c by (rule take_add)
  also have "drop (nat b - nat a) (drop (nat a) xs) = drop (nat b) xs"
    using b by simp
  finally show ?thesis by (simp add: slice_def)
qed

lemma slice_append_drop:
  "0 \<le> a \<Longrightarrow> a \<le> b \<Longrightarrow> slice xs a b @ drop (nat b) xs = drop (nat a) xs"
proof -
  assume h: "0 \<le> a" "a \<le> b"
  then have "drop (nat b) xs = drop (nat b - nat a) (drop (nat a) xs)"
    by (simp add: nat_mono)
  then show ?thesis by (simp only: slice_def append_take_drop_id)
qed

section \<open>Lists and maps\<close>

lemma sorted_wrt_take: "sorted_wrt P xs \<Longrightarrow> sorted_wrt P (take n xs)"
  by (metis append_take_drop_id sorted_wrt_append)

lemma set_take_elem: "x \<in> set (take n xs) \<Longrightarrow> x \<in> set xs"
  by (rule in_set_takeD)

lemma finite_dom_upd [intro]: "finite (dom m) \<Longrightarrow> finite (dom (m(k \<mapsto> v)))"
  by simp

lemma distinct_snoc [simp]: "distinct (xs @ [x]) \<longleftrightarrow> x \<notin> set xs \<and> distinct xs"
  by auto

lemma sorted_map_take: "sorted (map f xs) \<Longrightarrow> sorted (map f (take n xs))"
  by (simp flip: take_map add: sorted_wrt_take)

lemma distinct_set_singleton: "distinct xs \<Longrightarrow> set xs = {a} \<Longrightarrow> xs = [a]"
proof (cases xs)
  case (Cons x ys)
  assume d: "distinct xs" and s: "set xs = {a}"
  then have "x = a" "set ys \<subseteq> {a}" "a \<notin> set ys" using Cons by auto
  then have "ys = []" by (cases ys) auto
  with Cons \<open>x = a\<close> show ?thesis by simp
qed simp

lemma sort_key_mset_cong:
  assumes "mset xs = mset ys" and "distinct (map f xs)"
  shows "sort_key f xs = sort_key f ys"
proof (rule properties_for_sort_key)
  show "mset (sort_key f ys) = mset xs" using assms(1) by simp
  show "sorted (map f (sort_key f ys))" by simp
next
  fix k assume k: "k \<in> set (sort_key f ys)"
  have d: "distinct xs" "inj_on f (set xs)" using assms(2) by (simp_all add: distinct_map)
  have dy: "distinct (sort_key f ys)" using assms(1) d(1) by (metis distinct_sort mset_eq_imp_distinct_iff)
  have s: "set (sort_key f ys) = set xs" using assms(1) by (metis set_sort mset_eq_setD)
  have one: "filter (\<lambda>x. f k = f x) zs = [k]" if "distinct zs" "set zs = set xs" for zs
  proof -
    have "set (filter (\<lambda>x. f k = f x) zs) = {k}"
      using k s that d(2) by (auto dest: inj_onD)
    moreover have "distinct (filter (\<lambda>x. f k = f x) zs)" using that by simp
    ultimately show ?thesis by (rule distinct_set_singleton [rotated])
  qed
  show "filter (\<lambda>x. f k = f x) (sort_key f ys) = filter (\<lambda>x. f k = f x) xs"
    using one [OF dy s] one [OF d(1) refl] by simp
qed

end
