(* ===== verification/GoStrings.thy ===== *)
theory GoStrings
  imports Prelude "HOL-Library.List_Lexorder" "HOL-Library.Char_ord"
begin

text \<open>
  The part of Go's \<open>strings\<close>, \<open>strconv\<close> and \<open>encoding/hex\<close> packages that the program uses.
  A Go string is a byte sequence, modelled as \<open>string\<close>: one \<open>char\<close> is one byte, \<open>length\<close> is
  \<open>len\<close>. Every function is executable and comes with the lemmas its users need.
\<close>

section \<open>Bytes\<close>

abbreviation ord :: "char \<Rightarrow> nat" where
  "ord c \<equiv> of_char c"

definition is_digit :: "char \<Rightarrow> bool" where
  "is_digit c \<longleftrightarrow> 48 \<le> ord c \<and> ord c \<le> 57"

definition is_lower :: "char \<Rightarrow> bool" where
  "is_lower c \<longleftrightarrow> 97 \<le> ord c \<and> ord c \<le> 122"

definition is_upper :: "char \<Rightarrow> bool" where
  "is_upper c \<longleftrightarrow> 65 \<le> ord c \<and> ord c \<le> 90"

definition is_alpha :: "char \<Rightarrow> bool" where
  "is_alpha c \<longleftrightarrow> is_lower c \<or> is_upper c"

definition is_lower_hex :: "char \<Rightarrow> bool" where
  "is_lower_hex c \<longleftrightarrow> is_digit c \<or> 97 \<le> ord c \<and> ord c \<le> 102"

text \<open>\<open>wordByte\<close>: ASCII letters, digits and the underscore (\<open>b | 0x20\<close> folds the case).\<close>

definition word_byte :: "char \<Rightarrow> bool" where
  "word_byte c \<longleftrightarrow> is_alpha c \<or> is_digit c \<or> c = CHR ''_''"

definition lower_byte :: "char \<Rightarrow> char" where
  "lower_byte c = (if is_upper c then char_of (ord c + 32) else c)"

text \<open>Lowercasing of ASCII letters only; bytes from 0x80 are untouched.\<close>

definition ascii_lower :: "string \<Rightarrow> string" where
  "ascii_lower s = map lower_byte s"

lemmas byte_defs = is_digit_def is_lower_def is_upper_def is_alpha_def is_lower_hex_def
  word_byte_def lower_byte_def

lemma length_ascii_lower [simp]: "length (ascii_lower s) = length s"
  by (simp add: ascii_lower_def)

lemma ascii_lower_append: "ascii_lower (s @ t) = ascii_lower s @ ascii_lower t"
  by (simp add: ascii_lower_def)

section \<open>Prefixes, suffixes, search\<close>

fun has_prefix :: "string \<Rightarrow> string \<Rightarrow> bool" where
  "has_prefix s [] = True"
| "has_prefix [] (c # p) = False"
| "has_prefix (a # s) (c # p) = (a = c \<and> has_prefix s p)"

definition has_suffix :: "string \<Rightarrow> string \<Rightarrow> bool" where
  "has_suffix s p = has_prefix (rev s) (rev p)"

fun contains :: "string \<Rightarrow> string \<Rightarrow> bool" where
  "contains [] p = has_prefix [] p"
| "contains (a # s) p = (has_prefix (a # s) p \<or> contains s p)"

text \<open>\<open>strings.Index\<close>: the first offset, or -1 (here \<open>None\<close>).\<close>

fun index_of :: "string \<Rightarrow> string \<Rightarrow> nat option" where
  "index_of [] p = (if has_prefix [] p then Some 0 else None)"
| "index_of (a # s) p = (if has_prefix (a # s) p then Some 0 else map_option Suc (index_of s p))"

lemma has_prefix_iff: "has_prefix s p \<longleftrightarrow> (\<exists>r. s = p @ r)"
  by (induction s p rule: has_prefix.induct) auto

lemma has_prefix_append [simp]: "has_prefix (p @ s) p"
  by (simp add: has_prefix_iff)

lemma has_prefix_take: "has_prefix s p \<longleftrightarrow> take (length p) s = p"
  by (metis append_eq_conv_conj append_take_drop_id has_prefix_iff)

lemma has_prefix_length: "has_prefix s p \<Longrightarrow> length p \<le> length s"
  by (auto simp: has_prefix_iff)

lemma has_suffix_iff: "has_suffix s p \<longleftrightarrow> (\<exists>r. s = r @ p)"
  by (simp add: has_suffix_def has_prefix_iff) (metis rev_append rev_rev_ident)

lemma has_suffix_append [simp]: "has_suffix (s @ p) p"
  by (simp add: has_suffix_iff)

lemma contains_iff: "contains s p \<longleftrightarrow> (\<exists>u v. s = u @ p @ v)"
proof (induction s)
  case (Cons a s)
  show ?case
  proof
    assume "contains (a # s) p"
    then consider "has_prefix (a # s) p" | "contains s p" by auto
    then show "\<exists>u v. a # s = u @ p @ v"
    proof cases
      case 1 then show ?thesis by (metis append_Nil has_prefix_iff)
    next
      case 2 then show ?thesis using Cons by (metis append_Cons)
    qed
  next
    assume "\<exists>u v. a # s = u @ p @ v"
    then obtain u v where uv: "a # s = u @ p @ v" by blast
    show "contains (a # s) p"
    proof (cases u)
      case Nil
      then have "has_prefix (a # s) p" using uv by (auto simp: has_prefix_iff)
      then show ?thesis by simp
    next
      case (Cons b u') then show ?thesis using uv Cons.IH by auto
    qed
  qed
qed (auto simp: has_prefix_iff)

lemma contains_middle [simp]: "contains (u @ p @ v) p"
  by (auto simp: contains_iff)

lemma index_of_Some:
  "index_of s p = Some i \<Longrightarrow> has_prefix (drop i s) p \<and> i \<le> length s \<and> (\<forall>j<i. \<not> has_prefix (drop j s) p)"
proof (induction s arbitrary: i)
  case (Cons a s)
  show ?case
  proof (cases i)
    case 0 then show ?thesis using Cons.prems by (auto split: if_splits)
  next
    case (Suc k)
    with Cons.prems have k: "index_of s p = Some k" and n: "\<not> has_prefix (a # s) p"
      by (auto split: if_splits)
    from Cons.IH [OF k] Suc n show ?thesis by (auto simp: less_Suc_eq_0_disj)
  qed
qed (auto split: if_splits)

section \<open>Split and join\<close>

text \<open>\<open>strings.Split(s, sep)\<close> for a one-byte separator: never empty.\<close>

fun split_on :: "char \<Rightarrow> string \<Rightarrow> string list" where
  "split_on c [] = [[]]"
| "split_on c (x # xs) =
     (if x = c then [] # split_on c xs
      else (case split_on c xs of [] \<Rightarrow> [[x]] | h # t \<Rightarrow> (x # h) # t))"

fun join :: "string \<Rightarrow> string list \<Rightarrow> string" where
  "join sep [] = []"
| "join sep [x] = x"
| "join sep (x # y # zs) = x @ sep @ join sep (y # zs)"

abbreviation NL :: char where "NL \<equiv> CHR 0x0A"
abbreviation CR :: char where "CR \<equiv> CHR 0x0D"
abbreviation TAB :: char where "TAB \<equiv> CHR 0x09"

lemma split_on_not_Nil [simp]: "split_on c s \<noteq> []"
  by (induction s) (auto split: list.splits)

lemma join_split_on: "join [c] (split_on c s) = s"
proof (induction s)
  case (Cons x xs)
  obtain h t where ht: "split_on c xs = h # t" by (cases "split_on c xs") auto
  with Cons show ?case by (cases t) auto
qed simp

lemma split_on_no_sep: "l \<in> set (split_on c s) \<Longrightarrow> c \<notin> set l"
proof (induction s arbitrary: l)
  case (Cons x xs)
  obtain h t where ht: "split_on c xs = h # t" by (cases "split_on c xs") auto
  from Cons.prems ht Cons.IH show ?case by (auto split: if_splits)
qed simp

lemma split_on_single: "c \<notin> set s \<Longrightarrow> split_on c s = [s]"
  by (induction s) auto

lemma split_on_append: "c \<notin> set s \<Longrightarrow> split_on c (s @ c # t) = s # split_on c t"
  by (induction s) auto

lemma split_on_join:
  "xs \<noteq> [] \<Longrightarrow> (\<And>l. l \<in> set xs \<Longrightarrow> c \<notin> set l) \<Longrightarrow> split_on c (join [c] xs) = xs"
  by (induction "[c]" xs rule: join.induct) (auto simp: split_on_single split_on_append)

lemma length_join:
  "length (join sep xs) = (\<Sum>x\<leftarrow>xs. length x) + (length xs - 1) * length sep"
  by (induction sep xs rule: join.induct) auto

lemma join_append:
  "xs \<noteq> [] \<Longrightarrow> ys \<noteq> [] \<Longrightarrow> join sep (xs @ ys) = join sep xs @ sep @ join sep ys"
proof (induction sep xs rule: join.induct)
  case (2 sep x) then show ?case by (cases ys) auto
qed auto

section \<open>Decimal and hexadecimal rendering\<close>

text \<open>\<open>strconv.Itoa\<close> and \<open>%d\<close>.\<close>

definition digit_char :: "nat \<Rightarrow> char" where
  "digit_char d = char_of (48 + d)"

fun utoa :: "nat \<Rightarrow> string" where
  "utoa n = (if n < 10 then [digit_char n] else utoa (n div 10) @ [digit_char (n mod 10)])"

declare utoa.simps [simp del]

definition itoa :: "int \<Rightarrow> string" where
  "itoa i = (if i < 0 then CHR ''-'' # utoa (nat (- i)) else utoa (nat i))"

text \<open>\<open>hex.EncodeToString\<close>: two lowercase hexadecimal digits per byte.\<close>

definition hex_digit :: "nat \<Rightarrow> char" where
  "hex_digit d = (if d < 10 then char_of (48 + d) else char_of (87 + d))"

definition hex_encode :: "string \<Rightarrow> string" where
  "hex_encode s = concat (map (\<lambda>c. [hex_digit (ord c div 16), hex_digit (ord c mod 16)]) s)"

lemma ord_less_256 [simp]: "ord c < 256"
  by (rule nat_of_char_less_256)

lemma ord_digit_char: "d < 10 \<Longrightarrow> ord (digit_char d) = 48 + d"
  by (simp add: digit_char_def)

lemma is_digit_digit_char: "d < 10 \<Longrightarrow> is_digit (digit_char d)"
  by (simp add: is_digit_def ord_digit_char)

lemma is_lower_hex_digit: "d < 16 \<Longrightarrow> is_lower_hex (hex_digit d)"
  by (auto simp: hex_digit_def is_lower_hex_def is_digit_def)

lemma length_hex_encode [simp]: "length (hex_encode s) = 2 * length s"
  by (induction s) (simp_all add: hex_encode_def)

lemma hex_encode_lower: "list_all is_lower_hex (hex_encode s)"
proof (induction s)
  case (Cons c s)
  have "ord c div 16 < 16" using ord_less_256 [of c] by linarith
  then show ?case using Cons by (simp add: hex_encode_def is_lower_hex_digit)
qed (simp add: hex_encode_def)

lemma utoa_digits: "list_all is_digit (utoa n)"
proof (induction n rule: utoa.induct)
  case (1 n)
  then show ?case by (subst utoa.simps) (auto simp: is_digit_digit_char)
qed

lemma utoa_not_Nil [simp]: "utoa n \<noteq> []"
  by (subst utoa.simps) simp

text \<open>Reading the digits back gives the number: rendering is injective.\<close>

definition digits_val :: "string \<Rightarrow> nat" where
  "digits_val s = foldl (\<lambda>a c. 10 * a + (ord c - 48)) 0 s"

lemma digits_val_utoa [simp]: "digits_val (utoa n) = n"
proof (induction n rule: utoa.induct)
  case (1 n)
  show ?case
  proof (cases "n < 10")
    case True then show ?thesis by (subst utoa.simps) (simp add: digits_val_def ord_digit_char)
  next
    case False
    then have "digits_val (utoa n) = 10 * (n div 10) + n mod 10"
      using 1 by (subst utoa.simps) (simp add: digits_val_def ord_digit_char)
    then show ?thesis by simp
  qed
qed

lemma utoa_inject: "utoa m = utoa n \<Longrightarrow> m = n"
  by (metis digits_val_utoa)

end
