(* ===== verification/GoUtf8.thy ===== *)
theory GoUtf8
  imports GoStrings
begin

text \<open>
  The part of Go's \<open>unicode/utf8\<close> that the program uses, over byte strings: \<open>DecodeRune\<close>
  with its table of accepted ranges, \<open>ValidString\<close>, \<open>RuneCount\<close> and the encoding of a rune.
\<close>

section \<open>Decoding\<close>

definition rune_error :: nat where "rune_error = 65533"

text \<open>Is the byte at position \<open>i\<close> within the bounds?\<close>

definition byte_in :: "string \<Rightarrow> nat \<Rightarrow> nat \<Rightarrow> nat \<Rightarrow> bool" where
  "byte_in s i lo hi \<longleftrightarrow> i < length s \<and> lo \<le> ord (s ! i) \<and> ord (s ! i) \<le> hi"

definition cont_bits :: "string \<Rightarrow> nat \<Rightarrow> nat" where
  "cont_bits s i = ord (s ! i) - 128"

text \<open>The range of the second byte for a given first byte (\<open>acceptRanges\<close>).\<close>

definition accept_lo :: "nat \<Rightarrow> nat" where
  "accept_lo b = (if b = 224 then 160 else if b = 240 then 144 else 128)"

definition accept_hi :: "nat \<Rightarrow> nat" where
  "accept_hi b = (if b = 237 then 159 else if b = 244 then 143 else 191)"

text \<open>\<open>DecodeRuneInString\<close>: the rune and its width; an invalid sequence is \<open>(RuneError, 1)\<close>.\<close>

definition decode_rune :: "string \<Rightarrow> nat \<times> nat" where
  "decode_rune s =
     (if s = [] then (rune_error, 0)
      else (let b = ord (s ! 0) in
        if b < 128 then (b, 1)
        else if 194 \<le> b \<and> b < 224 \<and> byte_in s 1 128 191
        then ((b - 192) * 64 + cont_bits s 1, 2)
        else if 224 \<le> b \<and> b < 240 \<and> byte_in s 1 (accept_lo b) (accept_hi b) \<and> byte_in s 2 128 191
        then ((b - 224) * 4096 + cont_bits s 1 * 64 + cont_bits s 2, 3)
        else if 240 \<le> b \<and> b < 245 \<and> byte_in s 1 (accept_lo b) (accept_hi b) \<and> byte_in s 2 128 191 \<and> byte_in s 3 128 191
        then ((b - 240) * 262144 + cont_bits s 1 * 4096 + cont_bits s 2 * 64 + cont_bits s 3, 4)
        else (rune_error, 1)))"

definition rune_width :: "string \<Rightarrow> nat" where "rune_width s = snd (decode_rune s)"

definition rune_invalid :: "string \<Rightarrow> bool" where
  "rune_invalid s \<longleftrightarrow> decode_rune s = (rune_error, 1)"

definition chr :: "nat \<Rightarrow> char" where "chr n = char_of n"

definition encode_rune :: "nat \<Rightarrow> string" where
  "encode_rune r =
     (if r < 128 then [chr r]
      else if r < 2048 then [chr (192 + r div 64), chr (128 + r mod 64)]
      else if r < 65536 then [chr (224 + r div 4096), chr (128 + r div 64 mod 64), chr (128 + r mod 64)]
      else [chr (240 + r div 262144), chr (128 + r div 4096 mod 64), chr (128 + r div 64 mod 64), chr (128 + r mod 64)])"

section \<open>Lemmas\<close>

lemma byte_in_nth: "byte_in s i lo hi \<Longrightarrow> i < length s"
  by (simp add: byte_in_def)

lemma rune_width_pos: "s \<noteq> [] \<Longrightarrow> 1 \<le> rune_width s \<and> rune_width s \<le> 4"
  by (auto simp: rune_width_def decode_rune_def Let_def)

lemma rune_width_length: "rune_width s \<le> length s"
  by (auto simp: rune_width_def decode_rune_def Let_def byte_in_def Suc_le_eq)

lemma ascii_rune: "ord c < 128 \<Longrightarrow> decode_rune (c # s) = (ord c, 1)"
  by (simp add: decode_rune_def)

lemma chr_ord: "chr (ord c) = c"
  by (simp add: chr_def)

lemma ord_chr: "n < 256 \<Longrightarrow> ord (chr n) = n"
  by (simp add: chr_def)

lemma chr_eqI: "n = ord c \<Longrightarrow> chr n = c"
  by (simp add: chr_ord)

lemma take_nth:
  "0 < length s \<Longrightarrow> take (Suc 0) s = [s ! 0]"
  "1 < length s \<Longrightarrow> take 2 s = [s ! 0, s ! 1]"
  "2 < length s \<Longrightarrow> take 3 s = [s ! 0, s ! 1, s ! 2]"
  "3 < length s \<Longrightarrow> take 4 s = [s ! 0, s ! 1, s ! 2, s ! 3]"
  by (cases s; simp; cases "tl s"; simp; cases "tl (tl s)"; simp; cases "tl (tl (tl s))"; simp)+

text \<open>A valid sequence is the encoding of its rune.\<close>

lemma split64:
  assumes "b < 64"
  shows "(a * 64 + b) div 64 = (a :: nat)" and "(a * 64 + b) mod 64 = b"
  using assms by simp_all

lemma encode_decode2:
  assumes "194 \<le> ord c" "ord c < 224" "128 \<le> ord d" "ord d \<le> 191"
  shows "encode_rune ((ord c - 192) * 64 + (ord d - 128)) = [c, d]"
proof -
  obtain a b where ab: "ord c = 192 + a" "ord d = 128 + b" using assms using order_trans [of 192 194 "ord c"] by (auto simp: le_iff_add)
  then have "b < 64" "2 \<le> a" "a < 32" using assms by simp_all
  then show ?thesis using ab by (simp add: encode_rune_def split64 chr_eqI)
qed

lemma encode_decode3:
  assumes "224 \<le> ord c" "ord c < 240" "accept_lo (ord c) \<le> ord d" "ord d \<le> accept_hi (ord c)" "128 \<le> ord e" "ord e \<le> 191"
  shows "encode_rune ((ord c - 224) * 4096 + (ord d - 128) * 64 + (ord e - 128)) = [c, d, e]"
proof -
  have d: "128 \<le> ord d" "ord d \<le> 191" using assms(3,4) by (auto simp: accept_lo_def accept_hi_def split: if_splits)
  obtain a b x where ab: "ord c = 224 + a" "ord d = 128 + b" "ord e = 128 + x"
    using assms d by (meson le_iff_add)
  have lt: "b < 64" "x < 64" "a < 16" "a = 0 \<longrightarrow> 32 \<le> b" using assms ab d by (auto simp: accept_lo_def)
  let ?r = "a * 4096 + b * 64 + x"
  have q: "?r = (a * 64 + b) * 64 + x" by simp
  have "?r div 64 = a * 64 + b" "?r mod 64 = x" unfolding q using lt split64 by blast+
  moreover have "(a * 64 + b) mod 64 = b" using lt split64 by blast
  moreover have "?r div 4096 = a" using lt by simp
  moreover have "2048 \<le> ?r" "?r < 65536" using lt by (cases "a = 0", simp_all)
  ultimately show ?thesis using ab by (simp add: encode_rune_def chr_eqI)
qed

lemma encode_decode4:
  assumes "240 \<le> ord c" "ord c < 245" "accept_lo (ord c) \<le> ord d" "ord d \<le> accept_hi (ord c)"
    "128 \<le> ord e" "ord e \<le> 191" "128 \<le> ord f" "ord f \<le> 191"
  shows "encode_rune ((ord c - 240) * 262144 + (ord d - 128) * 4096 + (ord e - 128) * 64 + (ord f - 128)) = [c, d, e, f]"
proof -
  have d: "128 \<le> ord d" "ord d \<le> 191" using assms(3,4) by (auto simp: accept_lo_def accept_hi_def split: if_splits)
  obtain a b x y where ab: "ord c = 240 + a" "ord d = 128 + b" "ord e = 128 + x" "ord f = 128 + y"
    using assms d by (meson le_iff_add)
  have lt: "b < 64" "x < 64" "y < 64" "a < 5" "a = 0 \<longrightarrow> 16 \<le> b" using assms ab d by (auto simp: accept_lo_def)
  let ?r = "a * 262144 + b * 4096 + x * 64 + y"
  have q: "?r = (a * 4096 + b * 64 + x) * 64 + y" by simp
  have "?r div 64 = a * 4096 + b * 64 + x" "?r mod 64 = y" unfolding q using lt split64 by blast+
  moreover have "(a * 4096 + b * 64 + x) = (a * 64 + b) * 64 + x" by simp
  then have "(a * 4096 + b * 64 + x) mod 64 = x" using lt split64 by metis
  moreover have q2: "?r div 4096 = a * 64 + b" using lt by simp
  moreover have "(a * 64 + b) mod 64 = b" using lt split64 by blast
  moreover have "?r div 262144 = a" using lt by simp
  moreover have "65536 \<le> ?r" using lt by (cases "a = 0", simp_all)
  ultimately show ?thesis using ab by (simp add: encode_rune_def chr_eqI)
qed

lemma decode_cases:
  assumes "s \<noteq> []" and "\<not> rune_invalid s"
  defines "b \<equiv> ord (s ! 0)"
  obtains (one) "b < 128" "decode_rune s = (b, 1)"
    | (two) "194 \<le> b" "b < 224" "byte_in s 1 128 191" "decode_rune s = ((b - 192) * 64 + cont_bits s 1, 2)"
    | (three) "224 \<le> b" "b < 240" "byte_in s 1 (accept_lo b) (accept_hi b)" "byte_in s 2 128 191"
        "decode_rune s = ((b - 224) * 4096 + cont_bits s 1 * 64 + cont_bits s 2, 3)"
    | (four) "240 \<le> b" "b < 245" "byte_in s 1 (accept_lo b) (accept_hi b)" "byte_in s 2 128 191" "byte_in s 3 128 191"
        "decode_rune s = ((b - 240) * 262144 + cont_bits s 1 * 4096 + cont_bits s 2 * 64 + cont_bits s 3, 4)"
proof -
  have "(b < 128 \<and> decode_rune s = (b, 1))
    \<or> (194 \<le> b \<and> b < 224 \<and> byte_in s 1 128 191 \<and> decode_rune s = ((b - 192) * 64 + cont_bits s 1, 2))
    \<or> (224 \<le> b \<and> b < 240 \<and> byte_in s 1 (accept_lo b) (accept_hi b) \<and> byte_in s 2 128 191
        \<and> decode_rune s = ((b - 224) * 4096 + cont_bits s 1 * 64 + cont_bits s 2, 3))
    \<or> (240 \<le> b \<and> b < 245 \<and> byte_in s 1 (accept_lo b) (accept_hi b) \<and> byte_in s 2 128 191 \<and> byte_in s 3 128 191
        \<and> decode_rune s = ((b - 240) * 262144 + cont_bits s 1 * 4096 + cont_bits s 2 * 64 + cont_bits s 3, 4))"
    using assms by (auto simp: rune_invalid_def decode_rune_def Let_def split: if_splits)
  then show ?thesis using that by blast
qed

lemma encode_rune_decode:
  assumes "s \<noteq> []" and "\<not> rune_invalid s"
  shows "encode_rune (fst (decode_rune s)) = take (rune_width s) s"
  using assms
proof (cases rule: decode_cases)
    case one
    then show ?thesis using assms(1) by (simp add: rune_width_def encode_rune_def chr_ord take_nth)
  next
    case two
    then show ?thesis using encode_decode2 [of "s ! 0" "s ! 1"]
      by (simp only: rune_width_def cont_bits_def byte_in_def fst_conv snd_conv take_nth)
  next
    case three
    then show ?thesis using encode_decode3 [of "s ! 0" "s ! 1" "s ! 2"]
      by (simp only: rune_width_def cont_bits_def byte_in_def fst_conv snd_conv take_nth)
  next
    case four
    then show ?thesis using encode_decode4 [of "s ! 0" "s ! 1" "s ! 2" "s ! 3"]
      by (simp only: rune_width_def cont_bits_def byte_in_def fst_conv snd_conv take_nth)
qed

text \<open>A valid sequence decodes alike whatever follows it.\<close>

lemma decode_rune_append:
  assumes "s \<noteq> []" and "\<not> rune_invalid s"
  shows "decode_rune (take (rune_width s) s @ t) = decode_rune s"
  using assms
proof (cases rule: decode_cases)
  case one
  then show ?thesis using assms(1) by (simp add: rune_width_def take_nth decode_rune_def)
next
  case two
  then have "take (rune_width s) s = [s ! 0, s ! 1]" by (simp only: rune_width_def byte_in_def take_nth snd_conv)
  then show ?thesis using two
    by (simp only: two(4)) (simp add: decode_rune_def byte_in_def cont_bits_def)
next
  case three
  then have "take (rune_width s) s = [s ! 0, s ! 1, s ! 2]" by (simp only: rune_width_def byte_in_def take_nth snd_conv)
  then show ?thesis using three
    by (simp only: three(5)) (simp add: decode_rune_def byte_in_def cont_bits_def)
next
  case four
  then have "take (rune_width s) s = [s ! 0, s ! 1, s ! 2, s ! 3]" by (simp only: rune_width_def byte_in_def take_nth snd_conv)
  then show ?thesis using four
    by (simp only: four(6)) (simp add: decode_rune_def byte_in_def cont_bits_def)
qed

text \<open>The bytes of a sequence of several bytes are above the ASCII range.\<close>

lemma multibyte_high:
  assumes "s \<noteq> []" and "\<not> ord (s ! 0) < 128" and "c \<in> set (take (rune_width s) s)"
  shows "128 \<le> ord c"
  using assms
  by (auto simp: rune_width_def decode_rune_def Let_def byte_in_def take_nth accept_lo_def split: if_splits)

lemma invalid_high: "rune_invalid s \<Longrightarrow> s \<noteq> [] \<and> \<not> ord (s ! 0) < 128"
  by (auto simp: rune_invalid_def decode_rune_def rune_error_def Let_def split: if_splits)

section \<open>Runes of a string\<close>

text \<open>\<open>range\<close> over a string: the runes, an invalid byte being \<open>RuneError\<close>.\<close>

function runes :: "string \<Rightarrow> nat list" where
  "runes [] = []"
| "runes (c # s) = fst (decode_rune (c # s)) # runes (drop (rune_width (c # s) - 1) s)"
  by pat_completeness auto
termination by (relation "measure length") auto

definition rune_count :: "string \<Rightarrow> nat" where "rune_count s = length (runes s)"

function valid_utf8 :: "string \<Rightarrow> bool" where
  "valid_utf8 [] = True"
| "valid_utf8 (c # s) = (\<not> rune_invalid (c # s) \<and> valid_utf8 (drop (rune_width (c # s) - 1) s))"
  by pat_completeness auto
termination by (relation "measure length") auto

text \<open>Conversion through runes: every invalid byte becomes U+FFFD.\<close>

definition to_valid :: "string \<Rightarrow> string" where
  "to_valid s = concat (map encode_rune (runes s))"

lemma take_width_Cons: "take (rune_width (c # s)) (c # s) @ drop (rune_width (c # s) - 1) s = c # s"
proof -
  have "rune_width (c # s) = Suc (rune_width (c # s) - 1)" using rune_width_pos [of "c # s"] by simp
  then show ?thesis by (metis append_take_drop_id drop_Suc_Cons)
qed

lemma to_valid_id: "valid_utf8 s \<Longrightarrow> to_valid s = s"
proof (induction s rule: valid_utf8.induct)
  case (2 c s)
  then show ?case
    using encode_rune_decode [of "c # s"] take_width_Cons [of c s] by (simp add: to_valid_def)
qed (simp add: to_valid_def)

section \<open>Encoded runes are valid\<close>

definition scalar :: "nat \<Rightarrow> bool" where
  "scalar r \<longleftrightarrow> r < 55296 \<or> 57344 \<le> r \<and> r < 1114112"

lemma ord_chr_lt [simp]: "n < 256 \<Longrightarrow> ord (chr n) = n"
  by (simp add: ord_chr)

lemma decode_encode_rune:
  assumes "scalar r"
  shows "decode_rune (encode_rune r @ s) = (r, length (encode_rune r))"
proof -
  consider (a) "r < 128" | (b) "128 \<le> r" "r < 2048" | (c) "2048 \<le> r" "r < 65536" | (d) "65536 \<le> r" "r < 1114112"
    using assms by (auto simp: scalar_def) linarith+
  then show ?thesis
  proof cases
    case a then show ?thesis by (simp add: encode_rune_def decode_rune_def)
  next
    case b
    have "2 \<le> r div 64" "r div 64 < 32" using b by auto
    moreover have "r mod 64 < 64" by simp
    ultimately show ?thesis using b
      by (simp add: encode_rune_def decode_rune_def byte_in_def cont_bits_def Let_def)
  next
    case c
    define x where "x = r div 4096"
    define y where "y = r div 64 mod 64"
    define z where "z = r mod 64"
    have "r div 64 div 64 = r div 4096" by (simp flip: div_mult2_eq)
    then have "r div 64 = x * 64 + y" "r = r div 64 * 64 + z"
      using div_mult_mod_eq [of "r div 64" 64] div_mult_mod_eq [of r 64] unfolding x_def y_def z_def by metis+
    then have r: "r = x * 4096 + y * 64 + z" by linarith
    have lt: "x < 16" "y < 64" "z < 64" using c by (auto simp: x_def y_def z_def)
    have lo: "x = 0 \<Longrightarrow> 32 \<le> y" using c lt r by simp
    have hi: "x = 13 \<Longrightarrow> y < 32" using assms c lt r by (auto simp: scalar_def)
    have e: "encode_rune r = [chr (224 + x), chr (128 + y), chr (128 + z)]"
      using c by (simp add: encode_rune_def x_def y_def z_def)
    show ?thesis
      unfolding e using lt lo hi
      by (auto simp: decode_rune_def byte_in_def cont_bits_def accept_lo_def accept_hi_def r Let_def)
  next
    case d
    define w where "w = r div 262144"
    define x where "x = r div 4096 mod 64"
    define y where "y = r div 64 mod 64"
    define z where "z = r mod 64"
    have "r div 64 div 64 = r div 4096" "r div 4096 div 64 = r div 262144" by (simp_all flip: div_mult2_eq)
    then have "r div 4096 = w * 64 + x" "r div 64 = r div 4096 * 64 + y" "r = r div 64 * 64 + z"
      using div_mult_mod_eq [of r 64] div_mult_mod_eq [of "r div 64" 64] div_mult_mod_eq [of "r div 4096" 64]
      unfolding w_def x_def y_def z_def by metis+
    then have r: "r = w * 262144 + x * 4096 + y * 64 + z" by linarith
    have lt: "w < 5" "x < 64" "y < 64" "z < 64" using d by (auto simp: w_def x_def y_def z_def)
    have lo: "w = 0 \<Longrightarrow> 16 \<le> x" using d lt r by simp
    have hi: "w = 4 \<Longrightarrow> x < 16" using d lt r by simp
    have e: "encode_rune r = [chr (240 + w), chr (128 + x), chr (128 + y), chr (128 + z)]"
      using d by (simp add: encode_rune_def w_def x_def y_def z_def)
    show ?thesis
      unfolding e using lt lo hi
      by (auto simp: decode_rune_def byte_in_def cont_bits_def accept_lo_def accept_hi_def r Let_def)
  qed
qed

lemma encode_rune_not_Nil [simp]: "encode_rune r \<noteq> []"
  by (simp add: encode_rune_def)

lemma valid_encode_rune:
  assumes "scalar r" shows "valid_utf8 (encode_rune r @ s) = valid_utf8 s"
proof -
  obtain c u where cu: "encode_rune r = c # u" by (cases "encode_rune r") auto
  have d: "decode_rune (c # u @ s) = (r, Suc (length u))" using decode_encode_rune [OF assms, of s] cu by simp
  have "\<not> rune_invalid (c # u @ s)"
  proof
    assume "rune_invalid (c # u @ s)"
    then have "r = rune_error" "length u = 0" using d by (simp_all add: rune_invalid_def)
    then show False using cu by (simp add: encode_rune_def rune_error_def)
  qed
  then show ?thesis using d by (simp add: cu rune_width_def)
qed

lemma decode_rune_scalar:
  assumes "s \<noteq> []" shows "scalar (fst (decode_rune s))"
proof (cases "rune_invalid s")
  case True
  then show ?thesis by (simp add: rune_invalid_def scalar_def rune_error_def)
next
  case False
  with assms show ?thesis
  proof (cases rule: decode_cases)
    case one
    then show ?thesis by (simp add: scalar_def)
  next
    case two
    then have "ord (s ! 0) - 192 \<le> 31" "cont_bits s 1 \<le> 63" by (auto simp: cont_bits_def byte_in_def)
    then show ?thesis by (simp add: two(4) scalar_def)
  next
    case three
    let ?a = "ord (s ! 0) - 224" and ?b = "cont_bits s 1" and ?c = "cont_bits s 2"
    have le: "?b \<le> 63" "?c \<le> 63" "?a = 13 \<longrightarrow> ?b \<le> 31" "?a \<le> 15"
      using three by (auto simp: byte_in_def accept_hi_def cont_bits_def split: if_splits)
    consider "?a \<le> 12" | "?a = 13" | "14 \<le> ?a" by linarith
    then have "scalar (?a * 4096 + ?b * 64 + ?c)"
      by cases (use le in \<open>simp_all add: scalar_def\<close>)
    then show ?thesis by (simp only: three(5) fst_conv)
  next
    case four
    let ?a = "ord (s ! 0) - 240" and ?b = "cont_bits s 1" and ?c = "cont_bits s 2" and ?d = "cont_bits s 3"
    have le: "?b \<le> 63" "?c \<le> 63" "?d \<le> 63" "?a = 4 \<longrightarrow> ?b \<le> 15" "?a = 0 \<longrightarrow> 16 \<le> ?b" "?a \<le> 4"
      using four by (auto simp: byte_in_def accept_hi_def accept_lo_def cont_bits_def split: if_splits)
    consider "?a = 0" | "1 \<le> ?a" "?a \<le> 3" | "?a = 4" using le(6) by linarith
    then have "scalar (?a * 262144 + ?b * 4096 + ?c * 64 + ?d)"
      by cases (use le in \<open>simp_all add: scalar_def\<close>)
    then show ?thesis by (simp only: four(6) fst_conv)
  qed
qed

lemma valid_ascii: "ord c < 128 \<Longrightarrow> valid_utf8 (c # s) = valid_utf8 s"
  using valid_encode_rune [of "ord c" s] by (simp add: scalar_def encode_rune_def chr_ord)

end
