(* ===== verification/JsonString.thy ===== *)
theory JsonString
  imports GoUtf8
begin

text \<open>
  \<open>encodeJSONString\<close> of \<open>internal/livezone/splice.go\<close>: the JSON string literal that is spliced
  into the body, as \<open>encoding/json\<close> writes it with HTML escaping off, and \<open>encoding/json\<close>'s
  reader of string literals, that it is proved against.
\<close>

section \<open>Model\<close>

text \<open>One ASCII byte (\<open>safeSet\<close> leaves it alone, or one of the escapes).\<close>

definition esc_ascii :: "char \<Rightarrow> string" where
  "esc_ascii c =
     (if c = CHR 0x5C \<or> c = CHR 0x22 then [CHR 0x5C, c]
      else if 32 \<le> ord c then [c]
      else if ord c = 8 then [CHR 0x5C, CHR ''b'']
      else if ord c = 12 then [CHR 0x5C, CHR ''f'']
      else if ord c = 10 then [CHR 0x5C, CHR ''n'']
      else if ord c = 13 then [CHR 0x5C, CHR ''r'']
      else if ord c = 9 then [CHR 0x5C, CHR ''t'']
      else [CHR 0x5C, CHR ''u'', CHR ''0'', CHR ''0'', hex_digit (ord c div 16), hex_digit (ord c mod 16)])"

function append_string :: "string \<Rightarrow> string" where
  "append_string [] = []"
| "append_string (c # s) =
     (if ord c < 128 then esc_ascii c @ append_string s
      else if rune_invalid (c # s) then [CHR 0x5C] @ ''ufffd'' @ append_string s
      else if fst (decode_rune (c # s)) = 8232 \<or> fst (decode_rune (c # s)) = 8233
      then [CHR 0x5C] @ ''u202'' @ [hex_digit (fst (decode_rune (c # s)) mod 16)]
             @ append_string (drop (rune_width (c # s) - 1) s)
      else take (rune_width (c # s)) (c # s) @ append_string (drop (rune_width (c # s) - 1) s))"
  by pat_completeness auto
termination by (relation "measure length") auto

definition encode_json_string :: "string \<Rightarrow> string" where
  "encode_json_string s = CHR 0x22 # append_string s @ [CHR 0x22]"

section \<open>Reading JSON strings\<close>

text \<open>
  The string half of \<open>encoding/json\<close>'s decoder: the scanner's checks (control bytes, known
  escapes, four hexadecimal digits) and \<open>unquote\<close> (surrogate pairs, and U+FFFD for a lone
  surrogate or an invalid byte).
\<close>

definition hex_val :: "char \<Rightarrow> nat option" where
  "hex_val c = (if is_digit c then Some (ord c - 48)
     else if 97 \<le> ord c \<and> ord c \<le> 102 then Some (ord c - 87)
     else if 65 \<le> ord c \<and> ord c \<le> 70 then Some (ord c - 55) else None)"

definition hex4 :: "char \<Rightarrow> char \<Rightarrow> char \<Rightarrow> char \<Rightarrow> nat option" where
  "hex4 a b c d = (case (hex_val a, hex_val b, hex_val c, hex_val d) of
       (Some w, Some x, Some y, Some z) \<Rightarrow> Some (((w * 16 + x) * 16 + y) * 16 + z) | _ \<Rightarrow> None)"

definition read_escape :: "char \<Rightarrow> char option" where
  "read_escape c = map_of [(CHR 0x22, CHR 0x22), (CHR 0x5C, CHR 0x5C), (CHR ''/'', CHR ''/''), (CHR ''b'', chr 8),
      (CHR ''f'', chr 12), (CHR ''n'', chr 10), (CHR ''r'', chr 13), (CHR ''t'', chr 9)] c"

definition adds :: "string \<Rightarrow> (string \<times> string) option \<Rightarrow> (string \<times> string) option" where
  "adds t r = (case r of None \<Rightarrow> None | Some (u, q) \<Rightarrow> Some (t @ u, q))"

definition is_surrogate :: "nat \<Rightarrow> bool" where
  "is_surrogate r \<longleftrightarrow> 55296 \<le> r \<and> r < 57344"

text \<open>\<open>utf16.DecodeRune\<close> of a surrogate and the escape that follows it, if they are a pair.\<close>

definition surrogate_pair :: "nat \<Rightarrow> string \<Rightarrow> nat option" where
  "surrogate_pair r s =
     (case s of
        b # u # w # x # y # z # rest \<Rightarrow>
          if b = CHR 0x5C \<and> u = CHR ''u'' then
            (case hex4 w x y z of
               None \<Rightarrow> None
             | Some r2 \<Rightarrow> if r < 56320 \<and> 56320 \<le> r2 \<and> r2 < 57344
                           then Some ((r - 55296) * 1024 + (r2 - 56320) + 65536) else None)
          else None
      | _ \<Rightarrow> None)"

function read_chars :: "string \<Rightarrow> (string \<times> string) option" where
  "read_chars [] = None"
| "read_chars (c # s) =
     (if c = CHR 0x22 then Some ([], s)
      else if c = CHR 0x5C then
        (case s of
           [] \<Rightarrow> None
         | e # rest \<Rightarrow>
             if e = CHR ''u'' then
               (case rest of
                  w # x # y # z # rest' \<Rightarrow>
                    (case hex4 w x y z of
                       None \<Rightarrow> None
                     | Some r \<Rightarrow>
                         if is_surrogate r then
                           (case surrogate_pair r rest' of
                              Some d \<Rightarrow> adds (encode_rune d) (read_chars (drop 6 rest'))
                            | None \<Rightarrow> adds (encode_rune rune_error) (read_chars rest'))
                         else adds (encode_rune r) (read_chars rest'))
                | _ \<Rightarrow> None)
             else (case read_escape e of None \<Rightarrow> None | Some d \<Rightarrow> adds [d] (read_chars rest)))
      else if ord c < 32 then None
      else if ord c < 128 then adds [c] (read_chars s)
      else adds (encode_rune (fst (decode_rune (c # s)))) (read_chars (drop (rune_width (c # s) - 1) s)))"
  by pat_completeness auto
termination by (relation "measure length") auto

definition read_json_string :: "string \<Rightarrow> (string \<times> string) option" where
  "read_json_string s = (case s of c # t \<Rightarrow> if c = CHR 0x22 then read_chars t else None | [] \<Rightarrow> None)"

section \<open>Lemmas\<close>

lemma adds_Some [simp]: "adds t (Some (u, q)) = Some (t @ u, q)"
  by (simp add: adds_def)

lemma adds_Nil [simp]: "adds [] r = r"
  by (auto simp: adds_def split: option.splits)

lemma adds_adds [simp]: "adds t (adds u r) = adds (t @ u) r"
  by (auto simp: adds_def split: option.splits)

lemma read_plain: "c \<noteq> CHR 0x22 \<Longrightarrow> c \<noteq> CHR 0x5C \<Longrightarrow> 32 \<le> ord c \<Longrightarrow> ord c < 128
    \<Longrightarrow> read_chars (c # s) = adds [c] (read_chars s)"
  by simp

lemma read_rune:
  assumes "s \<noteq> []" and "\<not> ord (s ! 0) < 128" and "\<not> rune_invalid s"
  shows "read_chars (take (rune_width s) s @ t) = adds (take (rune_width s) s) (read_chars t)"
proof -
  let ?u = "take (rune_width s) s"
  have len: "length ?u = rune_width s" "0 < rune_width s"
    using rune_width_length [of s] rune_width_pos [OF assms(1)] by auto
  then obtain c u where u: "?u = c # u" by (cases ?u) auto
  have "c = s ! 0" using u len by (metis nth_Cons_0 nth_take)
  then have c: "\<not> ord c < 128" "c \<noteq> CHR 0x22" "c \<noteq> CHR 0x5C" "\<not> ord c < 32" using assms(2) by auto
  have d: "decode_rune (c # u @ t) = decode_rune s" using decode_rune_append [OF assms(1,3), of t] u by simp
  have "length (c # u) = rune_width s" using len(1) u by simp
  then have w: "rune_width (c # u @ t) = Suc (length u)" using d by (simp add: rune_width_def)
  have "encode_rune (fst (decode_rune (c # u @ t))) = c # u"
    using encode_rune_decode [OF assms(1,3)] d u by simp
  then show ?thesis using c w by (simp add: u)
qed

lemma hex_val_digit: "n < 16 \<Longrightarrow> hex_val (hex_digit n) = Some n"
  by (auto simp: hex_val_def hex_digit_def is_digit_def)

lemma read_u:
  "hex4 w x y z = Some r \<Longrightarrow> \<not> is_surrogate r
     \<Longrightarrow> read_chars (CHR 0x5C # CHR ''u'' # w # x # y # z # s) = adds (encode_rune r) (read_chars s)"
  by auto

lemma read_esc:
  "read_escape e = Some d \<Longrightarrow> read_chars (CHR 0x5C # e # s) = adds [d] (read_chars s)"
  by (auto simp: read_escape_def split: if_splits)

lemma esc_ascii_read:
  assumes "ord c < 128"
  shows "read_chars (esc_ascii c @ s) = adds [c] (read_chars s)"
proof -
  consider "c = CHR 0x5C" | "c = CHR 0x22" | "c \<noteq> CHR 0x5C" "c \<noteq> CHR 0x22" "32 \<le> ord c"
    | (ctl) "ord c < 32" by linarith
  then show ?thesis
  proof cases
    case ctl
    then have q: "c \<noteq> CHR 0x22" "c \<noteq> CHR 0x5C" by auto
    have c: "c = chr (ord c)" by (simp add: chr_ord)
    have u: "hex4 (CHR ''0'') (CHR ''0'') (hex_digit (ord c div 16)) (hex_digit (ord c mod 16)) = Some (ord c)"
      using ctl hex_val_digit [of "ord c div 16"] hex_val_digit [of "ord c mod 16"]
      by (simp add: hex4_def) (simp add: hex_val_def is_digit_def)
    have er: "encode_rune (ord c) = [c]" using ctl by (simp add: encode_rune_def chr_ord)
    show ?thesis
    proof (cases "ord c \<in> {8, 12, 10, 13, 9}")
      case True
      then obtain e where "esc_ascii c = [CHR 0x5C, e]" "read_escape e = Some c"
        using q c by (auto simp: esc_ascii_def read_escape_def)
      then show ?thesis by (simp add: read_esc del: read_chars.simps)
    next
      case False
      then have "esc_ascii c = [CHR 0x5C, CHR ''u'', CHR ''0'', CHR ''0'', hex_digit (ord c div 16), hex_digit (ord c mod 16)]"
        using q ctl by (auto simp: esc_ascii_def)
      then show ?thesis using read_u [OF u, of s] ctl er by (simp add: is_surrogate_def del: read_chars.simps)
    qed
  qed (use assms in \<open>simp_all add: esc_ascii_def read_plain read_esc read_escape_def del: read_chars.simps\<close>)
qed

lemma to_valid_Cons:
  "to_valid (c # s) = encode_rune (fst (decode_rune (c # s))) @ to_valid (drop (rune_width (c # s) - 1) s)"
  by (simp add: to_valid_def)

lemma read_append_string:
  "read_chars (append_string s @ CHR 0x22 # t) = Some (to_valid s, t)"
proof (induction s rule: append_string.induct)
  case 1 then show ?case by (simp add: to_valid_def)
next
  case (2 c s)
  let ?r = "fst (decode_rune (c # s))" and ?w = "rune_width (c # s)"
  consider (ascii) "ord c < 128" | (inv) "\<not> ord c < 128" "rune_invalid (c # s)"
    | (sep) "\<not> ord c < 128" "\<not> rune_invalid (c # s)" "?r = 8232 \<or> ?r = 8233"
    | (raw) "\<not> ord c < 128" "\<not> rune_invalid (c # s)" "\<not> (?r = 8232 \<or> ?r = 8233)" by blast
  then show ?case
  proof cases
    case ascii
    then have "to_valid (c # s) = c # to_valid s"
      by (simp add: to_valid_Cons ascii_rune rune_width_def encode_rune_def chr_ord)
    then show ?thesis using ascii 2(1) esc_ascii_read [OF ascii] by (simp del: read_chars.simps)
  next
    case inv
    have h: "hex4 (CHR ''f'') (CHR ''f'') (CHR ''f'') (CHR ''d'') = Some rune_error"
      by (simp add: hex4_def hex_val_def is_digit_def rune_error_def)
    have "to_valid (c # s) = encode_rune rune_error @ to_valid s"
      using inv by (simp add: to_valid_Cons rune_invalid_def rune_width_def)
    then show ?thesis using inv 2(2) read_u [OF h]
      by (simp add: rune_error_def is_surrogate_def del: read_chars.simps)
  next
    case sep
    have "hex4 (CHR ''2'') (CHR ''0'') (CHR ''2'') (hex_digit (n mod 16)) = Some n" if "n = 8232 \<or> n = 8233" for n
      using that by (auto simp: hex4_def hex_val_def is_digit_def hex_digit_def)
    then have h: "hex4 (CHR ''2'') (CHR ''0'') (CHR ''2'') (hex_digit (?r mod 16)) = Some ?r" using sep(3) by blast
    then show ?thesis using sep 2(3) [OF sep] read_u [OF h]
      by (auto simp: to_valid_Cons is_surrogate_def simp del: read_chars.simps)
  next
    case raw
    have "to_valid (c # s) = take ?w (c # s) @ to_valid (drop (?w - 1) s)"
      using raw(2) encode_rune_decode [of "c # s"] by (simp add: to_valid_Cons)
    then show ?thesis using raw 2(4) [OF raw] read_rune [of "c # s"]
      by (simp del: read_chars.simps)
  qed
qed

section \<open>Properties\<close>

text \<open>The encoder writes one complete JSON string literal: a JSON reader consumes exactly it,
  whatever follows, and returns the text with every invalid UTF-8 byte replaced by U+FFFD; a valid
  UTF-8 text is returned unchanged.\<close>

theorem encode_json_string_roundtrip:
  "read_json_string (encode_json_string s @ rest) = Some (to_valid s, rest) \<and> (valid_utf8 s \<longrightarrow> to_valid s = s)"
  by (simp add: read_json_string_def encode_json_string_def read_append_string to_valid_id del: read_chars.simps)

theorem encode_json_string_roundtrip_witness:
  "read_json_string (encode_json_string [CHR ''a'', CHR 0x22, CHR 0x0A, CHR 0xC3, CHR 0xA9] @ '', 1'')
     = Some ([CHR ''a'', CHR 0x22, CHR 0x0A, CHR 0xC3, CHR 0xA9], '', 1'')"
proof -
  have "valid_utf8 [CHR ''a'', CHR 0x22, CHR 0x0A, CHR 0xC3, CHR 0xA9]"
    by (simp add: rune_invalid_def rune_width_def decode_rune_def byte_in_def rune_error_def cont_bits_def)
  then show ?thesis using encode_json_string_roundtrip by simp
qed

end
