(* ===== verification/GoJson.thy ===== *)
theory GoJson
  imports JsonString "HOL-Library.AList"
begin

text \<open>
  \<open>encoding/json\<close> as the program uses it: decoding into generic values with \<open>UseNumber\<close> (a number
  keeps its literal), and the two encoders. An object is an association list with distinct keys in
  insertion order: \<open>orderedmap\<close> keeps that order, and a Go map is written in sorted key order.
\<close>

datatype json =
    JNull
  | JBool bool
  | JNum string
  | JStr string
  | JArr "json list"
  | JObj "(string \<times> json) list"

section \<open>Numbers and white space\<close>

definition is_json_space :: "char \<Rightarrow> bool" where
  "is_json_space c \<longleftrightarrow> c = CHR '' '' \<or> c = TAB \<or> c = CR \<or> c = NL"

definition skip_ws :: "string \<Rightarrow> string" where "skip_ws = dropWhile is_json_space"

definition take_digits :: "string \<Rightarrow> string" where "take_digits = takeWhile is_digit"

text \<open>The scanner's number states: \<open>-? (0 | [1-9][0-9]*) (\. [0-9]+)? ([eE] [+-]? [0-9]+)?\<close>.\<close>

definition scan_int :: "string \<Rightarrow> string option" where
  "scan_int s = (case s of
       [] \<Rightarrow> None
     | c # t \<Rightarrow> if c = CHR ''0'' then Some [c] else if is_digit c then Some (take_digits s) else None)"

definition scan_frac :: "string \<Rightarrow> string option" where
  "scan_frac s = (case s of
       c # t \<Rightarrow> if c = CHR ''.'' then (if take_digits t = [] then None else Some (c # take_digits t)) else Some []
     | [] \<Rightarrow> Some [])"

definition scan_exp :: "string \<Rightarrow> string option" where
  "scan_exp s = (case s of
       c # t \<Rightarrow>
         if c = CHR ''e'' \<or> c = CHR ''E'' then
           (let sign = (case t of d # _ \<Rightarrow> if d = CHR ''+'' \<or> d = CHR ''-'' then [d] else [] | [] \<Rightarrow> []);
                ds = take_digits (drop (length sign) t)
            in if ds = [] then None else Some (c # sign @ ds))
         else Some []
     | [] \<Rightarrow> Some [])"

definition scan_number :: "string \<Rightarrow> string option" where
  "scan_number s =
     (let m = (case s of c # _ \<Rightarrow> if c = CHR ''-'' then [c] else [] | [] \<Rightarrow> []); s1 = drop (length m) s
      in case scan_int s1 of
           None \<Rightarrow> None
         | Some i \<Rightarrow>
             (case scan_frac (drop (length i) s1) of
                None \<Rightarrow> None
              | Some f \<Rightarrow>
                  (case scan_exp (drop (length i + length f) s1) of
                     None \<Rightarrow> None
                   | Some e \<Rightarrow> Some (m @ i @ f @ e))))"

section \<open>Decoding\<close>

text \<open>\<open>om.Set(key, val)\<close>, and assignment to a Go map: a known key keeps its place.\<close>

abbreviation set_member :: "string \<Rightarrow> json \<Rightarrow> (string \<times> json) list \<Rightarrow> (string \<times> json) list" where
  "set_member \<equiv> AList.update"

text \<open>
  \<open>d\<close> bounds the nesting that is still allowed (the scanner's \<open>maxNestingDepth\<close>). The first
  argument is fuel: every call uses one unit and every second call consumes a byte.
\<close>

fun parse_value :: "nat \<Rightarrow> nat \<Rightarrow> string \<Rightarrow> (json \<times> string) option"
  and parse_elems :: "nat \<Rightarrow> nat \<Rightarrow> json list \<Rightarrow> string \<Rightarrow> (json \<times> string) option"
  and parse_members :: "nat \<Rightarrow> nat \<Rightarrow> (string \<times> json) list \<Rightarrow> string \<Rightarrow> (json \<times> string) option" where
  "parse_value 0 d s = None"
| "parse_value (Suc n) d s =
     (case skip_ws s of
        [] \<Rightarrow> None
      | c # t \<Rightarrow>
          if c = CHR ''{'' then
            (if d = 0 then None
             else if has_prefix (skip_ws t) ''}'' then Some (JObj [], drop 1 (skip_ws t))
             else parse_members n (d - 1) [] t)
          else if c = CHR ''['' then
            (if d = 0 then None
             else if has_prefix (skip_ws t) '']'' then Some (JArr [], drop 1 (skip_ws t))
             else parse_elems n (d - 1) [] t)
          else if c = CHR 0x22 then map_option (\<lambda>(u, r). (JStr u, r)) (read_chars t)
          else if has_prefix (c # t) ''true'' then Some (JBool True, drop 3 t)
          else if has_prefix (c # t) ''false'' then Some (JBool False, drop 4 t)
          else if has_prefix (c # t) ''null'' then Some (JNull, drop 3 t)
          else map_option (\<lambda>m. (JNum m, drop (length m) (c # t))) (scan_number (c # t)))"
| "parse_elems 0 d acc s = None"
| "parse_elems (Suc n) d acc s =
     (case parse_value n d s of
        None \<Rightarrow> None
      | Some (v, r) \<Rightarrow>
          (case skip_ws r of
             [] \<Rightarrow> None
           | c # t \<Rightarrow>
               if c = CHR '','' then parse_elems n d (acc @ [v]) t
               else if c = CHR '']'' then Some (JArr (acc @ [v]), t) else None))"
| "parse_members 0 d acc s = None"
| "parse_members (Suc n) d acc s =
     (case read_json_string (skip_ws s) of
        None \<Rightarrow> None
      | Some (key, r) \<Rightarrow>
          (case skip_ws r of
             [] \<Rightarrow> None
           | c # t \<Rightarrow>
               if c \<noteq> CHR '':'' then None
               else
                 (case parse_value n d t of
                    None \<Rightarrow> None
                  | Some (v, r2) \<Rightarrow>
                      (case skip_ws r2 of
                         [] \<Rightarrow> None
                       | c2 # t2 \<Rightarrow>
                           if c2 = CHR '','' then parse_members n d (set_member key v acc) t2
                           else if c2 = CHR ''}'' then Some (JObj (set_member key v acc), t2) else None))))"

definition max_nesting :: nat where "max_nesting = 10000"

text \<open>One value and nothing after it but white space: \<open>Decode\<close> then \<open>Token\<close> at the end of input.\<close>

definition parse_json :: "nat \<Rightarrow> string \<Rightarrow> json option" where
  "parse_json d s =
     (case parse_value (2 * length s + 2) d s of
        Some (v, r) \<Rightarrow> if skip_ws r = [] then Some v else None
      | None \<Rightarrow> None)"

section \<open>Encoding\<close>

text \<open>Compact encoding, members in the given order, no HTML escaping (\<open>compactWrite\<close>).\<close>

fun encode_json :: "json \<Rightarrow> string" where
  "encode_json JNull = ''null''"
| "encode_json (JBool b) = (if b then ''true'' else ''false'')"
| "encode_json (JNum m) = m"
| "encode_json (JStr s) = encode_json_string s"
| "encode_json (JArr vs) = CHR ''['' # join '','' (map encode_json vs) @ '']''"
| "encode_json (JObj ms) = CHR ''{'' # join '','' (map (\<lambda>(k, v). encode_json_string k @ '':'' @ encode_json v) ms) @ ''}''"

text \<open>\<open>json.Marshal\<close> of a decoded value escapes \<open><\<close>, \<open>>\<close> and \<open>&\<close>, which occur inside string literals only.\<close>

definition html_escape :: "string \<Rightarrow> string" where
  "html_escape s = concat (map (\<lambda>c. if c \<in> {CHR ''<'', CHR ''>'', CHR ''&''}
      then [CHR 0x5C] @ ''u00'' @ [hex_digit (ord c div 16), hex_digit (ord c mod 16)] else [c]) s)"

definition marshal_json :: "json \<Rightarrow> string" where
  "marshal_json v = html_escape (encode_json v)"

text \<open>A Go map is written with its keys in byte order.\<close>

fun sort_members :: "json \<Rightarrow> json" where
  "sort_members (JArr vs) = JArr (map sort_members vs)"
| "sort_members (JObj ms) = JObj (sort_key fst (map (\<lambda>(k, v). (k, sort_members v)) ms))"
| "sort_members v = v"

section \<open>Well-formed values\<close>

text \<open>What decoding produces: number literals of the grammar, valid UTF-8, distinct keys.\<close>

definition number_ok :: "string \<Rightarrow> bool" where "number_ok m \<longleftrightarrow> scan_number m = Some m"

fun json_ok :: "json \<Rightarrow> bool" where
  "json_ok (JNum m) = number_ok m"
| "json_ok (JStr s) = valid_utf8 s"
| "json_ok (JArr vs) = (\<forall>v\<in>set vs. json_ok v)"
| "json_ok (JObj ms) = ((\<forall>(k, v)\<in>set ms. valid_utf8 k \<and> json_ok v) \<and> distinct (map fst ms))"
| "json_ok _ = True"

fun depth :: "json \<Rightarrow> nat" where
  "depth (JArr vs) = Suc (Max (insert 0 (set (map depth vs))))"
| "depth (JObj ms) = Suc (Max (insert 0 (set (map (\<lambda>(k, v). depth v) ms))))"
| "depth _ = 0"

section \<open>Numbers\<close>

text \<open>What may follow a number in a document.\<close>

definition ends_value :: "string \<Rightarrow> bool" where
  "ends_value r \<longleftrightarrow> (case r of [] \<Rightarrow> True | c # _ \<Rightarrow> c = CHR '','' \<or> c = CHR '']'' \<or> c = CHR ''}'' \<or> is_json_space c)"

lemma ends_value_simps [simp]:
  "ends_value []" "ends_value (CHR '','' # r)" "ends_value (CHR '']'' # r)" "ends_value (CHR ''}'' # r)"
  by (simp_all add: ends_value_def)

lemma ends_value_head:
  "ends_value (c # r) \<Longrightarrow> \<not> is_digit c \<and> c \<noteq> CHR ''.'' \<and> c \<noteq> CHR ''e'' \<and> c \<noteq> CHR ''E'' \<and> c \<noteq> CHR ''+'' \<and> c \<noteq> CHR ''-''"
  by (auto simp: ends_value_def is_json_space_def is_digit_def)

lemma take_digits_append: "ends_value r \<Longrightarrow> take_digits (s @ r) = take_digits s"
  by (induction s) (auto simp: take_digits_def, cases r, auto dest: ends_value_head)

lemma zero_digit [simp]: "is_digit CHR ''0''"
  by (simp add: is_digit_def)

lemma scan_int_append: "ends_value r \<Longrightarrow> scan_int (s @ r) = scan_int s"
  using take_digits_append [of r s]
  by (cases s; cases r) (auto simp: scan_int_def dest: ends_value_head)

lemma scan_frac_append: "ends_value r \<Longrightarrow> scan_frac (s @ r) = scan_frac s"
  using take_digits_append [of r "tl s"]
  by (cases s; cases r) (auto simp: scan_frac_def dest: ends_value_head)

lemma scan_exp_append:
  assumes "ends_value r" shows "scan_exp (s @ r) = scan_exp s"
proof (cases s)
  case Nil
  then show ?thesis using assms by (cases r) (auto simp: scan_exp_def dest: ends_value_head)
next
  case (Cons c t)
  let ?sign = "\<lambda>t. case t of d # _ \<Rightarrow> if d = CHR ''+'' \<or> d = CHR ''-'' then [d] else [] | [] \<Rightarrow> []"
  have sign: "?sign (t @ r) = ?sign t"
    using assms by (cases t; cases r) (auto dest: ends_value_head)
  have "length (?sign t) \<le> length t" by (cases t) auto
  then have "take_digits (drop (length (?sign t)) (t @ r)) = take_digits (drop (length (?sign t)) t)"
    using take_digits_append [OF assms, of "drop (length (?sign t)) t"] by simp
  then show ?thesis using sign by (simp add: Cons scan_exp_def Let_def)
qed

lemma take_digits_length: "length (take_digits s) \<le> length s"
  by (simp add: take_digits_def length_takeWhile_le)

lemma scan_int_length: "scan_int s = Some i \<Longrightarrow> length i \<le> length s"
  using take_digits_length [of s] by (auto simp: scan_int_def split: list.splits if_splits)

lemma scan_frac_length: "scan_frac s = Some f \<Longrightarrow> length f \<le> length s"
  using take_digits_length [of "tl s"] by (auto simp: scan_frac_def split: list.splits if_splits)

lemma scan_number_append:
  assumes "ends_value r" shows "scan_number (s @ r) = scan_number s"
proof -
  let ?m = "\<lambda>s. case s of c # _ \<Rightarrow> if c = CHR ''-'' then [c] else [] | [] \<Rightarrow> []"
  have m: "?m (s @ r) = ?m s" using assms by (cases s; cases r) (auto dest: ends_value_head)
  have d: "drop (length (?m s)) (s @ r) = drop (length (?m s)) s @ r" by (cases s) auto
  show ?thesis
  proof (cases "scan_int (drop (length (?m s)) s)")
    case None
    then show ?thesis using scan_int_append [OF assms, of "drop (length (?m s)) s"] by (simp only: scan_number_def m d Let_def) simp
  next
    case (Some i)
    let ?s1 = "drop (length (?m s)) s"
    have i: "length i \<le> length ?s1" using Some by (rule scan_int_length)
    then have di: "drop (length i) (?s1 @ r) = drop (length i) ?s1 @ r" by simp
    have int: "scan_int (?s1 @ r) = Some i" using Some scan_int_append [OF assms] by simp
    show ?thesis
    proof (cases "scan_frac (drop (length i) ?s1)")
      case None
      then show ?thesis using int Some scan_frac_append [OF assms, of "drop (length i) ?s1"]
        by (simp only: scan_number_def m d Let_def di option.case)
    next
      case f: (Some f)
      have "length f \<le> length (drop (length i) ?s1)" using f by (rule scan_frac_length)
      then have "drop (length i + length f) (?s1 @ r) = drop (length i + length f) ?s1 @ r" using i by simp
      then show ?thesis using int Some f scan_frac_append [OF assms, of "drop (length i) ?s1"]
          scan_exp_append [OF assms, of "drop (length i + length f) ?s1"]
        by (simp only: scan_number_def m d Let_def di option.case)
    qed
  qed
qed

lemma number_head:
  assumes "scan_number s = Some m"
  shows "\<exists>c t. s = c # t \<and> (c = CHR ''-'' \<or> is_digit c)"
  using assms
  by (cases s) (auto simp: scan_number_def scan_int_def Let_def is_digit_def split: if_splits option.splits)

section \<open>Decoding what was encoded\<close>

lemma skip_ws_head [simp]: "\<not> is_json_space c \<Longrightarrow> skip_ws (c # s) = c # s"
  by (simp add: skip_ws_def)

lemma not_space [simp]:
  "\<not> is_json_space CHR ''{''" "\<not> is_json_space CHR ''[''" "\<not> is_json_space CHR 0x22" "\<not> is_json_space CHR ''t''"
  "\<not> is_json_space CHR ''f''" "\<not> is_json_space CHR ''n''" "\<not> is_json_space CHR '',''" "\<not> is_json_space CHR '':''"
  "\<not> is_json_space CHR '']''" "\<not> is_json_space CHR ''}''" "\<not> is_json_space CHR ''-''"
  by (simp_all add: is_json_space_def)

lemma digit_not_space: "is_digit c \<Longrightarrow> \<not> is_json_space c"
  by (auto simp: is_digit_def is_json_space_def)

lemma encode_head:
  assumes "json_ok v"
  shows "\<exists>c t. encode_json v = c # t \<and> \<not> is_json_space c \<and> c \<noteq> CHR '']'' \<and> c \<noteq> CHR ''}'' \<and> c \<noteq> CHR '',''"
proof (cases v)
  case (JNum m)
  then have "scan_number m = Some m" using assms by (simp add: number_ok_def)
  then obtain c t where m: "m = c # t" and c: "c = CHR ''-'' \<or> is_digit c"
    using number_head by blast
  have "\<not> is_json_space c" using c digit_not_space not_space by blast
  moreover have "c \<noteq> CHR '']'' \<and> c \<noteq> CHR ''}'' \<and> c \<noteq> CHR '',''" using c by (auto simp: is_digit_def)
  ultimately show ?thesis by (simp add: JNum m)
qed (auto simp: encode_json_string_def)

lemma skip_ws_encode: "json_ok v \<Longrightarrow> skip_ws (encode_json v @ r) = encode_json v @ r"
  using encode_head [of v] by auto

lemma read_encoded: "valid_utf8 s \<Longrightarrow> read_json_string (encode_json_string s @ r) = Some (s, r)"
  using read_append_string [of s r] to_valid_id [of s]
  by (simp add: read_json_string_def encode_json_string_def del: read_chars.simps)

text \<open>The fuel a value needs.\<close>

fun fuel :: "json \<Rightarrow> nat" where
  "fuel (JArr vs) = Suc (\<Sum>v\<leftarrow>vs. Suc (fuel v))"
| "fuel (JObj ms) = Suc (\<Sum>m\<leftarrow>ms. Suc (fuel (snd m)))"
| "fuel _ = 1"

lemma parse_elems_encode:
  assumes "\<And>v n d r. v \<in> set vs \<Longrightarrow> json_ok v \<Longrightarrow> depth v \<le> d \<Longrightarrow> fuel v \<le> n \<Longrightarrow> ends_value r
      \<Longrightarrow> parse_value n d (encode_json v @ r) = Some (v, r)"
    and "vs \<noteq> []" "\<forall>v\<in>set vs. json_ok v \<and> depth v \<le> d" "(\<Sum>v\<leftarrow>vs. Suc (fuel v)) \<le> n"
  shows "parse_elems n d acc (join '','' (map encode_json vs) @ CHR '']'' # r) = Some (JArr (acc @ vs), r)"
  using assms
proof (induction vs arbitrary: n acc)
  case (Cons v vs)
  obtain k where n: "n = Suc k" using Cons.prems(4) by (cases n) auto
  show ?case
  proof (cases vs)
    case Nil
    then show ?thesis using Cons.prems(1) [of v d k "CHR '']'' # r"] Cons.prems(3,4) by (simp add: n)
  next
    case (Cons w ws)
    let ?rest = "join '','' (map encode_json vs) @ CHR '']'' # r"
    have "join '','' (map encode_json (v # vs)) @ CHR '']'' # r = encode_json v @ CHR '','' # ?rest"
      by (simp add: Cons)
    moreover have "parse_value k d (encode_json v @ CHR '','' # ?rest) = Some (v, CHR '','' # ?rest)"
      using Cons.prems(3,4) by (intro Cons.prems(1)) (auto simp: n)
    moreover have "parse_elems k d (acc @ [v]) ?rest = Some (JArr ((acc @ [v]) @ vs), r)"
    proof (rule Cons.IH)
      show "parse_value n' d' (encode_json u @ r') = Some (u, r')"
        if "u \<in> set vs" "json_ok u" "depth u \<le> d'" "fuel u \<le> n'" "ends_value r'" for u n' d' r'
        using that by (intro Cons.prems(1)) simp_all
    qed (use Cons.prems(3,4) Cons in \<open>simp_all add: n\<close>)
    ultimately show ?thesis by (simp add: n)
  qed
qed simp

lemma update_new: "k \<notin> fst ` set xs \<Longrightarrow> AList.update k v xs = xs @ [(k, v)]"
  by (induction xs) auto

lemma parse_members_encode:
  assumes "\<And>k v n d r. (k, v) \<in> set ms \<Longrightarrow> json_ok v \<Longrightarrow> depth v \<le> d \<Longrightarrow> fuel v \<le> n \<Longrightarrow> ends_value r
      \<Longrightarrow> parse_value n d (encode_json v @ r) = Some (v, r)"
    and "ms \<noteq> []" "\<forall>(k, v)\<in>set ms. valid_utf8 k \<and> json_ok v \<and> depth v \<le> d" "(\<Sum>m\<leftarrow>ms. Suc (fuel (snd m))) \<le> n"
    and "distinct (map fst (acc @ ms))"
  shows "parse_members n d acc (join '','' (map (\<lambda>(k, v). encode_json_string k @ '':'' @ encode_json v) ms) @ CHR ''}'' # r)
     = Some (JObj (acc @ ms), r)"
  using assms
proof (induction ms arbitrary: n acc)
  case (Cons m ms)
  obtain key v where m: "m = (key, v)" by (cases m)
  obtain j where n: "n = Suc j" using Cons.prems(4) by (cases n) auto
  have upd: "AList.update key v acc = acc @ [(key, v)]"
    using Cons.prems(5) by (intro update_new) (auto simp: m)
  have key: "read_json_string (encode_json_string key @ t) = Some (key, t)" for t
    using Cons.prems(3) by (intro read_encoded) (simp add: m)
  have quote: "skip_ws (encode_json_string key @ t) = encode_json_string key @ t" for t
    by (simp add: encode_json_string_def)
  let ?f = "\<lambda>(k, v). encode_json_string k @ '':'' @ encode_json v"
  show ?case
  proof (cases ms)
    case Nil
    then show ?thesis
      using Cons.prems(1) [of key v d j "CHR ''}'' # r"] Cons.prems(3,4) by (simp add: n m quote key upd)
  next
    case (Cons w ws)
    let ?rest = "join '','' (map ?f ms) @ CHR ''}'' # r"
    have "join '','' (map ?f (m # ms)) @ CHR ''}'' # r = encode_json_string key @ CHR '':'' # encode_json v @ CHR '','' # ?rest"
      by (simp add: Cons m)
    moreover have "parse_value j d (encode_json v @ CHR '','' # ?rest) = Some (v, CHR '','' # ?rest)"
      using Cons.prems(3,4) by (intro Cons.prems(1) [of key]) (auto simp: n m)
    moreover have "parse_members j d (acc @ [(key, v)]) ?rest = Some (JObj ((acc @ [(key, v)]) @ ms), r)"
    proof (rule Cons.IH)
      show "parse_value n' d' (encode_json u @ r') = Some (u, r')"
        if "(k, u) \<in> set ms" "json_ok u" "depth u \<le> d'" "fuel u \<le> n'" "ends_value r'" for k u n' d' r'
        using that by (intro Cons.prems(1) [of k]) simp_all
    qed (use Cons.prems(3,4,5) Cons in \<open>simp_all add: n m\<close>)
    ultimately show ?thesis by (simp add: n quote key upd m)
  qed
qed simp

lemma parse_encode:
  "json_ok v \<Longrightarrow> depth v \<le> d \<Longrightarrow> fuel v \<le> n \<Longrightarrow> ends_value r \<Longrightarrow> parse_value n d (encode_json v @ r) = Some (v, r)"
proof (induction v arbitrary: n d r)
  case JNull
  then show ?case by (cases n) auto
next
  case (JBool b)
  then show ?case by (cases n; cases b) auto
next
  case (JNum m)
  obtain k where n: "n = Suc k" using JNum.prems(3) by (cases n) auto
  have sc: "scan_number (m @ r) = Some m"
    using JNum.prems by (simp add: scan_number_append number_ok_def)
  obtain c t where c: "m = c # t" "c = CHR ''-'' \<or> is_digit c"
    using JNum.prems(1) number_head [of m m] by (auto simp: number_ok_def)
  then have "\<not> is_json_space c" "c \<noteq> CHR ''{''" "c \<noteq> CHR ''[''" "c \<noteq> CHR 0x22" "c \<noteq> CHR ''t''" "c \<noteq> CHR ''f''" "c \<noteq> CHR ''n''"
    using digit_not_space by (auto simp: is_digit_def)
  then show ?case using sc by (simp add: n c(1))
next
  case (JStr s)
  obtain k where n: "n = Suc k" using JStr.prems(3) by (cases n) auto
  have "read_chars (append_string s @ CHR 0x22 # r) = Some (s, r)"
    using read_append_string [of s r] to_valid_id [of s] JStr.prems(1) by simp
  then show ?case by (simp add: n encode_json_string_def del: read_chars.simps)
next
  case (JArr vs)
  obtain k where n: "n = Suc k" using JArr.prems(3) by (cases n) auto
  obtain d' where d: "d = Suc d'" using JArr.prems(2) by (cases d) auto
  show ?case
  proof (cases "vs = []")
    case True
    then show ?thesis by (simp add: n d)
  next
    case False
    then obtain v ws where vs: "vs = v # ws" by (cases vs) auto
    obtain c t where h: "encode_json v = c # t" "\<not> is_json_space c" "c \<noteq> CHR '']''"
      using encode_head [of v] JArr.prems(1) vs by auto
    have "join '','' (map encode_json vs) @ CHR '']'' # r = c # (tl (join '','' (map encode_json vs)) @ CHR '']'' # r)"
      using h vs by (cases ws) auto
    then have sk: "\<not> has_prefix (skip_ws (join '','' (map encode_json vs) @ CHR '']'' # r)) '']''"
      using h(2,3) by (metis has_prefix.simps(3) skip_ws_head)
    have "parse_elems k d' [] (join '','' (map encode_json vs) @ CHR '']'' # r) = Some (JArr ([] @ vs), r)"
    proof (rule parse_elems_encode)
      show "\<forall>v\<in>set vs. json_ok v \<and> depth v \<le> d'" "(\<Sum>v\<leftarrow>vs. Suc (fuel v)) \<le> k"
        using JArr.prems by (simp_all add: d n)
    qed (use False JArr.IH in auto)
    then show ?thesis using sk by (simp add: n d)
  qed
next
  case (JObj ms)
  obtain k where n: "n = Suc k" using JObj.prems(3) by (cases n) auto
  obtain d' where d: "d = Suc d'" using JObj.prems(2) by (cases d) auto
  let ?f = "\<lambda>(k, v). encode_json_string k @ '':'' @ encode_json v"
  show ?case
  proof (cases "ms = []")
    case True
    then show ?thesis by (simp add: n d)
  next
    case False
    then obtain w ws where ms: "ms = w # ws" by (cases ms) auto
    have "\<exists>t. join '','' (map ?f ms) @ CHR ''}'' # r = CHR 0x22 # t"
      using ms by (cases ws) (auto simp: encode_json_string_def split: prod.splits)
    then obtain t where t: "join '','' (map ?f ms) @ CHR ''}'' # r = CHR 0x22 # t" ..
    have sk: "\<not> has_prefix (skip_ws (join '','' (map ?f ms) @ CHR ''}'' # r)) ''}''"
      unfolding t by simp
    have "parse_members k d' [] (join '','' (map ?f ms) @ CHR ''}'' # r) = Some (JObj ([] @ ms), r)"
    proof (rule parse_members_encode)
      show "parse_value n' d' (encode_json u @ r') = Some (u, r')"
        if "(key, u) \<in> set ms" "json_ok u" "depth u \<le> d'" "fuel u \<le> n'" "ends_value r'" for key u n' d' r'
        using that(1) by (rule JObj.IH) (simp_all add: that)
      show "\<forall>(key, v)\<in>set ms. valid_utf8 key \<and> json_ok v \<and> depth v \<le> d'" "(\<Sum>m\<leftarrow>ms. Suc (fuel (snd m))) \<le> k"
        using JObj.prems by (auto simp: d n)
    qed (use False JObj.prems(1) in auto)
    then show ?thesis using sk by (simp add: n d)
  qed
qed

end
