(* ===== verification/GoJsonProps.thy ===== *)
theory GoJsonProps
  imports GoJson
begin

text \<open>
  What holds of every decoded value, and that the decoder's fuel never decides its result: a
  larger fuel than twice the input's length (plus two) gives the same answer.
\<close>

section \<open>What the readers consume\<close>

lemma adds_SomeD: "adds t r = Some (u, q) \<Longrightarrow> \<exists>w. r = Some (w, q) \<and> u = t @ w"
  by (auto simp: adds_def split: option.splits)

lemma valid_append_ascii: "ord c < 128 \<Longrightarrow> valid_utf8 w \<Longrightarrow> valid_utf8 ([c] @ w)"
  by (simp add: valid_ascii del: valid_utf8.simps)

lemma hex4_bound:
  assumes "hex4 w x y z = Some n" shows "n < 65536"
proof -
  have b: "hex_val c = Some v \<Longrightarrow> v < 16" for c v
    by (auto simp: hex_val_def is_digit_def split: if_splits)
  show ?thesis using assms by (auto simp: hex4_def split: option.splits dest!: b)
qed

lemma hex4_scalar: "hex4 w x y z = Some n \<Longrightarrow> \<not> is_surrogate n \<Longrightarrow> scalar n"
  using hex4_bound [of w x y z n] by (auto simp: scalar_def is_surrogate_def)

lemma read_escape_ascii: "read_escape e = Some d \<Longrightarrow> ord d < 128"
  by (auto simp: read_escape_def split: if_splits)

lemma surrogate_pair_scalar:
  assumes "surrogate_pair r s = Some n" and "is_surrogate r" shows "scalar n"
proof -
  obtain r2 where "n = (r - 55296) * 1024 + (r2 - 56320) + 65536" "r < 56320" "56320 \<le> r2" "r2 < 57344"
    using assms(1) by (auto simp: surrogate_pair_def split: list.splits option.splits if_splits)
  moreover have "(r - 55296) * 1024 \<le> 1023 * 1024" using calculation(2) by (intro mult_right_mono) auto
  ultimately show ?thesis by (simp add: scalar_def)
qed

lemma read_chars_sound:
  "read_chars s = Some (u, r) \<Longrightarrow> valid_utf8 u \<and> length r < length s"
proof (induction s arbitrary: u r rule: read_chars.induct)
  case 1
  then show ?case by simp
next
  case (2 c s)
  have rune: "\<exists>w. valid_utf8 w \<and> u = encode_rune n @ w \<Longrightarrow> scalar n \<Longrightarrow> valid_utf8 u" for n
    using valid_encode_rune by blast
  have asc: "\<exists>w. valid_utf8 w \<and> u = [d] @ w \<Longrightarrow> ord d < 128 \<Longrightarrow> valid_utf8 u" for d
    using valid_append_ascii by blast
  consider (quote) "c = CHR 0x22" | (esc) "c = CHR 0x5C" | (ctl) "c \<noteq> CHR 0x22" "c \<noteq> CHR 0x5C" "ord c < 32"
    | (plain) "c \<noteq> CHR 0x22" "c \<noteq> CHR 0x5C" "\<not> ord c < 32" "ord c < 128"
    | (high) "c \<noteq> CHR 0x22" "c \<noteq> CHR 0x5C" "\<not> ord c < 32" "\<not> ord c < 128" by blast
  then show ?case
  proof cases
    case quote
    then show ?thesis using 2(7) by simp
  next
    case ctl
    then show ?thesis using 2(7) by simp
  next
    case plain
    then have "adds [c] (read_chars s) = Some (u, r)" using 2(7) by simp
    then obtain w where w: "read_chars s = Some (w, r)" "u = [c] @ w" using adds_SomeD by blast
    then show ?thesis using 2(5) [OF plain w(1)] asc [of c] plain(4) by auto
  next
    case high
    then have "adds (encode_rune (fst (decode_rune (c # s)))) (read_chars (drop (rune_width (c # s) - 1) s)) = Some (u, r)"
      using 2(7) by simp
    then obtain w where w: "read_chars (drop (rune_width (c # s) - 1) s) = Some (w, r)"
        "u = encode_rune (fst (decode_rune (c # s))) @ w"
      using adds_SomeD by blast
    then have "valid_utf8 w \<and> length r < length (drop (rune_width (c # s) - 1) s)" using 2(6) high by blast
    then show ?thesis using w(2) rune decode_rune_scalar [of "c # s"] by auto
  next
    case esc
    obtain e rest where s: "s = e # rest" using 2(7) esc by (cases s) auto
    show ?thesis
    proof (cases "e = CHR ''u''")
      case False
      then obtain d where d: "read_escape e = Some d" "adds [d] (read_chars rest) = Some (u, r)"
        using 2(7) esc s by (auto split: option.splits)
      then obtain w where "read_chars rest = Some (w, r)" "u = [d] @ w" using adds_SomeD by blast
      then show ?thesis using 2(4) [OF _ esc s False d(1)] esc d(1) asc [of d] read_escape_ascii s by auto
    next
      case True
      obtain a1 a2 a3 a4 q n where q: "rest = a1 # a2 # a3 # a4 # q" and n: "hex4 a1 a2 a3 a4 = Some n"
        using 2(7) esc s True by (auto split: list.splits option.splits)
      show ?thesis
      proof (cases "is_surrogate n")
        case False
        then have "adds (encode_rune n) (read_chars q) = Some (u, r)" using 2(7) esc s True q n by simp
        then obtain w where w: "read_chars q = Some (w, r)" "u = encode_rune n @ w" using adds_SomeD by blast
        have "valid_utf8 w \<and> length r < length q"
          using 2(3) [OF _ esc s True q HOL.refl HOL.refl HOL.refl n False w(1)] esc by simp
        then show ?thesis using w rune hex4_scalar [OF n False] s q by auto
      next
        case sur: True
        show ?thesis
        proof (cases "surrogate_pair n q")
          case None
          then have "adds (encode_rune rune_error) (read_chars q) = Some (u, r)" using 2(7) esc s True q n sur by simp
          then obtain w where w: "read_chars q = Some (w, r)" "u = encode_rune rune_error @ w" using adds_SomeD by blast
          have "valid_utf8 w \<and> length r < length q"
            using 2(1) [OF _ esc s True q HOL.refl HOL.refl HOL.refl n sur None w(1)] esc by simp
          then show ?thesis using w rune [of rune_error] s q by (auto simp: scalar_def rune_error_def)
        next
          case (Some d)
          then have "adds (encode_rune d) (read_chars (drop 6 q)) = Some (u, r)" using 2(7) esc s True q n sur by simp
          then obtain w where w: "read_chars (drop 6 q) = Some (w, r)" "u = encode_rune d @ w" using adds_SomeD by blast
          have "valid_utf8 w \<and> length r < length (drop 6 q)"
            using 2(2) [OF _ esc s True q HOL.refl HOL.refl HOL.refl n sur Some w(1)] esc by simp
          then show ?thesis using w rune surrogate_pair_scalar [OF Some sur] s q by auto
        qed
      qed
    qed
  qed
qed

section \<open>Scanned numbers\<close>

lemma take_digits_self [simp]: "take_digits (take_digits s) = take_digits s"
  by (simp add: take_digits_def takeWhile_idem)

lemma take_digits_set: "c \<in> set (take_digits s) \<Longrightarrow> is_digit c"
  by (auto simp: take_digits_def dest: set_takeWhileD)

lemma take_digits_prefix: "\<exists>q. s = take_digits s @ q"
  by (metis take_digits_def takeWhile_dropWhile_id)

definition no_digit :: "string \<Rightarrow> bool" where
  "no_digit q \<longleftrightarrow> (case q of [] \<Rightarrow> True | c # _ \<Rightarrow> \<not> is_digit c)"

lemma take_digits_stop: "no_digit q \<Longrightarrow> take_digits (take_digits s @ q) = take_digits s"
proof (induction s)
  case Nil
  then show ?case by (cases q) (auto simp: take_digits_def no_digit_def)
qed (auto simp: take_digits_def no_digit_def split: list.splits)

lemma scan_int_self:
  assumes "scan_int s = Some i"
  shows "\<exists>c t q. i = c # t \<and> is_digit c \<and> s = i @ q" and "no_digit q \<Longrightarrow> scan_int (i @ q) = Some i"
proof -
  obtain c t where s: "s = c # t" and c: "is_digit c" "c = CHR ''0'' \<longrightarrow> i = [c]" "c \<noteq> CHR ''0'' \<longrightarrow> i = take_digits s"
    using assms by (cases s) (auto simp: scan_int_def split: if_splits)
  have h: "take_digits s = c # take_digits t" by (simp add: s take_digits_def c)
  show "\<exists>c t q. i = c # t \<and> is_digit c \<and> s = i @ q"
  proof (cases "c = CHR ''0''")
    case False
    then have i: "i = take_digits s" using c by simp
    obtain q where "s = i @ q" using take_digits_prefix [of s] i by blast
    moreover have "i = c # take_digits t" using i h by simp
    ultimately show ?thesis using c(1) by blast
  qed (use c s in auto)
  show "scan_int (i @ q) = Some i" if q: "no_digit q"
  proof (cases "c = CHR ''0''")
    case False
    then have i: "i = take_digits s" using c by simp
    have "scan_int (i @ q) = Some (take_digits (i @ q))" using False c(1) by (simp add: i h scan_int_def)
    then show ?thesis using take_digits_stop [OF q, of s] by (simp add: i)
  qed (use c in \<open>auto simp: scan_int_def\<close>)
qed

lemma scan_frac_self:
  assumes "scan_frac s = Some f"
  shows "\<exists>q. s = f @ q" and "no_digit f"
    and "no_digit q \<Longrightarrow> \<not> has_prefix q ''.'' \<Longrightarrow> scan_frac (f @ q) = Some f"
proof -
  consider (none) "f = []" | (some) t where "s = CHR ''.'' # t" "f = CHR ''.'' # take_digits t" "take_digits t \<noteq> []"
    using assms by (cases s) (auto simp: scan_frac_def split: if_splits)
  note cs = this
  show "\<exists>q. s = f @ q"
    using cs
  proof cases
    case (some t)
    then show ?thesis using take_digits_prefix [of t] by auto
  qed simp
  show "no_digit f" using cs by cases (auto simp: no_digit_def is_digit_def)
  show "scan_frac (f @ q) = Some f" if "no_digit q" "\<not> has_prefix q ''.''"
    using cs
  proof cases
    case none
    then show ?thesis using that(2) by (cases q) (auto simp: scan_frac_def)
  next
    case (some t)
    then show ?thesis using take_digits_stop [OF that(1), of t] by (simp add: scan_frac_def)
  qed
qed

lemma scan_exp_self:
  assumes "scan_exp s = Some e"
  shows "\<exists>q. s = e @ q" "no_digit e" "\<not> has_prefix e ''.''" "scan_exp e = Some e"
proof -
  let ?sign = "\<lambda>t. case t of d # _ \<Rightarrow> if d = CHR ''+'' \<or> d = CHR ''-'' then [d] else [] | [] \<Rightarrow> []"
  consider (none) "e = []" | (some) c t sg ds where "s = c # t" "c = CHR ''e'' \<or> c = CHR ''E''" "sg = ?sign t"
      "ds = take_digits (drop (length sg) t)" "ds \<noteq> []" "e = c # sg @ ds"
    using assms by (cases s) (auto simp: scan_exp_def Let_def split: if_splits)
  note cs = this
  have sgt: "t = ?sign t @ drop (length (?sign t)) t" for t by (cases t) auto
  show "\<exists>q. s = e @ q"
    using cs
  proof cases
    case (some c t sg ds)
    obtain q where "drop (length sg) t = ds @ q" using take_digits_prefix [of "drop (length sg) t"] some(4) by auto
    then have "t = sg @ ds @ q" using sgt [of t] some(3) by simp
    then show ?thesis using some by auto
  qed simp
  show "no_digit e" "\<not> has_prefix e ''.''" using cs by (cases; auto simp: no_digit_def is_digit_def)+
  show "scan_exp e = Some e"
    using cs
  proof cases
    case (some c t sg ds)
    have d: "take_digits ds = ds" using some(4) by simp
    obtain x xs where xs: "ds = x # xs" using some(5) by (cases ds) auto
    then have x: "ds = x # xs" "is_digit x" using some(4) take_digits_set [of x "drop (length sg) t"] by auto
    have "?sign (sg @ ds) = sg"
      using some(3) x by (cases t) (auto simp: is_digit_def)
    then show ?thesis using some d by (auto simp: scan_exp_def Let_def)
  qed (simp add: scan_exp_def)
qed

lemma scan_number_self:
  assumes "scan_number s = Some m"
  shows "scan_number m = Some m" "\<exists>q. s = m @ q" "m \<noteq> []"
proof -
  let ?m = "\<lambda>s. case s of c # _ \<Rightarrow> if c = CHR ''-'' then [c] else [] | [] \<Rightarrow> []"
  obtain i f e where i: "scan_int (drop (length (?m s)) s) = Some i"
    and f: "scan_frac (drop (length i) (drop (length (?m s)) s)) = Some f"
    and e: "scan_exp (drop (length i + length f) (drop (length (?m s)) s)) = Some e"
    and m: "m = ?m s @ i @ f @ e"
    using assms by (auto simp: scan_number_def Let_def split: option.splits)
  have s: "s = ?m s @ drop (length (?m s)) s" by (cases s) auto
  obtain c t q where q: "i = c # t" "is_digit c" "drop (length (?m s)) s = i @ q" using scan_int_self(1) [OF i] by blast
  obtain q1 where q1: "q = f @ q1" using scan_frac_self(1) [OF f] q by auto
  obtain q2 where q2: "q1 = e @ q2" using scan_exp_self(1) [OF e] q q1 by auto
  show "\<exists>q. s = m @ q" using s q(3) q1 q2 m by auto
  show "m \<noteq> []" by (simp add: m q)
  have fe: "no_digit (f @ e)"
    using scan_frac_self(2) [OF f] scan_exp_self(2) [OF e] by (cases f) (auto simp: no_digit_def)
  have mm: "?m m = ?m s" using q(1,2) by (cases s) (auto simp: m is_digit_def)
  have d: "drop (length (?m s)) m = i @ f @ e" by (simp add: m)
  have 1: "scan_int (i @ f @ e) = Some i" using scan_int_self(2) [OF i fe] .
  have 2: "scan_frac (f @ e) = Some f" using scan_frac_self(3) [OF f] scan_exp_self(2,3) [OF e] .
  show "scan_number m = Some m"
    unfolding scan_number_def Let_def mm d using 1 2 scan_exp_self(4) [OF e] by (simp add: m)
qed

section \<open>What decoding produces\<close>

lemma skip_ws_length: "length (skip_ws s) \<le> length s"
  by (simp add: skip_ws_def length_dropWhile_le)

lemma skip_ws_Cons_length: "skip_ws s = c # t \<Longrightarrow> length t < length s"
  using skip_ws_length [of s] by simp

lemma prefix_drop_length: "has_prefix s p \<Longrightarrow> length p \<le> length s"
  by (rule has_prefix_length)

lemma read_json_string_sound:
  "read_json_string s = Some (u, r) \<Longrightarrow> valid_utf8 u \<and> length r < length s"
  using read_chars_sound by (fastforce simp: read_json_string_def simp del: read_chars.simps split: list.splits if_splits)

definition value_ok :: "nat \<Rightarrow> json \<Rightarrow> bool" where
  "value_ok d v \<longleftrightarrow> json_ok v \<and> depth v \<le> d"

lemma set_update_subset: "set (AList.update key v ms) \<subseteq> insert (key, v) (set ms)"
  by (induction ms) auto

lemma value_ok_leaf [simp]:
  "value_ok d JNull" "value_ok d (JBool b)" "value_ok d (JNum m) = number_ok m" "value_ok d (JStr u) = valid_utf8 u"
  by (simp_all add: value_ok_def)

lemma value_ok_JArr [simp]: "value_ok (Suc d) (JArr vs) \<longleftrightarrow> (\<forall>v\<in>set vs. value_ok d v)"
  by (auto simp: value_ok_def)

lemma value_ok_JObj [simp]:
  "value_ok (Suc d) (JObj ms) \<longleftrightarrow> (\<forall>(key, v)\<in>set ms. valid_utf8 key \<and> value_ok d v) \<and> distinct (map fst ms)"
  by (auto simp: value_ok_def)

lemma parse_sound:
  "parse_value n d s = Some (v, r) \<Longrightarrow> value_ok d v \<and> length r < length s"
  "parse_elems n d acc s = Some (v, r) \<Longrightarrow> \<forall>a\<in>set acc. value_ok d a \<Longrightarrow> value_ok (Suc d) v \<and> length r < length s"
  "parse_members n d ms s = Some (v, r) \<Longrightarrow> value_ok (Suc d) (JObj ms) \<Longrightarrow> value_ok (Suc d) v \<and> length r < length s"
proof (induction n d s and n d acc s and n d ms s arbitrary: v r and v r and v r
    rule: parse_value_parse_elems_parse_members.induct)
  case (2 n d s)
  obtain c t where ct: "skip_ws s = c # t" using 2(3) by (cases "skip_ws s") auto
  note tl = skip_ws_Cons_length [OF ct]
  have ws: "length (skip_ws t) \<le> length t" by (rule skip_ws_length)
  show ?case
  proof (cases "c = CHR ''{''")
    case obj: True
    then obtain d' where d: "d = Suc d'" using 2(3) ct by (cases d) auto
    show ?thesis
    proof (cases "has_prefix (skip_ws t) ''}''")
      case True
      then show ?thesis using 2(3) ct obj d tl ws by auto
    next
      case False
      then have "parse_members n d' [] t = Some (v, r)" using 2(3) ct obj d by simp
      then show ?thesis using 2(1) [OF ct obj] False d tl by fastforce
    qed
  next
    case no: False
    show ?thesis
    proof (cases "c = CHR ''[''")
      case arr: True
      then obtain d' where d: "d = Suc d'" using 2(3) ct by (cases d) auto
      show ?thesis
      proof (cases "has_prefix (skip_ws t) '']''")
        case True
        then show ?thesis using 2(3) ct arr d tl ws by auto
      next
        case False
        then have "parse_elems n d' [] t = Some (v, r)" using 2(3) ct arr d by simp
        then show ?thesis using 2(2) [OF ct no arr] False d tl by fastforce
      qed
    next
      case na: False
      consider (str) "c = CHR 0x22" | (lit) "c \<noteq> CHR 0x22" "v \<in> {JNull, JBool True, JBool False}" "length r \<le> length t"
        | (num) m where "scan_number (c # t) = Some m" "v = JNum m" "r = drop (length m) (c # t)"
        using 2(3) ct no na by (auto split: if_splits)
      then show ?thesis
      proof cases
        case str
        then obtain u where "read_chars t = Some (u, r)" "v = JStr u"
          using 2(3) ct by (auto simp del: read_chars.simps)
        then show ?thesis using read_chars_sound tl by fastforce
      next
        case lit
        then show ?thesis using tl by auto
      next
        case num
        have m: "m \<noteq> []" "number_ok m" using scan_number_self [OF num(1)] by (auto simp: number_ok_def)
        have "length r < length (c # t)" using m(1) by (cases m) (auto simp: num(3))
        then show ?thesis using m num(2) tl by simp
      qed
    qed
  qed
next
  case (4 n d acc s)
  obtain w q where w: "parse_value n d s = Some (w, q)" using 4(3) by (auto split: option.splits)
  obtain c t where ct: "skip_ws q = c # t" using 4(3) w by (cases "skip_ws q") auto
  have wq: "value_ok d w \<and> length q < length s" using 4(1) w by blast
  note tl = skip_ws_Cons_length [OF ct]
  show ?case
  proof (cases "c = CHR '',''")
    case True
    then have "parse_elems n d (acc @ [w]) t = Some (v, r)" using 4(3) w ct by simp
    then show ?thesis using 4(2) [OF w HOL.refl ct True] 4(4) wq tl by fastforce
  next
    case False
    then show ?thesis using 4(3,4) w ct wq tl by (auto split: if_splits)
  qed
next
  case (6 n d ms s)
  obtain key q where key: "read_json_string (skip_ws s) = Some (key, q)" using 6(3) by (auto split: option.splits)
  have k: "valid_utf8 key \<and> length q < length s" using read_json_string_sound [OF key] skip_ws_length [of s] by simp
  obtain c t where ct: "skip_ws q = c # t" "c = CHR '':''" using 6(3) key by (cases "skip_ws q") (auto split: if_splits)
  obtain w q2 where w: "parse_value n d t = Some (w, q2)" using 6(3) key ct by (auto split: option.splits)
  obtain c2 t2 where ct2: "skip_ws q2 = c2 # t2" using 6(3) key ct w by (cases "skip_ws q2") auto
  have wq: "value_ok d w \<and> length q2 < length t" using 6(1) [OF key HOL.refl ct(1)] ct(2) w by blast
  have upd: "value_ok (Suc d) (JObj (set_member key w ms))"
    using 6(4) k wq set_update_subset [of key w ms] by (auto simp: distinct_update)
  have len: "length t2 < length s"
    using k wq skip_ws_Cons_length [OF ct(1)] skip_ws_Cons_length [OF ct2] by simp
  show ?case
  proof (cases "c2 = CHR '',''")
    case True
    then have "parse_members n d (set_member key w ms) t2 = Some (v, r)" using 6(3) key ct w ct2 by simp
    then show ?thesis using 6(2) [OF key HOL.refl ct(1) _ w HOL.refl ct2 True] ct(2) upd len by fastforce
  next
    case False
    then show ?thesis using 6(3) key ct w ct2 upd len by (auto split: if_splits)
  qed
qed auto

section \<open>Fuel\<close>

text \<open>Any two sufficient amounts of fuel give the same result.\<close>

lemma parse_fuel:
  "2 * length s + 1 \<le> n \<Longrightarrow> 2 * length s + 1 \<le> m \<Longrightarrow> parse_value n d s = parse_value m d s"
  "2 * length s + 2 \<le> n \<Longrightarrow> 2 * length s + 2 \<le> m \<Longrightarrow> parse_elems n d acc s = parse_elems m d acc s"
  "2 * length s + 2 \<le> n \<Longrightarrow> 2 * length s + 2 \<le> m \<Longrightarrow> parse_members n d ms s = parse_members m d ms s"
proof (induction n d s and n d acc s and n d ms s arbitrary: m and m and m
    rule: parse_value_parse_elems_parse_members.induct)
  case (2 n d s)
  obtain m' where m: "m = Suc m'" using 2(4) by (cases m) auto
  show ?case
  proof (cases "skip_ws s")
    case (Cons c t)
    have le: "2 * length t + 2 \<le> n" "2 * length t + 2 \<le> m'"
      using skip_ws_Cons_length [OF Cons] 2(3,4) by (simp_all add: m)
    show ?thesis
      unfolding m using 2(1) [OF Cons _ _ _ le] 2(2) [OF Cons _ _ _ _ le] by (simp add: Cons)
  qed (simp add: m)
next
  case (4 n d acc s)
  obtain m' where m: "m = Suc m'" using 4(4) by (cases m) auto
  have v: "parse_value n d s = parse_value m' d s" using 4(1) [of m'] 4(3,4) by (simp add: m)
  show ?case
  proof (cases "parse_value n d s")
    case (Some p)
    obtain w q where w: "parse_value n d s = Some (w, q)" using Some by (cases p) auto
    have q: "length q < length s" using parse_sound(1) [OF w] by simp
    show ?thesis
    proof (cases "skip_ws q")
      case (Cons c t)
      have le: "2 * length t + 2 \<le> n" "2 * length t + 2 \<le> m'"
        using skip_ws_Cons_length [OF Cons] q 4(3,4) by (simp_all add: m)
      show ?thesis unfolding m using 4(2) [OF w HOL.refl Cons _ le] w v by (simp add: Cons)
    qed (use w v m in simp)
  qed (use v m in simp)
next
  case (6 n d ms s)
  obtain m' where m: "m = Suc m'" using 6(4) by (cases m) auto
  show ?case
  proof (cases "read_json_string (skip_ws s)")
    case (Some p)
    obtain key q where key: "read_json_string (skip_ws s) = Some (key, q)" using Some by (cases p) auto
    have q: "length q < length s" using read_json_string_sound [OF key] skip_ws_length [of s] by simp
    show ?thesis
    proof (cases "skip_ws q")
      case ct: (Cons c t)
      show ?thesis
      proof (cases "c = CHR '':''")
        case c: True
        have t: "length t < length s" using skip_ws_Cons_length [OF ct] q by simp
        have v: "parse_value n d t = parse_value m' d t"
          using 6(1) [OF key HOL.refl ct _, of m'] c t 6(3,4) by (simp add: m)
        show ?thesis
        proof (cases "parse_value n d t")
          case (Some p)
          obtain w q2 where w: "parse_value n d t = Some (w, q2)" using Some by (cases p) auto
          have q2: "length q2 < length t" using parse_sound(1) [OF w] by simp
          show ?thesis
          proof (cases "skip_ws q2")
            case (Cons c2 t2)
            have le: "2 * length t2 + 2 \<le> n" "2 * length t2 + 2 \<le> m'"
              using skip_ws_Cons_length [OF Cons] q2 t 6(3,4) by (simp_all add: m)
            show ?thesis
              unfolding m using 6(2) [OF key HOL.refl ct _ w HOL.refl Cons _ le] c w v key ct
              by (simp add: Cons)
          qed (use key ct c w v m in simp)
        qed (use key ct c v m in simp)
      qed (use key ct m in simp)
    qed (use key m in simp)
  qed (use m in simp)
qed auto

lemma parse_json_fuel:
  "2 * length s + 2 \<le> n \<Longrightarrow>
   parse_json d s = (case parse_value n d s of Some (v, r) \<Rightarrow> if skip_ws r = [] then Some v else None | None \<Rightarrow> None)"
  using parse_fuel(1) [of s n "2 * length s + 2" d] by (simp add: parse_json_def)

lemma parse_json_ok: "parse_json d s = Some v \<Longrightarrow> json_ok v \<and> depth v \<le> d"
  by (auto simp: parse_json_def simp del: parse_value.simps
      split: option.splits if_splits dest: parse_sound(1) [unfolded value_ok_def])

section \<open>Decoding an encoding\<close>

lemma fuel_bound: "json_ok v \<Longrightarrow> fuel v \<le> 2 * length (encode_json v)"
proof (induction v)
  case (JNum m)
  then have "m \<noteq> []" using scan_number_self(3) by (simp add: number_ok_def)
  then show ?case by (cases m) auto
next
  case (JArr vs)
  have "(\<Sum>v\<leftarrow>vs. Suc (fuel v)) \<le> 2 * length (join '','' (map encode_json vs)) + 1" if "\<forall>v\<in>set vs. fuel v \<le> 2 * length (encode_json v)"
    using that by (induction vs rule: induct_list012) auto
  then show ?case using JArr by fastforce
next
  case (JObj ms)
  let ?f = "\<lambda>(key, v). encode_json_string key @ '':'' @ encode_json v"
  have "(\<Sum>m\<leftarrow>ms. Suc (fuel (snd m))) \<le> 2 * length (join '','' (map ?f ms)) + 1" if "\<forall>m\<in>set ms. fuel (snd m) \<le> 2 * length (encode_json (snd m))"
    using that by (induction ms rule: induct_list012) (auto split: prod.splits)
  moreover have "\<forall>m\<in>set ms. fuel (snd m) \<le> 2 * length (encode_json (snd m))" using JObj by fastforce
  ultimately show ?case by fastforce
qed (auto simp: encode_json_string_def)

lemma parse_json_encode:
  assumes "json_ok v" and "depth v \<le> d" shows "parse_json d (encode_json v) = Some v"
proof -
  have "fuel v \<le> 2 * length (encode_json v) + 2" using fuel_bound [OF assms(1)] by simp
  then show ?thesis
    using parse_encode [OF assms, of "2 * length (encode_json v) + 2" "[]"] by (simp add: parse_json_def skip_ws_def)
qed

section \<open>Sorted members\<close>

lemma sort_members_ok: "json_ok v \<Longrightarrow> json_ok (sort_members v) \<and> depth (sort_members v) = depth v"
proof (induction v)
  case (JArr vs)
  have "map depth (map sort_members vs) = map depth vs" using JArr by auto
  then have "depth (sort_members (JArr vs)) = depth (JArr vs)" by (simp only: sort_members.simps depth.simps)
  then show ?case using JArr by simp
next
  case (JObj ms)
  let ?g = "\<lambda>(key, v). (key, sort_members v)"
  have keys: "map fst (map ?g ms) = map fst ms" by (induction ms) auto
  have "mset (map fst (sort_key fst (map ?g ms))) = mset (map fst ms)"
    unfolding keys [symmetric] by (simp only: mset_map mset_sort)
  then have "distinct (map fst (sort_key fst (map ?g ms)))"
    using JObj.prems by (metis mset_eq_imp_distinct_iff json_ok.simps(4))
  moreover have "map (\<lambda>(key, v). depth v) (map ?g ms) = map (\<lambda>(key, v). depth v) ms" using JObj by fastforce
  then have "set (map (\<lambda>(key, v). depth v) (map ?g ms)) = set (map (\<lambda>(key, v). depth v) ms)" by (rule arg_cong)
  then have "depth (sort_members (JObj ms)) = depth (JObj ms)"
    by (simp only: sort_members.simps depth.simps set_map set_sort)
  moreover have "\<forall>(key, v)\<in>set (map ?g ms). valid_utf8 key \<and> json_ok v" using JObj by fastforce
  ultimately show ?case using \<open>distinct (map fst (sort_key fst (map ?g ms)))\<close> by simp
qed auto

section \<open>Properties\<close>

text \<open>C24. What the decoder returns is a well-formed document: every number is a JSON number literal, every
  string is valid UTF-8, the keys of an object are distinct and the nesting stays within the
  scanner's bound. Encoding it and decoding again gives the same document.\<close>

theorem decoded_well_formed:
  assumes "parse_json d s = Some v"
  shows "json_ok v \<and> depth v \<le> d \<and> parse_json d (encode_json v) = Some v"
  using parse_json_ok [OF assms] parse_json_encode by blast

theorem decoded_well_formed_witness:
  "parse_json 3 (encode_json (JArr [JNum ''1'', JNull])) = Some (JArr [JNum ''1'', JNull])"
proof -
  have "parse_json 3 '' [ 1,null ]'' = Some (JArr [JNum ''1'', JNull])" by code_simp
  from decoded_well_formed [OF this] show ?thesis by simp
qed


end
