(* ===== verification/TagProtect.thy ===== *)
theory TagProtect
  imports GoUtf8
begin

text \<open>
  \<open>internal/tagprotect\<close>: regions of custom (non-HTML5) tags are swapped for placeholders before the
  text is compressed and put back afterwards. Byte offsets are natural numbers; \<open>part\<close> is the slice
  \<open>text[a:b]\<close>. Logging is not modelled.
\<close>

section \<open>Strings\<close>

definition part :: "string \<Rightarrow> nat \<Rightarrow> nat \<Rightarrow> string" where
  "part s a b = take (b - a) (drop a s)"

text \<open>\<open>strings.ReplaceAll\<close>: leftmost occurrences that do not overlap; an empty pattern matches before
  every rune and at the end.\<close>

function replace_from :: "string \<Rightarrow> string \<Rightarrow> string \<Rightarrow> string" where
  "replace_from s old new =
     (if s = [] then []
      else if old \<noteq> [] \<and> has_prefix s old then new @ replace_from (drop (length old) s) old new
      else if old = [] then new @ take (rune_width s) s @ replace_from (drop (rune_width s) s) old new
      else hd s # replace_from (tl s) old new)"
  by pat_completeness auto

termination
  by (relation "measure (\<lambda>(s, old, new). length s)") (use rune_width_pos in \<open>force+\<close>)

declare replace_from.simps [simp del]

definition replace_string :: "string \<Rightarrow> string \<Rightarrow> string \<Rightarrow> string" where
  "replace_string s old new = replace_from s old new @ (if old = [] then new else [])"

section \<open>HTML tags\<close>

definition html5_allowlist_names :: "string list" where
  "html5_allowlist_names =
    [''html'', ''base'', ''head'', ''link'', ''meta'', ''style'', ''title'', ''body'', ''address'', ''article'', ''aside'',
     ''footer'', ''h1'', ''h2'', ''h3'', ''h4'', ''h5'', ''h6'', ''header'', ''hgroup'', ''main'', ''nav'', ''section'',
     ''search'', ''blockquote'', ''dd'', ''div'', ''dl'', ''dt'', ''figcaption'', ''figure'', ''hr'', ''li'', ''menu'',
     ''ol'', ''p'', ''pre'', ''ul'', ''a'', ''abbr'', ''b'', ''bdi'', ''bdo'', ''br'', ''cite'', ''code'', ''data'',
     ''dfn'', ''em'', ''i'', ''kbd'', ''mark'', ''q'', ''rp'', ''rt'', ''ruby'', ''s'', ''samp'', ''small'', ''span'',
     ''strong'', ''sub'', ''sup'', ''time'', ''u'', ''var'', ''wbr'', ''area'', ''audio'', ''img'', ''map'', ''track'',
     ''video'', ''embed'', ''iframe'', ''object'', ''param'', ''picture'', ''portal'', ''source'', ''svg'', ''math'',
     ''canvas'', ''noscript'', ''script'', ''del'', ''ins'', ''caption'', ''col'', ''colgroup'', ''table'', ''tbody'',
     ''td'', ''tfoot'', ''th'', ''thead'', ''tr'', ''button'', ''datalist'', ''fieldset'', ''form'', ''input'', ''label'',
     ''legend'', ''meter'', ''optgroup'', ''option'', ''output'', ''progress'', ''select'', ''textarea'', ''details'',
     ''dialog'', ''summary'', ''slot'', ''template'']"

text \<open>A tag name is ASCII, so \<open>strings.ToLower\<close> is \<open>ascii_lower\<close> on it.\<close>

definition is_known_html_tag :: "string \<Rightarrow> bool" where
  "is_known_html_tag name \<longleftrightarrow> ascii_lower name \<in> set html5_allowlist_names"

section \<open>The lexer\<close>

datatype tag_kind = NotTag | OpenTag | CloseTag

record parsed_tag =
  pt_kind :: tag_kind
  pt_name_start :: nat
  pt_name_end :: nat
  pt_tag_end :: nat
  pt_is_self_closing :: bool

definition not_tag :: parsed_tag where
  "not_tag = \<lparr>pt_kind = NotTag, pt_name_start = 0, pt_name_end = 0, pt_tag_end = 0, pt_is_self_closing = False\<rparr>"

definition is_name_start :: "char \<Rightarrow> bool" where
  "is_name_start b \<longleftrightarrow> is_alpha b \<or> b = CHR ''_''"

definition is_name_cont :: "char \<Rightarrow> bool" where
  "is_name_cont b \<longleftrightarrow> is_alpha b \<or> is_digit b \<or> b \<in> {CHR ''_'', CHR ''-'', CHR ''.'', CHR '':''}"

definition is_ascii_whitespace :: "char \<Rightarrow> bool" where
  "is_ascii_whitespace b \<longleftrightarrow> ord b \<in> {32, 9, 10, 13, 12, 11}"

text \<open>The loop \<open>for j < n && p(bytes[j]) { j++ }\<close>.\<close>

definition skip_while :: "(char \<Rightarrow> bool) \<Rightarrow> string \<Rightarrow> nat \<Rightarrow> nat" where
  "skip_while p s j = j + length (takeWhile p (drop j s))"

text \<open>The attributes of an open tag: where the tag ends and whether it closes itself; \<open>None\<close> when the
  text ends first. The first argument is the text from \<open>j\<close> on.\<close>

function scan_attrs :: "string \<Rightarrow> nat \<Rightarrow> (nat \<times> bool) option" where
  "scan_attrs [] j = None"
| "scan_attrs (b # s) j =
     (if b = CHR 0x22 \<or> b = CHR 0x27 then
        (let q = takeWhile (\<lambda>c. c \<noteq> b) s
         in if length s \<le> length q then None
            else scan_attrs (drop (length q + 1) s) (j + length q + 2))
      else if b = CHR ''/'' \<and> has_prefix s ''>'' then Some (j + 2, True)
      else if b = CHR ''>'' then Some (j + 1, False)
      else scan_attrs s (j + 1))"
  by pat_completeness auto

termination
  by (relation "measure (\<lambda>(s, j). length s)") auto

definition parse_tag_at :: "string \<Rightarrow> nat \<Rightarrow> parsed_tag" where
  "parse_tag_at text start =
     (let n = length text;
          is_close = (start + 1 < n \<and> text ! (start + 1) = CHR ''/'');
          name_start = (if is_close then start + 2 else start + 1) in
      if n \<le> name_start \<or> \<not> is_name_start (text ! name_start) then not_tag
      else
        (let name_end = skip_while is_name_cont text name_start in
         if is_close then
           (let j = skip_while is_ascii_whitespace text name_end
            in if j < n \<and> text ! j = CHR ''>''
               then \<lparr>pt_kind = CloseTag, pt_name_start = name_start, pt_name_end = name_end, pt_tag_end = j + 1,
                     pt_is_self_closing = False\<rparr>
               else not_tag)
         else
           (case scan_attrs (drop name_end text) name_end of
              None \<Rightarrow> not_tag
            | Some (tag_end, self_closing) \<Rightarrow>
                \<lparr>pt_kind = OpenTag, pt_name_start = name_start, pt_name_end = name_end, pt_tag_end = tag_end,
                  pt_is_self_closing = self_closing\<rparr>)))"

section \<open>The walk\<close>

record protect_stats =
  ps_tags_seen :: nat
  ps_html_tags_skipped :: nat
  ps_custom_blocks_protected :: nat
  ps_self_closing_protected :: nat
  ps_orphan_closes :: nat
  ps_placeholder_collision_avoided :: bool

datatype span_kind = KindBlock | KindSelfClosing | KindOpenMarker | KindCloseMarker

record span =
  sp_start :: nat
  sp_end :: nat
  sp_kind :: span_kind

record open_tag =
  ot_name_lower :: string
  ot_open_start :: nat

text \<open>The variables of the loop; the top of the stack is the last element.\<close>

record tag_walk =
  ws_spans :: "span list"
  ws_stack :: "open_tag list"
  ws_stats :: protect_stats

text \<open>The search of the stack from its top.\<close>

definition match_index :: "open_tag list \<Rightarrow> string \<Rightarrow> nat option" where
  "match_index stack name = find (\<lambda>k. ot_name_lower (stack ! k) = name) (rev [0..<length stack])"

definition handle_open :: "bool \<Rightarrow> nat \<Rightarrow> parsed_tag \<Rightarrow> string \<Rightarrow> tag_walk \<Rightarrow> tag_walk" where
  "handle_open compress_tagged i tag name w =
     (if pt_is_self_closing tag
      then w\<lparr>ws_spans := ws_spans w @ [\<lparr>sp_start = i, sp_end = pt_tag_end tag, sp_kind = KindSelfClosing\<rparr>],
             ws_stats := (ws_stats w)\<lparr>ps_self_closing_protected := ps_self_closing_protected (ws_stats w) + 1\<rparr>\<rparr>
      else
        (let w' = (if compress_tagged
                   then w\<lparr>ws_spans := ws_spans w @ [\<lparr>sp_start = i, sp_end = pt_tag_end tag, sp_kind = KindOpenMarker\<rparr>]\<rparr>
                   else w)
         in w'\<lparr>ws_stack := ws_stack w @ [\<lparr>ot_name_lower = name, ot_open_start = i\<rparr>]\<rparr>))"

definition handle_close :: "bool \<Rightarrow> nat \<Rightarrow> parsed_tag \<Rightarrow> string \<Rightarrow> tag_walk \<Rightarrow> tag_walk" where
  "handle_close compress_tagged i tag name w =
     (case match_index (ws_stack w) name of
        None \<Rightarrow> w\<lparr>ws_stats := (ws_stats w)\<lparr>ps_orphan_closes := ps_orphan_closes (ws_stats w) + 1\<rparr>\<rparr>
      | Some k \<Rightarrow>
          (let start = ot_open_start (ws_stack w ! k); w' = w\<lparr>ws_stack := take k (ws_stack w)\<rparr> in
           if compress_tagged
           then w'\<lparr>ws_spans := ws_spans w @ [\<lparr>sp_start = i, sp_end = pt_tag_end tag, sp_kind = KindCloseMarker\<rparr>]\<rparr>
           else w'\<lparr>ws_spans := filter (\<lambda>s. sp_start s < start) (ws_spans w)
                                 @ [\<lparr>sp_start = start, sp_end = pt_tag_end tag, sp_kind = KindBlock\<rparr>],
                   ws_stats := (ws_stats w)\<lparr>ps_custom_blocks_protected := ps_custom_blocks_protected (ws_stats w) + 1\<rparr>\<rparr>))"

definition handle_tag :: "string \<Rightarrow> bool \<Rightarrow> nat \<Rightarrow> parsed_tag \<Rightarrow> tag_walk \<Rightarrow> tag_walk" where
  "handle_tag text compress_tagged i tag w =
     (let name = ascii_lower (part text (pt_name_start tag) (pt_name_end tag));
          w' = w\<lparr>ws_stats := (ws_stats w)\<lparr>ps_tags_seen := ps_tags_seen (ws_stats w) + 1\<rparr>\<rparr> in
      if is_known_html_tag name
      then w'\<lparr>ws_stats := (ws_stats w')\<lparr>ps_html_tags_skipped := ps_html_tags_skipped (ws_stats w') + 1\<rparr>\<rparr>
      else (case pt_kind tag of
              OpenTag \<Rightarrow> handle_open compress_tagged i tag name w'
            | CloseTag \<Rightarrow> handle_close compress_tagged i tag name w'
            | NotTag \<Rightarrow> w'))"

text \<open>A tag ends behind its start and inside the text, so the walk advances.\<close>

lemma scan_attrs_end: "scan_attrs s j = Some (e, self) \<Longrightarrow> j < e \<and> e \<le> j + length s"
proof (induction s j rule: scan_attrs.induct)
  case (2 b s j)
  show ?case
  proof (cases "b = CHR 0x22 \<or> b = CHR 0x27")
    case True
    then show ?thesis using 2 by (fastforce simp: Let_def split: if_splits)
  next
    case False
    then show ?thesis using 2 by (auto split: if_splits dest: has_prefix_length)
  qed
qed simp

lemma skip_while_ge: "j \<le> skip_while p s j" "j \<le> length s \<Longrightarrow> skip_while p s j \<le> length s"
  using length_takeWhile_le [of p "drop j s"] by (auto simp: skip_while_def)

lemma parse_tag_at_end:
  assumes "pt_kind (parse_tag_at text i) \<noteq> NotTag"
  shows "i < pt_tag_end (parse_tag_at text i)" and "pt_tag_end (parse_tag_at text i) \<le> length text"
proof -
  let ?t = "parse_tag_at text i"
  have "i < pt_tag_end ?t \<and> pt_tag_end ?t \<le> length text"
  proof -
    define is_close where "is_close = (i + 1 < length text \<and> text ! (i + 1) = CHR ''/'')"
    define ns where "ns = (if is_close then i + 2 else i + 1)"
    define ne where "ne = skip_while is_name_cont text ns"
    have ns: "ns < length text" using assms unfolding parse_tag_at_def Let_def is_close_def [symmetric] ns_def [symmetric]
      by (auto simp: not_tag_def split: if_splits)
    have ne: "ns \<le> ne" "ne \<le> length text" using skip_while_ge ns by (auto simp: ne_def)
    have i: "i < ns" by (simp add: ns_def)
    show ?thesis
    proof (cases is_close)
      case True
      have "ne \<le> skip_while is_ascii_whitespace text ne" by (rule skip_while_ge)
      then show ?thesis
        using assms i ne True
        unfolding parse_tag_at_def Let_def is_close_def [symmetric] ns_def [symmetric] ne_def [symmetric]
        by (auto simp: not_tag_def split: if_splits)
    next
      case False
      then show ?thesis
        using assms i ne
        unfolding parse_tag_at_def Let_def is_close_def [symmetric] ns_def [symmetric] ne_def [symmetric]
        by (auto simp: not_tag_def split: if_splits option.splits dest!: scan_attrs_end)
    qed
  qed
  then show "i < pt_tag_end ?t" "pt_tag_end ?t \<le> length text" by simp_all
qed

function walk_tags :: "string \<Rightarrow> bool \<Rightarrow> nat \<Rightarrow> tag_walk \<Rightarrow> tag_walk" where
  "walk_tags text compress_tagged i w =
     (if length text \<le> i then w
      else if text ! i \<noteq> CHR ''<'' then walk_tags text compress_tagged (i + 1) w
      else (let tag = parse_tag_at text i
            in if pt_kind tag = NotTag then walk_tags text compress_tagged (i + 1) w
               else walk_tags text compress_tagged (pt_tag_end tag) (handle_tag text compress_tagged i tag w)))"
  by pat_completeness auto

termination
  by (relation "measure (\<lambda>(text, c, i, w). length text - i)") (auto dest!: parse_tag_at_end(1))

declare walk_tags.simps [simp del]

section \<open>Placeholders\<close>

definition default_prefix :: string where "default_prefix = ''{{HEADROOM_TAG_''"

definition placeholder_suffix :: string where "placeholder_suffix = ''}}''"

definition fallback_prefix :: string where "fallback_prefix = ''{{HEADROOM_TAG_FALLBACK_a4f1c7e2_''"

definition salt_attempts :: nat where "salt_attempts = 16"

definition salted :: "nat \<Rightarrow> string" where "salted n = ''{{HEADROOM_TAG_'' @ utoa n @ ''_''"

definition choose_prefix :: "string \<Rightarrow> string \<times> bool" where
  "choose_prefix text =
     (if \<not> contains text default_prefix then (default_prefix, False)
      else (case find (\<lambda>n. \<not> contains text (salted n)) [0..<salt_attempts] of
              Some n \<Rightarrow> (salted n, True)
            | None \<Rightarrow> (fallback_prefix, True)))"

text \<open>Stage 2: the text with a placeholder for each span, and the pairs to restore.\<close>

fun emit :: "string \<Rightarrow> string \<Rightarrow> nat \<Rightarrow> nat \<Rightarrow> span list \<Rightarrow> string \<times> (string \<times> string) list" where
  "emit text prefix counter cursor [] = (drop cursor text, [])"
| "emit text prefix counter cursor (s # ss) =
     (let placeholder = prefix @ utoa counter @ placeholder_suffix;
          (out, blocks) = emit text prefix (counter + 1) (sp_end s) ss
      in (part text cursor (sp_start s) @ placeholder @ out,
          (placeholder, part text (sp_start s) (sp_end s)) # blocks))"

definition no_stats :: protect_stats where
  "no_stats = \<lparr>ps_tags_seen = 0, ps_html_tags_skipped = 0, ps_custom_blocks_protected = 0,
     ps_self_closing_protected = 0, ps_orphan_closes = 0, ps_placeholder_collision_avoided = False\<rparr>"

definition protect_tags :: "string \<Rightarrow> bool \<Rightarrow> string \<times> (string \<times> string) list \<times> protect_stats" where
  "protect_tags text compress_tagged =
     (if text = [] \<or> \<not> contains text ''<'' then (text, [], no_stats)
      else
        (let (prefix, collision) = choose_prefix text;
             w = walk_tags text compress_tagged 0
                   \<lparr>ws_spans = [], ws_stack = [], ws_stats = no_stats\<lparr>ps_placeholder_collision_avoided := collision\<rparr>\<rparr>
         in if ws_spans w = [] then (text, [], ws_stats w)
            else (let (out, blocks) = emit text prefix 0 0 (ws_spans w) in (out, blocks, ws_stats w))))"

fun restore_tags :: "string \<Rightarrow> (string \<times> string) list \<Rightarrow> string" where
  "restore_tags working [] = working"
| "restore_tags working ((placeholder, original) # bs) =
     restore_tags (if contains working placeholder then replace_string working placeholder original else working) bs"

end
