(* ===== verification/TagProtectProps.thy ===== *)
theory TagProtectProps
  imports TagProtect
begin

text \<open>
  Protecting and restoring tags is the identity: the walk yields disjoint spans in order, a
  placeholder occurs nowhere else in the protected text, and so each restoration step puts one
  original back in its place.
\<close>

section \<open>Replacing one occurrence\<close>

lemma contains_at: "contains s p \<longleftrightarrow> (\<exists>t\<le>length s. has_prefix (drop t s) p)"
proof
  assume "contains s p"
  then obtain u v where "s = u @ p @ v" by (auto simp: contains_iff)
  then show "\<exists>t\<le>length s. has_prefix (drop t s) p" by (intro exI [of _ "length u"]) simp
next
  assume "\<exists>t\<le>length s. has_prefix (drop t s) p"
  then obtain t r where "drop t s = p @ r" by (auto simp: has_prefix_iff)
  then have "s = take t s @ p @ r" by (metis append_take_drop_id)
  then show "contains s p" by (auto simp: contains_iff)
qed

lemma has_prefix_nth: "has_prefix s p \<Longrightarrow> i < length p \<Longrightarrow> s ! i = p ! i"
  by (auto simp: has_prefix_iff nth_append)

lemma contains_sub: "contains s p \<Longrightarrow> contains (u @ s @ v) p"
proof -
  assume "contains s p"
  then obtain a b where "s = a @ p @ b" by (auto simp: contains_iff)
  then have "u @ s @ v = (u @ a) @ p @ (b @ v)" by simp
  then show ?thesis unfolding contains_iff by blast
qed

lemma contains_part: "contains (part s a b) p \<Longrightarrow> contains s p"
proof -
  assume "contains (part s a b) p"
  then have "contains (take a s @ part s a b @ drop (b - a) (drop a s)) p" by (rule contains_sub)
  then show ?thesis unfolding part_def by (simp only: append_take_drop_id)
qed

lemma contains_drop: "contains (drop a s) p \<Longrightarrow> contains s p"
  using contains_sub [of "drop a s" p "take a s" "[]"] by simp

lemma contains_prefix_of: "contains s (p @ q) \<Longrightarrow> contains s p"
  unfolding contains_iff by (metis append.assoc)

lemma replace_none: "old \<noteq> [] \<Longrightarrow> \<not> contains s old \<Longrightarrow> replace_from s old new = s"
proof (induction s)
  case (Cons c s)
  then show ?case by (subst replace_from.simps) auto
qed (simp add: replace_from.simps)

lemma replace_once:
  assumes "p \<noteq> []" and "\<And>t. t < length a \<Longrightarrow> \<not> has_prefix (drop t (a @ p @ b)) p" and "\<not> contains b p"
  shows "replace_from (a @ p @ b) p new = a @ new @ b"
  using assms(2)
proof (induction a)
  case Nil
  have "replace_from (p @ b) p new = new @ replace_from (drop (length p) (p @ b)) p new"
    using assms(1) by (subst replace_from.simps) simp
  then show ?case using replace_none [OF assms(1,3)] by simp
next
  case (Cons c a)
  have "\<not> has_prefix ((c # a) @ p @ b) p" using Cons.prems [of 0] by simp
  moreover have "replace_from (a @ p @ b) p new = a @ new @ b"
    by (rule Cons.IH) (use Cons.prems [of "Suc t" for t] in simp)
  ultimately show ?case using assms(1) by (subst replace_from.simps) simp
qed

section \<open>Where a placeholder occurs\<close>

definition placeholder :: "string \<Rightarrow> nat \<Rightarrow> string" where
  "placeholder prefix k = prefix @ utoa k @ placeholder_suffix"

definition good_prefix :: "string \<Rightarrow> bool" where
  "good_prefix p \<longleftrightarrow> (\<exists>x. p = ''{{H'' @ x \<and> CHR ''{'' \<notin> set x)"

lemma digits_no_brace: "CHR ''{'' \<notin> set (utoa k)"
  using utoa_digits [of k] by (auto simp: list_all_iff is_digit_def)

lemma placeholder_nth:
  assumes "good_prefix p"
  shows "3 \<le> length p" "placeholder p k ! 0 = CHR ''{''" "placeholder p k ! 1 = CHR ''{''"
    "placeholder p k ! 2 = CHR ''H''"
    "i < length (placeholder p k) \<Longrightarrow> 2 \<le> i \<Longrightarrow> placeholder p k ! i \<noteq> CHR ''{''"
proof -
  obtain x where x: "p = ''{{H'' @ x" "CHR ''{'' \<notin> set x" using assms by (auto simp: good_prefix_def)
  define y where "y = x @ utoa k @ placeholder_suffix"
  have y: "placeholder p k = CHR ''{'' # CHR ''{'' # CHR ''H'' # y" by (simp add: placeholder_def x y_def)
  have ny: "CHR ''{'' \<notin> set y" using x(2) digits_no_brace by (simp add: y_def placeholder_suffix_def)
  show "3 \<le> length p" by (simp add: x)
  show "placeholder p k ! 0 = CHR ''{''" "placeholder p k ! 1 = CHR ''{''" "placeholder p k ! 2 = CHR ''H''"
    by (simp_all add: y)
  show "placeholder p k ! i \<noteq> CHR ''{''" if "i < length (placeholder p k)" "2 \<le> i"
  proof (cases "i = 2")
    case False
    then have "placeholder p k ! i = y ! (i - 3)" "i - 3 < length y" using that by (auto simp: y nth_Cons' numeral_eq_Suc)
    then show ?thesis using ny by (metis nth_mem)
  qed (simp add: y)
qed

lemma placeholder_inject: "has_prefix (placeholder p j @ z) (placeholder p k) \<Longrightarrow> j = k"
proof -
  assume "has_prefix (placeholder p j @ z) (placeholder p k)"
  then obtain r where "utoa j @ placeholder_suffix @ z = utoa k @ placeholder_suffix @ r"
    by (auto simp: has_prefix_iff placeholder_def)
  then have "takeWhile is_digit (utoa j @ placeholder_suffix @ z) = takeWhile is_digit (utoa k @ placeholder_suffix @ r)" by simp
  moreover have "takeWhile is_digit (utoa i @ placeholder_suffix @ w) = utoa i" for i w
    using utoa_digits [of i] by (subst takeWhile_append2) (auto simp: list_all_iff placeholder_suffix_def is_digit_def)
  ultimately show "j = k" using utoa_inject by simp
qed

text \<open>In a text that does not name the prefix, a placeholder occurs only where it was written.\<close>

lemma placeholder_occurs:
  assumes good: "good_prefix p" and g: "\<not> contains g p"
    and at: "has_prefix (drop t (g @ placeholder p j @ z)) (placeholder p k)" and t: "t < length g + length (placeholder p j)"
  shows "t = length g \<and> j = k"
proof -
  let ?q = "placeholder p j" and ?r = "placeholder p k" and ?w = "g @ placeholder p j @ z"
  note nth = placeholder_nth [OF good]
  have lens: "3 < length ?q" "length p < length ?q" "3 < length ?r" "length p < length ?r" using nth(1)
    by (auto simp: placeholder_def placeholder_suffix_def)
  have len: "t + length ?r \<le> length ?w" using has_prefix_length [OF at] lens by simp
  have w: "?w ! (t + i) = ?r ! i" if "i < length ?r" for i
  proof -
    have "drop t ?w ! i = ?w ! (t + i)" by (rule nth_drop) (use len in simp)
    then show ?thesis using has_prefix_nth [OF at that] by simp
  qed
  consider "t < length g" | "t = length g" | "length g < t" by linarith
  then show ?thesis
  proof cases
    case 1
    define d where "d = length g - t"
    have d: "0 < d" "t + d = length g" using 1 by (auto simp: d_def)
    have small: "d < length p"
    proof (rule ccontr)
      assume "\<not> d < length p"
      then have short: "length p \<le> length (drop t g)" using d by simp
      obtain u where "drop t ?w = ?r @ u" using at by (auto simp: has_prefix_iff)
      then have "take (length p) (drop t ?w) = p" by (simp add: placeholder_def)
      then have "has_prefix (drop t g) p" using short by (simp add: has_prefix_take)
      then show False using g 1 by (auto simp: contains_at intro: exI [of _ t])
    qed
    have "?q \<noteq> []" using lens by auto
    then have "?r ! d = ?q ! 0" using w [of d] small lens d by (simp add: nth_append)
    then have "d = 1" using nth(2) [of j] nth(5) [of d k] small lens d by (cases "2 \<le> d") auto
    then have "?r ! 2 = ?q ! 1" using w [of 2] lens d by (simp add: nth_append)
    then show ?thesis using nth(3,4) by simp
  next
    case 2
    then show ?thesis using at placeholder_inject by simp
  next
    case 3
    define d where "d = t - length g"
    have d: "0 < d" "t = length g + d" "d < length ?q" using 3 t by (auto simp: d_def)
    have "?r \<noteq> []" using lens by auto
    then have "?q ! d = ?r ! 0" using w [of 0] d by (simp add: nth_append)
    then have "d = 1" using nth(2) [of k] nth(5) [of d j] d by (cases "2 \<le> d") auto
    then have "?q ! 2 = ?r ! 1" using w [of 1] lens d by (simp add: nth_append)
    then show ?thesis using nth(3,4) by simp
  qed
qed

lemma emit_no_placeholder:
  assumes good: "good_prefix p" and g: "\<not> contains text p"
  shows "k < j \<Longrightarrow> \<not> contains (fst (emit text p j cursor ss)) (placeholder p k)"
proof (induction ss arbitrary: j cursor)
  case Nil
  have "\<not> contains (drop cursor text) (placeholder p k)"
    using g contains_drop [of cursor "text" p] contains_prefix_of [of "drop cursor text" p] unfolding placeholder_def by blast
  then show ?case by simp
next
  case (Cons s ss)
  let ?g = "part text cursor (sp_start s)" and ?z = "fst (emit text p (j + 1) (sp_end s) ss)"
  have eq: "fst (emit text p j cursor (s # ss)) = ?g @ placeholder p j @ ?z"
    by (simp add: placeholder_def Let_def split: prod.split)
  show ?case
  proof
    assume "contains (fst (emit text p j cursor (s # ss))) (placeholder p k)"
    then obtain t where t: "has_prefix (drop t (?g @ placeholder p j @ ?z)) (placeholder p k)"
      unfolding eq by (auto simp: contains_at)
    show False
    proof (cases "t < length ?g + length (placeholder p j)")
      case True
      have "\<not> contains ?g p" using g contains_part by blast
      then show False using placeholder_occurs [OF good _ t True] Cons.prems by simp
    next
      case False
      then have "has_prefix (drop (t - length ?g - length (placeholder p j)) ?z) (placeholder p k)" using t by simp
      then obtain u where "drop (t - length ?g - length (placeholder p j)) ?z = placeholder p k @ u"
        by (auto simp: has_prefix_iff)
      then have "contains ?z (placeholder p k)" using contains_drop [of _ ?z] contains_middle [of "[]"] by (metis append_Nil)
      then show False using Cons.IH Cons.prems by simp
    qed
  qed
qed

section \<open>Restoring\<close>

fun spans_in :: "nat \<Rightarrow> span list \<Rightarrow> nat \<Rightarrow> bool" where
  "spans_in cursor [] n = (cursor \<le> n)"
| "spans_in cursor (s # ss) n = (cursor \<le> sp_start s \<and> sp_start s < sp_end s \<and> spans_in (sp_end s) ss n)"

lemma spans_in_le: "spans_in cursor ss n \<Longrightarrow> cursor \<le> n"
  by (induction cursor ss n rule: spans_in.induct) auto

lemma part_take: "a \<le> b \<Longrightarrow> take a s @ part s a b = take b s"
  by (simp add: part_def take_add [symmetric])

lemma restore_emit:
  assumes good: "good_prefix p" and g: "\<not> contains text p"
  shows "spans_in cursor ss (length text) \<Longrightarrow>
    restore_tags (take cursor text @ fst (emit text p k cursor ss)) (snd (emit text p k cursor ss)) = text"
proof (induction ss arbitrary: k cursor)
  case (Cons s ss)
  let ?q = "placeholder p k" and ?z = "fst (emit text p (k + 1) (sp_end s) ss)"
  let ?a = "take (sp_start s) text" and ?o = "part text (sp_start s) (sp_end s)"
  have eq: "emit text p k cursor (s # ss)
      = (part text cursor (sp_start s) @ ?q @ ?z, (?q, ?o) # snd (emit text p (k + 1) (sp_end s) ss))"
    by (simp add: placeholder_def Let_def split: prod.split)
  have sp: "cursor \<le> sp_start s" "sp_start s \<le> sp_end s" using Cons.prems by auto
  have w: "take cursor text @ part text cursor (sp_start s) @ ?q @ ?z = ?a @ ?q @ ?z"
    using part_take [OF sp(1), of "text"] by (metis append.assoc)
  have ga: "\<not> contains ?a p" using g contains_sub [of ?a p "[]" "drop (sp_start s) text"] by auto
  have "replace_from (?a @ ?q @ ?z) ?q ?o = ?a @ ?o @ ?z"
  proof (rule replace_once)
    show "?q \<noteq> []" by (simp add: placeholder_def placeholder_suffix_def)
    show "\<not> contains ?z ?q" by (rule emit_no_placeholder [OF good g]) simp
    show "\<not> has_prefix (drop t (?a @ ?q @ ?z)) ?q" if "t < length ?a" for t
      using placeholder_occurs [OF good ga, of t k ?z k] that by fastforce
  qed
  moreover have "?q \<noteq> []" by (simp add: placeholder_def placeholder_suffix_def)
  moreover have o: "?a @ ?o @ ?z = take (sp_end s) text @ ?z" using part_take [OF sp(2), of "text"] by (metis append.assoc)
  ultimately have "replace_string (?a @ ?q @ ?z) ?q ?o = take (sp_end s) text @ ?z" by (simp only: replace_string_def if_False append_Nil2)
  then have "restore_tags (?a @ ?q @ ?z) ((?q, ?o) # snd (emit text p (k + 1) (sp_end s) ss))
      = restore_tags (take (sp_end s) text @ ?z) (snd (emit text p (k + 1) (sp_end s) ss))"
    by (simp only: restore_tags.simps contains_middle if_True)
  then show ?case unfolding eq fst_conv snd_conv w using Cons.IH Cons.prems by simp
qed simp

section \<open>The walk\<close>

text \<open>The spans are in order and disjoint and lie before \<open>i\<close>; so do the open tags of the stack, bottom up. In
  block mode no span of the list straddles an open tag.\<close>

definition walk_inv :: "bool \<Rightarrow> nat \<Rightarrow> tag_walk \<Rightarrow> bool" where
  "walk_inv compress_tagged i w \<longleftrightarrow>
     sorted_wrt (\<lambda>a b. sp_end a \<le> sp_start b) (ws_spans w)
   \<and> (\<forall>s\<in>set (ws_spans w). sp_start s < sp_end s \<and> sp_end s \<le> i)
   \<and> sorted_wrt (\<lambda>a b. ot_open_start a < ot_open_start b) (ws_stack w)
   \<and> (\<forall>o'\<in>set (ws_stack w). ot_open_start o' < i)
   \<and> (\<not> compress_tagged \<longrightarrow>
        (\<forall>o'\<in>set (ws_stack w). \<forall>s\<in>set (ws_spans w). sp_end s \<le> ot_open_start o' \<or> ot_open_start o' < sp_start s))"

lemma walk_inv_mono: "walk_inv c i w \<Longrightarrow> i \<le> j \<Longrightarrow> walk_inv c j w"
  unfolding walk_inv_def by fastforce

lemma walk_inv_stats [simp]: "walk_inv c i (w\<lparr>ws_stats := x\<rparr>) = walk_inv c i w"
  by (simp add: walk_inv_def)

lemma handle_open_inv:
  assumes "walk_inv c i w" and "i < pt_tag_end tag"
  shows "walk_inv c (pt_tag_end tag) (handle_open c i tag name w)"
proof (cases "pt_is_self_closing tag \<or> c")
  case True
  then show ?thesis using assms unfolding walk_inv_def handle_open_def Let_def
    by (cases "pt_is_self_closing tag") (auto simp: sorted_wrt_append dest: order_trans less_imp_le)
next
  case False
  then show ?thesis using assms unfolding walk_inv_def handle_open_def Let_def
    by (auto simp: sorted_wrt_append dest: order_trans less_imp_le)
qed

lemma match_index_bound: "match_index stack name = Some k \<Longrightarrow> k < length stack"
  proof -
  assume "match_index stack name = Some k"
  then obtain i where "i < length (rev [0..<length stack])" "k = rev [0..<length stack] ! i"
    unfolding match_index_def find_Some_iff by blast
  then have "k \<in> set (rev [0..<length stack])" by (simp only: nth_mem)
  then show ?thesis by simp
qed

lemma handle_close_inv:
  assumes inv: "walk_inv c i w" and i: "i < pt_tag_end tag"
  shows "walk_inv c (pt_tag_end tag) (handle_close c i tag name w)"
proof (cases "match_index (ws_stack w) name")
  case None
  then show ?thesis using walk_inv_mono [OF inv] i by (simp add: handle_close_def)
next
  case (Some k)
  define start where "start = ot_open_start (ws_stack w ! k)"
  have k: "k < length (ws_stack w)" using Some by (rule match_index_bound)
  have start: "start < i" using inv k by (auto simp: walk_inv_def start_def)
  have below: "ot_open_start o' < start" if "o' \<in> set (take k (ws_stack w))" for o'
    using inv k that by (auto simp: walk_inv_def start_def in_set_conv_nth sorted_wrt_iff_nth_less)
  have keeps: "sp_end s \<le> start" if "s \<in> set (ws_spans w)" "sp_start s < start" "\<not> c" for s
    using inv k that by (force simp: walk_inv_def start_def)
  have stack: "sorted_wrt (\<lambda>a b. ot_open_start a < ot_open_start b) (take k (ws_stack w))"
    using inv by (simp add: walk_inv_def sorted_wrt_take)
  have sub: "set (take k (ws_stack w)) \<subseteq> set (ws_stack w)" by (rule set_take_subset)
  show ?thesis
  proof (cases c)
    case True
    then show ?thesis using inv i stack sub Some unfolding walk_inv_def handle_close_def Let_def
      by (fastforce simp: sorted_wrt_append)
  next
    case False
    define old where "old = filter (\<lambda>s. sp_start s < start) (ws_spans w)"
    have "sorted_wrt (\<lambda>a b. sp_end a \<le> sp_start b) old" using inv by (simp add: walk_inv_def old_def sorted_wrt_filter)
    moreover have "\<forall>s\<in>set old. sp_start s < sp_end s \<and> sp_end s \<le> start" using inv keeps False by (auto simp: old_def walk_inv_def)
    moreover have "\<forall>o'\<in>set (take k (ws_stack w)). \<forall>s\<in>set old. sp_end s \<le> ot_open_start o' \<or> ot_open_start o' < sp_start s"
      using inv sub False by (auto simp: old_def walk_inv_def)
    moreover have "handle_close c i tag name w = w\<lparr>ws_stack := take k (ws_stack w),
        ws_spans := old @ [\<lparr>sp_start = start, sp_end = pt_tag_end tag, sp_kind = KindBlock\<rparr>],
        ws_stats := (ws_stats w)\<lparr>ps_custom_blocks_protected := ps_custom_blocks_protected (ws_stats w) + 1\<rparr>\<rparr>"
      using Some False by (simp add: handle_close_def Let_def old_def start_def)
    ultimately show ?thesis using start i below stack unfolding walk_inv_def by (fastforce simp: sorted_wrt_append)
  qed
qed

lemma handle_tag_inv:
  assumes "walk_inv c i w" and "i < pt_tag_end tag"
  shows "walk_inv c (pt_tag_end tag) (handle_tag text c i tag w)"
proof -
  have "walk_inv c (pt_tag_end tag) w" using assms walk_inv_mono by simp
  then show ?thesis
    unfolding handle_tag_def Let_def using assms
    by (auto split: tag_kind.split intro!: handle_open_inv handle_close_inv)
qed

lemma walk_spans: "walk_inv c i w \<Longrightarrow> i \<le> length text \<Longrightarrow> walk_inv c (length text) (walk_tags text c i w)"
proof (induction "text" c i w rule: walk_tags.induct)
  case (1 tx c i w)
  show ?case
  proof (cases "length tx \<le> i \<or> tx ! i \<noteq> CHR ''<'' \<or> pt_kind (parse_tag_at tx i) = NotTag")
    case True
    then show ?thesis using 1 walk_inv_mono [OF 1(4), of "i + 1"] by (subst walk_tags.simps) (auto simp: Let_def)
  next
    case False
    then show ?thesis
      using 1 parse_tag_at_end [of tx i] handle_tag_inv [OF 1(4), of "parse_tag_at tx i" tx]
      by (subst walk_tags.simps) (auto simp: Let_def)
  qed
qed

lemma spans_in_sorted:
  "sorted_wrt (\<lambda>a b. sp_end a \<le> sp_start b) ss \<Longrightarrow> \<forall>s\<in>set ss. cursor \<le> sp_start s \<and> sp_start s < sp_end s \<and> sp_end s \<le> n \<Longrightarrow>
   cursor \<le> n \<Longrightarrow> spans_in cursor ss n"
  by (induction ss arbitrary: cursor) auto

lemma walk_spans_in:
  "spans_in 0 (ws_spans (walk_tags text c 0 \<lparr>ws_spans = [], ws_stack = [], ws_stats = st\<rparr>)) (length text)"
proof -
  have "walk_inv c 0 \<lparr>ws_spans = [], ws_stack = [], ws_stats = st\<rparr>" by (simp add: walk_inv_def)
  from walk_spans [OF this, of "text"] show ?thesis by (intro spans_in_sorted) (auto simp: walk_inv_def)
qed

section \<open>Choosing the prefix\<close>

lemma salted_good: "good_prefix (salted n)"
  unfolding good_prefix_def salted_def
  by (rule exI [of _ "''EADROOM_TAG_'' @ utoa n @ ''_''"]) (simp add: digits_no_brace)

lemma choose_prefix_good: "good_prefix (fst (choose_prefix text))"
proof -
  have "good_prefix default_prefix" "good_prefix fallback_prefix"
    by (auto simp: good_prefix_def default_prefix_def fallback_prefix_def)
  then show ?thesis by (auto simp: choose_prefix_def salted_good split: option.split)
qed

lemma choose_prefix_fresh:
  "\<not> contains text fallback_prefix \<Longrightarrow> \<not> contains text (fst (choose_prefix text))"
  by (auto simp: choose_prefix_def find_Some_iff split: option.split)

section \<open>Properties\<close>

text \<open>C28. Tag protection is reversible: restoring the protected text gives the input back byte for byte, in both
  modes, for nested, unclosed and orphan tags alike, and the chosen prefix does not occur in the
  input. The one input this excludes names the fallback prefix itself.\<close>

theorem tag_protection_roundtrip:
  assumes "\<not> contains text fallback_prefix" and "protect_tags text compress_tagged = (out, blocks, stats)"
  shows "restore_tags out blocks = text \<and> \<not> contains text (fst (choose_prefix text))"
proof -
  obtain p collision where p: "choose_prefix text = (p, collision)" by fastforce
  have good: "good_prefix p" and fresh: "\<not> contains text p"
    using choose_prefix_good [of "text"] choose_prefix_fresh [OF assms(1)] p by simp_all
  define w where "w = walk_tags text compress_tagged 0
      \<lparr>ws_spans = [], ws_stack = [], ws_stats = no_stats\<lparr>ps_placeholder_collision_avoided := collision\<rparr>\<rparr>"
  have "restore_tags (take 0 text @ fst (emit text p 0 0 (ws_spans w))) (snd (emit text p 0 0 (ws_spans w))) = text"
    unfolding w_def by (rule restore_emit [OF good fresh walk_spans_in])
  then have "restore_tags out blocks = text"
    using assms(2) by (auto simp: protect_tags_def p Let_def w_def [symmetric] split: if_splits prod.splits)
  then show ?thesis using fresh p by simp
qed

theorem tag_protection_roundtrip_witness:
  "protect_tags ''see <tool>a<b>x</b></tool> {{HEADROOM_TAG_ <br> <end/>'' False
     = (''see {{HEADROOM_TAG_0_0}} {{HEADROOM_TAG_ <br> {{HEADROOM_TAG_0_1}}'',
        [(''{{HEADROOM_TAG_0_0}}'', ''<tool>a<b>x</b></tool>''), (''{{HEADROOM_TAG_0_1}}'', ''<end/>'')],
        \<lparr>ps_tags_seen = 6, ps_html_tags_skipped = 3, ps_custom_blocks_protected = 1, ps_self_closing_protected = 1,
         ps_orphan_closes = 0, ps_placeholder_collision_avoided = True\<rparr>)
   \<and> restore_tags ''see {{HEADROOM_TAG_0_0}} {{HEADROOM_TAG_ <br> {{HEADROOM_TAG_0_1}}''
        [(''{{HEADROOM_TAG_0_0}}'', ''<tool>a<b>x</b></tool>''), (''{{HEADROOM_TAG_0_1}}'', ''<end/>'')]
     = ''see <tool>a<b>x</b></tool> {{HEADROOM_TAG_ <br> <end/>''"
proof -
  have run: "protect_tags ''see <tool>a<b>x</b></tool> {{HEADROOM_TAG_ <br> <end/>'' False
     = (''see {{HEADROOM_TAG_0_0}} {{HEADROOM_TAG_ <br> {{HEADROOM_TAG_0_1}}'',
        [(''{{HEADROOM_TAG_0_0}}'', ''<tool>a<b>x</b></tool>''), (''{{HEADROOM_TAG_0_1}}'', ''<end/>'')],
        \<lparr>ps_tags_seen = 6, ps_html_tags_skipped = 3, ps_custom_blocks_protected = 1, ps_self_closing_protected = 1,
         ps_orphan_closes = 0, ps_placeholder_collision_avoided = True\<rparr>)" by code_simp
  have "\<not> contains ''see <tool>a<b>x</b></tool> {{HEADROOM_TAG_ <br> <end/>'' fallback_prefix" by code_simp
  from tag_protection_roundtrip [OF this run] run show ?thesis by blast
qed

end
