(* ===== verification/GoFloat.thy ===== *)
theory GoFloat
  imports Complex_Main "HOL-Library.Log_Nat"
begin

text \<open>
  Go's \<open>float64\<close> and \<open>float32\<close>: IEEE 754 values as rationals, and rounding to nearest, ties to
  even, at 53 or 24 significant bits. Every operation of the code is the exact rational
  operation followed by one rounding. The exponent range is not bounded: the program's floats
  are ratios and weights of counts below \<open>2^53\<close>, far from overflow and underflow, and it
  never divides by zero (each division is guarded). Fused multiply-add is not used.
\<close>

section \<open>Rounding\<close>

definition rne :: "rat \<Rightarrow> int" where
  "rne x = (let f = \<lfloor>x\<rfloor>; d = x - of_int f
            in if d < 1/2 then f else if 1/2 < d then f + 1 else if even f then f else f + 1)"

text \<open>The binary exponent: \<open>2^e \<le> x < 2^(e+1)\<close> for positive \<open>x\<close>.\<close>

definition expo :: "rat \<Rightarrow> int" where
  "expo x = (if 1 \<le> x then int (floorlog 2 (nat \<lfloor>x\<rfloor>)) - 1
             else - int (floorlog 2 (nat (\<lceil>1 / x\<rceil> - 1))))"

definition flt :: "int \<Rightarrow> rat \<Rightarrow> rat" where
  "flt p x = (if x = 0 then 0
              else (let k = expo \<bar>x\<bar> - (p - 1)
                    in sgn x * (of_int (rne (\<bar>x\<bar> / 2 powi k)) * 2 powi k)))"

abbreviation f64 :: "rat \<Rightarrow> rat" where "f64 \<equiv> flt 53"
abbreviation f32 :: "rat \<Rightarrow> rat" where "f32 \<equiv> flt 24"

text \<open>\<open>int(x)\<close> of Go: truncation towards zero.\<close>

definition trunc :: "rat \<Rightarrow> int" where
  "trunc x = (if 0 \<le> x then \<lfloor>x\<rfloor> else - \<lfloor>- x\<rfloor>)"

lemma rne_of_int [simp]: "rne (of_int i) = i"
  by (simp add: rne_def)

lemma rne_bounds: "\<lfloor>x\<rfloor> \<le> rne x \<and> rne x \<le> \<lfloor>x\<rfloor> + 1"
  by (auto simp: rne_def Let_def)

lemma rne_mono: "x \<le> y \<Longrightarrow> rne x \<le> rne y"
proof -
  assume xy: "x \<le> y"
  then have f: "\<lfloor>x\<rfloor> \<le> \<lfloor>y\<rfloor>" by (rule floor_mono)
  show ?thesis
  proof (cases "\<lfloor>x\<rfloor> = \<lfloor>y\<rfloor>")
    case True
    then show ?thesis using xy by (auto simp: rne_def Let_def)
  next
    case False
    then have "\<lfloor>x\<rfloor> + 1 \<le> \<lfloor>y\<rfloor>" using f by simp
    then show ?thesis using rne_bounds [of x] rne_bounds [of y] by linarith
  qed
qed

lemma rne_le: "x \<le> of_int i \<Longrightarrow> rne x \<le> i"
  using rne_mono [of x "of_int i"] by simp

lemma rne_ge: "of_int i \<le> x \<Longrightarrow> i \<le> rne x"
  using rne_mono [of "of_int i" x] by simp

section \<open>Exponents\<close>

lemma expo_bounds:
  assumes "0 < x" shows "2 powi expo x \<le> x \<and> x < 2 powi (expo x + 1)"
proof (cases "1 \<le> x")
  case True
  define n where "n = nat \<lfloor>x\<rfloor>"
  have n: "0 < n" using True by (simp add: n_def)
  have fl: "2 ^ (floorlog 2 n - 1) \<le> n" "n < 2 ^ floorlog 2 n"
    using floorlog_bounds [of n 2] n by auto
  have pos: "0 < floorlog 2 n" using fl n by (cases "floorlog 2 n") auto
  have nx: "of_nat n \<le> x" "x < of_nat n + 1" using True floor_correct [of x] by (auto simp: n_def)
  have "(2::rat) ^ (floorlog 2 n - 1) \<le> of_nat n"
    using fl(1) by (metis of_nat_le_iff of_nat_numeral of_nat_power)
  moreover have "of_nat n + 1 \<le> (2::rat) ^ floorlog 2 n"
  proof -
    have "Suc n \<le> 2 ^ floorlog 2 n" using fl(2) by simp
    then have "(of_nat (Suc n) :: rat) \<le> of_nat (2 ^ floorlog 2 n)" by (simp only: of_nat_le_iff)
    then show ?thesis by simp
  qed
  moreover have "expo x = int (floorlog 2 n - 1)" "expo x + 1 = int (floorlog 2 n)"
    using True pos by (auto simp: expo_def n_def of_nat_diff)
  ultimately show ?thesis using nx by (simp only: power_int_of_nat) linarith
next
  case False
  define n where "n = nat (\<lceil>1 / x\<rceil> - 1)"
  have i1: "1 < 1 / x" using False assms by (simp add: divide_simps)
  then have c: "1 < \<lceil>1 / x\<rceil>" by (simp add: less_ceiling_iff)
  then have n: "0 < n" by (simp add: n_def)
  have fl: "2 ^ (floorlog 2 n - 1) \<le> n" "n < 2 ^ floorlog 2 n"
    using floorlog_bounds [of n 2] n by auto
  have pos: "0 < floorlog 2 n" using fl n by (cases "floorlog 2 n") auto
  have "\<lceil>1 / x\<rceil> = int n + 1" using c unfolding n_def by linarith
  then have cx: "of_int \<lceil>1 / x\<rceil> = (of_nat n + 1 :: rat)" by simp
  have nx: "of_nat n < 1 / x" "1 / x \<le> of_nat n + 1"
    using ceiling_correct [of "1 / x"] cx by auto
  have lo: "(2::rat) ^ (floorlog 2 n - 1) \<le> of_nat n"
    using fl(1) by (metis of_nat_le_iff of_nat_numeral of_nat_power)
  have hi: "of_nat n + 1 \<le> (2::rat) ^ floorlog 2 n"
  proof -
    have "Suc n \<le> 2 ^ floorlog 2 n" using fl(2) by simp
    then have "(of_nat (Suc n) :: rat) \<le> of_nat (2 ^ floorlog 2 n)" by (simp only: of_nat_le_iff)
    then show ?thesis by simp
  qed
  have e: "expo x = - int (floorlog 2 n)" "expo x + 1 = - int (floorlog 2 n - 1)"
    using False pos by (auto simp: expo_def n_def of_nat_diff)
  have "1 / x \<le> 2 ^ floorlog 2 n" using nx(2) hi by linarith
  then have "inverse (2 ^ floorlog 2 n) \<le> x"
    using assms by (simp add: field_simps)
  moreover have "2 ^ (floorlog 2 n - 1) < 1 / x" using lo nx(1) by linarith
  then have "x < inverse (2 ^ (floorlog 2 n - 1))"
    using assms by (simp add: field_simps)
  ultimately show ?thesis unfolding e(2) unfolding e(1) by (simp add: power_int_minus)
qed

lemma powi_le_cancel: "(2::rat) powi a < 2 powi b \<longleftrightarrow> a < b"
  by (metis linorder_not_less one_less_numeral_iff order_less_le power_int_strict_increasing semiring_norm(76)
      power_int_increasing less_eq_real_def linorder_neqE not_less_iff_gr_or_eq one_le_numeral)

lemma expo_mono: "0 < x \<Longrightarrow> x \<le> y \<Longrightarrow> expo x \<le> expo y"
proof -
  assume h: "0 < x" "x \<le> y"
  have "2 powi expo x < (2 powi (expo y + 1) :: rat)"
    using expo_bounds [of x] expo_bounds [of y] h by linarith
  then show ?thesis by (simp add: powi_le_cancel)
qed

lemma expo_powi: "expo (2 powi e) = e"
proof -
  have "2 powi expo (2 powi e) \<le> (2 powi e :: rat)" "(2 powi e :: rat) < 2 powi (expo (2 powi e) + 1)"
    using expo_bounds [of "2 powi e"] by auto
  then have "\<not> e < expo (2 powi e)" "e < expo (2 powi e) + 1"
    using powi_le_cancel by (metis linorder_not_less)+
  then show ?thesis by simp
qed

section \<open>Rounding is monotone and exact on small integers\<close>

lemma flt_pos:
  assumes "0 < x"
  shows "flt p x = of_int (rne (x / 2 powi (expo x - (p - 1)))) * 2 powi (expo x - (p - 1))"
  using assms by (simp add: flt_def Let_def)

lemma flt_0 [simp]: "flt p 0 = 0"
  by (simp add: flt_def)

lemma flt_minus: "flt p (- x) = - flt p x"
  by (simp add: flt_def Let_def sgn_minus)

text \<open>A rounded value stays within the powers of two around its argument.\<close>

lemma flt_pos_bounds:
  assumes "0 < x" and "1 \<le> p"
  shows "2 powi expo x \<le> flt p x \<and> flt p x \<le> 2 powi (expo x + 1)"
proof -
  let ?k = "expo x - (p - 1)"
  have k: "(0::rat) < 2 powi ?k" by simp
  have split: "(2::rat) powi (expo x) = of_int (2 ^ nat (p - 1)) * 2 powi ?k"
  proof -
    have "(2::rat) powi (expo x) = 2 powi (p - 1) * 2 powi ?k" by (simp flip: power_int_add)
    also have "(2::rat) powi (p - 1) = of_int (2 ^ nat (p - 1))"
      using assms(2) by (simp add: power_int_def)
    finally show ?thesis .
  qed
  have split': "(2::rat) powi (expo x + 1) = of_int (2 ^ nat p) * 2 powi ?k"
  proof -
    have "(2::rat) powi (expo x + 1) = 2 powi p * 2 powi ?k" by (simp flip: power_int_add)
    also have "(2::rat) powi p = of_int (2 ^ nat p)"
      using assms(2) by (simp add: power_int_def)
    finally show ?thesis .
  qed
  have "of_int (2 ^ nat (p - 1)) \<le> x / 2 powi ?k"
    using expo_bounds [OF assms(1)] split k by (simp add: pos_le_divide_eq)
  moreover have "x / 2 powi ?k \<le> of_int (2 ^ nat p)"
    using expo_bounds [OF assms(1)] split' k by (simp add: pos_divide_le_eq)
  ultimately have "2 ^ nat (p - 1) \<le> rne (x / 2 powi ?k)" "rne (x / 2 powi ?k) \<le> 2 ^ nat p"
    by (auto intro: rne_ge rne_le)
  then show ?thesis
    unfolding flt_pos [OF assms(1)] split split' using k
    by (intro conjI mult_right_mono) (simp_all only: of_int_le_iff less_imp_le)
qed

lemma flt_nonneg: "1 \<le> p \<Longrightarrow> 0 \<le> x \<Longrightarrow> 0 \<le> flt p x"
  using flt_pos_bounds [of x p] by (cases "x = 0") (auto intro: order_trans [of _ "2 powi expo x"])

lemma flt_mono_pos:
  assumes "0 < x" "x \<le> y" "1 \<le> p" shows "flt p x \<le> flt p y"
proof (cases "expo x = expo y")
  case True
  have "x / 2 powi (expo y - (p - 1)) \<le> y / 2 powi (expo y - (p - 1))"
    using assms(2) by (intro divide_right_mono) auto
  from rne_mono [OF this] show ?thesis
    using assms True by (simp add: flt_pos mult_right_mono)
next
  case False
  then have "expo x + 1 \<le> expo y" using expo_mono [OF assms(1,2)] by simp
  then have "(2::rat) powi (expo x + 1) \<le> 2 powi expo y" by (intro power_int_increasing) auto
  then show ?thesis
    using flt_pos_bounds [OF assms(1,3)] flt_pos_bounds [of y p] assms by linarith
qed

lemma flt_mono: "1 \<le> p \<Longrightarrow> x \<le> y \<Longrightarrow> flt p x \<le> flt p y"
proof -
  assume p: "1 \<le> p" and xy: "x \<le> y"
  consider "0 < x" | "x \<le> 0" "0 \<le> y" | "y < 0" by linarith
  then show ?thesis
  proof cases
    case 1 then show ?thesis using flt_mono_pos p xy by blast
  next
    case 2
    have "0 \<le> flt p (- x)" using 2 p by (simp add: flt_nonneg)
    then show ?thesis using 2 p flt_nonneg [of p y] by (simp add: flt_minus)
  next
    case 3
    have "flt p (- y) \<le> flt p (- x)" using 3 xy p by (intro flt_mono_pos) auto
    then show ?thesis by (simp add: flt_minus)
  qed
qed

lemma flt_exact:
  assumes "0 < x" "x = of_int i * 2 powi (expo x - (p - 1))" shows "flt p x = x"
proof -
  have "x / 2 powi (expo x - (p - 1)) = of_int i"
    by (subst assms(2)) simp
  then show ?thesis using assms by (simp add: flt_pos)
qed

text \<open>Powers of two and integers of at most \<open>p\<close> bits are representable.\<close>

lemma flt_powi [simp]: "1 \<le> p \<Longrightarrow> flt p (2 powi e) = 2 powi e"
proof (rule flt_exact)
  assume p: "1 \<le> p"
  have "(2::rat) powi e = 2 powi (p - 1) * 2 powi (e - (p - 1))" by (simp flip: power_int_add)
  then show "(2::rat) powi e = of_int (2 ^ nat (p - 1)) * 2 powi (expo (2 powi e) - (p - 1))"
    unfolding expo_powi using p by (simp add: power_int_def)
qed simp

lemma flt_1 [simp]: "1 \<le> p \<Longrightarrow> flt p 1 = 1"
  using flt_powi [of p 0] by simp

lemma flt_half [simp]: "1 \<le> p \<Longrightarrow> flt p (1/2) = 1/2"
  using flt_powi [of p "-1"] by (simp add: power_int_minus)

lemma flt_nat:
  assumes "1 \<le> p" "n < 2 ^ nat p" shows "flt p (of_nat n) = of_nat n"
proof (cases "n = 0")
  case False
  let ?x = "of_nat n :: rat"
  have "(2::rat) powi expo ?x \<le> of_nat n" using expo_bounds [of ?x] False by simp
  also have "\<dots> < 2 powi p"
    using assms by (simp add: power_int_def)
  finally have e: "expo ?x < p" by (simp add: powi_le_cancel)
  have "?x = of_int (int n * 2 ^ nat (p - 1 - expo ?x)) * 2 powi (expo ?x - (p - 1))"
  proof -
    have "(2::rat) ^ nat (p - 1 - expo ?x) * 2 powi (expo ?x - (p - 1)) = 2 powi ((p - 1 - expo ?x) + (expo ?x - (p - 1)))"
      using e by (subst power_int_add) (simp_all add: power_int_def)
    then show ?thesis by (simp add: mult.assoc)
  qed
  then show ?thesis using False by (intro flt_exact [of ?x "int n * 2 ^ nat (p - 1 - expo ?x)"]) simp_all
qed simp

lemma flt_unit: "1 \<le> p \<Longrightarrow> 0 \<le> x \<Longrightarrow> x \<le> 1 \<Longrightarrow> 0 \<le> flt p x \<and> flt p x \<le> 1"
  using flt_nonneg flt_mono [of p x 1] by auto

lemma trunc_of_int [simp]: "trunc (of_int i) = i"
  by (simp add: trunc_def)

lemma trunc_mono: "0 \<le> x \<Longrightarrow> x \<le> y \<Longrightarrow> trunc x \<le> trunc y"
  by (simp add: trunc_def floor_mono)

lemma trunc_nonneg: "0 \<le> x \<Longrightarrow> 0 \<le> trunc x"
  by (simp add: trunc_def)

end
