(* ===== verification/GoFloat64.thy ===== *)
theory GoFloat64
  imports GoFloat GoJson
begin

text \<open>
  Go's \<open>float64\<close> with its full range: overflow to the infinities, gradual underflow, NaN, and the
  conversions of \<open>strconv\<close>. The crusher computes on the numbers of its input, which can be as large as
  \<open>1.7e308\<close>. A zero has no sign here: the program divides only by counts and never prints a float, so
  the sign of a zero is not observable.
\<close>

datatype fl = Fin rat | PInf | NInf | NaN

section \<open>Rounding\<close>

definition round_fl :: "rat \<Rightarrow> fl" where
  "round_fl x =
     (if x = 0 then Fin 0
      else (let k = max (expo \<bar>x\<bar> - 52) (- 1074); r = of_int (rne (\<bar>x\<bar> / 2 powi k)) * 2 powi k
            in if r < 2 powi 1024 then Fin (sgn x * r) else if 0 < x then PInf else NInf))"

definition is_finite :: "fl \<Rightarrow> bool" where
  "is_finite x \<longleftrightarrow> (case x of Fin _ \<Rightarrow> True | _ \<Rightarrow> False)"

definition fl_of_nat :: "nat \<Rightarrow> fl" where "fl_of_nat n = round_fl (of_nat n)"
definition fl_of_int :: "int \<Rightarrow> fl" where "fl_of_int n = round_fl (of_int n)"

section \<open>Arithmetic\<close>

fun fl_neg :: "fl \<Rightarrow> fl" where
  "fl_neg (Fin x) = Fin (- x)"
| "fl_neg PInf = NInf"
| "fl_neg NInf = PInf"
| "fl_neg NaN = NaN"

fun fl_abs :: "fl \<Rightarrow> fl" where
  "fl_abs (Fin x) = Fin \<bar>x\<bar>"
| "fl_abs NaN = NaN"
| "fl_abs _ = PInf"

fun fl_add :: "fl \<Rightarrow> fl \<Rightarrow> fl" where
  "fl_add (Fin x) (Fin y) = round_fl (x + y)"
| "fl_add NaN y = NaN"
| "fl_add x NaN = NaN"
| "fl_add PInf NInf = NaN"
| "fl_add NInf PInf = NaN"
| "fl_add PInf y = PInf"
| "fl_add NInf y = NInf"
| "fl_add x PInf = PInf"
| "fl_add x NInf = NInf"

definition fl_sub :: "fl \<Rightarrow> fl \<Rightarrow> fl" where "fl_sub x y = fl_add x (fl_neg y)"

text \<open>The sign of a product or quotient with an infinity.\<close>

definition fl_pos :: "fl \<Rightarrow> bool" where
  "fl_pos x \<longleftrightarrow> (case x of Fin r \<Rightarrow> 0 < r | PInf \<Rightarrow> True | _ \<Rightarrow> False)"

definition inf_of :: "bool \<Rightarrow> fl" where "inf_of pos = (if pos then PInf else NInf)"

definition fl_mul :: "fl \<Rightarrow> fl \<Rightarrow> fl" where
  "fl_mul x y =
     (case (x, y) of
        (Fin a, Fin b) \<Rightarrow> round_fl (a * b)
      | _ \<Rightarrow> if x = NaN \<or> y = NaN \<or> x = Fin 0 \<or> y = Fin 0 then NaN else inf_of (fl_pos x = fl_pos y))"

definition fl_div :: "fl \<Rightarrow> fl \<Rightarrow> fl" where
  "fl_div x y =
     (case (x, y) of
        (Fin a, Fin b) \<Rightarrow> if b = 0 then (if a = 0 then NaN else inf_of (0 < a)) else round_fl (a / b)
      | (Fin a, NaN) \<Rightarrow> NaN
      | (Fin a, _) \<Rightarrow> Fin 0
      | (_, Fin b) \<Rightarrow> if x = NaN then NaN else inf_of (fl_pos x = (0 \<le> b))
      | _ \<Rightarrow> NaN)"

text \<open>Comparisons are false on NaN.\<close>

fun fl_le :: "fl \<Rightarrow> fl \<Rightarrow> bool" where
  "fl_le NaN y = False"
| "fl_le x NaN = False"
| "fl_le (Fin x) (Fin y) = (x \<le> y)"
| "fl_le NInf y = True"
| "fl_le x PInf = True"
| "fl_le x y = False"

definition fl_lt :: "fl \<Rightarrow> fl \<Rightarrow> bool" where "fl_lt x y \<longleftrightarrow> fl_le x y \<and> x \<noteq> y"

text \<open>\<open>sort.Float64s\<close> orders NaN before every other value.\<close>

fun fl_rank :: "fl \<Rightarrow> nat" where
  "fl_rank NaN = 0"
| "fl_rank NInf = 1"
| "fl_rank (Fin r) = 2"
| "fl_rank PInf = 3"

instantiation fl :: linorder
begin

definition less_eq_fl :: "fl \<Rightarrow> fl \<Rightarrow> bool" where
  "less_eq_fl x y \<longleftrightarrow> fl_rank x < fl_rank y \<or> fl_rank x = fl_rank y \<and> (case (x, y) of (Fin a, Fin b) \<Rightarrow> a \<le> b | _ \<Rightarrow> True)"

definition less_fl :: "fl \<Rightarrow> fl \<Rightarrow> bool" where
  "less_fl x y \<longleftrightarrow> x \<le> y \<and> \<not> y \<le> x"

instance
proof
  fix x y z :: fl
  show "(x < y) = (x \<le> y \<and> \<not> y \<le> x)" by (rule less_fl_def)
  show "x \<le> x" by (cases x) (simp_all add: less_eq_fl_def)
  show "x \<le> y \<Longrightarrow> y \<le> z \<Longrightarrow> x \<le> z" by (cases x; cases y; cases z) (auto simp: less_eq_fl_def)
  show "x \<le> y \<Longrightarrow> y \<le> x \<Longrightarrow> x = y" by (cases x; cases y) (auto simp: less_eq_fl_def)
  show "x \<le> y \<or> y \<le> x" by (cases x; cases y) (auto simp: less_eq_fl_def)
qed

end

section \<open>Square root\<close>

text \<open>\<open>math.Sqrt\<close> rounds correctly: the integer root at 60 bits, with a half added when it is not exact.\<close>

fun isqrt_go :: "nat \<Rightarrow> nat \<Rightarrow> nat \<Rightarrow> nat" where
  "isqrt_go 0 n a = a"
| "isqrt_go (Suc b) n a = isqrt_go b n (if (a + 2 ^ b) * (a + 2 ^ b) \<le> n then a + 2 ^ b else a)"

definition isqrt :: "nat \<Rightarrow> nat" where "isqrt n = isqrt_go (floorlog 2 n) n 0"

definition sqrt_rat :: "rat \<Rightarrow> rat" where
  "sqrt_rat x =
     (if x \<le> 0 then 0
      else (let k = expo x div 2 - 60; m = x / 4 powi k; s = isqrt (nat \<lfloor>m\<rfloor>)
            in f64 ((of_nat s + (if of_nat (s * s) = m then 0 else 1 / 2)) * 2 powi k)))"

fun fl_sqrt :: "fl \<Rightarrow> fl" where
  "fl_sqrt (Fin x) = (if x < 0 then NaN else Fin (sqrt_rat x))"
| "fl_sqrt PInf = PInf"
| "fl_sqrt _ = NaN"

section \<open>Conversions\<close>

text \<open>The value of a JSON number literal.\<close>

definition signed_val :: "string \<Rightarrow> int" where
  "signed_val s = (case s of
       [] \<Rightarrow> 0
     | c # t \<Rightarrow> if c = CHR ''-'' then - int (digits_val t) else if c = CHR ''+'' then int (digits_val t)
                else int (digits_val s))"

definition literal_value :: "string \<Rightarrow> rat" where
  "literal_value s =
     (let neg = has_prefix s ''-''; t = (if neg then drop 1 s else s);
          ip = take_digits t; t1 = drop (length ip) t;
          fp = (if has_prefix t1 ''.'' then take_digits (drop 1 t1) else []);
          t2 = (if has_prefix t1 ''.'' then drop (1 + length fp) t1 else t1);
          ex = (if t2 = [] then 0 else signed_val (drop 1 t2));
          v = of_nat (digits_val (ip @ fp)) * 10 powi (ex - int (length fp))
      in if neg then - v else v)"

text \<open>\<open>json.Number.Float64\<close>: an error when the literal is out of range.\<close>

definition parse_float :: "string \<Rightarrow> rat option" where
  "parse_float s = (case round_fl (literal_value s) of Fin r \<Rightarrow> Some r | _ \<Rightarrow> None)"

text \<open>\<open>strconv.ParseInt(s, 10, 64)\<close> and \<open>ParseUint\<close>.\<close>

definition parse_uint64 :: "string \<Rightarrow> nat option" where
  "parse_uint64 s =
     (if s \<noteq> [] \<and> list_all is_digit s \<and> digits_val s < 2 ^ 64 then Some (digits_val s) else None)"

definition parse_int64 :: "string \<Rightarrow> int option" where
  "parse_int64 s =
     (let t = (if has_prefix s ''-'' \<or> has_prefix s ''+'' then drop 1 s else s)
      in if t \<noteq> [] \<and> list_all is_digit t \<and> - (2 ^ 63) \<le> signed_val s \<and> signed_val s < 2 ^ 63
         then Some (signed_val s) else None)"

text \<open>\<open>%.2f\<close> of a value in \<open>[0, 100)\<close>: the exact binary value rounded half to even.\<close>

definition format_2f :: "rat \<Rightarrow> string" where
  "format_2f x = (let n = nat (rne (x * 100)) in utoa (n div 100) @ ''.'' @ [digit_char (n mod 100 div 10), digit_char (n mod 10)])"

section \<open>Lemmas\<close>

lemma is_finite_iff: "is_finite x \<longleftrightarrow> (\<exists>r. x = Fin r)"
  by (auto simp: is_finite_def split: fl.splits)

lemma round_fl_0 [simp]: "round_fl 0 = Fin 0"
  by (simp add: round_fl_def)

text \<open>In the normal range the rounding is the one of \<open>GoFloat\<close>.\<close>

lemma round_fl_normal:
  assumes "x \<noteq> 0" and "- 1022 \<le> expo \<bar>x\<bar>" and "\<bar>f64 x\<bar> < 2 powi 1024"
  shows "round_fl x = Fin (f64 x)"
proof -
  have k: "max (expo \<bar>x\<bar> - 52) (- 1074) = expo \<bar>x\<bar> - (53 - 1)" using assms(2) by simp
  let ?r = "of_int (rne (\<bar>x\<bar> / 2 powi (expo \<bar>x\<bar> - (53 - 1)))) * (2::rat) powi (expo \<bar>x\<bar> - (53 - 1))"
  have f: "f64 x = sgn x * ?r" using assms(1) by (simp add: flt_def Let_def)
  have n: "0 \<le> rne (\<bar>x\<bar> / 2 powi (expo \<bar>x\<bar> - 52))" by (rule rne_ge) simp
  have "\<bar>f64 x\<bar> = ?r" using assms(1) n by (simp add: f abs_mult abs_sgn_eq)
  then have "?r < 2 powi 1024" using assms(3) by simp
  then show ?thesis using assms(1) by (simp add: round_fl_def k f Let_def)
qed

lemma fl_le_refl [simp]: "x \<noteq> NaN \<Longrightarrow> fl_le x x"
  by (cases x) auto

lemma fl_lt_irrefl [simp]: "\<not> fl_lt x x"
  by (simp add: fl_lt_def)

lemma fl_le_trans: "fl_le x y \<Longrightarrow> fl_le y z \<Longrightarrow> fl_le x z"
  by (cases x; cases y; cases z) auto

lemma fl_abs_nonneg: "fl_abs x = NaN \<or> fl_le (Fin 0) (fl_abs x)"
  by (cases x) auto

lemma isqrt_go_bounds:
  "a * a \<le> n \<Longrightarrow> n < (a + 2 ^ b) * (a + 2 ^ b) \<Longrightarrow>
   isqrt_go b n a * isqrt_go b n a \<le> n \<and> n < Suc (isqrt_go b n a) * Suc (isqrt_go b n a)"
proof (induction b n a rule: isqrt_go.induct)
  case (2 b n a)
  show ?case
  proof (cases "(a + 2 ^ b) * (a + 2 ^ b) \<le> n")
    case True
    have "n < (a + 2 ^ b + 2 ^ b) * (a + 2 ^ b + 2 ^ b)" using "2.prems"(2) by (simp add: algebra_simps)
    then show ?thesis using True 2(1) by simp
  next
    case False
    then show ?thesis using 2 by simp
  qed
qed simp

text \<open>The integer root is exact.\<close>

lemma isqrt_bounds: "isqrt n * isqrt n \<le> n \<and> n < Suc (isqrt n) * Suc (isqrt n)"
proof -
  have "n < (2 ^ floorlog 2 n) * (2 ^ floorlog 2 n)"
  proof (cases "n = 0")
    case False
    have "n < 2 ^ floorlog 2 n" using floorlog_bounds [of n 2] False by simp
    also have "\<dots> \<le> 2 ^ floorlog 2 n * 2 ^ floorlog 2 n" by simp
    finally show ?thesis .
  qed simp
  then show ?thesis unfolding isqrt_def using isqrt_go_bounds [of 0 n "floorlog 2 n"] by simp
qed

lemma sqrt_rat_nonneg: "0 \<le> sqrt_rat x"
  by (auto simp: sqrt_rat_def Let_def intro!: flt_nonneg)

end
