(* ===== verification/GoUnicode.thy ===== *)
theory GoUnicode
  imports GoUtf8
begin

text \<open>
  The rune-aware part of Go's \<open>strings\<close> and \<open>unicode\<close>: white space, lower case, trimming and
  fields. White space is spelled out as its UTF-8 encodings. The case tables above ASCII are a
  parameter \<open>lower\<close> of the functions that use them (\<open>unicode.ToLower\<close> on runes from 128).
\<close>

section \<open>White space\<close>

text \<open>\<open>unicode.IsSpace\<close>, by the encodings of its runes.\<close>

definition space_codes :: "string list" where
  "space_codes =
    [[CHR 0x09], [CHR 0x0A], [CHR 0x0B], [CHR 0x0C], [CHR 0x0D], [CHR 0x20], [CHR 0xC2, CHR 0x85],
     [CHR 0xC2, CHR 0xA0], [CHR 0xE1, CHR 0x9A, CHR 0x80], [CHR 0xE2, CHR 0x80, CHR 0x80],
     [CHR 0xE2, CHR 0x80, CHR 0x81], [CHR 0xE2, CHR 0x80, CHR 0x82], [CHR 0xE2, CHR 0x80, CHR 0x83],
     [CHR 0xE2, CHR 0x80, CHR 0x84], [CHR 0xE2, CHR 0x80, CHR 0x85], [CHR 0xE2, CHR 0x80, CHR 0x86],
     [CHR 0xE2, CHR 0x80, CHR 0x87], [CHR 0xE2, CHR 0x80, CHR 0x88], [CHR 0xE2, CHR 0x80, CHR 0x89],
     [CHR 0xE2, CHR 0x80, CHR 0x8A], [CHR 0xE2, CHR 0x80, CHR 0xA8], [CHR 0xE2, CHR 0x80, CHR 0xA9],
     [CHR 0xE2, CHR 0x80, CHR 0xAF], [CHR 0xE2, CHR 0x81, CHR 0x9F], [CHR 0xE3, CHR 0x80, CHR 0x80]]"

definition is_space_rune :: "nat \<Rightarrow> bool" where
  "is_space_rune r \<longleftrightarrow> r \<in> set ([9, 10, 11, 12, 13, 32, 0x85, 0xA0, 0x1680] @ [0x2000..<0x200B]
     @ [0x2028, 0x2029, 0x202F, 0x205F, 0x3000])"

text \<open>The width of the space a text starts with, 0 if it starts with none.\<close>

definition space_width :: "string \<Rightarrow> nat" where
  "space_width s = (case filter (has_prefix s) space_codes of [] \<Rightarrow> 0 | w # _ \<Rightarrow> length w)"

definition space_width_right :: "string \<Rightarrow> nat" where
  "space_width_right s = (case filter (has_suffix s) space_codes of [] \<Rightarrow> 0 | w # _ \<Rightarrow> length w)"

lemma space_width_length: "space_width s \<le> length s"
proof (cases "filter (has_prefix s) space_codes")
  case (Cons w ws)
  then have "w \<in> set (filter (has_prefix s) space_codes)" by simp
  then have "has_prefix s w" by simp
  then show ?thesis using Cons by (simp add: space_width_def has_prefix_length)
qed (simp add: space_width_def)

lemma space_width_right_length: "space_width_right s \<le> length s"
proof (cases "filter (has_suffix s) space_codes")
  case (Cons w ws)
  then have "w \<in> set (filter (has_suffix s) space_codes)" by simp
  then have "has_suffix s w" by simp
  then show ?thesis using Cons by (auto simp: space_width_right_def has_suffix_iff)
qed (simp add: space_width_right_def)

function trim_left_space :: "string \<Rightarrow> string" where
  "trim_left_space s = (if space_width s = 0 then s else trim_left_space (drop (space_width s) s))"
  by pat_completeness auto
termination
proof (relation "measure length")
  show "(drop (space_width s) s, s) \<in> measure length" if "space_width s \<noteq> 0" for s
    using that space_width_length [of s] by simp
qed simp

function trim_right_space :: "string \<Rightarrow> string" where
  "trim_right_space s =
     (if space_width_right s = 0 then s else trim_right_space (take (length s - space_width_right s) s))"
  by pat_completeness auto
termination
proof (relation "measure length")
  show "(take (length s - space_width_right s) s, s) \<in> measure length" if "space_width_right s \<noteq> 0" for s
    using that space_width_right_length [of s] by simp
qed simp

declare trim_left_space.simps [simp del] trim_right_space.simps [simp del]

text \<open>\<open>strings.TrimSpace\<close>.\<close>

definition trim_space :: "string \<Rightarrow> string" where
  "trim_space s = trim_right_space (trim_left_space s)"

text \<open>\<open>strings.Fields\<close>: \<open>cur\<close> is the field being read, in reverse.\<close>

function fields_from :: "string \<Rightarrow> string \<Rightarrow> string list" where
  "fields_from cur [] = (if cur = [] then [] else [rev cur])"
| "fields_from cur (c # s) =
     (if space_width (c # s) = 0 then fields_from (c # cur) s
      else (if cur = [] then [] else [rev cur]) @ fields_from [] (drop (space_width (c # s)) (c # s)))"
  by pat_completeness auto
termination
  by (relation "measure (length \<circ> snd)") auto

definition str_fields :: "string \<Rightarrow> string list" where "str_fields s = fields_from [] s"

section \<open>Trimming bytes\<close>

definition trim_left_set :: "string \<Rightarrow> string \<Rightarrow> string" where
  "trim_left_set cs s = dropWhile (\<lambda>c. c \<in> set cs) s"

definition trim_right_set :: "string \<Rightarrow> string \<Rightarrow> string" where
  "trim_right_set cs s = rev (dropWhile (\<lambda>c. c \<in> set cs) (rev s))"

definition trim_set :: "string \<Rightarrow> string \<Rightarrow> string" where
  "trim_set cs s = trim_right_set cs (trim_left_set cs s)"

definition trim_prefix :: "string \<Rightarrow> string \<Rightarrow> string" where
  "trim_prefix s p = (if has_prefix s p then drop (length p) s else s)"

definition trim_suffix :: "string \<Rightarrow> string \<Rightarrow> string" where
  "trim_suffix s p = (if has_suffix s p then take (length s - length p) s else s)"

text \<open>\<open>strings.Cut\<close>.\<close>

definition strings_cut :: "string \<Rightarrow> string \<Rightarrow> (string \<times> string) option" where
  "strings_cut s sep = map_option (\<lambda>i. (take i s, drop (i + length sep) s)) (index_of s sep)"

section \<open>Lower case\<close>

definition lower_rune :: "(nat \<Rightarrow> nat) \<Rightarrow> nat \<Rightarrow> nat" where
  "lower_rune lower r = (if r < 128 then (if 65 \<le> r \<and> r \<le> 90 then r + 32 else r) else lower r)"

text \<open>\<open>strings.ToLower\<close>: bytes for ASCII, \<open>strings.Map\<close> otherwise (an invalid byte becomes U+FFFD).\<close>

definition to_lower :: "(nat \<Rightarrow> nat) \<Rightarrow> string \<Rightarrow> string" where
  "to_lower lower s =
     (if list_all (\<lambda>c. ord c < 128) s then ascii_lower s
      else concat (map (\<lambda>r. encode_rune (lower_rune lower r)) (runes s)))"

section \<open>Counting\<close>

text \<open>\<open>strings.Count\<close> of a non-empty text: occurrences that do not overlap.\<close>

function count_of :: "string \<Rightarrow> string \<Rightarrow> nat" where
  "count_of [] p = 0"
| "count_of (a # s) p =
     (if p \<noteq> [] \<and> has_prefix (a # s) p then Suc (count_of (drop (length p - 1) s) p) else count_of s p)"
  by pat_completeness auto
termination
  by (relation "measure (length \<circ> fst)") auto

section \<open>Lemmas\<close>

lemma trim_left_space_suffix: "\<exists>u. s = u @ trim_left_space s"
proof (induction s rule: trim_left_space.induct)
  case (1 s)
  show ?case
  proof (cases "space_width s = 0")
    case True
    then have "trim_left_space s = s" by (simp add: trim_left_space.simps)
    then show ?thesis by simp
  next
    case False
    then obtain u where "drop (space_width s) s = u @ trim_left_space (drop (space_width s) s)" using 1 by blast
    then have "s = (take (space_width s) s @ u) @ trim_left_space (drop (space_width s) s)"
      by (metis append.assoc append_take_drop_id)
    then show ?thesis using False trim_left_space.simps [of s] by metis
  qed
qed

lemma trim_right_space_prefix: "\<exists>u. s = trim_right_space s @ u"
proof (induction s rule: trim_right_space.induct)
  case (1 s)
  show ?case
  proof (cases "space_width_right s = 0")
    case True
    then have "trim_right_space s = s" by (simp add: trim_right_space.simps)
    then show ?thesis by simp
  next
    case False
    let ?t = "take (length s - space_width_right s) s"
    obtain u where "?t = trim_right_space ?t @ u" using 1 False by blast
    then have "s = trim_right_space ?t @ (u @ drop (length s - space_width_right s) s)"
      by (metis append.assoc append_take_drop_id)
    then show ?thesis using False trim_right_space.simps [of s] by metis
  qed
qed

lemma trim_space_infix: "\<exists>u v. s = u @ trim_space s @ v"
  using trim_left_space_suffix [of s] trim_right_space_prefix [of "trim_left_space s"]
  unfolding trim_space_def by metis

lemma trim_space_length: "length (trim_space s) \<le> length s"
  using trim_space_infix [of s] by (metis le_add1 le_add2 length_append trans_le_add2 order.trans)

section \<open>Fields\<close>

text \<open>The fields and one byte between any two of them fit in the text.\<close>

lemma fields_from_length:
  "sum_list (map (\<lambda>f. Suc (length f)) (fields_from cur s)) \<le> Suc (length cur + length s)"
  by (induction cur s rule: fields_from.induct) (auto simp: le_diff_conv)

lemma str_fields_length: "sum_list (map (\<lambda>f. Suc (length f)) (str_fields s)) \<le> Suc (length s)"
  using fields_from_length [of "[]" s] by (simp add: str_fields_def)

lemma join_length: "xs \<noteq> [] \<Longrightarrow> Suc (length (join [c] xs)) = sum_list (map (\<lambda>f. Suc (length f)) xs)"
  by (induction xs rule: induct_list012) auto

lemma trim_set_length: "length (trim_set cs s) \<le> length s"
proof -
  have "length (trim_right_set cs u) \<le> length u" for u
    by (metis length_dropWhile_le length_rev trim_right_set_def)
  moreover have "length (trim_left_set cs u) \<le> length u" for u
    by (simp add: trim_left_set_def length_dropWhile_le)
  ultimately show ?thesis by (metis order.trans trim_set_def)
qed

section \<open>Unicode tables\<close>

text \<open>What \<open>unicode\<close> says of runes from 128; below, the ASCII ranges are written out.\<close>

record unicode_tables =
  ut_lower :: "nat \<Rightarrow> nat"
  ut_letter :: "nat \<Rightarrow> bool"
  ut_upper :: "nat \<Rightarrow> bool"
  ut_digit :: "nat \<Rightarrow> bool"

definition rune_is_upper :: "unicode_tables \<Rightarrow> nat \<Rightarrow> bool" where
  "rune_is_upper U r = (if r < 128 then 65 \<le> r \<and> r \<le> 90 else ut_upper U r)"

definition rune_is_letter :: "unicode_tables \<Rightarrow> nat \<Rightarrow> bool" where
  "rune_is_letter U r = (if r < 128 then 65 \<le> r \<and> r \<le> 90 \<or> 97 \<le> r \<and> r \<le> 122 else ut_letter U r)"

definition rune_is_digit :: "unicode_tables \<Rightarrow> nat \<Rightarrow> bool" where
  "rune_is_digit U r = (if r < 128 then 48 \<le> r \<and> r \<le> 57 else ut_digit U r)"

text \<open>Tables without runes from 128, for concrete witnesses.\<close>

definition ascii_tables :: unicode_tables where
  "ascii_tables = \<lparr>ut_lower = (\<lambda>r. r), ut_letter = (\<lambda>_. False), ut_upper = (\<lambda>_. False), ut_digit = (\<lambda>_. False)\<rparr>"

end
