(* ===== verification/CrushTypes.thy ===== *)
theory CrushTypes
  imports GoFloat64 GoUnicode
begin

text \<open>
  \<open>internal/smartcrusher\<close>: the data of the JSON array crusher (\<open>types.go\<close>, \<open>config.go\<close>), the array
  classifier (\<open>classifier.go\<close>), the error keywords and the field-name hash. A slice
  \<open>[]*orderedmap.OrderedMap\<close> is a list of \<open>row\<close>s: \<open>None\<close> is the nil entry of an element that is not an
  object. Slices of the source that differ only in being nil or empty are the empty list.
\<close>

type_synonym obj = "(string \<times> json) list"
type_synonym row = "obj option"

section \<open>Strategies\<close>

datatype crush_strategy =
  StrategyNone | StrategySkip | StrategyTimeSeries | StrategyClusterSample | StrategyTopN | StrategySmartSample

fun strategy_string :: "crush_strategy \<Rightarrow> string" where
  "strategy_string StrategyNone = ''none''"
| "strategy_string StrategySkip = ''skip''"
| "strategy_string StrategyTimeSeries = ''time_series''"
| "strategy_string StrategyClusterSample = ''cluster''"
| "strategy_string StrategyTopN = ''top_n''"
| "strategy_string StrategySmartSample = ''smart_sample''"

section \<open>Records\<close>

record top_value =
  tv_value :: string
  tv_count :: nat

record field_stats =
  fs_name :: string
  fs_field_type :: string
  fs_count :: nat
  fs_unique_count :: nat
  fs_unique_ratio :: rat
  fs_is_constant :: bool
  fs_constant_value :: "json option"
  fs_min_val :: "fl option"
  fs_max_val :: "fl option"
  fs_mean_val :: "fl option"
  fs_variance :: "fl option"
  fs_change_points :: "nat list"
  fs_avg_length :: "fl option"
  fs_top_values :: "top_value list"

text \<open>The ordered map of per-field statistics.\<close>

type_synonym stats_map = "(string \<times> field_stats) list"

record crushability =
  ca_crushable :: bool
  ca_confidence :: rat
  ca_reason :: string
  ca_signals_present :: "string list"
  ca_signals_absent :: "string list"
  ca_has_id_field :: bool
  ca_id_uniqueness :: rat
  ca_avg_string_uniqueness :: rat
  ca_has_score_field :: bool
  ca_error_item_count :: nat
  ca_anomaly_count :: nat

definition skip_analysis :: "string \<Rightarrow> rat \<Rightarrow> crushability" where
  "skip_analysis reason confidence =
     \<lparr>ca_crushable = False, ca_confidence = confidence, ca_reason = reason, ca_signals_present = [],
      ca_signals_absent = [], ca_has_id_field = False, ca_id_uniqueness = 0, ca_avg_string_uniqueness = 0,
      ca_has_score_field = False, ca_error_item_count = 0, ca_anomaly_count = 0\<rparr>"

record array_analysis =
  aa_item_count :: nat
  aa_field_stats :: stats_map
  aa_detected_pattern :: string
  aa_strategy :: crush_strategy
  aa_constant_fields :: obj
  aa_estimated_reduction :: rat
  aa_crushability :: "crushability option"

record summary_range =
  sr_start :: int
  sr_end :: int
  sr_summary :: json

record compression_plan =
  pl_strategy :: crush_strategy
  pl_keep_indices :: "nat list"
  pl_constant_fields :: obj
  pl_summary_ranges :: "summary_range list"
  pl_cluster_field :: "string option"
  pl_sort_field :: "string option"
  pl_keep_count :: nat

definition default_compression_plan :: compression_plan where
  "default_compression_plan =
     \<lparr>pl_strategy = StrategyNone, pl_keep_indices = [], pl_constant_fields = [], pl_summary_ranges = [],
      pl_cluster_field = None, pl_sort_field = None, pl_keep_count = 10\<rparr>"

record inner_crush_result =
  ic_compressed :: string
  ic_original :: string
  ic_was_modified :: bool
  ic_strategy :: string

definition passthrough_result :: "string \<Rightarrow> inner_crush_result" where
  "passthrough_result content =
     \<lparr>ic_compressed = content, ic_original = content, ic_was_modified = False, ic_strategy = ''passthrough''\<rparr>"

section \<open>Configuration\<close>

record crush_config =
  kc_enabled :: bool
  kc_min_items :: int
  kc_min_tokens :: int
  kc_variance_threshold :: rat
  kc_uniqueness_threshold :: rat
  kc_similarity_threshold :: rat
  kc_max_items :: int
  kc_preserve_change_points :: bool
  kc_factor_out_constants :: bool
  kc_include_summaries :: bool
  kc_use_feedback_hints :: bool
  kc_toin_threshold :: rat
  kc_dedup_identical :: bool
  kc_first_fraction :: rat
  kc_last_fraction :: rat
  kc_relevance_threshold :: rat
  kc_min_savings_ratio :: rat
  kc_enable_ccr_marker :: bool
  kc_core_field_fraction :: rat
  kc_heterogeneous_ratio :: rat
  kc_max_flatten_keys :: int
  kc_min_buckets :: int
  kc_max_buckets :: int

definition default_crush_config :: crush_config where
  "default_crush_config =
     \<lparr>kc_enabled = True, kc_min_items = 5, kc_min_tokens = 200, kc_variance_threshold = 2,
      kc_uniqueness_threshold = f64 (1/10), kc_similarity_threshold = f64 (8/10), kc_max_items = 15,
      kc_preserve_change_points = True, kc_factor_out_constants = False, kc_include_summaries = False,
      kc_use_feedback_hints = True, kc_toin_threshold = 1/2, kc_dedup_identical = True,
      kc_first_fraction = f64 (3/10), kc_last_fraction = f64 (15/100), kc_relevance_threshold = f64 (3/10),
      kc_min_savings_ratio = f64 (3/10), kc_enable_ccr_marker = True, kc_core_field_fraction = f64 (8/10),
      kc_heterogeneous_ratio = f64 (6/10), kc_max_flatten_keys = 6, kc_min_buckets = 2, kc_max_buckets = 8\<rparr>"

section \<open>What the crusher depends on\<close>

text \<open>
  Digests, the lower case of runes beyond ASCII, \<open>math.Log2\<close>, and the order in which Go happens to
  iterate over a map of rune counts (the language leaves it open).
\<close>

record crush_env =
  ce_lower :: "nat \<Rightarrow> nat"
  ce_log2 :: "rat \<Rightarrow> rat"
  ce_map_order :: "nat list \<Rightarrow> nat list"
  ce_md5 :: "string \<Rightarrow> string"
  ce_sha256 :: "string \<Rightarrow> string"
  ce_blake3 :: "string \<Rightarrow> string"

section \<open>The array classifier\<close>

datatype array_type = DictArray | StringArray | NumberArray | BoolArray | NestedArray | MixedArray | EmptyArray

fun array_type_string :: "array_type \<Rightarrow> string" where
  "array_type_string DictArray = ''dict_array''"
| "array_type_string StringArray = ''string_array''"
| "array_type_string NumberArray = ''number_array''"
| "array_type_string BoolArray = ''bool_array''"
| "array_type_string NestedArray = ''nested_array''"
| "array_type_string MixedArray = ''mixed_array''"
| "array_type_string EmptyArray = ''empty''"

fun is_obj :: "json \<Rightarrow> bool" where "is_obj (JObj ms) = True" | "is_obj _ = False"
fun is_arr :: "json \<Rightarrow> bool" where "is_arr (JArr vs) = True" | "is_arr _ = False"
fun is_str :: "json \<Rightarrow> bool" where "is_str (JStr s) = True" | "is_str _ = False"
fun is_num :: "json \<Rightarrow> bool" where "is_num (JNum m) = True" | "is_num _ = False"
fun is_boolean :: "json \<Rightarrow> bool" where "is_boolean (JBool b) = True" | "is_boolean _ = False"

definition classify_array :: "json list \<Rightarrow> array_type" where
  "classify_array items =
     (if items = [] then EmptyArray
      else
        (let has_bool = list_ex is_boolean items; has_number = list_ex is_num items; has_string = list_ex is_str items;
             has_object = list_ex is_obj items; has_array = list_ex is_arr items; has_null = list_ex (\<lambda>v. v = JNull) items
         in if has_bool \<and> \<not> has_number \<and> \<not> has_string \<and> \<not> has_object \<and> \<not> has_array \<and> \<not> has_null then BoolArray
            else if has_object \<and> \<not> has_bool \<and> \<not> has_number \<and> \<not> has_string \<and> \<not> has_array \<and> \<not> has_null then DictArray
            else if has_string \<and> \<not> has_bool \<and> \<not> has_number \<and> \<not> has_object \<and> \<not> has_array \<and> \<not> has_null then StringArray
            else if has_number \<and> \<not> has_bool \<and> \<not> has_string \<and> \<not> has_object \<and> \<not> has_array \<and> \<not> has_null then NumberArray
            else if has_array \<and> \<not> has_bool \<and> \<not> has_number \<and> \<not> has_string \<and> \<not> has_object \<and> \<not> has_null then NestedArray
            else MixedArray))"

section \<open>Keywords and hashes\<close>

definition crush_error_keywords :: "string list" where
  "crush_error_keywords =
     [''error'', ''exception'', ''failed'', ''failure'', ''critical'', ''fatal'',
      ''crash'', ''panic'', ''abort'', ''timeout'', ''denied'', ''rejected'']"

definition hash_field_name :: "crush_env \<Rightarrow> string \<Rightarrow> string" where
  "hash_field_name E name = take 8 (hex_encode (ce_sha256 E name))"

text \<open>\<open>asOrderedMaps\<close> and \<open>toAnySlice\<close>.\<close>

fun as_row :: "json \<Rightarrow> row" where
  "as_row (JObj ms) = Some ms"
| "as_row _ = None"

definition as_ordered_maps :: "json list \<Rightarrow> row list" where
  "as_ordered_maps items = map as_row items"

definition to_any_slice :: "row list \<Rightarrow> json list" where
  "to_any_slice items = map (\<lambda>r. case r of None \<Rightarrow> JNull | Some ms \<Rightarrow> JObj ms) items"

section \<open>Lemmas\<close>

text \<open>A non-empty array is a dict array exactly when every element is an object.\<close>

lemma json_kinds: "is_boolean v \<or> is_num v \<or> is_str v \<or> is_obj v \<or> is_arr v \<or> v = JNull"
  by (cases v) auto

lemma obj_only: "is_obj v \<longleftrightarrow> \<not> is_boolean v \<and> \<not> is_num v \<and> \<not> is_str v \<and> \<not> is_arr v \<and> v \<noteq> JNull"
  by (cases v) auto

lemma all_obj_flags:
  "list_all is_obj items \<longleftrightarrow> \<not> list_ex is_boolean items \<and> \<not> list_ex is_num items \<and> \<not> list_ex is_str items
     \<and> \<not> list_ex is_arr items \<and> \<not> list_ex (\<lambda>v. v = JNull) items"
  by (induction items) (auto simp: obj_only)

lemma all_obj_ex: "items \<noteq> [] \<Longrightarrow> list_all is_obj items \<Longrightarrow> list_ex is_obj items"
  by (cases items) auto

lemma classify_dict_iff: "classify_array items = DictArray \<longleftrightarrow> items \<noteq> [] \<and> list_all is_obj items"
proof (cases "items \<noteq> [] \<and> list_all is_obj items")
  case True
  then have "list_ex is_obj items" using all_obj_ex by blast
  then show ?thesis using True all_obj_flags [of items] by (simp add: classify_array_def)
next
  case False
  then show ?thesis unfolding classify_array_def Let_def all_obj_flags
    by (simp only: array_type.distinct split: if_split) blast
qed

lemma is_obj_iff: "is_obj v \<longleftrightarrow> (\<exists>ms. v = JObj ms)"
  by (cases v) auto

lemma length_as_ordered_maps [simp]: "length (as_ordered_maps items) = length items"
  by (simp add: as_ordered_maps_def)

lemma to_any_as_ordered_maps: "list_all is_obj items \<Longrightarrow> to_any_slice (as_ordered_maps items) = items"
  by (induction items) (auto simp: to_any_slice_def as_ordered_maps_def is_obj_iff)

lemma nth_as_ordered_maps [simp]: "i < length items \<Longrightarrow> as_ordered_maps items ! i = as_row (items ! i)"
  by (simp add: as_ordered_maps_def)

end
