(* ===== verification/CompactIr.thy ===== *)
theory CompactIr
  imports CrushTypes GoJsonProps
begin

text \<open>
  \<open>compaction/ir.go\<close>, \<open>compaction/classifier.go\<close> and the decoder of \<open>compaction/jsonutil.go\<close>: the tree
  between the tabular compactor and its renderers, and the per-cell classifier. The discriminated
  variant \<open>Buckets\<close> is declared by the code and never produced.
\<close>

section \<open>The tree\<close>

datatype opaque_kind = Base64Blob | LongString | HtmlChunk | OtherKind string

fun opaque_kind_string :: "opaque_kind \<Rightarrow> string" where
  "opaque_kind_string Base64Blob = ''base64''"
| "opaque_kind_string LongString = ''string''"
| "opaque_kind_string HtmlChunk = ''html''"
| "opaque_kind_string (OtherKind name) = name"

record field_spec =
  fd_name :: string
  fd_type_tag :: string
  fd_nullable :: bool

text \<open>A cell that holds a compaction of its own is what makes the type recursive.\<close>

datatype 'c cell_of =
    CellScalar json
  | CellNested 'c
  | CellOpaqueRef string nat opaque_kind
  | CellMissing

datatype compaction =
    Table "field_spec list" "compaction cell_of list list" nat
  | Buckets string "(json \<times> field_spec list \<times> compaction cell_of list list) list" nat
  | OpaqueRef string nat opaque_kind
  | Untouched json

type_synonym cell = "compaction cell_of"

definition field_spec_names :: "field_spec list \<Rightarrow> string list" where "field_spec_names schema = map fd_name schema"

fun kept_row_count :: "compaction \<Rightarrow> nat" where
  "kept_row_count (Table schema rows n) = length rows"
| "kept_row_count (Buckets d bs n) = sum_list (map (\<lambda>(key, schema, rows). length rows) bs)"
| "kept_row_count _ = 0"

fun original_row_count :: "compaction \<Rightarrow> nat" where
  "original_row_count (Table schema rows n) = n"
| "original_row_count (Buckets d bs n) = n"
| "original_row_count _ = 0"

fun was_compacted :: "compaction \<Rightarrow> bool" where
  "was_compacted (Untouched v) = False"
| "was_compacted _ = True"

section \<open>Decoding\<close>

text \<open>The token stream of \<open>json.Decoder\<close> has no nesting limit: a text cannot nest deeper than it is long.\<close>

definition decode_tokens :: "string \<Rightarrow> json option" where
  "decode_tokens s = parse_json (length s) s"

definition parse_container :: "string \<Rightarrow> json option" where
  "parse_container s =
     (case decode_tokens s of Some (JObj ms) \<Rightarrow> Some (JObj ms) | Some (JArr vs) \<Rightarrow> Some (JArr vs) | _ \<Rightarrow> None)"

text \<open>The first rune that is not white space; \<open>TryParseJSONContainer\<close>.\<close>

definition starts_container :: "string \<Rightarrow> bool" where
  "starts_container s \<longleftrightarrow> (case trim_left_space s of c # _ \<Rightarrow> c = CHR ''{'' \<or> c = CHR ''['' | [] \<Rightarrow> False)"

definition try_parse_container :: "string \<Rightarrow> json option" where
  "try_parse_container s = (if starts_container s then parse_container s else None)"

section \<open>The classifier\<close>

datatype cell_class = ClassScalar | ClassJsonObject | ClassJsonArray | ClassStringifiedJson json | ClassOpaque opaque_kind

record classify_config =
  cf_opaque_min_bytes :: int
  cf_base64_ratio :: rat
  cf_html_min :: int

definition default_classify_config :: classify_config where
  "default_classify_config = \<lparr>cf_opaque_min_bytes = 256, cf_base64_ratio = f64 (95/100), cf_html_min = 3\<rparr>"

definition base64_rune :: "nat \<Rightarrow> bool" where
  "base64_rune r \<longleftrightarrow>
     48 \<le> r \<and> r \<le> 57 \<or> 65 \<le> r \<and> r \<le> 90 \<or> 97 \<le> r \<and> r \<le> 122 \<or> r \<in> {43, 47, 61, 95, 45}"

definition looks_like_base64 :: "string \<Rightarrow> rat \<Rightarrow> bool" where
  "looks_like_base64 s ratio \<longleftrightarrow>
     64 \<le> length s \<and> CHR ''<'' \<notin> set s \<and> CHR ''>'' \<notin> set s \<and> \<not> list_ex is_space_rune (runes s)
     \<and> ratio \<le> f64 (of_nat (length (filter base64_rune (runes s))) / of_nat (length s))
     \<and> 16 \<le> length (remdups (runes s))"

fun tag_starts :: "string \<Rightarrow> nat" where
  "tag_starts (c # d # s) =
     (if c = CHR ''<'' \<and> (is_alpha d \<or> d = CHR ''/'' \<or> d = CHR ''!'') then 1 else 0) + tag_starts (d # s)"
| "tag_starts _ = 0"

definition looks_like_html :: "string \<Rightarrow> int \<Rightarrow> bool" where
  "looks_like_html s min_open \<longleftrightarrow>
     min_open \<le> int (length (filter (\<lambda>c. c = CHR ''<'') s)) \<and> min_open \<le> int (tag_starts s)"

definition classify_string :: "string \<Rightarrow> classify_config \<Rightarrow> cell_class" where
  "classify_string s cfg =
     (case try_parse_container s of
        Some v \<Rightarrow> ClassStringifiedJson v
      | None \<Rightarrow>
          if int (length s) \<le> cf_opaque_min_bytes cfg then ClassScalar
          else if looks_like_base64 s (cf_base64_ratio cfg) then ClassOpaque Base64Blob
          else if looks_like_html s (cf_html_min cfg) then ClassOpaque HtmlChunk
          else ClassOpaque LongString)"

fun classify_cell :: "json \<Rightarrow> classify_config \<Rightarrow> cell_class" where
  "classify_cell (JObj ms) cfg = ClassJsonObject"
| "classify_cell (JArr vs) cfg = ClassJsonArray"
| "classify_cell (JStr s) cfg = classify_string s cfg"
| "classify_cell v cfg = ClassScalar"

section \<open>A decoded value is no larger than its text\<close>

text \<open>
  The weight of a value counts its nodes and the ASCII bytes of its strings. Decoding never increases it:
  an escape is replaced by fewer ASCII bytes and an invalid byte by a rune without any.
\<close>

definition ascii_count :: "string \<Rightarrow> nat" where "ascii_count s = length (filter (\<lambda>c. ord c < 128) s)"

fun weight :: "json \<Rightarrow> nat" where
  "weight (JStr s) = Suc (ascii_count s)"
| "weight (JArr vs) = Suc (sum_list (map weight vs))"
| "weight (JObj ms) = Suc (sum_list (map (\<lambda>(k, v). weight v) ms))"
| "weight _ = 1"

lemma ascii_count_simps [simp]:
  "ascii_count [] = 0"
  "ascii_count (c # s) = (if ord c < 128 then Suc (ascii_count s) else ascii_count s)"
  "ascii_count (s @ t) = ascii_count s + ascii_count t"
  by (simp_all add: ascii_count_def)

lemma ascii_count_drop: "ascii_count (drop n s) \<le> ascii_count s"
  by (metis append_take_drop_id ascii_count_simps(3) le_add2)

lemma ascii_encode_low: "ascii_count (encode_rune r) \<le> 1"
  by (simp add: encode_rune_def)

lemma ascii_encode_high: "128 \<le> r \<Longrightarrow> r < 1114112 \<Longrightarrow> ascii_count (encode_rune r) = 0"
  by (auto simp: encode_rune_def ord_chr)

lemma ascii_high: "\<forall>c\<in>set s. 128 \<le> ord c \<Longrightarrow> ascii_count s = 0"
  by (induction s) auto

lemma surrogate_pair_high: "surrogate_pair r s = Some n \<Longrightarrow> 128 \<le> n"
  by (auto simp: surrogate_pair_def split: list.splits option.splits if_splits)

lemma ascii_decoded:
  assumes "\<not> ord c < 128" shows "ascii_count (encode_rune (fst (decode_rune (c # s)))) = 0"
proof (cases "rune_invalid (c # s)")
  case True
  then show ?thesis by (simp add: rune_invalid_def rune_error_def ascii_encode_high)
next
  case False
  have "encode_rune (fst (decode_rune (c # s))) = take (rune_width (c # s)) (c # s)"
    using False by (intro encode_rune_decode) simp_all
  then show ?thesis using multibyte_high [of "c # s"] assms by (intro ascii_high) auto
qed

text \<open>One step of the string reader consumes a part of the text and emits no more ASCII bytes.\<close>

lemma read_chars_step:
  assumes "read_chars s = Some (u, r)"
  shows "s = CHR 0x22 # r \<and> u = []
    \<or> (\<exists>p q e w. s = p @ q \<and> p \<noteq> [] \<and> u = e @ w \<and> read_chars q = Some (w, r) \<and> ascii_count e \<le> ascii_count p)"
proof (cases s)
  case (Cons c t)
  have stepI: "\<exists>p q e w. s = p @ q \<and> p \<noteq> [] \<and> u = e @ w \<and> read_chars q = Some (w, r) \<and> ascii_count e \<le> ascii_count p"
    if "adds e (read_chars q) = Some (u, r)" "s = p @ q" "p \<noteq> []" "ascii_count e \<le> ascii_count p" for p q e
    using that adds_SomeD [OF that(1)] by blast
  consider (quote) "c = CHR 0x22" | (esc) "c = CHR 0x5C" | (ctl) "c \<noteq> CHR 0x22" "c \<noteq> CHR 0x5C" "ord c < 32"
    | (plain) "c \<noteq> CHR 0x22" "c \<noteq> CHR 0x5C" "\<not> ord c < 32" "ord c < 128"
    | (high) "c \<noteq> CHR 0x22" "c \<noteq> CHR 0x5C" "\<not> ord c < 32" "\<not> ord c < 128" by blast
  then show ?thesis
  proof cases
    case quote
    then show ?thesis using assms Cons by simp
  next
    case ctl
    then show ?thesis using assms Cons by simp
  next
    case plain
    then have "adds [c] (read_chars t) = Some (u, r)" using assms Cons by simp
    then show ?thesis using stepI [of "[c]" t "[c]"] Cons by simp
  next
    case high
    let ?k = "rune_width (c # t) - 1"
    have "adds (encode_rune (fst (decode_rune (c # t)))) (read_chars (drop ?k t)) = Some (u, r)" using assms Cons high by simp
    then show ?thesis using stepI [of "encode_rune (fst (decode_rune (c # t)))" "drop ?k t" "c # take ?k t"] Cons ascii_decoded [OF high(4), of t] by simp
  next
    case esc
    obtain e rest where t: "t = e # rest" using assms Cons esc by (cases t) auto
    show ?thesis
    proof (cases "e = CHR ''u''")
      case False
      then obtain d where d: "read_escape e = Some d" "adds [d] (read_chars rest) = Some (u, r)"
        using assms Cons esc t by (auto split: option.splits)
      then show ?thesis using stepI [OF d(2), of "[c, e]"] Cons esc t by simp
    next
      case True
      obtain a1 a2 a3 a4 q n where q: "rest = a1 # a2 # a3 # a4 # q" and n: "hex4 a1 a2 a3 a4 = Some n"
        using assms Cons esc t True by (auto split: list.splits option.splits)
      have pre: "s = [c, e, a1, a2, a3, a4] @ q" "1 \<le> ascii_count [c, e, a1, a2, a3, a4]" using Cons t q esc by simp_all
      show ?thesis
      proof (cases "is_surrogate n")
        case False
        then have "adds (encode_rune n) (read_chars q) = Some (u, r)" using assms Cons esc t True q n by simp
        then show ?thesis using stepI [of "encode_rune n" q] pre ascii_encode_low [of n] le_trans by blast
      next
        case sur: True
        show ?thesis
        proof (cases "surrogate_pair n q")
          case None
          then have "adds (encode_rune rune_error) (read_chars q) = Some (u, r)" using assms Cons esc t True q n sur by simp
          then show ?thesis using stepI [of "encode_rune rune_error" q] pre ascii_encode_low [of rune_error] le_trans by blast
        next
          case (Some d)
          then have "adds (encode_rune d) (read_chars (drop 6 q)) = Some (u, r)" using assms Cons esc t True q n sur by simp
          moreover have "s = ([c, e, a1, a2, a3, a4] @ take 6 q) @ drop 6 q" using pre(1) by simp
          moreover have "ascii_count (encode_rune d) \<le> ascii_count ([c, e, a1, a2, a3, a4] @ take 6 q)"
            using pre(2) ascii_encode_low [of d] by (metis ascii_count_simps(3) le_trans trans_le_add1)
          ultimately show ?thesis using stepI [of "encode_rune d" "drop 6 q" "[c, e, a1, a2, a3, a4] @ take 6 q"] by blast
        qed
      qed
    qed
  qed
qed (use assms in simp)

lemma read_chars_count: "read_chars s = Some (u, r) \<Longrightarrow> ascii_count u + ascii_count r < ascii_count s"
proof (induction "length s" arbitrary: s u rule: less_induct)
  case less
  from read_chars_step [OF less.prems] show ?case
  proof
    assume "\<exists>p q e w. s = p @ q \<and> p \<noteq> [] \<and> u = e @ w \<and> read_chars q = Some (w, r) \<and> ascii_count e \<le> ascii_count p"
    then obtain p q e w where st: "s = p @ q" "p \<noteq> []" "u = e @ w" "read_chars q = Some (w, r)" "ascii_count e \<le> ascii_count p"
      by blast
    have "length q < length s" using st(1,2) by simp
    then have "ascii_count w + ascii_count r < ascii_count q" using less.hyps st(4) by blast
    then show ?case using st by simp
  qed simp
qed

lemma ascii_skip_ws: "ascii_count (skip_ws s) \<le> ascii_count s"
  by (induction s) (auto simp: skip_ws_def)

lemma read_json_string_count: "read_json_string s = Some (u, r) \<Longrightarrow> ascii_count u + ascii_count r < ascii_count s"
  using read_chars_count by (fastforce simp: read_json_string_def simp del: read_chars.simps split: list.splits if_splits)

lemma weight_update:
  "sum_list (map (\<lambda>(k, v). weight v) (AList.update k v ms)) \<le> sum_list (map (\<lambda>(k, v). weight v) ms) + weight v"
  by (induction ms) auto

lemma number_ascii: "scan_number (c # t) = Some m \<Longrightarrow> ord c < 128 \<and> m \<noteq> []"
  using number_head [of "c # t" m] scan_number_self [of "c # t" m] by (auto simp: is_digit_def)

lemma parse_weight:
  "parse_value n d s = Some (v, r) \<Longrightarrow> weight v + ascii_count r \<le> ascii_count s"
  "parse_elems n d acc s = Some (v, r) \<Longrightarrow> weight v + ascii_count r \<le> ascii_count s + sum_list (map weight acc)"
  "parse_members n d ms s = Some (v, r) \<Longrightarrow>
     weight v + ascii_count r \<le> ascii_count s + sum_list (map (\<lambda>(k, v). weight v) ms)"
proof (induction n d s and n d acc s and n d ms s arbitrary: v r and v r and v r
    rule: parse_value_parse_elems_parse_members.induct)
  case (2 n d s)
  obtain c t where ct: "skip_ws s = c # t" using 2(3) by (cases "skip_ws s") auto
  have s: "ascii_count (c # t) \<le> ascii_count s" using ascii_skip_ws [of s] ct by simp
  have ws: "ascii_count (drop 1 (skip_ws t)) \<le> ascii_count t"
    using ascii_count_drop [of 1 "skip_ws t"] ascii_skip_ws [of t] by linarith
  consider (obj) "c = CHR ''{''" | (arr) "c = CHR ''[''" | (str) "c = CHR 0x22"
    | (other) "c \<noteq> CHR ''{''" "c \<noteq> CHR ''[''" "c \<noteq> CHR 0x22" by blast
  then show ?case
  proof cases
    case obj
    then obtain d' where d: "d = Suc d'" using 2(3) ct by (cases d) auto
    show ?thesis
    proof (cases "has_prefix (skip_ws t) ''}''")
      case True
      then show ?thesis using 2(3) ct obj d s ws by auto
    next
      case False
      then have "parse_members n d' [] t = Some (v, r)" using 2(3) ct obj d by simp
      then show ?thesis using 2(1) [OF ct obj] False d s obj by fastforce
    qed
  next
    case arr
    then obtain d' where d: "d = Suc d'" using 2(3) ct by (cases d) auto
    show ?thesis
    proof (cases "has_prefix (skip_ws t) '']''")
      case True
      then show ?thesis using 2(3) ct arr d s ws by auto
    next
      case False
      then have "parse_elems n d' [] t = Some (v, r)" using 2(3) ct arr d by simp
      then show ?thesis using 2(2) [OF ct _ arr] False d s arr by fastforce
    qed
  next
    case str
    then obtain u where "read_chars t = Some (u, r)" "v = JStr u" using 2(3) ct by (auto simp del: read_chars.simps)
    then show ?thesis using read_chars_count [of t u r] s str by simp
  next
    case other
    consider (lit) k where "v \<in> {JNull, JBool True, JBool False}" "r = drop k t" "ord c < 128"
      | (num) m where "scan_number (c # t) = Some m" "v = JNum m" "r = drop (length m) (c # t)"
      using 2(3) ct other by (auto split: if_splits)
    then show ?thesis
    proof cases
      case lit
      then have "weight v = 1" by auto
      then show ?thesis using s lit ascii_count_drop [of k t] by simp
    next
      case num
      have m: "ord c < 128" "m \<noteq> []" using number_ascii [OF num(1)] by auto
      then have "r = drop (length m - 1) t" by (cases m) (auto simp: num(3))
      then show ?thesis using s m(1) num(2) ascii_count_drop [of "length m - 1" t] by simp
    qed
  qed
next
  case (4 n d acc s)
  obtain w q where w: "parse_value n d s = Some (w, q)" using 4(3) by (auto split: option.splits)
  obtain c t where ct: "skip_ws q = c # t" using 4(3) w by (cases "skip_ws q") auto
  have wq: "weight w + ascii_count q \<le> ascii_count s" using 4(1) w by blast
  have q: "ascii_count (c # t) \<le> ascii_count q" using ascii_skip_ws [of q] ct by simp
  show ?case
  proof (cases "c = CHR '',''")
    case True
    then have "parse_elems n d (acc @ [w]) t = Some (v, r)" using 4(3) w ct by simp
    then have "weight v + ascii_count r \<le> ascii_count t + sum_list (map weight (acc @ [w]))"
      using 4(2) w ct True by blast
    then show ?thesis using wq q True by simp
  next
    case False
    then have "v = JArr (acc @ [w])" "r = t" "c = CHR '']''" using 4(3) w ct by (auto split: if_splits)
    then show ?thesis using wq q by simp
  qed
next
  case (6 n d ms s)
  obtain key q where k: "read_json_string (skip_ws s) = Some (key, q)" using 6(3) by (auto split: option.splits)
  obtain c t where ct: "skip_ws q = c # t" using 6(3) k by (cases "skip_ws q") auto
  have c: "c = CHR '':''" using 6(3) k ct by (auto split: if_splits)
  obtain w q2 where w: "parse_value n d t = Some (w, q2)" using 6(3) k ct c by (auto split: option.splits)
  obtain c2 t2 where ct2: "skip_ws q2 = c2 # t2" using 6(3) k ct c w by (cases "skip_ws q2") auto
  have "ascii_count q < ascii_count s" using read_json_string_count [OF k] ascii_skip_ws [of s] by linarith
  moreover have "ascii_count (c # t) \<le> ascii_count q" using ascii_skip_ws [of q] ct by simp
  moreover have "weight w + ascii_count q2 \<le> ascii_count t" using 6(1) k ct c w by blast
  moreover have q2: "ascii_count (c2 # t2) \<le> ascii_count q2" using ascii_skip_ws [of q2] ct2 by simp
  ultimately have b: "weight w + ascii_count (c2 # t2) \<le> ascii_count s" using c by simp
  note u = weight_update [of key w ms]
  show ?case
  proof (cases "c2 = CHR '',''")
    case True
    then have "parse_members n d (AList.update key w ms) t2 = Some (v, r)" using 6(3) k ct c w ct2 by simp
    then have "weight v + ascii_count r \<le> ascii_count t2 + sum_list (map (\<lambda>(k, v). weight v) (AList.update key w ms))"
      using 6(2) k ct c w ct2 True by blast
    then show ?thesis using b u True by simp
  next
    case False
    then have "v = JObj (AList.update key w ms)" "r = t2" "c2 = CHR ''}''" using 6(3) k ct c w ct2 by (auto split: if_splits)
    then show ?thesis using b u by simp
  qed
qed auto

text \<open>A value decoded from a string weighs less than the string.\<close>

lemma decoded_weight: "decode_tokens s = Some v \<Longrightarrow> weight v < weight (JStr s)"
proof -
  assume "decode_tokens s = Some v"
  then obtain r where "parse_value (2 * length s + 2) (length s) s = Some (v, r)"
    by (auto simp: decode_tokens_def parse_json_def split: option.splits if_splits)
  then show ?thesis using parse_weight(1) by fastforce
qed

lemma try_parse_weight: "try_parse_container s = Some v \<Longrightarrow> weight v < weight (JStr s)"
  by (auto simp: try_parse_container_def parse_container_def dest: decoded_weight split: if_splits option.splits json.splits)

lemma classify_weight: "classify_cell v cfg = ClassStringifiedJson p \<Longrightarrow> weight p < weight v"
  by (cases v) (auto simp: classify_string_def dest: try_parse_weight split: option.splits if_splits)

end
