(* ===== verification/Compactor.thy ===== *)
theory Compactor
  imports CompactIr
begin

text \<open>
  \<open>compaction/compactor.go\<close>: an array of objects becomes a table with one column per key. SHA-256 is the
  argument \<open>sha\<close>. The core ratio is computed and not used by the code, so only its function is modelled.
\<close>

section \<open>Configuration and columns\<close>

record compact_config =
  cc_classify :: classify_config
  cc_min_items :: int
  cc_core_field_fraction :: rat
  cc_heterogeneous_ratio :: rat
  cc_max_flatten_keys :: int
  cc_min_buckets :: int
  cc_max_buckets :: int

definition default_compact_config :: compact_config where
  "default_compact_config =
     \<lparr>cc_classify = default_classify_config, cc_min_items = 2, cc_core_field_fraction = f64 (8/10),
      cc_heterogeneous_ratio = f64 (6/10), cc_max_flatten_keys = 6, cc_min_buckets = 2, cc_max_buckets = 8\<rparr>"

definition core_ratio :: "nat \<Rightarrow> nat \<Rightarrow> rat" where
  "core_ratio core_count total_keys = (if total_keys = 0 then 1 else f64 (of_nat core_count / of_nat total_keys))"

fun members_of :: "json \<Rightarrow> (string \<times> json) list" where
  "members_of (JObj ms) = ms"
| "members_of _ = []"

text \<open>Keys in byte order with the number of objects that have them.\<close>

definition compute_key_freqs :: "json list \<Rightarrow> (string \<times> nat) list" where
  "compute_key_freqs items =
     (let keys = concat (map (\<lambda>it. map fst (members_of it)) items)
      in map (\<lambda>k. (k, length (filter (\<lambda>q. q = k) keys))) (sort (remdups keys)))"

definition ordered_keys :: "(string \<times> nat) list \<Rightarrow> (string \<times> nat) list" where
  "ordered_keys freqs = sort_key (\<lambda>(k, f). - int f) freqs"

definition is_integer_number :: "string \<Rightarrow> bool" where
  "is_integer_number s \<longleftrightarrow> parse_int64 s \<noteq> None \<or> parse_uint64 s \<noteq> None"

fun type_tag_for :: "json \<Rightarrow> string" where
  "type_tag_for JNull = ''null''"
| "type_tag_for (JBool b) = ''bool''"
| "type_tag_for (JObj ms) = ''json''"
| "type_tag_for (JArr vs) = ''json''"
| "type_tag_for (JStr s) = ''string''"
| "type_tag_for (JNum m) = (if is_integer_number m then ''int'' else ''float'')"

text \<open>The tag of the first value, widened to \<open>json\<close> by the first one that differs.\<close>

fun widen :: "string \<Rightarrow> json list \<Rightarrow> string" where
  "widen tag [] = tag"
| "widen tag (v # vs) = (if type_tag_for v \<noteq> tag then ''json'' else widen tag vs)"

definition infer_type_tag :: "json list \<Rightarrow> string \<Rightarrow> string" where
  "infer_type_tag items key =
     (case filter (\<lambda>v. v \<noteq> JNull) (List.map_filter (\<lambda>it. map_of (members_of it) key) items) of
        [] \<Rightarrow> ''string''
      | v # vs \<Rightarrow> widen (type_tag_for v) vs)"

definition has_explicit_null :: "json list \<Rightarrow> string \<Rightarrow> bool" where
  "has_explicit_null items key \<longleftrightarrow> list_ex (\<lambda>it. map_of (members_of it) key = Some JNull) items"

definition build_specs :: "json list \<Rightarrow> (string \<times> nat) list \<Rightarrow> field_spec list" where
  "build_specs items ordered =
     map (\<lambda>(k, f). \<lparr>fd_name = k, fd_type_tag = infer_type_tag items k,
                     fd_nullable = (f < length items \<or> has_explicit_null items k)\<rparr>) ordered"

definition hash_opaque :: "(string \<Rightarrow> string) \<Rightarrow> string \<Rightarrow> string" where
  "hash_opaque sha payload = hex_encode (take 6 (sha payload))"

section \<open>Flattening\<close>

text \<open>
  The shared key list of the objects of a column: \<open>None\<close> when a cell is not an object or the lists
  differ. An object without keys leaves the list as it was.
\<close>

fun canon_keys :: "cell list \<Rightarrow> string list \<Rightarrow> string list option" where
  "canon_keys [] ks = Some ks"
| "canon_keys (CellMissing # cs) ks = canon_keys cs ks"
| "canon_keys (CellScalar (JObj ms) # cs) ks =
     (if ks = [] then canon_keys cs (map fst ms) else if ks = map fst ms then canon_keys cs ks else None)"
| "canon_keys (c # cs) ks = None"

definition uniform_object_keys :: "field_spec list \<Rightarrow> cell list list \<Rightarrow> nat \<Rightarrow> string list" where
  "uniform_object_keys specs rows col =
     (if CHR ''.'' \<in> set (fd_name (specs ! col)) \<or> list_ex (\<lambda>r. length r \<le> col) rows then []
      else (case canon_keys (map (\<lambda>r. r ! col) rows) [] of None \<Rightarrow> [] | Some ks \<Rightarrow> ks))"

fun expand_cell :: "string list \<Rightarrow> cell \<Rightarrow> cell list" where
  "expand_cell ks (CellScalar (JObj ms)) =
     map (\<lambda>k. case map_of ms k of Some v \<Rightarrow> CellScalar v | None \<Rightarrow> CellMissing) ks"
| "expand_cell ks _ = map (\<lambda>k. CellMissing) ks"

text \<open>\<open>inferTypeTagFromCells\<close>: tag, whether a value was seen, and whether the column is nullable.\<close>

fun cell_tag_step :: "cell \<Rightarrow> string \<times> bool \<times> bool \<Rightarrow> string \<times> bool \<times> bool" where
  "cell_tag_step CellMissing (tag, saw, nullable) = (tag, saw, True)"
| "cell_tag_step (CellScalar v) (tag, saw, nullable) =
     (if v = JNull then (tag, saw, True)
      else if \<not> saw then (type_tag_for v, True, nullable)
      else if type_tag_for v \<noteq> tag then (''json'', saw, nullable) else (tag, saw, nullable))"
| "cell_tag_step _ (tag, saw, nullable) = (''json'', saw, nullable)"

definition infer_type_tag_from_cells :: "cell list list \<Rightarrow> nat \<Rightarrow> string \<times> bool" where
  "infer_type_tag_from_cells rows col =
     (case fold cell_tag_step (map (\<lambda>r. r ! col) (filter (\<lambda>r. col < length r) rows)) (''string'', False, False) of
        (tag, saw, nullable) \<Rightarrow> (tag, nullable))"

definition expand_row :: "string list \<Rightarrow> nat \<Rightarrow> cell list \<Rightarrow> cell list" where
  "expand_row ks i r = take i r @ expand_cell ks (r ! i) @ drop (Suc i) r"

definition expand_specs :: "string list \<Rightarrow> nat \<Rightarrow> cell list list \<Rightarrow> field_spec list \<Rightarrow> field_spec list" where
  "expand_specs ks i rows' specs =
     take i specs
     @ map (\<lambda>j. case infer_type_tag_from_cells rows' (i + j) of
                   (tag, nullable) \<Rightarrow> \<lparr>fd_name = fd_name (specs ! i) @ ''.'' @ ks ! j, fd_type_tag = tag, fd_nullable = nullable\<rparr>)
         [0..<length ks]
     @ drop (Suc i) specs"

text \<open>\<open>flattenUniformNested\<close> from column \<open>i\<close> on.\<close>

function flatten_from :: "compact_config \<Rightarrow> nat \<Rightarrow> field_spec list \<Rightarrow> cell list list \<Rightarrow> field_spec list \<times> cell list list" where
  "flatten_from cfg i specs rows =
     (if length specs \<le> i then (specs, rows)
      else
        (let ks = uniform_object_keys specs rows i in
         if ks = [] \<or> cc_max_flatten_keys cfg < int (length ks) then flatten_from cfg (Suc i) specs rows
         else (let rows' = map (expand_row ks i) rows
               in flatten_from cfg (i + length ks) (expand_specs ks i rows' specs) rows')))"
  by pat_completeness auto

termination
  by (relation "measure (\<lambda>(cfg, i, specs, rows). length specs - i)") (auto simp: expand_specs_def)

declare flatten_from.simps [simp del]

section \<open>Tables\<close>

text \<open>
  \<open>Compact\<close> and \<open>cellFromValue\<close> call each other on arrays of objects, also on those that a string
  contains as JSON text. The weight of the value decreases.
\<close>

function compact :: "(string \<Rightarrow> string) \<Rightarrow> compact_config \<Rightarrow> json list \<Rightarrow> compaction"
  and cell_from_value :: "(string \<Rightarrow> string) \<Rightarrow> compact_config \<Rightarrow> json \<Rightarrow> cell" where
  "compact sha cfg items =
     (if int (length items) < cc_min_items cfg \<or> \<not> list_all is_obj items then Untouched (JArr items)
      else
        (let ordered = ordered_keys (compute_key_freqs items);
             rows = map (\<lambda>it. case it of
                           JObj ms \<Rightarrow> map (\<lambda>(k, f). case map_of ms k of None \<Rightarrow> CellMissing | Some v \<Rightarrow> cell_from_value sha cfg v) ordered
                         | _ \<Rightarrow> []) items;
             (specs, rows') = flatten_from cfg 0 (build_specs items ordered) rows
         in Table specs rows' (length items)))"
| "cell_from_value sha cfg v =
     (case classify_cell v (cc_classify cfg) of
        ClassScalar \<Rightarrow> CellScalar v
      | ClassJsonObject \<Rightarrow> CellScalar v
      | ClassJsonArray \<Rightarrow>
          (case v of
             JArr vs \<Rightarrow> if 2 \<le> length vs \<and> list_all is_obj vs then CellNested (compact sha cfg vs) else CellScalar v
           | _ \<Rightarrow> CellScalar v)
      | ClassStringifiedJson p \<Rightarrow>
          (case p of
             JArr vs \<Rightarrow> if 2 \<le> length vs \<and> list_all is_obj vs then CellNested (compact sha cfg vs) else CellScalar p
           | _ \<Rightarrow> CellScalar p)
      | ClassOpaque kind \<Rightarrow>
          (case v of JStr s \<Rightarrow> CellOpaqueRef (hash_opaque sha s) (length s) kind | _ \<Rightarrow> CellScalar v))"
  by pat_completeness auto

lemma weight_member: "map_of ms k = Some v \<Longrightarrow> weight v < weight (JObj ms)"
  by (induction ms) (auto split: if_splits)

lemma weight_elem: "it \<in> set items \<Longrightarrow> weight it \<le> sum_list (map weight items)"
  by (induction items) auto

lemma weight_nested: "JObj ms \<in> set items \<Longrightarrow> map_of ms k = Some v \<Longrightarrow> weight v < sum_list (map weight items)"
  using weight_member weight_elem by (metis less_le_trans)

termination compact
  by (relation "measure (\<lambda>x. case x of Inl (sha, cfg, items) \<Rightarrow> sum_list (map weight items) | Inr (sha, cfg, v) \<Rightarrow> weight v)")
     (auto dest: weight_nested classify_weight)

declare compact.simps [simp del] cell_from_value.simps [simp del]

end
