(* ===== verification/CompactorProps.thy ===== *)
theory CompactorProps
  imports Compactor
begin

text \<open>
  The in-place flattening loop computes a column-wise specification, the table has one row per item and
  one cell per column, and every member of every item can be read off the table.
\<close>

section \<open>Tables by columns\<close>

definition rectangular :: "field_spec list \<Rightarrow> cell list list \<Rightarrow> bool" where
  "rectangular specs rows \<longleftrightarrow> (\<forall>r\<in>set rows. length r = length specs)"

definition table_columns :: "field_spec list \<Rightarrow> cell list list \<Rightarrow> (string \<times> cell list) list" where
  "table_columns specs rows = map (\<lambda>j. (fd_name (specs ! j), map (\<lambda>r. r ! j) rows)) [0..<length specs]"

fun inner_cell :: "string \<Rightarrow> cell \<Rightarrow> cell" where
  "inner_cell k (CellScalar (JObj ms)) = (case map_of ms k of Some v \<Rightarrow> CellScalar v | None \<Rightarrow> CellMissing)"
| "inner_cell k _ = CellMissing"

text \<open>The keys one column is flattened into; none when it stays.\<close>

definition column_keys :: "compact_config \<Rightarrow> string \<times> cell list \<Rightarrow> string list" where
  "column_keys cfg = (\<lambda>(name, cells).
     let ks = (if CHR ''.'' \<in> set name then [] else case canon_keys cells [] of None \<Rightarrow> [] | Some ks \<Rightarrow> ks)
     in if cc_max_flatten_keys cfg < int (length ks) then [] else ks)"

definition flat_column :: "compact_config \<Rightarrow> string \<times> cell list \<Rightarrow> (string \<times> cell list) list" where
  "flat_column cfg col =
     (if column_keys cfg col = [] then [col]
      else map (\<lambda>k. (fst col @ ''.'' @ k, map (inner_cell k) (snd col))) (column_keys cfg col))"

lemma expand_cell_map: "expand_cell ks c = map (\<lambda>k. inner_cell k c) ks"
  by (induction ks c rule: expand_cell.induct) auto

lemma length_expand_row: "i < length r \<Longrightarrow> length (expand_row ks i r) = length r - 1 + length ks"
  by (simp add: expand_row_def expand_cell_map)

lemma length_expand_specs: "i < length specs \<Longrightarrow> length (expand_specs ks i rows' specs) = length specs - 1 + length ks"
  by (simp add: expand_specs_def)

lemma length_table_columns [simp]: "length (table_columns specs rows) = length specs"
  by (simp add: table_columns_def)

lemma nth_table_columns [simp]:
  "j < length specs \<Longrightarrow> table_columns specs rows ! j = (fd_name (specs ! j), map (\<lambda>r. r ! j) rows)"
  by (simp add: table_columns_def)

lemma expand_nth:
  assumes "i < length r"
  shows "j < i \<Longrightarrow> expand_row ks i r ! j = r ! j"
    and "j < length ks \<Longrightarrow> expand_row ks i r ! (i + j) = inner_cell (ks ! j) (r ! i)"
    and "i + length ks \<le> j \<Longrightarrow> j < length r - 1 + length ks \<Longrightarrow> expand_row ks i r ! j = r ! (j - length ks + 1)"
  using assms by (auto simp: expand_row_def expand_cell_map nth_append min_def)

lemma expand_specs_nth:
  assumes "i < length specs"
  shows "j < i \<Longrightarrow> expand_specs ks i rows' specs ! j = specs ! j"
    and "j < length ks \<Longrightarrow> fd_name (expand_specs ks i rows' specs ! (i + j)) = fd_name (specs ! i) @ ''.'' @ ks ! j"
    and "i + length ks \<le> j \<Longrightarrow> j < length specs - 1 + length ks \<Longrightarrow> expand_specs ks i rows' specs ! j = specs ! (j - length ks + 1)"
  using assms by (auto simp: expand_specs_def nth_append min_def split: prod.splits)

lemma columns_expand:
  assumes i: "i < length specs" and rect: "rectangular specs rows"
  shows "table_columns (expand_specs ks i rows' specs) (map (expand_row ks i) rows) =
    take i (table_columns specs rows)
    @ map (\<lambda>k. (fst (table_columns specs rows ! i) @ ''.'' @ k, map (inner_cell k) (snd (table_columns specs rows ! i)))) ks
    @ drop (Suc i) (table_columns specs rows)" (is "?L = ?R")
proof (rule nth_equalityI)
  show "length ?L = length ?R" using i by (simp add: length_expand_specs)
next
  fix j assume "j < length ?L"
  then have j: "j < length specs - 1 + length ks" using i by (simp add: length_expand_specs)
  have r: "i < length r" if "r \<in> set rows" for r using that rect i by (simp add: rectangular_def)
  consider (lo) "j < i" | (mid) p where "j = i + p" "p < length ks" | (hi) "i + length ks \<le> j"
    by (metis le_add_diff_inverse less_diff_conv2 linorder_not_le add.commute)
  then show "?L ! j = ?R ! j"
  proof cases
    case lo
    then show ?thesis using i j r by (simp add: nth_append expand_specs_nth expand_nth length_expand_specs)
  next
    case mid
    then show ?thesis using i j r by (simp add: nth_append expand_specs_nth expand_nth length_expand_specs)
  next
    case hi
    have len: "length r = length specs" if "r \<in> set rows" for r using that rect by (simp add: rectangular_def)
    have k: "j - length ks + 1 < length specs" "j - (i + length ks) + Suc i = j - length ks + 1" using hi j i by auto
    have "?L ! j = (fd_name (specs ! (j - length ks + 1)), map (\<lambda>r. r ! (j - length ks + 1)) rows)"
      using i j hi r len by (simp add: expand_specs_nth expand_nth length_expand_specs)
    moreover have n: "\<not> j < i" "\<not> j - i < length ks" "Suc i + (j - i - length ks) = j - length ks + 1" using hi by auto
    then have "?R ! j = table_columns specs rows ! (j - length ks + 1)"
      using i k by (simp add: nth_append del: nth_table_columns)
    ultimately show ?thesis using k by simp
  qed
qed

lemma rectangular_expand:
  "i < length specs \<Longrightarrow> rectangular specs rows \<Longrightarrow> rectangular (expand_specs ks i rows' specs) (map (expand_row ks i) rows)"
  by (simp add: rectangular_def length_expand_row length_expand_specs)

lemma uniform_keys_column:
  assumes "i < length specs" and "rectangular specs rows"
  shows "(let ks = uniform_object_keys specs rows i in if cc_max_flatten_keys cfg < int (length ks) then [] else ks)
    = column_keys cfg (table_columns specs rows ! i)"
proof -
  have "\<not> list_ex (\<lambda>r. length r \<le> i) rows" using assms by (auto simp: list_ex_iff rectangular_def)
  then show ?thesis using assms(1) by (simp add: uniform_object_keys_def column_keys_def Let_def split: option.splits)
qed

lemma flatten_from_columns:
  "rectangular specs rows \<Longrightarrow> flatten_from cfg i specs rows = (specs', rows') \<Longrightarrow>
     rectangular specs' rows' \<and> length rows' = length rows
     \<and> table_columns specs' rows' = take i (table_columns specs rows)
         @ concat (map (flat_column cfg) (drop i (table_columns specs rows)))"
proof (induction cfg i specs rows arbitrary: specs' rows' rule: flatten_from.induct)
  case (1 cfg i specs rows)
  let ?C = "table_columns specs rows" and ?ks = "uniform_object_keys specs rows i"
  show ?case
  proof (cases "length specs \<le> i")
    case True
    then show ?thesis using 1(3,4) by (simp add: flatten_from.simps [of cfg i])
  next
    case False
    then have i: "i < length specs" by simp
    have dr: "drop i ?C = ?C ! i # drop (Suc i) ?C" by (rule Cons_nth_drop_Suc [symmetric]) (simp add: i)
    note ck = uniform_keys_column [OF i 1(3), of cfg]
    show ?thesis
    proof (cases "?ks = [] \<or> cc_max_flatten_keys cfg < int (length ?ks)")
      case True
      then have e: "flatten_from cfg (Suc i) specs rows = (specs', rows')"
        using 1(4) False by (simp add: flatten_from.simps [of cfg i] Let_def)
      have "flat_column cfg (?C ! i) = [?C ! i]" using ck True by (auto simp: flat_column_def Let_def split: if_splits)
      then show ?thesis using 1(1) [OF False HOL.refl True 1(3) e] dr i
        by (simp add: take_Suc_conv_app_nth)
    next
      case ex: False
      let ?rows = "map (expand_row ?ks i) rows" and ?specs = "expand_specs ?ks i (map (expand_row ?ks i) rows) specs"
      have e: "flatten_from cfg (i + length ?ks) ?specs ?rows = (specs', rows')"
        using 1(4) False ex by (simp add: flatten_from.simps [of cfg i] Let_def)
      have c: "column_keys cfg (?C ! i) = ?ks" using ck ex by (auto simp: Let_def split: if_splits)
      have new: "table_columns ?specs ?rows = take i ?C @ flat_column cfg (?C ! i) @ drop (Suc i) ?C"
        using columns_expand [OF i 1(3)] ex by (simp add: flat_column_def c)
      have len: "length (flat_column cfg (?C ! i)) = length ?ks" using ex by (simp add: flat_column_def c)
      show ?thesis
        using 1(2) [OF False HOL.refl ex HOL.refl rectangular_expand [OF i 1(3)] e] dr i len
        by (simp add: new)
    qed
  qed
qed

section \<open>From items to the table\<close>

text \<open>The column of a key before flattening.\<close>

definition item_cell :: "(string \<Rightarrow> string) \<Rightarrow> compact_config \<Rightarrow> string \<Rightarrow> json \<Rightarrow> cell" where
  "item_cell sha cfg k it =
     (case map_of (members_of it) k of None \<Rightarrow> CellMissing | Some v \<Rightarrow> cell_from_value sha cfg v)"

definition item_columns :: "(string \<Rightarrow> string) \<Rightarrow> compact_config \<Rightarrow> json list \<Rightarrow> (string \<times> cell list) list" where
  "item_columns sha cfg items =
     map (\<lambda>(k, f). (k, map (item_cell sha cfg k) items)) (ordered_keys (compute_key_freqs items))"

lemma set_ordered_keys: "fst ` set (ordered_keys (compute_key_freqs items)) = (\<Union>it\<in>set items. fst ` set (members_of it))"
proof -
  have "fst ` set (ordered_keys (compute_key_freqs items)) = set (concat (map (\<lambda>it. map fst (members_of it)) items))"
    by (simp add: ordered_keys_def compute_key_freqs_def Let_def image_image)
  then show ?thesis by simp
qed

lemma compact_untouched_iff:
  "was_compacted (compact sha cfg items) \<longleftrightarrow> cc_min_items cfg \<le> int (length items) \<and> list_all is_obj items"
  by (auto simp: compact.simps [of sha cfg items] Let_def split: prod.splits)

text \<open>The table is the column-wise specification of the items.\<close>

lemma compact_columns:
  assumes "compact sha cfg items = Table specs rows n"
  shows "n = length items \<and> length rows = length items \<and> rectangular specs rows \<and> list_all is_obj items
    \<and> table_columns specs rows = concat (map (flat_column cfg) (item_columns sha cfg items))"
proof -
  let ?ord = "ordered_keys (compute_key_freqs items)"
  let ?specs = "build_specs items ?ord"
  let ?rows = "map (\<lambda>it. map (\<lambda>(k, f). item_cell sha cfg k it) ?ord) items"
  have obj: "list_all is_obj items" "\<not> int (length items) < cc_min_items cfg"
    using assms by (auto simp: compact.simps [of sha cfg items] split: if_splits)
  have rows: "map (\<lambda>it. case it of
      JObj ms \<Rightarrow> map (\<lambda>(k, f). case map_of ms k of None \<Rightarrow> CellMissing | Some v \<Rightarrow> cell_from_value sha cfg v) ?ord
    | _ \<Rightarrow> []) items = ?rows"
    using obj(1) by (intro map_cong HOL.refl) (auto simp: list_all_iff is_obj_iff item_cell_def split: prod.splits)
  have flat: "flatten_from cfg 0 ?specs ?rows = (specs, rows)" "n = length items"
    using assms obj by (simp_all add: compact.simps [of sha cfg items] rows Let_def split: prod.splits)
  have rect: "rectangular ?specs ?rows" by (auto simp: rectangular_def build_specs_def)
  have "table_columns ?specs ?rows = item_columns sha cfg items"
    by (rule nth_equalityI) (auto simp: item_columns_def build_specs_def split: prod.splits)
  then show ?thesis using flatten_from_columns [OF rect flat(1)] flat(2) obj(1) by simp
qed

lemma table_column_cell:
  assumes "rectangular specs rows" and "(name, cells) \<in> set (table_columns specs rows)" and "i < length rows"
  shows "\<exists>c<length specs. fd_name (specs ! c) = name \<and> rows ! i ! c = cells ! i"
proof -
  obtain c where "c < length specs" "(name, cells) = table_columns specs rows ! c"
    using assms(2) by (metis in_set_conv_nth length_table_columns)
  then show ?thesis using assms(3) by (auto intro!: exI [of _ c])
qed

text \<open>Every object of a flattened column has the flattened keys, or none.\<close>

lemma canon_keys_Some:
  "canon_keys cells ks = Some ls \<Longrightarrow> (ks \<noteq> [] \<longrightarrow> ls = ks)
     \<and> (\<forall>ms. CellScalar (JObj ms) \<in> set cells \<longrightarrow> map fst ms = ls \<or> ms = [])
     \<and> (\<forall>c\<in>set cells. c = CellMissing \<or> (\<exists>ms. c = CellScalar (JObj ms)))"
proof (induction cells ks rule: canon_keys.induct)
  case (3 ms cs ks)
  then show ?case by (cases "ks = []"; cases "ms = []") (auto split: if_splits)
qed auto

lemma flattened_keys:
  assumes "column_keys cfg (name, cells) \<noteq> []" and "c \<in> set cells"
  shows "c = CellMissing \<or> (\<exists>ms. c = CellScalar (JObj ms) \<and> (map fst ms = column_keys cfg (name, cells) \<or> ms = []))"
proof -
  obtain ls where ls: "canon_keys cells [] = Some ls" "column_keys cfg (name, cells) = ls"
    using assms(1) by (auto simp: column_keys_def Let_def split: if_splits option.splits)
  then show ?thesis using canon_keys_Some [OF ls(1)] assms(2) by blast
qed

lemma cell_from_value_present: "cell_from_value sha cfg v \<noteq> CellMissing"
  by (simp add: cell_from_value.simps split: cell_class.splits json.splits)

lemma compact_member_cell:
  assumes c: "compact sha cfg items = Table specs rows n" and i: "i < length items" "items ! i = JObj ms"
    and k: "k \<in> (\<Union>it\<in>set items. fst ` set (members_of it))"
  shows "(\<exists>c<length specs. fd_name (specs ! c) = k \<and> rows ! i ! c = item_cell sha cfg k (items ! i))
    \<or> (\<exists>ks. (item_cell sha cfg k (items ! i) = CellMissing
              \<or> (\<exists>inner. item_cell sha cfg k (items ! i) = CellScalar (JObj inner) \<and> (map fst inner = ks \<or> inner = [])))
          \<and> (\<forall>q\<in>set ks. \<exists>c<length specs. fd_name (specs ! c) = k @ ''.'' @ q
                            \<and> rows ! i ! c = inner_cell q (item_cell sha cfg k (items ! i))))"
proof -
  let ?cells = "map (item_cell sha cfg k) items"
  note t = compact_columns [OF c]
  have col: "(k, ?cells) \<in> set (item_columns sha cfg items)"
    using k set_ordered_keys [of items] by (force simp: item_columns_def)
  then have sub: "set (flat_column cfg (k, ?cells)) \<subseteq> set (table_columns specs rows)" using t by auto
  have row: "i < length rows" using t i(1) by simp
  show ?thesis
  proof (cases "column_keys cfg (k, ?cells) = []")
    case True
    then have "(k, ?cells) \<in> set (table_columns specs rows)" using sub by (simp add: flat_column_def)
    then show ?thesis using table_column_cell [OF _ _ row] t i(1) by fastforce
  next
    case False
    let ?ks = "column_keys cfg (k, ?cells)"
    have "\<exists>c<length specs. fd_name (specs ! c) = k @ ''.'' @ q \<and> rows ! i ! c = inner_cell q (item_cell sha cfg k (items ! i))"
      if "q \<in> set ?ks" for q
    proof -
      have "(k @ ''.'' @ q, map (inner_cell q) ?cells) \<in> set (table_columns specs rows)"
        using sub that False by (auto simp: flat_column_def)
      then show ?thesis using table_column_cell [OF _ _ row] t i(1) by fastforce
    qed
    moreover have "item_cell sha cfg k (items ! i) \<in> set ?cells" using i(1) by simp
    ultimately show ?thesis using flattened_keys [OF False] by blast
  qed
qed


lemma compact_table:
  "cc_min_items cfg \<le> int (length items) \<Longrightarrow> list_all is_obj items \<Longrightarrow>
     \<exists>specs rows. compact sha cfg items = Table specs rows (length items)"
  by (auto simp: compact.simps [of sha cfg items] Let_def split: prod.splits)


end
