(* ===== verification/CcrMarker.thy ===== *)
theory CcrMarker
  imports GoStrings
begin

text \<open>
  Content keys and retrieval markers: \<open>internal/ccr/key.go\<close>, \<open>md5key.go\<close>, \<open>marker.go\<close>.
  BLAKE3 is a third-party package and the digests are opaque to the code, so the digest
  functions are arguments; the code relies on their length only (their Go types are
  \<open>[32]byte\<close> and \<open>[16]byte\<close>).
\<close>

section \<open>Keys\<close>

text \<open>\<open>ComputeKey\<close>: first 12 bytes of the 32-byte BLAKE3 digest, in hex.\<close>

definition compute_key :: "(string \<Rightarrow> string) \<Rightarrow> string \<Rightarrow> string" where
  "compute_key blake3 payload = hex_encode (take 12 (blake3 payload))"

text \<open>\<open>ComputeKeyMD5\<close>: first 24 characters of the hex form of the 16-byte MD5 digest.\<close>

definition compute_key_md5 :: "(string \<Rightarrow> string) \<Rightarrow> string \<Rightarrow> string" where
  "compute_key_md5 md5 payload = take 24 (hex_encode (md5 payload))"

definition is_key :: "string \<Rightarrow> bool" where
  "is_key h \<longleftrightarrow> length h = 24 \<and> list_all is_lower_hex h"

lemma compute_key_is_key: "length (blake3 p) = 32 \<Longrightarrow> is_key (compute_key blake3 p)"
  by (simp add: is_key_def compute_key_def hex_encode_lower)

lemma compute_key_md5_is_key: "length (md5 p) = 16 \<Longrightarrow> is_key (compute_key_md5 md5 p)"
  using hex_encode_lower [of "md5 p"]
  by (auto simp: is_key_def compute_key_md5_def list_all_iff dest: in_set_takeD)

section \<open>Markers\<close>

definition marker_prefix :: string where "marker_prefix = ''<<ccr:''"
definition marker_suffix :: string where "marker_suffix = ''>>''"

definition marker_for :: "string \<Rightarrow> string" where
  "marker_for h = marker_prefix @ h @ marker_suffix"

definition marker_for_cell :: "string \<Rightarrow> string \<Rightarrow> int \<Rightarrow> string" where
  "marker_for_cell h kind sz =
     marker_prefix @ h @ '','' @ kind @ '','' @ itoa sz @ marker_suffix"

definition marker_for_lossy :: "string \<Rightarrow> int \<Rightarrow> string" where
  "marker_for_lossy h rows =
     marker_prefix @ h @ '' '' @ itoa rows @ ''_rows_offloaded'' @ marker_suffix"

text \<open>\<open>canonicalRe\<close>: \<open>^<<ccr:([0-9a-f]{24})>>$\<close>.\<close>

definition parse_marker :: "string \<Rightarrow> string option" where
  "parse_marker s =
     (if length s = 32 \<and> has_prefix s marker_prefix \<and> list_all is_lower_hex (slice s 6 30)
         \<and> drop 30 s = marker_suffix
      then Some (slice s 6 30) else None)"

text \<open>
  \<open>hashesRe\<close>: \<open>(?:<<ccr:|hash=)([0-9a-f]{24})\<close>. \<open>match_hash\<close> is an anchored match: the
  submatch and the text after the match; \<open>find_hashes\<close> is \<open>FindAllStringSubmatch\<close>, the
  leftmost non-overlapping matches.
\<close>

definition hex24 :: "string \<Rightarrow> (string \<times> string) option" where
  "hex24 t = (if 24 \<le> length t \<and> list_all is_lower_hex (take 24 t) then Some (take 24 t, drop 24 t) else None)"

definition match_hash :: "string \<Rightarrow> (string \<times> string) option" where
  "match_hash s =
     (if has_prefix s ''<<ccr:'' then hex24 (drop 6 s)
      else if has_prefix s ''hash='' then hex24 (drop 5 s) else None)"

lemma match_hash_shorter: "match_hash s = Some (h, t) \<Longrightarrow> length t < length s"
  by (auto simp: match_hash_def hex24_def dest: has_prefix_length split: if_splits)

function find_hashes :: "string \<Rightarrow> string list" where
  "find_hashes [] = []"
| "find_hashes (c # s) =
     (case match_hash (c # s) of
        Some (h, rest) \<Rightarrow> h # find_hashes rest
      | None \<Rightarrow> find_hashes s)"
  by pat_completeness auto
termination
  by (relation "measure length") (auto dest: match_hash_shorter)

text \<open>The \<open>seen\<close> loop of \<open>HashesIn\<close>: first occurrences, in order.\<close>

fun dedup_hashes :: "string list \<Rightarrow> string list \<Rightarrow> string list" where
  "dedup_hashes seen [] = []"
| "dedup_hashes seen (h # hs) =
     (if h \<in> set seen then dedup_hashes seen hs else h # dedup_hashes (h # seen) hs)"

definition hashes_in :: "string \<Rightarrow> string list" where
  "hashes_in s = dedup_hashes [] (find_hashes s)"

section \<open>Lemmas\<close>

lemma set_dedup_hashes: "set (dedup_hashes seen hs) = set hs - set seen"
  by (induction seen hs rule: dedup_hashes.induct) auto

lemma distinct_dedup_hashes: "distinct (dedup_hashes seen hs)"
  by (induction seen hs rule: dedup_hashes.induct) (auto simp: set_dedup_hashes)

text \<open>No match can start inside another: the prefixes do not overlap themselves or hex digits.\<close>

lemma hex_not_start: "is_lower_hex c \<Longrightarrow> c \<noteq> CHR ''<'' \<and> c \<noteq> CHR ''h''"
  by (auto simp: is_lower_hex_def is_digit_def)

lemma match_hash_head: "match_hash (c # s) = Some r \<Longrightarrow> c = CHR ''<'' \<or> c = CHR ''h''"
  by (auto simp: match_hash_def split: if_splits)

lemma no_match_in_hex:
  assumes "list_all is_lower_hex h" and "k < length h"
  shows "match_hash (drop k (h @ t)) = None"
proof -
  have c: "drop k (h @ t) = h ! k # drop (Suc k) h @ t"
    using assms(2) Cons_nth_drop_Suc [of k h] by simp
  have "is_lower_hex (h ! k)" using assms by (simp add: list_all_length)
  then have "match_hash (h ! k # drop (Suc k) h @ t) = None"
    using hex_not_start match_hash_head by (cases "match_hash (h ! k # drop (Suc k) h @ t)") blast+
  then show ?thesis using c by simp
qed

lemma match_hash_iff:
  "match_hash s = Some (h, t) \<longleftrightarrow> is_key h \<and> (s = ''<<ccr:'' @ h @ t \<or> s = ''hash='' @ h @ t)"
proof
  assume "match_hash s = Some (h, t)"
  then show "is_key h \<and> (s = ''<<ccr:'' @ h @ t \<or> s = ''hash='' @ h @ t)"
    by (auto simp: match_hash_def hex24_def is_key_def has_prefix_iff split: if_splits)
next
  assume "is_key h \<and> (s = ''<<ccr:'' @ h @ t \<or> s = ''hash='' @ h @ t)"
  then show "match_hash s = Some (h, t)"
    by (auto simp: match_hash_def hex24_def is_key_def)
qed

lemma match_in_match:
  assumes "is_key h" and "s = ''<<ccr:'' @ h @ t \<or> s = ''hash='' @ h @ t"
    and "0 < k" and "k < length s - length t"
  shows "match_hash (drop k s) = None"
proof -
  have hex: "match_hash (drop j (h @ t)) = None" if "j < 24" for j
    using no_match_in_hex [of h j t] that assms(1) by (simp add: is_key_def)
  have len: "length h = 24" using assms(1) by (simp add: is_key_def)
  from assms(2) show ?thesis
  proof
    assume s: "s = ''<<ccr:'' @ h @ t"
    show ?thesis
    proof (cases "k < 6")
      case True
      then have "k = 1 \<or> k = 2 \<or> k = 3 \<or> k = 4 \<or> k = 5" using assms(3) by arith
      then show ?thesis using s by (auto simp: match_hash_def numeral_eq_Suc)
    next
      case False
      then have "drop k s = drop (k - 6) (h @ t)" using s by (simp add: drop_Cons' numeral_eq_Suc)
      then show ?thesis using hex [of "k - 6"] assms(4) s len False by simp
    qed
  next
    assume s: "s = ''hash='' @ h @ t"
    show ?thesis
    proof (cases "k < 5")
      case True
      then have "k = 1 \<or> k = 2 \<or> k = 3 \<or> k = 4" using assms(3) by arith
      then show ?thesis using s by (auto simp: match_hash_def numeral_eq_Suc)
    next
      case False
      then have "drop k s = drop (k - 5) (h @ t)" using s by (simp add: drop_Cons' numeral_eq_Suc)
      then show ?thesis using hex [of "k - 5"] assms(4) s len False by simp
    qed
  qed
qed

text \<open>The scan finds a hash iff some position of the text starts a match.\<close>

lemma set_find_hashes: "set (find_hashes s) = {h. \<exists>k t. match_hash (drop k s) = Some (h, t)}"
proof (induction s rule: find_hashes.induct)
  case 1 then show ?case by (auto simp: match_hash_def)
next
  case (2 c s)
  show ?case
  proof (cases "match_hash (c # s)")
    case None
    have "(\<exists>k t. match_hash (drop k (c # s)) = Some (h, t)) \<longleftrightarrow> (\<exists>k t. match_hash (drop k s) = Some (h, t))" for h
      using None by (metis drop_0 drop_Suc_Cons not0_implies_Suc option.distinct(1))
    then show ?thesis using None "2.IH" by simp
  next
    case (Some r)
    obtain h t where r: "r = (h, t)" by (cases r)
    then have m: "is_key h" "c # s = ''<<ccr:'' @ h @ t \<or> c # s = ''hash='' @ h @ t"
      using Some match_hash_iff by blast+
    define n where "n = length (c # s) - length t"
    have n0: "0 < n" using match_hash_shorter [of "c # s" h t] Some r by (simp add: n_def)
    have dn: "drop n (c # s) = t" using m(2) by (auto simp: n_def numeral_eq_Suc)
    have IH: "set (find_hashes t) = {h. \<exists>k t'. match_hash (drop k t) = Some (h, t')}"
      using "2.IH"(2) [OF Some] r by simp
    have "(\<exists>k t'. match_hash (drop k (c # s)) = Some (g, t')) \<longleftrightarrow>
            g = h \<or> (\<exists>k t'. match_hash (drop k t) = Some (g, t'))" for g
    proof
      assume "\<exists>k t'. match_hash (drop k (c # s)) = Some (g, t')"
      then obtain k t' where k: "match_hash (drop k (c # s)) = Some (g, t')" by blast
      show "g = h \<or> (\<exists>k t'. match_hash (drop k t) = Some (g, t'))"
      proof (cases "k = 0")
        case True then show ?thesis using k Some r by simp
      next
        case False
        then have "n \<le> k" using match_in_match [OF m, of k] k n_def by fastforce
        then have "drop k (c # s) = drop (k - n) t" using dn by (metis add.commute drop_drop le_add_diff_inverse)
        then show ?thesis using k by auto
      qed
    next
      assume "g = h \<or> (\<exists>k t'. match_hash (drop k t) = Some (g, t'))"
      then show "\<exists>k t'. match_hash (drop k (c # s)) = Some (g, t')"
        using Some r dn by (metis drop_0 drop_drop)
    qed
    then show ?thesis using Some r IH by auto
  qed
qed

lemma match_hash_at_iff:
  "(\<exists>k t. match_hash (drop k s) = Some (h, t)) \<longleftrightarrow>
     is_key h \<and> (contains s (''<<ccr:'' @ h) \<or> contains s (''hash='' @ h))"
proof
  assume "\<exists>k t. match_hash (drop k s) = Some (h, t)"
  then obtain k t where "match_hash (drop k s) = Some (h, t)" by blast
  then have "is_key h" "s = take k s @ (''<<ccr:'' @ h) @ t \<or> s = take k s @ (''hash='' @ h) @ t"
    unfolding match_hash_iff by (metis append_take_drop_id append.assoc)+
  then show "is_key h \<and> (contains s (''<<ccr:'' @ h) \<or> contains s (''hash='' @ h))"
    unfolding contains_iff by blast
next
  assume h: "is_key h \<and> (contains s (''<<ccr:'' @ h) \<or> contains s (''hash='' @ h))"
  then obtain u t where "s = u @ (''<<ccr:'' @ h) @ t \<or> s = u @ (''hash='' @ h) @ t"
    unfolding contains_iff by blast
  then have "drop (length u) s = ''<<ccr:'' @ h @ t \<or> drop (length u) s = ''hash='' @ h @ t"
    by auto
  then have "match_hash (drop (length u) s) = Some (h, t)"
    using h match_hash_iff by blast
  then show "\<exists>k t. match_hash (drop k s) = Some (h, t)" by blast
qed

lemma set_hashes_in:
  "set (hashes_in s) = {h. is_key h \<and> (contains s (''<<ccr:'' @ h) \<or> contains s (''hash='' @ h))}"
  by (simp add: hashes_in_def set_dedup_hashes set_find_hashes match_hash_at_iff)

lemma marker_named: "is_key h \<Longrightarrow> h \<in> set (hashes_in (u @ marker_for h @ v))"
  using contains_middle [of u "''<<ccr:'' @ h" "marker_suffix @ v"]
  by (simp add: set_hashes_in marker_for_def marker_prefix_def)

section \<open>Properties\<close>

text \<open>\<open>HashesIn\<close> is sound and complete: it returns, without repetition, exactly the 24-digit
  lowercase hex keys that occur in the text after \<open><<ccr:\<close> or \<open>hash=\<close>; the leftmost
  non-overlapping scan misses none.\<close>

theorem hashes_in_exact:
  "distinct (hashes_in s) \<and>
   (\<forall>h. h \<in> set (hashes_in s) \<longleftrightarrow>
      is_key h \<and> (\<exists>u v. s = u @ ''<<ccr:'' @ h @ v \<or> s = u @ ''hash='' @ h @ v))"
proof -
  have "contains s (p @ h) \<longleftrightarrow> (\<exists>u v. s = u @ p @ h @ v)" for p h
    by (simp add: contains_iff)
  moreover have "distinct (hashes_in s)" by (simp add: hashes_in_def distinct_dedup_hashes)
  ultimately show ?thesis by (simp only: set_hashes_in mem_Collect_eq ex_disj_distrib simp_thms)
qed

text \<open>Marker round trip: \<open>ParseMarker\<close> inverts \<open>MarkerFor\<close> on every key, accepts nothing but
  canonical markers, and rejects the cell and lossy shapes.\<close>

theorem parse_marker_roundtrip:
  "(parse_marker s = Some h \<longleftrightarrow> is_key h \<and> s = marker_for h)
   \<and> (is_key h \<longrightarrow> parse_marker (marker_for_cell h kind sz) = None
                 \<and> parse_marker (marker_for_lossy h rows) = None)"
proof -
  have canon: "parse_marker s = Some h \<longleftrightarrow> is_key h \<and> s = marker_for h" for s h
  proof
    assume p: "parse_marker s = Some h"
    then obtain r where r: "s = marker_prefix @ r" and len: "length s = 32"
      and h: "h = slice s 6 30" "list_all is_lower_hex h" and d: "drop 30 s = marker_suffix"
      by (auto simp: parse_marker_def has_prefix_iff split: if_splits)
    have "take 24 r = h" "drop 24 r = marker_suffix"
      using h d r by (simp_all add: slice_def marker_prefix_def)
    then have "r = h @ marker_suffix" by (metis append_take_drop_id)
    then show "is_key h \<and> s = marker_for h"
      using h r len by (simp add: is_key_def marker_for_def marker_prefix_def marker_suffix_def)
  next
    assume "is_key h \<and> s = marker_for h"
    then show "parse_marker s = Some h"
      by (simp add: parse_marker_def marker_for_def marker_prefix_def marker_suffix_def
          is_key_def slice_def)
  qed
  have "marker_for g \<noteq> marker_for_cell h kind sz" if "is_key h" "is_key g" for g
    using that by (auto simp: marker_for_def marker_for_cell_def marker_suffix_def is_key_def)
  moreover have "marker_for g \<noteq> marker_for_lossy h rows" if "is_key h" "is_key g" for g
    using that by (auto simp: marker_for_def marker_for_lossy_def marker_suffix_def is_key_def)
  ultimately have "is_key h \<Longrightarrow> parse_marker (marker_for_cell h kind sz) = None
                 \<and> parse_marker (marker_for_lossy h rows) = None"
    by (metis canon not_None_eq)
  then show ?thesis using canon by blast
qed

theorem parse_marker_roundtrip_witness:
  "parse_marker (marker_for (replicate 24 CHR ''a'')) = Some (replicate 24 CHR ''a'')
   \<and> parse_marker (marker_for_cell (replicate 24 CHR ''a'') ''row'' 7) = None
   \<and> parse_marker (marker_for_lossy (replicate 24 CHR ''a'') 7) = None"
proof -
  have "is_key (replicate 24 CHR ''a'')" by (simp add: is_key_def is_lower_hex_def list_all_iff)
  then show ?thesis using parse_marker_roundtrip by blast
qed

end
