(* ===== verification/CcrStore.thy ===== *)
theory CcrStore
  imports CcrMarker
begin

text \<open>
  The CCR store: the interface of \<open>internal/ccr/store.go\<close> and its two providers under
  \<open>internal/ccr/backends\<close>. A Go interface value is a record of its methods; the store it
  acts on is passed explicitly. What the clients rely on is the locale \<open>ccr_store\<close>; the
  in-memory and SQLite back ends interpret it.
\<close>

section \<open>The interface\<close>

record 's store_ops =
  st_put :: "string \<Rightarrow> string \<Rightarrow> 's \<Rightarrow> 's"
  st_get :: "string \<Rightarrow> 's \<Rightarrow> string option \<times> 's"
  st_len :: "'s \<Rightarrow> int"

text \<open>
  \<open>view s h\<close> is what \<open>Get(h)\<close> would return now. A put is readable at once; it may evict other
  entries, but it never changes what another hash resolves to.
\<close>

locale ccr_store =
  fixes ops :: "'s store_ops"
    and inv :: "'s \<Rightarrow> bool"
    and view :: "'s \<Rightarrow> string \<Rightarrow> string option"
  assumes get_view: "inv s \<Longrightarrow> fst (st_get ops h s) = view s h"
    and get_keeps: "inv s \<Longrightarrow> view (snd (st_get ops h s)) = view s"
    and get_inv: "inv s \<Longrightarrow> inv (snd (st_get ops h s))"
    and put_same: "inv s \<Longrightarrow> view (st_put ops h p s) h = Some p"
    and put_other: "inv s \<Longrightarrow> h' \<noteq> h \<Longrightarrow>
        view (st_put ops h p s) h' = view s h' \<or> view (st_put ops h p s) h' = None"
    and put_inv: "inv s \<Longrightarrow> inv (st_put ops h p s)"
begin

lemma put_view_cases:
  "inv s \<Longrightarrow> view (st_put ops h p s) h' \<in> {((view s)(h \<mapsto> p)) h', None}"
  using put_same put_other by (cases "h' = h") auto

lemmas store_laws = get_view get_keeps get_inv put_same put_inv

end

text \<open>A store without a capacity cap keeps every other entry.\<close>

locale lossless_store = ccr_store +
  assumes put_keeps: "inv s \<Longrightarrow> h' \<noteq> h \<Longrightarrow> view (st_put ops h p s) h' = view s h'"
begin

lemma put_view: "inv s \<Longrightarrow> view (st_put ops h p s) = (view s)(h \<mapsto> p)"
  using put_same put_keeps by (auto simp: fun_eq_iff)

end

section \<open>In-memory back end\<close>

text \<open>
  \<open>backends/inmemory.go\<close>. \<open>items\<close> maps a hash to a list element; the element is a pointer,
  modelled as an address in \<open>im_elems\<close>, because the entry it holds is updated in place
  while the element keeps its position. \<open>im_order\<close> is the \<open>list.List\<close>, front first.
  \<open>im_now\<close> is the reading of \<open>timeNow()\<close>; the zero \<open>time.Time\<close> is \<open>None\<close>.
\<close>

record mem_entry =
  me_hash :: string
  me_payload :: string
  me_expires :: "int option"

record inmem =
  im_cap :: int
  im_ttl :: int
  im_items :: "string \<Rightarrow> nat option"
  im_elems :: "nat \<Rightarrow> mem_entry option"
  im_order :: "nat list"
  im_next :: nat
  im_now :: int

definition new_in_memory :: "int \<Rightarrow> int \<Rightarrow> int \<Rightarrow> inmem" where
  "new_in_memory capacity ttl now =
     \<lparr>im_cap = capacity, im_ttl = ttl, im_items = Map.empty, im_elems = Map.empty,
      im_order = [], im_next = 0, im_now = now\<rparr>"

definition mem_deadline :: "inmem \<Rightarrow> int option" where
  "mem_deadline m = (if im_ttl m \<le> 0 then None else Some (im_now m + im_ttl m))"

text \<open>The eviction loop. Its empty-list branch is Go's nil \<open>Front()\<close>, unreachable for a positive cap.\<close>

function mem_evict :: "inmem \<Rightarrow> inmem" where
  "mem_evict m =
     (if im_cap m < int (length (im_order m))
      then (case im_order m of
              [] \<Rightarrow> m
            | oldest # rest \<Rightarrow>
                mem_evict (m\<lparr>im_order := rest,
                  im_items := (case im_elems m oldest of
                                 None \<Rightarrow> im_items m
                               | Some e \<Rightarrow> (im_items m)(me_hash e := None))\<rparr>))
      else m)"
  by pat_completeness auto
termination
  by (relation "measure (\<lambda>m. length (im_order m))") auto

declare mem_evict.simps [simp del]

definition mem_put :: "string \<Rightarrow> string \<Rightarrow> inmem \<Rightarrow> inmem" where
  "mem_put h p m =
     (case im_items m h of
        Some el \<Rightarrow>
          m\<lparr>im_elems := (im_elems m)(el := map_option
              (\<lambda>e. e\<lparr>me_payload := p, me_expires := mem_deadline m\<rparr>) (im_elems m el))\<rparr>
      | None \<Rightarrow>
          mem_evict (m\<lparr>im_elems := (im_elems m)(im_next m \<mapsto>
                          \<lparr>me_hash = h, me_payload = p, me_expires = mem_deadline m\<rparr>),
                       im_order := im_order m @ [im_next m],
                       im_items := (im_items m)(h \<mapsto> im_next m),
                       im_next := Suc (im_next m)\<rparr>))"

definition expired :: "int \<Rightarrow> int option \<Rightarrow> bool" where
  "expired now d = (case d of None \<Rightarrow> False | Some t \<Rightarrow> t < now)"

definition mem_get :: "string \<Rightarrow> inmem \<Rightarrow> string option \<times> inmem" where
  "mem_get h m =
     (case im_items m h of
        None \<Rightarrow> (None, m)
      | Some el \<Rightarrow>
          (case im_elems m el of
             None \<Rightarrow> (None, m)
           | Some e \<Rightarrow>
               if expired (im_now m) (me_expires e)
               then (None, m\<lparr>im_order := remove1 el (im_order m), im_items := (im_items m)(h := None)\<rparr>)
               else (Some (me_payload e), m)))"

definition mem_len :: "inmem \<Rightarrow> int" where
  "mem_len m = int (length (im_order m))"

definition mem_ops :: "inmem store_ops" where
  "mem_ops = \<lparr>st_put = mem_put, st_get = mem_get, st_len = mem_len\<rparr>"

text \<open>The clock advances between operations.\<close>

definition mem_tick :: "int \<Rightarrow> inmem \<Rightarrow> inmem" where
  "mem_tick now m = m\<lparr>im_now := now\<rparr>"

lemma mem_ops_sel [simp]:
  "st_put mem_ops = mem_put" "st_get mem_ops = mem_get" "st_len mem_ops = mem_len"
  by (simp_all add: mem_ops_def)

subsection \<open>Invariant\<close>

text \<open>
  The map and the list describe the same set of entries: every listed element holds an
  entry whose hash maps back to it, and every mapped element is listed.
\<close>

definition mem_linked :: "inmem \<Rightarrow> bool" where
  "mem_linked m \<longleftrightarrow>
     distinct (im_order m)
     \<and> (\<forall>el\<in>set (im_order m). el < im_next m
          \<and> (\<exists>e. im_elems m el = Some e \<and> im_items m (me_hash e) = Some el))
     \<and> (\<forall>h el. im_items m h = Some el \<longrightarrow> el \<in> set (im_order m)
          \<and> (\<exists>e. im_elems m el = Some e \<and> me_hash e = h))"

definition mem_inv :: "inmem \<Rightarrow> bool" where
  "mem_inv m \<longleftrightarrow> 0 < im_cap m \<and> int (length (im_order m)) \<le> im_cap m \<and> mem_linked m"

lemma mem_inv_new: "0 < c \<Longrightarrow> mem_inv (new_in_memory c ttl now)"
  by (simp add: mem_inv_def mem_linked_def new_in_memory_def)

lemma mem_inv_tick: "mem_inv (mem_tick now m) = mem_inv m"
  by (simp add: mem_inv_def mem_linked_def mem_tick_def)

lemma mem_linked_elem:
  assumes "mem_linked m" "el \<in> set (im_order m)"
  obtains e where "el < im_next m" "im_elems m el = Some e" "im_items m (me_hash e) = Some el"
  using assms unfolding mem_linked_def by blast

lemma mem_linked_item:
  assumes "mem_linked m" "im_items m h = Some el"
  obtains e where "im_elems m el = Some e" "me_hash e = h" "el \<in> set (im_order m)"
  using assms unfolding mem_linked_def by blast

text \<open>Unlinking one element, as the eviction loop and the expiry branch of \<open>Get\<close> both do.\<close>

lemma mem_linked_unlink:
  assumes l: "mem_linked m" and el: "el \<in> set (im_order m)" and e: "im_elems m el = Some e"
  shows "mem_linked (m\<lparr>im_order := remove1 el (im_order m), im_items := (im_items m)(me_hash e := None)\<rparr>)"
proof -
  have d: "distinct (im_order m)" using l by (simp add: mem_linked_def)
  have hash: "im_items m (me_hash e) = Some el" using l el e by (fastforce simp: mem_linked_def)
  have "me_hash e' \<noteq> me_hash e" if "x \<in> set (im_order m)" "x \<noteq> el" "im_elems m x = Some e'" for x e'
    using l that hash by (fastforce simp: mem_linked_def)
  moreover have "x \<noteq> el" if "im_items m h = Some x" "h \<noteq> me_hash e" for x h
    using l that e by (fastforce simp: mem_linked_def)
  ultimately show ?thesis
    using l d unfolding mem_linked_def by (simp add: set_remove1_eq) fastforce
qed

lemma mem_linked_evict: "mem_linked m \<Longrightarrow> mem_linked (mem_evict m)"
proof (induction m rule: mem_evict.induct)
  case (1 m)
  show ?case
  proof (cases "im_cap m < int (length (im_order m)) \<and> im_order m \<noteq> []")
    case True
    then obtain oldest rest where o: "im_order m = oldest # rest" by (cases "im_order m") auto
    obtain e where e: "im_elems m oldest = Some e"
      using "1.prems" o by (auto simp: mem_linked_def)
    have "mem_linked (m\<lparr>im_order := rest, im_items := (im_items m)(me_hash e := None)\<rparr>)"
      using mem_linked_unlink [OF "1.prems" _ e] o by simp
    then show ?thesis using 1 True o e by (subst mem_evict.simps) simp
  next
    case False
    then show ?thesis using "1.prems" by (subst mem_evict.simps) (auto split: list.splits)
  qed
qed

lemma mem_evict_frame:
  "im_cap (mem_evict m) = im_cap m \<and> im_elems (mem_evict m) = im_elems m
   \<and> im_now (mem_evict m) = im_now m \<and> im_ttl (mem_evict m) = im_ttl m"
  by (induction m rule: mem_evict.induct) (subst (1 2 3 4) mem_evict.simps, auto split: list.splits)

lemma mem_evict_order:
  "0 \<le> im_cap m \<Longrightarrow> im_order (mem_evict m) = drop (length (im_order m) - nat (im_cap m)) (im_order m)"
proof (induction m rule: mem_evict.induct)
  case (1 m)
  show ?case
  proof (cases "im_cap m < int (length (im_order m))")
    case True
    then obtain oldest rest where o: "im_order m = oldest # rest" using "1.prems" by (cases "im_order m") auto
    have "length (im_order m) - nat (im_cap m) = Suc (length rest - nat (im_cap m))"
      using o True by simp
    then show ?thesis using 1 True o by (subst mem_evict.simps) simp
  qed (subst mem_evict.simps, simp)
qed

subsection \<open>The abstract FIFO store\<close>

text \<open>
  What the pointer structure means: the live entries, oldest first. A put of a known hash
  updates it in place; a new hash goes to the back, and the surplus falls off the front.
\<close>

type_synonym fifo = "(string \<times> string \<times> int option) list"

definition fifo_put :: "int \<Rightarrow> int option \<Rightarrow> string \<Rightarrow> string \<Rightarrow> fifo \<Rightarrow> fifo" where
  "fifo_put cap d h p xs =
     (if h \<in> fst ` set xs then map (\<lambda>(k, v). if k = h then (k, (p, d)) else (k, v)) xs
      else drop (length (xs @ [(h, (p, d))]) - nat cap) (xs @ [(h, (p, d))]))"

definition fifo_get :: "int \<Rightarrow> string \<Rightarrow> fifo \<Rightarrow> string option \<times> fifo" where
  "fifo_get now h xs =
     (case map_of xs h of
        None \<Rightarrow> (None, xs)
      | Some (p, d) \<Rightarrow> if expired now d then (None, filter (\<lambda>e. fst e \<noteq> h) xs) else (Some p, xs))"

definition fifo_view :: "int \<Rightarrow> fifo \<Rightarrow> string \<Rightarrow> string option" where
  "fifo_view now xs h =
     (case map_of xs h of None \<Rightarrow> None | Some (p, d) \<Rightarrow> if expired now d then None else Some p)"

lemma map_of_update_value:
  "map_of (map (\<lambda>(k, v). if k = h then (k, w) else (k, v)) xs) k' =
     (if k' = h \<and> h \<in> fst ` set xs then Some w else map_of xs k')"
proof (induction xs)
  case (Cons x xs)
  obtain a b where x: "x = (a, b)" by (cases x)
  have "map_of xs h = None" if "h \<notin> fst ` set xs" using that by (simp add: map_of_eq_None_iff)
  then show ?case using Cons x by (cases "a = h"; cases "k' = h"; cases "k' = a") simp_all
qed simp

lemma map_of_drop:
  "distinct (map fst xs) \<Longrightarrow> map_of (drop n xs) k = map_of xs k \<or> map_of (drop n xs) k = None"
proof (induction xs arbitrary: n)
  case (Cons x xs)
  show ?case
  proof (cases n)
    case (Suc m)
    have "map_of (drop m xs) k = None" if "k = fst x"
      using Cons.prems that by (auto simp: map_of_eq_None_iff dest: in_set_dropD)
    then show ?thesis using Cons Suc by (cases x) auto
  qed simp
qed simp

lemma fifo_put_same:
  "0 < cap \<Longrightarrow> map_of (fifo_put cap d h p xs) h = Some (p, d)"
proof (cases "h \<in> fst ` set xs")
  case True
  then show ?thesis by (simp add: fifo_put_def map_of_update_value)
next
  case False
  assume c: "0 < cap"
  define n where "n = length (xs @ [(h, (p, d))]) - nat cap"
  have "n \<le> length xs" using c by (simp add: n_def)
  then have "drop n (xs @ [(h, (p, d))]) = drop n xs @ [(h, (p, d))]" by simp
  moreover have "h \<notin> fst ` set (drop n xs)" using False by (auto dest: in_set_dropD)
  ultimately show ?thesis using False
    by (simp add: fifo_put_def n_def map_add_def map_of_eq_None_iff [THEN iffD2] split: option.split)
qed

lemma fifo_put_other:
  assumes "distinct (map fst xs)" and "h' \<noteq> h"
  shows "map_of (fifo_put cap d h p xs) h' \<in> {map_of xs h', None}"
proof (cases "h \<in> fst ` set xs")
  case True
  then show ?thesis using assms by (simp add: fifo_put_def map_of_update_value)
next
  case False
  then have "distinct (map fst (xs @ [(h, (p, d))]))" using assms by auto
  from map_of_drop [OF this, of "length (xs @ [(h, (p, d))]) - nat cap" h']
  show ?thesis using False assms(2) by (auto simp: fifo_put_def map_add_def split: option.split)
qed

lemma map_of_filter_key: "map_of (filter (\<lambda>e. fst e \<noteq> h) xs) k = (if k = h then None else map_of xs k)"
  by (induction xs) auto

lemma fifo_get_view:
  "fst (fifo_get now h xs) = fifo_view now xs h
   \<and> fifo_view now (snd (fifo_get now h xs)) = fifo_view now xs"
  by (auto simp: fifo_get_def fifo_view_def fun_eq_iff map_of_filter_key split: option.splits)

subsection \<open>Refinement\<close>

definition mem_entry_at :: "inmem \<Rightarrow> nat \<Rightarrow> string \<times> string \<times> int option" where
  "mem_entry_at m el = (case im_elems m el of
      Some e \<Rightarrow> (me_hash e, me_payload e, me_expires e) | None \<Rightarrow> ([], [], None))"

definition mem_abs :: "inmem \<Rightarrow> fifo" where
  "mem_abs m = map (mem_entry_at m) (im_order m)"

definition mem_view :: "inmem \<Rightarrow> string \<Rightarrow> string option" where
  "mem_view m = fifo_view (im_now m) (mem_abs m)"

lemma mem_keys_inj:
  assumes "mem_linked m" "x \<in> set (im_order m)" "y \<in> set (im_order m)"
    and "fst (mem_entry_at m x) = fst (mem_entry_at m y)"
  shows "x = y"
proof -
  obtain e where e: "im_elems m x = Some e" "im_items m (me_hash e) = Some x"
    by (rule mem_linked_elem [OF assms(1,2)])
  obtain f where f: "im_elems m y = Some f" "im_items m (me_hash f) = Some y"
    by (rule mem_linked_elem [OF assms(1,3)])
  show ?thesis using e f assms(4) by (simp add: mem_entry_at_def)
qed

lemma mem_abs_distinct: "mem_linked m \<Longrightarrow> distinct (map fst (mem_abs m))"
  using mem_keys_inj [of m]
  by (auto simp: mem_abs_def distinct_map comp_def inj_on_def mem_linked_def)

lemma mem_items_None:
  assumes "mem_linked m" "im_items m h = None" shows "h \<notin> fst ` set (mem_abs m)"
proof
  assume "h \<in> fst ` set (mem_abs m)"
  then obtain x where x: "x \<in> set (im_order m)" "h = fst (mem_entry_at m x)"
    by (auto simp: mem_abs_def)
  obtain e where "im_elems m x = Some e" "im_items m (me_hash e) = Some x"
    by (rule mem_linked_elem [OF assms(1) x(1)])
  then show False using x(2) assms(2) by (simp add: mem_entry_at_def)
qed

lemma mem_items_Some:
  assumes "mem_linked m" "im_items m h = Some el"
  obtains e where "im_elems m el = Some e" "me_hash e = h" "el \<in> set (im_order m)"
    "(h, me_payload e, me_expires e) \<in> set (mem_abs m)"
proof -
  from mem_linked_item [OF assms] obtain e where
    e: "im_elems m el = Some e" "me_hash e = h" "el \<in> set (im_order m)" .
  then have "mem_entry_at m el = (h, me_payload e, me_expires e)" by (simp add: mem_entry_at_def)
  with e(3) have "(h, me_payload e, me_expires e) \<in> set (mem_abs m)" by (force simp: mem_abs_def)
  with e that show thesis by blast
qed

lemma mem_abs_put:
  assumes inv: "mem_inv m"
  shows "mem_abs (mem_put h p m) = fifo_put (im_cap m) (mem_deadline m) h p (mem_abs m)"
proof (cases "im_items m h")
  case None
  have l: "mem_linked m" and cap: "0 < im_cap m" using inv by (simp_all add: mem_inv_def)
  let ?e = "\<lparr>me_hash = h, me_payload = p, me_expires = mem_deadline m\<rparr>"
  let ?m = "m\<lparr>im_elems := (im_elems m)(im_next m \<mapsto> ?e), im_order := im_order m @ [im_next m],
              im_items := (im_items m)(h \<mapsto> im_next m), im_next := Suc (im_next m)\<rparr>"
  have old: "mem_entry_at ?m el = mem_entry_at m el" if "el \<in> set (im_order m)" for el
    using l that by (auto simp: mem_linked_def mem_entry_at_def)
  have abs: "mem_abs ?m = mem_abs m @ [(h, p, mem_deadline m)]"
    using old by (simp add: mem_abs_def) (simp add: mem_entry_at_def)
  have ent: "mem_entry_at (mem_evict ?m) = mem_entry_at ?m"
    using mem_evict_frame [of ?m] by (simp add: mem_entry_at_def fun_eq_iff)
  have "mem_abs (mem_evict ?m) = drop (length (mem_abs ?m) - nat (im_cap m)) (mem_abs ?m)"
    using mem_evict_order [of ?m] cap
    by (simp add: mem_abs_def ent drop_map del: im_items_update_def)
  then show ?thesis
    using None mem_items_None [OF l None] abs by (simp add: mem_put_def fifo_put_def)
next
  case (Some el)
  have l: "mem_linked m" using inv by (simp add: mem_inv_def)
  obtain e where e: "im_elems m el = Some e" "me_hash e = h" "el \<in> set (im_order m)"
      "(h, me_payload e, me_expires e) \<in> set (mem_abs m)"
    using mem_items_Some [OF l Some] .
  have "h \<in> fst ` set (mem_abs m)" using e(4) by force
  moreover have "fst (mem_entry_at m x) = h \<longleftrightarrow> x = el" if "x \<in> set (im_order m)" for x
    using mem_keys_inj [OF l that e(3)] e by (auto simp: mem_entry_at_def)
  moreover have "mem_entry_at (mem_put h p m) x =
      (\<lambda>(k, v). if k = h then (k, (p, mem_deadline m)) else (k, v)) (mem_entry_at m x)"
    if "x \<in> set (im_order m)" for x
    using calculation(2) [OF that] Some e
    by (auto simp: mem_put_def mem_entry_at_def split: prod.splits option.splits)
  moreover have "im_order (mem_put h p m) = im_order m" using Some by (simp add: mem_put_def)
  ultimately show ?thesis by (simp add: fifo_put_def mem_abs_def)
qed

lemma mem_put_frame:
  "im_cap (mem_put h p m) = im_cap m \<and> im_now (mem_put h p m) = im_now m \<and> im_ttl (mem_put h p m) = im_ttl m"
  using mem_evict_frame by (simp add: mem_put_def split: option.splits)

lemma mem_linked_put:
  assumes l: "mem_linked m" shows "mem_linked (mem_put h p m)"
proof (cases "im_items m h")
  case None
  let ?e = "\<lparr>me_hash = h, me_payload = p, me_expires = mem_deadline m\<rparr>"
  let ?m = "m\<lparr>im_elems := (im_elems m)(im_next m \<mapsto> ?e), im_order := im_order m @ [im_next m],
              im_items := (im_items m)(h \<mapsto> im_next m), im_next := Suc (im_next m)\<rparr>"
  have "mem_linked ?m"
    unfolding mem_linked_def
  proof (intro conjI ballI allI impI)
    show "distinct (im_order ?m)" using l by (auto simp: mem_linked_def)
  next
    fix x assume x: "x \<in> set (im_order ?m)"
    show "x < im_next ?m" using x l by (auto simp: mem_linked_def)
    show "\<exists>e. im_elems ?m x = Some e \<and> im_items ?m (me_hash e) = Some x"
    proof (cases "x = im_next m")
      case False
      with x have "x \<in> set (im_order m)" by simp
      then obtain e where "im_elems m x = Some e" "im_items m (me_hash e) = Some x"
        by (rule mem_linked_elem [OF l])
      then show ?thesis using None False by (intro exI [of _ e]) auto
    qed simp
  next
    fix g x assume x: "im_items ?m g = Some x"
    show "x \<in> set (im_order ?m)"
      using x mem_linked_item [OF l, of g x] by (cases "g = h") auto
    show "\<exists>e. im_elems ?m x = Some e \<and> me_hash e = g"
    proof (cases "g = h")
      case False
      with x have g: "im_items m g = Some x" by simp
      obtain e where e: "im_elems m x = Some e" "me_hash e = g" "x \<in> set (im_order m)"
        by (rule mem_linked_item [OF l g])
      then have "x < im_next m" using mem_linked_elem [OF l] by blast
      then show ?thesis using e by simp
    qed (use x in auto)
  qed
  then show ?thesis using None by (simp add: mem_put_def mem_linked_evict)
next
  case (Some el)
  then show ?thesis using l unfolding mem_linked_def mem_put_def by fastforce
qed

lemma mem_inv_put: "mem_inv m \<Longrightarrow> mem_inv (mem_put h p m)"
proof -
  assume inv: "mem_inv m"
  have "int (length (im_order (mem_put h p m))) \<le> im_cap m"
    using inv by (auto simp: mem_put_def mem_inv_def mem_evict_order split: option.splits)
  then show ?thesis using inv mem_linked_put mem_put_frame by (simp add: mem_inv_def)
qed

lemma mem_abs_map_of:
  assumes l: "mem_linked m"
  shows "map_of (mem_abs m) h = (case im_items m h of None \<Rightarrow> None
     | Some el \<Rightarrow> map_option (\<lambda>e. (me_payload e, me_expires e)) (im_elems m el))"
proof (cases "im_items m h")
  case None
  then show ?thesis using mem_items_None [OF l None] by (simp add: map_of_eq_None_iff)
next
  case (Some el)
  obtain e where e: "im_elems m el = Some e" "me_hash e = h" "el \<in> set (im_order m)"
      "(h, me_payload e, me_expires e) \<in> set (mem_abs m)"
    using mem_items_Some [OF l Some] .
  then show ?thesis using Some mem_abs_distinct [OF l] by simp
qed

lemma mem_get_refines:
  assumes l: "mem_linked m"
  shows "fst (mem_get h m) = fst (fifo_get (im_now m) h (mem_abs m))
       \<and> mem_abs (snd (mem_get h m)) = snd (fifo_get (im_now m) h (mem_abs m))
       \<and> mem_linked (snd (mem_get h m))"
proof (cases "im_items m h")
  case None
  then show ?thesis using l by (simp add: mem_get_def fifo_get_def mem_abs_map_of)
next
  case (Some el)
  obtain e where e: "im_elems m el = Some e" "me_hash e = h" "el \<in> set (im_order m)"
      "(h, me_payload e, me_expires e) \<in> set (mem_abs m)"
    using mem_items_Some [OF l Some] .
  have other: "fst (mem_entry_at m x) \<noteq> h \<longleftrightarrow> x \<noteq> el" if "x \<in> set (im_order m)" for x
    using mem_keys_inj [OF l that e(3)] e by (auto simp: mem_entry_at_def)
  have "distinct (im_order m)" using l by (simp add: mem_linked_def)
  then have "filter (\<lambda>v. fst v \<noteq> h) (mem_abs m) = map (mem_entry_at m) (remove1 el (im_order m))"
    using other by (simp add: mem_abs_def filter_map comp_def distinct_remove1_removeAll removeAll_filter_not_eq
        neq_commute [of el] cong: filter_cong)
  moreover have "mem_linked (m\<lparr>im_order := remove1 el (im_order m), im_items := (im_items m)(h := None)\<rparr>)"
    using mem_linked_unlink [OF l e(3,1)] e(2) by simp
  moreover have "mem_entry_at (m\<lparr>im_order := os, im_items := is\<rparr>) = mem_entry_at m" for os "is"
    by (simp add: mem_entry_at_def fun_eq_iff)
  ultimately show ?thesis
    using Some e(1) l by (simp add: mem_get_def fifo_get_def mem_abs_map_of)
      (simp add: mem_abs_def)
qed

lemma mem_get_frame:
  "im_cap (snd (mem_get h m)) = im_cap m \<and> im_now (snd (mem_get h m)) = im_now m
   \<and> im_ttl (snd (mem_get h m)) = im_ttl m
   \<and> length (im_order (snd (mem_get h m))) \<le> length (im_order m)"
  by (auto simp: mem_get_def length_remove1 split: option.splits)

lemma mem_inv_get: "mem_inv m \<Longrightarrow> mem_inv (snd (mem_get h m))"
  using mem_get_refines mem_get_frame unfolding mem_inv_def
  by (metis of_nat_mono order.trans)

text \<open>An entry written now is not expired now.\<close>

lemma mem_deadline_live: "\<not> expired (im_now m) (mem_deadline m)"
  by (simp add: expired_def mem_deadline_def)

interpretation mem: ccr_store mem_ops mem_inv mem_view
proof
  fix s h p h' assume inv: "mem_inv s"
  then have l: "mem_linked s" and c: "0 < im_cap s" by (simp_all add: mem_inv_def)
  show "fst (st_get mem_ops h s) = mem_view s h"
    using mem_get_refines [OF l] fifo_get_view by (simp add: mem_view_def)
  show "mem_view (snd (st_get mem_ops h s)) = mem_view s"
    using mem_get_refines [OF l] fifo_get_view mem_get_frame by (simp add: mem_view_def)
  show "mem_inv (snd (st_get mem_ops h s))" using inv mem_inv_get by simp
  show "mem_inv (st_put mem_ops h p s)" using inv mem_inv_put by simp
  have v: "mem_view (mem_put h p s) = fifo_view (im_now s) (fifo_put (im_cap s) (mem_deadline s) h p (mem_abs s))"
    using mem_abs_put [OF inv] mem_put_frame by (simp add: mem_view_def)
  show "mem_view (st_put mem_ops h p s) h = Some p"
    using v fifo_put_same [OF c] mem_deadline_live by (simp add: fifo_view_def)
  show "mem_view (st_put mem_ops h p s) h' = mem_view s h' \<or> mem_view (st_put mem_ops h p s) h' = None"
    if "h' \<noteq> h"
    using v fifo_put_other [OF mem_abs_distinct [OF l] that, of "im_cap s" "mem_deadline s" p]
    by (auto simp: fifo_view_def mem_view_def)
qed

section \<open>SQLite back end\<close>

text \<open>
  \<open>backends/sqlite.go\<close>. The table has \<open>hash\<close> as its primary key, so its rows are a map;
  the statements are an upsert, a select and a delete by key. \<open>sq_up\<close> is whether the
  database executes statements now: \<open>Put\<close> ignores its error and \<open>Get\<close> reports a miss.
  Times are \<open>UnixNano\<close> values and 0 means no expiry.
\<close>

record sqlite =
  sq_rows :: "string \<Rightarrow> (string \<times> int) option"
  sq_ttl :: int
  sq_now :: int
  sq_up :: bool

definition sql_put :: "string \<Rightarrow> string \<Rightarrow> sqlite \<Rightarrow> sqlite" where
  "sql_put h p s =
     (let ex = (if 0 < sq_ttl s then sq_now s + sq_ttl s else 0)
      in if sq_up s then s\<lparr>sq_rows := (sq_rows s)(h \<mapsto> (p, ex))\<rparr> else s)"

definition sql_get :: "string \<Rightarrow> sqlite \<Rightarrow> string option \<times> sqlite" where
  "sql_get h s =
     (if \<not> sq_up s then (None, s)
      else (case sq_rows s h of
              None \<Rightarrow> (None, s)
            | Some (p, ex) \<Rightarrow>
                if ex \<noteq> 0 \<and> ex < sq_now s then (None, s\<lparr>sq_rows := (sq_rows s)(h := None)\<rparr>)
                else (Some p, s)))"

definition sql_len :: "sqlite \<Rightarrow> int" where
  "sql_len s = (if sq_up s then int (card (dom (sq_rows s))) else 0)"

definition sql_ops :: "sqlite store_ops" where
  "sql_ops = \<lparr>st_put = sql_put, st_get = sql_get, st_len = sql_len\<rparr>"

definition sql_view :: "sqlite \<Rightarrow> string \<Rightarrow> string option" where
  "sql_view s h = (case sq_rows s h of None \<Rightarrow> None
     | Some (p, ex) \<Rightarrow> if ex \<noteq> 0 \<and> ex < sq_now s then None else Some p)"

interpretation sql: lossless_store sql_ops sq_up sql_view
  by unfold_locales
     (auto simp: sql_ops_def sql_put_def sql_get_def sql_view_def Let_def fun_eq_iff
        split: option.splits if_splits)

section \<open>Staging store\<close>

text \<open>
  \<open>stagingStore\<close> of \<open>livezone/compress.go\<close>: the router writes here until the token gate has
  decided; reads fall through to the backing store.
\<close>

record 's staging =
  sg_backing :: 's
  sg_hashes :: "string list"
  sg_staged :: "string \<Rightarrow> string option"

definition staging_new :: "'s \<Rightarrow> 's staging" where
  "staging_new s = \<lparr>sg_backing = s, sg_hashes = [], sg_staged = Map.empty\<rparr>"

definition staging_put :: "string \<Rightarrow> string \<Rightarrow> 's staging \<Rightarrow> 's staging" where
  "staging_put h p g =
     g\<lparr>sg_hashes := (if sg_staged g h = None then sg_hashes g @ [h] else sg_hashes g),
       sg_staged := (sg_staged g)(h \<mapsto> p)\<rparr>"

definition staging_get :: "'s store_ops \<Rightarrow> string \<Rightarrow> 's staging \<Rightarrow> string option \<times> 's staging" where
  "staging_get ops h g =
     (case sg_staged g h of
        Some p \<Rightarrow> (Some p, g)
      | None \<Rightarrow> (let (r, b) = st_get ops h (sg_backing g) in (r, g\<lparr>sg_backing := b\<rparr>)))"

definition staging_len :: "'s store_ops \<Rightarrow> 's staging \<Rightarrow> int" where
  "staging_len ops g = int (card (dom (sg_staged g))) + st_len ops (sg_backing g)"

definition staging_ops :: "'s store_ops \<Rightarrow> 's staging store_ops" where
  "staging_ops ops = \<lparr>st_put = staging_put, st_get = staging_get ops, st_len = staging_len ops\<rparr>"

text \<open>\<open>commit\<close>: the staged writes replayed into the backing store, in \<open>Put\<close> order.\<close>

definition staging_commit :: "'s store_ops \<Rightarrow> 's staging \<Rightarrow> 's" where
  "staging_commit ops g =
     fold (\<lambda>h b. st_put ops h (case sg_staged g h of None \<Rightarrow> [] | Some p \<Rightarrow> p) b) (sg_hashes g) (sg_backing g)"

definition staging_inv :: "('s \<Rightarrow> bool) \<Rightarrow> 's staging \<Rightarrow> bool" where
  "staging_inv binv g \<longleftrightarrow>
     binv (sg_backing g) \<and> distinct (sg_hashes g) \<and> set (sg_hashes g) = dom (sg_staged g)"

definition staging_view :: "('s \<Rightarrow> string \<Rightarrow> string option) \<Rightarrow> 's staging \<Rightarrow> string \<Rightarrow> string option" where
  "staging_view view g = view (sg_backing g) ++ sg_staged g"

lemmas staging_defs = staging_put_def staging_get_def staging_ops_def staging_inv_def staging_view_def

lemma staging_new_inv: "binv s \<Longrightarrow> staging_inv binv (staging_new s)"
  by (simp add: staging_inv_def staging_new_def)

context ccr_store
begin

text \<open>A staging store over any CCR store is itself one, and never loses a staged entry.\<close>

lemma staging_store: "ccr_store (staging_ops ops) (staging_inv inv) (staging_view view)"
proof
  fix g h p h' assume g: "staging_inv inv g"
  then have b: "inv (sg_backing g)" by (simp add: staging_inv_def)
  show "fst (st_get (staging_ops ops) h g) = staging_view view g h"
    using get_view [OF b] by (auto simp: staging_defs map_add_def split: option.splits prod.splits)
      (metis fst_conv)
  show "staging_view view (snd (st_get (staging_ops ops) h g)) = staging_view view g"
    using get_keeps [OF b] by (auto simp: staging_defs split: option.splits prod.splits) (metis snd_conv)
  show "staging_inv inv (snd (st_get (staging_ops ops) h g))"
    using g get_inv [OF b] by (auto simp: staging_defs split: option.splits prod.splits) (metis snd_conv)
  show "staging_view view (st_put (staging_ops ops) h p g) h = Some p"
    by (simp add: staging_defs map_add_def)
  show "staging_inv inv (st_put (staging_ops ops) h p g)"
    using g by (auto simp: staging_defs dom_def)
  show "staging_view view (st_put (staging_ops ops) h p g) h' = staging_view view g h'
      \<or> staging_view view (st_put (staging_ops ops) h p g) h' = None" if "h' \<noteq> h"
    using that by (simp add: staging_defs map_add_def)
qed

lemma commit_inv: "staging_inv inv g \<Longrightarrow> inv (staging_commit ops g)"
proof -
  have "inv s \<Longrightarrow> inv (fold (\<lambda>h b. st_put ops h (f h) b) hs s)" for f hs s
    by (induction hs arbitrary: s) (auto simp: put_inv)
  then show "staging_inv inv g \<Longrightarrow> inv (staging_commit ops g)"
    by (simp add: staging_commit_def staging_inv_def)
qed

text \<open>Whatever the committed store resolves, it resolves as the staged view did.\<close>

lemma commit_view:
  assumes "staging_inv inv g"
  shows "view (staging_commit ops g) h \<in> {staging_view view g h, None}"
proof -
  have fold_view: "inv s \<Longrightarrow> view (fold (\<lambda>h b. st_put ops h (f h) b) hs s) h
      \<in> {if h \<in> set hs then Some (f h) else view s h, None}" for f hs s
  proof (induction hs arbitrary: s)
    case (Cons k hs)
    have "view (st_put ops k (f k) s) h \<in> {if h = k then Some (f k) else view s h, None}"
      using put_view_cases [OF Cons.prems] by (auto split: if_splits)
    moreover have "view (fold (\<lambda>h b. st_put ops h (f h) b) hs (st_put ops k (f k) s)) h
        \<in> {if h \<in> set hs then Some (f h) else view (st_put ops k (f k) s) h, None}"
      by (rule Cons.IH [OF put_inv [OF Cons.prems]])
    ultimately show ?case by (cases "h \<in> set hs"; cases "h = k") auto
  qed simp
  have "h \<in> set (sg_hashes g) \<longleftrightarrow> sg_staged g h \<noteq> None"
    using assms by (auto simp: staging_inv_def dom_def)
  then show ?thesis
    using fold_view [of "sg_backing g" "\<lambda>h. case sg_staged g h of None \<Rightarrow> [] | Some p \<Rightarrow> p" "sg_hashes g"] assms
    by (auto simp: staging_commit_def staging_inv_def staging_view_def map_add_def split: option.splits if_splits)
qed

end

context lossless_store
begin

lemma commit_view_exact:
  assumes "staging_inv inv g"
  shows "view (staging_commit ops g) = staging_view view g"
proof -
  have fold_view: "inv s \<Longrightarrow> view (fold (\<lambda>h b. st_put ops h (f h) b) hs s)
      = (\<lambda>h. if h \<in> set hs then Some (f h) else view s h)" for f hs s
    by (induction hs arbitrary: s) (auto simp: put_inv put_view fun_eq_iff)
  have "h \<in> set (sg_hashes g) \<longleftrightarrow> sg_staged g h \<noteq> None" for h
    using assms by (auto simp: staging_inv_def dom_def)
  then show ?thesis
    using fold_view [of "sg_backing g"] assms
    by (auto simp: staging_commit_def staging_inv_def staging_view_def map_add_def fun_eq_iff split: option.splits)
qed

text \<open>Staging writes and committing them is writing them directly.\<close>

lemma staged_puts:
  assumes "inv s"
  shows "view (staging_commit ops (fold (\<lambda>(h, p). staging_put h p) ps (staging_new s)))
       = view (fold (\<lambda>(h, p). st_put ops h p) ps s)"
proof -
  have direct: "inv t \<Longrightarrow> view (fold (\<lambda>(h, p). st_put ops h p) ps t) = fold (\<lambda>(h, p) v. v(h \<mapsto> p)) ps (view t)" for t
    by (induction ps arbitrary: t) (auto simp: put_inv put_view)
  have step: "staging_inv inv g \<Longrightarrow>
      staging_inv inv (fold (\<lambda>(h, p). staging_put h p) ps g) \<and>
      staging_view view (fold (\<lambda>(h, p). staging_put h p) ps g) = fold (\<lambda>(h, p) v. v(h \<mapsto> p)) ps (staging_view view g)" for g
  proof (induction ps arbitrary: g)
    case (Cons hp ps)
    obtain h p where hp: "hp = (h, p)" by (cases hp)
    have "staging_inv inv (staging_put h p g)"
      using ccr_store.put_inv [OF staging_store Cons.prems, of h p] by (simp add: staging_ops_def)
    moreover have "staging_view view (staging_put h p g) = (staging_view view g)(h \<mapsto> p)"
      by (simp add: staging_view_def staging_put_def)
    ultimately show ?case using Cons.IH hp by simp
  qed simp
  have "staging_view view (staging_new s) = view s" by (simp add: staging_view_def staging_new_def)
  then show ?thesis
    using step [OF staging_new_inv [of inv s, OF assms]] direct [OF assms] commit_view_exact by simp
qed

end

interpretation mem_staged: ccr_store "staging_ops mem_ops" "staging_inv mem_inv" "staging_view mem_view"
  by (rule mem.staging_store)

section \<open>Backend selection\<close>

text \<open>
  \<open>FromConfig\<close>. Whether a constructor is registered (blank import of the backends package)
  is an argument; the constructors' own results are the back ends above.
\<close>

definition default_capacity :: int where "default_capacity = 1000"
definition default_ttl :: int where "default_ttl = 300 * 1000000000"

datatype backend_kind = InMemory | SQLite | OtherKind int

record backend_config =
  bc_kind :: backend_kind
  bc_capacity :: int
  bc_ttl_seconds :: nat
  bc_path :: string

datatype config_error = InMemoryNotRegistered | SQLiteNotRegistered | UnknownKind int

datatype backend_choice = UseInMemory int int | UseSQLite string int

text \<open>A Go \<open>int64\<close>, hence a \<open>time.Duration\<close>, wraps around.\<close>

definition int64 :: "int \<Rightarrow> int" where "int64 n = (n + 2 ^ 63) mod 2 ^ 64 - 2 ^ 63"

definition from_config :: "bool \<Rightarrow> bool \<Rightarrow> backend_config \<Rightarrow> config_error + backend_choice" where
  "from_config reg_mem reg_sql cfg =
     (let ttl = (if 0 < bc_ttl_seconds cfg then int64 (int (bc_ttl_seconds cfg) * 1000000000) else default_ttl)
      in case bc_kind cfg of
           InMemory \<Rightarrow>
             if \<not> reg_mem then Inl InMemoryNotRegistered
             else (let cap = (if bc_capacity cfg \<le> 0 then default_capacity else bc_capacity cfg)
                   in Inr (UseInMemory cap ttl))
         | SQLite \<Rightarrow> if \<not> reg_sql then Inl SQLiteNotRegistered else Inr (UseSQLite (bc_path cfg) ttl)
         | OtherKind k \<Rightarrow> Inl (UnknownKind k))"

section \<open>Histories\<close>

datatype mem_op = MPut string string | MGet string | MTick int

fun mem_step :: "mem_op \<Rightarrow> inmem \<Rightarrow> inmem" where
  "mem_step (MPut h p) m = mem_put h p m"
| "mem_step (MGet h) m = snd (mem_get h m)"
| "mem_step (MTick now) m = mem_tick now m"

definition mem_run :: "mem_op list \<Rightarrow> inmem \<Rightarrow> inmem" where
  "mem_run = fold mem_step"

fun last_put :: "mem_op list \<Rightarrow> string \<Rightarrow> string option" where
  "last_put [] h = None"
| "last_put (op # ops) h =
     (case last_put ops h of
        Some p \<Rightarrow> Some p
      | None \<Rightarrow> (case op of MPut g p \<Rightarrow> if g = h then Some p else None | _ \<Rightarrow> None))"

lemma last_put_snoc:
  "last_put (ops @ [op]) h = (case op of MPut g p \<Rightarrow> if g = h then Some p else last_put ops h | _ \<Rightarrow> last_put ops h)"
  by (induction ops) (auto split: mem_op.splits option.splits)

lemma mem_inv_step: "mem_inv m \<Longrightarrow> mem_inv (mem_step op m)"
  by (cases op) (auto simp: mem_inv_put mem_inv_get mem_inv_tick)

lemma mem_inv_run: "mem_inv m \<Longrightarrow> mem_inv (mem_run ops m)"
  unfolding mem_run_def by (induction ops arbitrary: m) (auto simp: mem_inv_step)

lemma mem_run_snoc: "mem_run (ops @ [op]) m = mem_step op (mem_run ops m)"
  by (simp add: mem_run_def)

lemma mem_step_cap: "im_cap (mem_step op m) = im_cap m"
  by (cases op) (auto simp: mem_put_frame mem_get_frame mem_tick_def)

lemma mem_run_cap: "im_cap (mem_run ops m) = im_cap m"
  unfolding mem_run_def by (induction ops arbitrary: m) (auto simp: mem_step_cap)

text \<open>Every stored payload is the last one put under its hash.\<close>

definition stores_last :: "mem_op list \<Rightarrow> fifo \<Rightarrow> bool" where
  "stores_last ops xs \<longleftrightarrow> (\<forall>h p d. map_of xs h = Some (p, d) \<longrightarrow> last_put ops h = Some p)"

lemma stores_lastD: "stores_last ops xs \<Longrightarrow> map_of xs h = Some (p, d) \<Longrightarrow> last_put ops h = Some p"
  by (auto simp: stores_last_def)

lemma stores_last_step:
  assumes "mem_inv m" and "stores_last ops (mem_abs m)"
  shows "stores_last (ops @ [op]) (mem_abs (mem_step op m))"
proof (cases op)
  case (MPut h p)
  have l: "mem_linked m" and c: "0 < im_cap m" using assms(1) by (simp_all add: mem_inv_def)
  have same: "map_of (mem_abs (mem_put h p m)) h = Some (p, mem_deadline m)"
    using fifo_put_same [OF c] mem_abs_put [OF assms(1)] by simp
  have other: "map_of (mem_abs (mem_put h p m)) g \<in> {map_of (mem_abs m) g, None}" if "g \<noteq> h" for g
    using fifo_put_other [OF mem_abs_distinct [OF l] that] mem_abs_put [OF assms(1)] by simp
  show ?thesis
    unfolding stores_last_def last_put_snoc MPut
  proof (intro allI impI)
    fix g q d assume "map_of (mem_abs (mem_step (MPut h p) m)) g = Some (q, d)"
    then show "(case MPut h p of MPut k r \<Rightarrow> if k = g then Some r else last_put ops g | _ \<Rightarrow> last_put ops g) = Some q"
      using same other [of g] stores_lastD [OF assms(2), of g q d] by (cases "g = h") auto
  qed
next
  case (MGet h)
  have "map_of (mem_abs (snd (mem_get h m))) g \<in> {map_of (mem_abs m) g, None}" for g
    using mem_get_refines [of m h] assms(1)
    by (auto simp: mem_inv_def fifo_get_def map_of_filter_key split: option.splits)
  then show ?thesis
    using assms(2) MGet unfolding stores_last_def last_put_snoc
    by (simp, metis insertE option.distinct(1) singletonD)
next
  case (MTick now)
  have "mem_abs (mem_tick now m) = mem_abs m"
    by (simp add: mem_tick_def mem_abs_def mem_entry_at_def)
  then show ?thesis using assms(2) MTick by (simp add: stores_last_def last_put_snoc)
qed

lemma stores_last_run:
  "mem_inv m \<Longrightarrow> mem_abs m = [] \<Longrightarrow> stores_last ops (mem_abs (mem_run ops m))"
proof (induction ops rule: rev_induct)
  case Nil then show ?case by (simp add: mem_run_def stores_last_def)
next
  case (snoc op ops)
  then show ?case by (simp add: mem_run_snoc stores_last_step mem_inv_run)
qed

section \<open>Properties\<close>

text \<open>C16. The pointer structure of the in-memory store (hash map into list elements updated in
  place) refines a bounded FIFO association list: \<open>Put\<close> and \<open>Get\<close> commute with the abstraction,
  return the same results, and keep the invariant.\<close>

theorem mem_refines_fifo:
  assumes "mem_inv m"
  shows "mem_abs (mem_put h p m) = fifo_put (im_cap m) (mem_deadline m) h p (mem_abs m)
       \<and> fst (mem_get h m) = fst (fifo_get (im_now m) h (mem_abs m))
       \<and> mem_abs (snd (mem_get h m)) = snd (fifo_get (im_now m) h (mem_abs m))
       \<and> mem_len m = int (length (mem_abs m))
       \<and> mem_inv (mem_put h p m) \<and> mem_inv (snd (mem_get h m))"
  using assms mem_abs_put mem_get_refines mem_inv_put mem_inv_get
  by (simp add: mem_inv_def mem_len_def mem_abs_def)

theorem mem_refines_fifo_witness:
  "mem_abs (mem_put ''b'' ''2'' (mem_put ''a'' ''1'' (new_in_memory 1 60 5))) = [(''b'', ''2'', Some 65)]"
proof -
  have i: "mem_inv (new_in_memory 1 60 5)" by (simp add: mem_inv_new)
  note a = mem_refines_fifo [OF i, of "''a''" "''1''"]
  then have "mem_inv (mem_put ''a'' ''1'' (new_in_memory 1 60 5))" by blast
  from mem_refines_fifo [OF this, of "''b''" "''2''"] a show ?thesis
    by (simp add: fifo_put_def mem_put_frame mem_deadline_def) (simp add: new_in_memory_def mem_abs_def)
qed

text \<open>Over any history of puts, gets and clock advances, a fresh in-memory store never exceeds
  its capacity and never resolves a hash to anything but the payload last put under it.\<close>

theorem mem_history_safe:
  assumes "0 < c"
  shows "let m = mem_run ops (new_in_memory c ttl now)
         in mem_len m \<le> c \<and> (\<forall>h p. fst (mem_get h m) = Some p \<longrightarrow> last_put ops h = Some p)"
proof -
  let ?m = "mem_run ops (new_in_memory c ttl now)"
  have inv: "mem_inv ?m" by (intro mem_inv_run mem_inv_new assms)
  have "stores_last ops (mem_abs ?m)"
    by (intro stores_last_run mem_inv_new assms) (simp add: mem_abs_def new_in_memory_def)
  moreover have "mem_len ?m \<le> c"
    using inv mem_run_cap [of ops "new_in_memory c ttl now"]
    by (simp add: mem_inv_def mem_len_def) (simp add: new_in_memory_def)
  moreover have "fst (mem_get h ?m) = fst (fifo_get (im_now ?m) h (mem_abs ?m))" for h
    using mem_get_refines inv by (simp add: mem_inv_def)
  ultimately show ?thesis
    by (auto simp: Let_def stores_last_def fifo_get_def split: option.splits if_splits)
qed

theorem mem_history_safe_witness:
  "let m = mem_run [MPut ''a'' ''1'', MPut ''b'' ''2'', MPut ''a'' ''3''] (new_in_memory 2 60 0)
   in mem_len m \<le> 2 \<and> (\<forall>h p. fst (mem_get h m) = Some p
        \<longrightarrow> last_put [MPut ''a'' ''1'', MPut ''b'' ''2'', MPut ''a'' ''3''] h = Some p)"
  by (rule mem_history_safe) simp

text \<open>Buffering a router's writes in the staging store and committing them leaves a lossless
  (SQLite) store with the contents that writing them directly would have left; before the commit
  the backing store resolves what it did.\<close>

theorem staging_commit_transparent:
  assumes "sq_up s"
  shows "sql_view (staging_commit sql_ops (fold (\<lambda>(h, p). staging_put h p) ps (staging_new s)))
           = sql_view (fold (\<lambda>(h, p). sql_put h p) ps s)
       \<and> sg_backing (fold (\<lambda>(h, p). staging_put h p) ps (staging_new s)) = s"
proof -
  have "sg_backing (fold (\<lambda>(h, p). staging_put h p) ps g) = sg_backing g" for g :: "sqlite staging"
    by (induction ps arbitrary: g) (auto simp: staging_put_def split: prod.splits)
  then show ?thesis
    using sql.staged_puts [OF assms, of ps] by (simp add: staging_new_def sql_ops_def)
qed

theorem staging_commit_transparent_witness:
  "sql_view (staging_commit sql_ops (fold (\<lambda>(h, p). staging_put h p) [(''k'', ''v''), (''k'', ''w'')]
       (staging_new \<lparr>sq_rows = Map.empty, sq_ttl = 0, sq_now = 7, sq_up = True\<rparr>))) ''k'' = Some ''w''"
  using staging_commit_transparent [of "\<lparr>sq_rows = Map.empty, sq_ttl = 0, sq_now = 7, sq_up = True\<rparr>"
      "[(''k'', ''v''), (''k'', ''w'')]"]
  by (simp add: sql_put_def sql_view_def)

end
