(* ===== verification/Transform.thy ===== *)
theory Transform
  imports CcrStore GoFloat
begin

text \<open>
  \<open>internal/transform/transform.go\<close>: content types, the per-call context, and the two
  transform interfaces that the pipeline composes. A Go interface value is a record of its
  methods. An \<open>OffloadTransform\<close> acts on whatever store it is given, so its \<open>Apply\<close> takes the
  store's operations and the store; \<open>store_reach\<close> states the only thing a callee can do to a
  store it receives as an interface: call its methods.
\<close>

datatype content_type = JsonArray | SourceCode | SearchResults | BuildOutput | GitDiff | Html | PlainText

fun content_type_string :: "content_type \<Rightarrow> string" where
  "content_type_string JsonArray = ''json_array''"
| "content_type_string SourceCode = ''source_code''"
| "content_type_string SearchResults = ''search''"
| "content_type_string BuildOutput = ''build''"
| "content_type_string GitDiff = ''diff''"
| "content_type_string Html = ''html''"
| "content_type_string PlainText = ''text''"

record compression_context =
  cx_query :: string
  cx_token_budget :: "int option"
  cx_producing_tool :: string
  cx_tool_command :: string
  cx_tool_input :: string
  cx_prior_reads :: int

text \<open>The sentinel an error wraps; every one means "skip this transform".\<close>

datatype transform_error = ErrInvalidInput | ErrSkipped | ErrInternal

record reformat_output =
  ro_output :: string
  ro_bytes_saved :: int

record offload_output =
  oo_output :: string
  oo_bytes_saved :: int
  oo_cache_key :: string

record reformat_transform =
  rf_name :: string
  rf_applies_to :: "content_type list"
  rf_apply :: "string \<Rightarrow> transform_error + reformat_output"

record 's offload_transform =
  of_name :: string
  of_applies_to :: "content_type list"
  of_estimate_bloat :: "string \<Rightarrow> rat"
  of_apply :: "'s store_ops \<Rightarrow> string \<Rightarrow> compression_context \<Rightarrow> 's \<Rightarrow> (transform_error + offload_output) \<times> 's"
  of_confidence :: rat

section \<open>Store effects of a callee\<close>

inductive store_reach :: "'s store_ops \<Rightarrow> 's \<Rightarrow> 's \<Rightarrow> bool" for ops where
  refl [intro!, simp]: "store_reach ops s s"
| put: "store_reach ops s t \<Longrightarrow> store_reach ops s (st_put ops h p t)"
| get: "store_reach ops s t \<Longrightarrow> store_reach ops s (snd (st_get ops h t))"

lemma store_reach_put [intro]: "store_reach ops s (st_put ops h p s)"
  by (rule store_reach.put) simp

lemma store_reach_trans:
  assumes "store_reach ops t u" and "store_reach ops s t" shows "store_reach ops s u"
  using assms by (induction rule: store_reach.induct) (auto intro: store_reach.intros)

context ccr_store
begin

lemma reach_inv: "store_reach ops s t \<Longrightarrow> inv s \<Longrightarrow> inv t"
  by (induction rule: store_reach.induct) (auto simp: put_inv get_inv)

text \<open>Whatever a callee does to a staging store, the backing store resolves what it did.\<close>

lemma staged_reach:
  assumes "store_reach (staging_ops ops) g g'" and "staging_inv inv g"
  shows "staging_inv inv g' \<and> view (sg_backing g') = view (sg_backing g)"
  using assms
proof (induction rule: store_reach.induct)
  case (put g t h p)
  then show ?case
    using ccr_store.put_inv [OF staging_store, of t h p] by (simp add: staging_ops_def staging_put_def)
next
  case (get g t h)
  have i: "staging_inv inv t" using get by simp
  then have b: "inv (sg_backing t)" by (simp add: staging_inv_def)
  have "view (sg_backing (snd (staging_get ops h t))) = view (sg_backing t)"
    using get_keeps [OF b] by (auto simp: staging_get_def split: option.splits prod.splits) (metis snd_conv)
  then show ?case
    using get i ccr_store.get_inv [OF staging_store i, of h] by (simp add: staging_ops_def)
qed simp

text \<open>An entry the callee staged is still staged; staging never forgets.\<close>

lemma staged_reach_mono:
  "store_reach (staging_ops ops) g g' \<Longrightarrow> dom (sg_staged g) \<subseteq> dom (sg_staged g')"
  by (induction rule: store_reach.induct)
     (auto simp: staging_ops_def staging_put_def staging_get_def split: option.splits prod.splits)

end

end
