(* ===== verification/Pipeline.thy ===== *)
theory Pipeline
  imports Transform "HOL-Library.Word"
begin

text \<open>
  \<open>internal/pipeline\<close>: reformats run in registration order until the content is small enough,
  then at most one offload runs, gated on its bloat estimate.
\<close>

section \<open>Configuration\<close>

record pipeline_config =
  pc_reformat_target_ratio :: rat
  pc_bloat_threshold :: rat
  pc_offload_fallback_ratio :: rat

text \<open>\<open>DefaultConfig\<close>: the embedded \<open>pipeline.toml\<close>.\<close>

definition default_config :: pipeline_config where
  "default_config = \<lparr>pc_reformat_target_ratio = f64 (5/10), pc_bloat_threshold = f64 (5/10),
     pc_offload_fallback_ratio = f64 (85/100)\<rparr>"

section \<open>Saturating addition\<close>

text \<open>\<open>saturatingAdd\<close> on Go's 64-bit \<open>int\<close>: the sum wraps, and a wrapped sum becomes the maximum.\<close>

definition max_int :: int where "max_int = 2 ^ 63 - 1"

definition saturating_add :: "int \<Rightarrow> int \<Rightarrow> int" where
  "saturating_add a b =
     (let s = sint (word_of_int (a + b) :: 64 word) in if s < a then max_int else s)"

section \<open>Builder\<close>

record 's pipeline =
  pl_reformats_by_type :: "content_type \<Rightarrow> reformat_transform list"
  pl_offloads_by_type :: "content_type \<Rightarrow> 's offload_transform list"
  pl_config :: pipeline_config

record 's builder =
  bd_reformats :: "reformat_transform list"
  bd_offloads :: "'s offload_transform list"
  bd_config :: "pipeline_config option"

definition new_builder :: "'s builder" where
  "new_builder = \<lparr>bd_reformats = [], bd_offloads = [], bd_config = None\<rparr>"

definition with_reformat :: "reformat_transform \<Rightarrow> 's builder \<Rightarrow> 's builder" where
  "with_reformat t b = b\<lparr>bd_reformats := bd_reformats b @ [t]\<rparr>"

definition with_offload :: "'s offload_transform \<Rightarrow> 's builder \<Rightarrow> 's builder" where
  "with_offload t b = b\<lparr>bd_offloads := bd_offloads b @ [t]\<rparr>"

definition with_config :: "pipeline_config \<Rightarrow> 's builder \<Rightarrow> 's builder" where
  "with_config c b = b\<lparr>bd_config := Some c\<rparr>"

text \<open>\<open>Build\<close> appends each transform under every type of its \<open>AppliesTo()\<close>.\<close>

fun register :: "('t \<Rightarrow> content_type list) \<Rightarrow> 't list \<Rightarrow> content_type \<Rightarrow> 't list" where
  "register applies [] ct = []"
| "register applies (t # ts) ct = map (\<lambda>_. t) (filter (\<lambda>c. c = ct) (applies t)) @ register applies ts ct"

definition build :: "'s builder \<Rightarrow> 's pipeline" where
  "build b = \<lparr>pl_reformats_by_type = register rf_applies_to (bd_reformats b),
     pl_offloads_by_type = register of_applies_to (bd_offloads b),
     pl_config = (case bd_config b of None \<Rightarrow> default_config | Some c \<Rightarrow> c)\<rparr>"

section \<open>Run\<close>

record pipeline_result =
  pr_output :: string
  pr_bytes_saved :: int
  pr_steps_applied :: "string list"
  pr_cache_keys :: "string list"

text \<open>Phase 1: \<open>current\<close>, \<open>steps\<close> and \<open>bytesSaved\<close> are the loop's variables.\<close>

fun run_reformats :: "pipeline_config \<Rightarrow> nat \<Rightarrow> reformat_transform list \<Rightarrow> string \<Rightarrow> string list \<Rightarrow> int
    \<Rightarrow> string \<times> string list \<times> int" where
  "run_reformats cfg n [] current steps saved = (current, steps, saved)"
| "run_reformats cfg n (rf # rfs) current steps saved =
     (if 0 < n \<and> f64 (of_nat (length current) / of_nat n) \<le> pc_reformat_target_ratio cfg
      then (current, steps, saved)
      else (case rf_apply rf current of
              Inl e \<Rightarrow> run_reformats cfg n rfs current steps saved
            | Inr out \<Rightarrow>
                if ro_bytes_saved out = 0 then run_reformats cfg n rfs current steps saved
                else run_reformats cfg n rfs (ro_output out) (steps @ [rf_name rf])
                       (saturating_add saved (ro_bytes_saved out))))"

text \<open>Phase 2: the first offload that applies ends the loop.\<close>

fun run_offloads :: "'s store_ops \<Rightarrow> pipeline_config \<Rightarrow> rat \<Rightarrow> compression_context \<Rightarrow> 's offload_transform list
    \<Rightarrow> string \<Rightarrow> string list \<Rightarrow> int \<Rightarrow> 's \<Rightarrow> pipeline_result \<times> 's" where
  "run_offloads ops cfg ratio ctx [] current steps saved st =
     (\<lparr>pr_output = current, pr_bytes_saved = saved, pr_steps_applied = steps, pr_cache_keys = []\<rparr>, st)"
| "run_offloads ops cfg ratio ctx (off # offs) current steps saved st =
     (let score = of_estimate_bloat off current;
          run = (pc_bloat_threshold cfg \<le> score \<or> pc_offload_fallback_ratio cfg < ratio \<and> 0 < score)
      in if \<not> run then run_offloads ops cfg ratio ctx offs current steps saved st
         else (case of_apply off ops current ctx st of
                 (Inl e, st') \<Rightarrow> run_offloads ops cfg ratio ctx offs current steps saved st'
               | (Inr out, st') \<Rightarrow>
                   if oo_bytes_saved out = 0 then run_offloads ops cfg ratio ctx offs current steps saved st'
                   else (\<lparr>pr_output = oo_output out,
                          pr_bytes_saved = saturating_add saved (oo_bytes_saved out),
                          pr_steps_applied = steps @ [of_name off],
                          pr_cache_keys = [oo_cache_key out]\<rparr>, st')))"

definition pipeline_run :: "'s store_ops \<Rightarrow> 's pipeline \<Rightarrow> string \<Rightarrow> content_type \<Rightarrow> compression_context \<Rightarrow> 's
    \<Rightarrow> pipeline_result \<times> 's" where
  "pipeline_run ops p content ct ctx st =
     (let n = length content;
          (current, steps, saved) = run_reformats (pl_config p) n (pl_reformats_by_type p ct) content [] 0;
          ratio = (if 0 < n then f64 (of_nat (length current) / of_nat n) else 1)
      in run_offloads ops (pl_config p) ratio ctx (pl_offloads_by_type p ct) current steps saved st)"

section \<open>Lemmas\<close>

lemma saturating_add_exact:
  assumes "0 \<le> a" "0 \<le> b" "a \<le> max_int" "b \<le> max_int"
  shows "saturating_add a b = min (a + b) max_int"
proof (cases "a + b \<le> max_int")
  case True
  then have "(a + b + 2 ^ 63) mod 2 ^ 64 = a + b + 2 ^ 63"
    using assms by (intro mod_pos_pos_trivial) (simp_all add: max_int_def)
  then have "sint (word_of_int (a + b) :: 64 word) = a + b" unfolding int_word_sint by simp
  then show ?thesis using True assms by (simp add: saturating_add_def)
next
  case False
  have "(a + b + 2 ^ 63) mod 2 ^ 64 = (a + b + 2 ^ 63 - 2 ^ 64) mod 2 ^ 64" by (simp only: minus_mod_self2)
  also have "\<dots> = a + b + 2 ^ 63 - 2 ^ 64"
    using False assms by (intro mod_pos_pos_trivial) (simp_all add: max_int_def)
  finally have "sint (word_of_int (a + b) :: 64 word) = a + b - 2 ^ 64" unfolding int_word_sint by simp
  then show ?thesis using False assms by (simp add: saturating_add_def max_int_def)
qed

lemma saturating_add_0: "0 \<le> a \<Longrightarrow> a \<le> max_int \<Longrightarrow> saturating_add 0 a = a"
  by (simp add: saturating_add_exact max_int_def)

section \<open>Contracts of the transforms\<close>

text \<open>
  \<open>ReformatTransform\<close>: reported savings are the shrinkage of the content, never negative.
\<close>

locale reformat_contract =
  fixes rf :: reformat_transform
  assumes rf_accounting: "rf_apply rf c = Inr out \<Longrightarrow>
      0 \<le> ro_bytes_saved out \<and> ro_bytes_saved out = int (length c) - int (length (ro_output out))"
begin

lemma rf_shrinks: "rf_apply rf c = Inr out \<Longrightarrow> length (ro_output out) \<le> length c"
  using rf_accounting by fastforce

end

text \<open>
  \<open>OffloadTransform\<close>: \<open>Apply\<close> acts on the store through its methods only, saturates the
  savings at 0, and emits a key that resolves to the original content in the store given.
\<close>

locale offload_contract =
  fixes off :: "'s offload_transform"
  assumes off_effects: "store_reach ops st (snd (of_apply off ops c ctx st))"
    and off_accounting: "of_apply off ops c ctx st = (Inr out, st') \<Longrightarrow>
      oo_bytes_saved out = max 0 (int (length c) - int (length (oo_output out)))"
    and off_resolves: "of_apply off ops c ctx st = (Inr out, st') \<Longrightarrow> ccr_store ops sinv view \<Longrightarrow> sinv st \<Longrightarrow>
      view st' (oo_cache_key out) = Some c"
begin

lemma off_reach: "of_apply off ops c ctx st = (r, st') \<Longrightarrow> store_reach ops st st'"
  using off_effects [of ops st c ctx] by simp

lemma off_used:
  assumes "of_apply off ops c ctx st = (Inr out, st')" "oo_bytes_saved out \<noteq> 0"
  shows "oo_bytes_saved out = int (length c) - int (length (oo_output out))" "0 < oo_bytes_saved out"
  using off_accounting [OF assms(1)] assms(2) by auto

end

section \<open>Phase lemmas\<close>

lemma run_reformats_accounting:
  assumes "\<forall>rf\<in>set rfs. reformat_contract rf"
    and "run_reformats cfg n rfs cur steps saved = (cur', steps', saved')"
    and "0 \<le> saved" "saved + int (length cur) \<le> max_int"
  shows "saved' + int (length cur') = saved + int (length cur) \<and> saved \<le> saved'
       \<and> (saved' = saved \<longrightarrow> cur' = cur \<and> steps' = steps)"
  using assms
proof (induction cfg n rfs cur steps saved rule: run_reformats.induct)
  case (2 cfg n rf rfs cur steps saved)
  show ?case
  proof (cases "0 < n \<and> f64 (of_nat (length cur) / of_nat n) \<le> pc_reformat_target_ratio cfg")
    case True then show ?thesis using 2 by simp
  next
    case False
    note go = False
    show ?thesis
    proof (cases "rf_apply rf cur")
      case (Inl e)
      then show ?thesis using "2.IH"(1) [OF go Inl] "2.prems" go by simp
    next
      case (Inr out)
      have acc: "0 \<le> ro_bytes_saved out" "ro_bytes_saved out = int (length cur) - int (length (ro_output out))"
        using reformat_contract.rf_accounting [OF _ Inr] "2.prems"(1) by simp_all
      show ?thesis
      proof (cases "ro_bytes_saved out = 0")
        case True
        then show ?thesis using "2.IH"(2) [OF go Inr True] "2.prems" go Inr by simp
      next
        case False
        have sat: "saturating_add saved (ro_bytes_saved out) = saved + ro_bytes_saved out"
          using acc "2.prems"(3,4) by (subst saturating_add_exact) auto
        have run: "run_reformats cfg n rfs (ro_output out) (steps @ [rf_name rf])
            (saturating_add saved (ro_bytes_saved out)) = (cur', steps', saved')"
          using "2.prems"(2) go Inr False by simp
        have "saved' + int (length cur') = saved + ro_bytes_saved out + int (length (ro_output out))
            \<and> saved + ro_bytes_saved out \<le> saved'"
          using "2.IH"(3) [OF go Inr False _ run] "2.prems" acc sat by auto
        then show ?thesis using acc False by auto
      qed
    qed
  qed
qed simp

lemma run_reformats_steps:
  "run_reformats cfg n rfs cur steps saved = (cur', steps', saved') \<Longrightarrow>
     \<exists>names. steps' = steps @ names \<and> set names \<subseteq> rf_name ` set rfs"
proof (induction cfg n rfs cur steps saved rule: run_reformats.induct)
  case (2 cfg n rf rfs cur steps saved)
  then show ?case
    by (auto split: if_splits sum.splits)
qed simp

text \<open>The outcome of phase 2: either every offload declined, or one was used.\<close>

inductive offload_outcome :: "'s store_ops \<Rightarrow> pipeline_config \<Rightarrow> rat \<Rightarrow> compression_context \<Rightarrow> 's offload_transform list
    \<Rightarrow> string \<Rightarrow> string list \<Rightarrow> int \<Rightarrow> 's \<Rightarrow> pipeline_result \<Rightarrow> 's \<Rightarrow> bool"
  for ops cfg ratio ctx offs current steps saved st where
  none: "store_reach ops st st' \<Longrightarrow>
    offload_outcome ops cfg ratio ctx offs current steps saved st
      \<lparr>pr_output = current, pr_bytes_saved = saved, pr_steps_applied = steps, pr_cache_keys = []\<rparr> st'"
| one: "off \<in> set offs \<Longrightarrow> store_reach ops st st0 \<Longrightarrow>
    pc_bloat_threshold cfg \<le> of_estimate_bloat off current
      \<or> pc_offload_fallback_ratio cfg < ratio \<and> 0 < of_estimate_bloat off current \<Longrightarrow>
    of_apply off ops current ctx st0 = (Inr out, st') \<Longrightarrow> oo_bytes_saved out \<noteq> 0 \<Longrightarrow>
    offload_outcome ops cfg ratio ctx offs current steps saved st
      \<lparr>pr_output = oo_output out, pr_bytes_saved = saturating_add saved (oo_bytes_saved out),
       pr_steps_applied = steps @ [of_name off], pr_cache_keys = [oo_cache_key out]\<rparr> st'"

lemma offload_outcome_skip:
  assumes "offload_outcome ops cfg ratio ctx offs current steps saved st1 r st'" and "store_reach ops st st1"
  shows "offload_outcome ops cfg ratio ctx (off # offs) current steps saved st r st'"
  using assms
  by (cases rule: offload_outcome.cases)
     (auto intro: offload_outcome.intros store_reach_trans)

lemma run_offloads_outcome:
  assumes "\<forall>off\<in>set offs. offload_contract off"
    and "run_offloads ops cfg ratio ctx offs current steps saved st = (r, st')"
  shows "offload_outcome ops cfg ratio ctx offs current steps saved st r st'"
  using assms
proof (induction offs arbitrary: st)
  case Nil
  then show ?case by (auto intro: offload_outcome.none)
next
  case (Cons off offs)
  let ?run = "pc_bloat_threshold cfg \<le> of_estimate_bloat off current
      \<or> pc_offload_fallback_ratio cfg < ratio \<and> 0 < of_estimate_bloat off current"
  obtain res st1 where ap: "of_apply off ops current ctx st = (res, st1)" by fastforce
  have reach: "store_reach ops st st1"
    using Cons.prems(1) offload_contract.off_reach [OF _ ap] by simp
  show ?case
  proof (cases "?run \<and> (\<exists>out. res = Inr out \<and> oo_bytes_saved out \<noteq> 0)")
    case True
    then obtain out where out: "res = Inr out" "oo_bytes_saved out \<noteq> 0" by blast
    have "(r, st') = (\<lparr>pr_output = oo_output out, pr_bytes_saved = saturating_add saved (oo_bytes_saved out),
        pr_steps_applied = steps @ [of_name off], pr_cache_keys = [oo_cache_key out]\<rparr>, st1)"
      using Cons.prems(2) True ap out by (auto simp: Let_def)
    then show ?thesis
      using offload_outcome.one [of off "off # offs" ops st st cfg current ratio ctx out st1] True ap out by simp
  next
    case False
    then obtain st2 where "run_offloads ops cfg ratio ctx offs current steps saved st2 = (r, st')" "store_reach ops st st2"
      using Cons.prems(2) ap reach by (auto simp: Let_def split: if_splits sum.splits)
    then show ?thesis
      using Cons.IH Cons.prems(1) offload_outcome_skip by fastforce
  qed
qed

lemma pipeline_run_phases:
  assumes "pipeline_run ops p content ct ctx st = (r, st')"
  shows "\<exists>cur steps saved ratio.
      run_reformats (pl_config p) (length content) (pl_reformats_by_type p ct) content [] 0 = (cur, steps, saved)
    \<and> run_offloads ops (pl_config p) ratio ctx (pl_offloads_by_type p ct) cur steps saved st = (r, st')"
proof -
  obtain cur steps saved where p1: "run_reformats (pl_config p) (length content) (pl_reformats_by_type p ct) content [] 0
      = (cur, steps, saved)" by (metis prod_cases3)
  then show ?thesis using assms by (auto simp: pipeline_run_def Let_def split: if_splits)
qed

lemma pipeline_run_sound:
  assumes "\<forall>rf\<in>set (pl_reformats_by_type p ct). reformat_contract rf"
    and "\<forall>off\<in>set (pl_offloads_by_type p ct). offload_contract off"
    and "int (length content) \<le> max_int"
    and "pipeline_run ops p content ct ctx st = (r, st')"
  shows "pr_bytes_saved r = int (length content) - int (length (pr_output r))
       \<and> 0 \<le> pr_bytes_saved r \<and> length (pr_cache_keys r) \<le> 1
       \<and> (pr_bytes_saved r = 0 \<longrightarrow> pr_output r = content \<and> pr_steps_applied r = [] \<and> pr_cache_keys r = [])
       \<and> store_reach ops st st'"
proof -
  obtain cur steps saved ratio
    where p1: "run_reformats (pl_config p) (length content) (pl_reformats_by_type p ct) content [] 0 = (cur, steps, saved)"
      and p2: "run_offloads ops (pl_config p) ratio ctx (pl_offloads_by_type p ct) cur steps saved st = (r, st')"
    using pipeline_run_phases [OF assms(4)] by blast
  have acc: "saved + int (length cur) = int (length content)" "0 \<le> saved"
      "saved = 0 \<longrightarrow> cur = content \<and> steps = []"
    using run_reformats_accounting [OF assms(1) p1] assms(3) by auto
  from run_offloads_outcome [OF assms(2) p2] show ?thesis
  proof (cases rule: offload_outcome.cases)
    case none
    then show ?thesis using acc by simp
  next
    case (one off st0 out)
    have c: "offload_contract off" using one(2) assms(2) by blast
    have "saturating_add saved (oo_bytes_saved out) = saved + oo_bytes_saved out"
      using offload_contract.off_used [OF c one(5,6)] acc assms(3) by (subst saturating_add_exact) auto
    then show ?thesis
      using one offload_contract.off_used [OF c one(5,6)] offload_contract.off_reach [OF c one(5)] acc
        store_reach_trans by auto
  qed
qed

text \<open>A transform that fails everywhere does not change the loops.\<close>

lemma run_reformats_skip:
  assumes "\<forall>c. \<exists>e. rf_apply bad c = Inl e"
  shows "run_reformats cfg n (rfs @ bad # rfs') cur steps saved = run_reformats cfg n (rfs @ rfs') cur steps saved"
proof (induction rfs arbitrary: cur steps saved)
  case Nil
  obtain e where "rf_apply bad cur = Inl e" using assms by blast
  then show ?case by (cases rfs') auto
qed (auto split: sum.splits)

lemma run_offloads_skip:
  assumes "\<forall>ops c ctx st. \<exists>e. of_apply bad ops c ctx st = (Inl e, st)"
  shows "run_offloads ops cfg ratio ctx (offs @ bad # offs') cur steps saved st
    = run_offloads ops cfg ratio ctx (offs @ offs') cur steps saved st"
proof (induction offs arbitrary: st)
  case Nil
  obtain e where "of_apply bad ops cur ctx st = (Inl e, st)" using assms by blast
  then show ?case by (simp add: Let_def)
qed (auto simp: Let_def split: sum.splits prod.splits)

lemma run_offloads_progress:
  assumes "off \<in> set offs" and "pc_bloat_threshold cfg \<le> of_estimate_bloat off cur"
    and "\<forall>st. \<exists>out st'. of_apply off ops cur ctx st = (Inr out, st') \<and> oo_bytes_saved out \<noteq> 0"
  shows "length (pr_cache_keys (fst (run_offloads ops cfg ratio ctx offs cur steps saved st))) = 1"
  using assms(1)
proof (induction offs arbitrary: st)
  case (Cons o1 offs)
  show ?case
  proof (cases "o1 = off")
    case True
    obtain out st' where "of_apply off ops cur ctx st = (Inr out, st')" "oo_bytes_saved out \<noteq> 0" using assms(3) by blast
    then show ?thesis using assms(2) True by (simp add: Let_def)
  next
    case False
    then show ?thesis using Cons by (auto simp: Let_def split: sum.splits prod.splits)
  qed
qed simp

section \<open>Properties\<close>

text \<open>C15. Byte accounting and progress of \<open>Run\<close>: with transforms that keep their contracts, the reported
  savings are exactly the shrinkage of the content and never negative, at most one offload key is
  emitted, and when nothing was saved the content comes back verbatim with no step and no key.\<close>

theorem pipeline_run_accounting:
  assumes "\<forall>rf\<in>set (pl_reformats_by_type p ct). reformat_contract rf"
    and "\<forall>off\<in>set (pl_offloads_by_type p ct). offload_contract off"
    and "int (length content) \<le> max_int"
    and "pipeline_run ops p content ct ctx st = (r, st')"
  shows "pr_bytes_saved r = int (length content) - int (length (pr_output r))
       \<and> 0 \<le> pr_bytes_saved r \<and> length (pr_cache_keys r) \<le> 1
       \<and> (pr_bytes_saved r = 0 \<longrightarrow> pr_output r = content \<and> pr_steps_applied r = [] \<and> pr_cache_keys r = [])
       \<and> store_reach ops st st'"
  using pipeline_run_sound [OF assms] .

theorem pipeline_run_accounting_witness:
  "let rf = \<lparr>rf_name = ''dedent'', rf_applies_to = [PlainText], rf_apply = (\<lambda>c. Inr \<lparr>ro_output = drop 1 c, ro_bytes_saved = int (length c) - int (length c - 1)\<rparr>)\<rparr>;
       r = fst (pipeline_run sql_ops (build (with_reformat rf new_builder)) '' ab'' PlainText
             \<lparr>cx_query = [], cx_token_budget = None, cx_producing_tool = [], cx_tool_command = [], cx_tool_input = [], cx_prior_reads = 0\<rparr>
             \<lparr>sq_rows = Map.empty, sq_ttl = 0, sq_now = 1, sq_up = True\<rparr>)
   in pr_bytes_saved r = 3 - int (length (pr_output r)) \<and> 0 \<le> pr_bytes_saved r"
proof -
  let ?rf = "\<lparr>rf_name = ''dedent'', rf_applies_to = [PlainText], rf_apply = (\<lambda>c. Inr \<lparr>ro_output = drop 1 c, ro_bytes_saved = int (length c) - int (length c - 1)\<rparr>)\<rparr>"
  let ?ctx = "\<lparr>cx_query = [], cx_token_budget = None, cx_producing_tool = [], cx_tool_command = [], cx_tool_input = [], cx_prior_reads = 0\<rparr>"
  let ?st = "\<lparr>sq_rows = Map.empty, sq_ttl = 0, sq_now = 1, sq_up = True\<rparr>"
  let ?p = "build (with_reformat ?rf new_builder) :: sqlite pipeline"
  have rf: "reformat_contract ?rf" by unfold_locales auto
  obtain r st' where run: "pipeline_run sql_ops ?p '' ab'' PlainText ?ctx ?st = (r, st')" by fastforce
  have "\<forall>rf\<in>set (pl_reformats_by_type ?p PlainText). reformat_contract rf"
    "\<forall>off\<in>set (pl_offloads_by_type ?p PlainText). offload_contract off"
    using rf by (simp_all add: build_def with_reformat_def new_builder_def)
  moreover have "int (length '' ab'') \<le> max_int" by (simp add: max_int_def)
  ultimately have "pr_bytes_saved r = int (length '' ab'') - int (length (pr_output r)) \<and> 0 \<le> pr_bytes_saved r"
    using pipeline_run_accounting [OF _ _ _ run] by blast
  then show ?thesis unfolding Let_def run fst_conv by simp
qed

text \<open>\<open>saturatingAdd\<close> never wraps: on non-negative 64-bit operands it is the sum capped at the
  largest \<open>int\<close>.\<close>

theorem saturating_add_caps:
  "\<forall>a b. 0 \<le> a \<and> a \<le> max_int \<and> 0 \<le> b \<and> b \<le> max_int \<longrightarrow>
     saturating_add a b = min (a + b) max_int \<and> a \<le> saturating_add a b"
  by (auto simp: saturating_add_exact)

theorem saturating_add_caps_witness: "saturating_add max_int 1 = max_int \<and> saturating_add 2 3 = 5"
  using saturating_add_caps [THEN spec, of max_int, THEN spec, of 1] saturating_add_caps [THEN spec, of 2, THEN spec, of 3]
  by (simp add: max_int_def)


definition failing_reformat :: reformat_transform where
  "failing_reformat = \<lparr>rf_name = ''broken'', rf_applies_to = [PlainText], rf_apply = (\<lambda>c. Inl ErrInternal)\<rparr>"

definition failing_offload :: "sqlite offload_transform" where
  "failing_offload = \<lparr>of_name = ''broken'', of_applies_to = [PlainText], of_estimate_bloat = (\<lambda>c. 1),
     of_apply = (\<lambda>ops c ctx st. (Inl ErrSkipped, st)), of_confidence = 1\<rparr>"

definition blank_ctx :: compression_context where
  "blank_ctx = \<lparr>cx_query = [], cx_token_budget = None, cx_producing_tool = [], cx_tool_command = [], cx_tool_input = [],
     cx_prior_reads = 0\<rparr>"

definition fresh_sqlite :: sqlite where
  "fresh_sqlite = \<lparr>sq_rows = Map.empty, sq_ttl = 0, sq_now = 1, sq_up = True\<rparr>"


text \<open>C27. Progress: when some registered offload is worth running on the reformatted content and would shorten
  it on any store, the run does end with an offload applied and one key emitted. No skipped, failing
  or useless transform before it stops the run from reaching it.\<close>

theorem pipeline_progress:
  assumes "run_reformats (pl_config p) (length content) (pl_reformats_by_type p ct) content [] 0 = (cur, steps, saved)"
    and "off \<in> set (pl_offloads_by_type p ct)" and "pc_bloat_threshold (pl_config p) \<le> of_estimate_bloat off cur"
    and "\<forall>st. \<exists>out st'. of_apply off ops cur ctx st = (Inr out, st') \<and> oo_bytes_saved out \<noteq> 0"
  shows "length (pr_cache_keys (fst (pipeline_run ops p content ct ctx st))) = 1"
  using run_offloads_progress [OF assms(2-4)] by (simp add: pipeline_run_def assms(1))

definition halving_offload :: "'s offload_transform" where
  "halving_offload = \<lparr>of_name = ''halve'', of_applies_to = [PlainText], of_estimate_bloat = (\<lambda>c. 1),
     of_apply = (\<lambda>ops c ctx st. (Inr \<lparr>oo_output = take 1 c, oo_bytes_saved = int (length c) - 1, oo_cache_key = ''k''\<rparr>, st)),
     of_confidence = 1\<rparr>"

theorem pipeline_progress_witness:
  "length (pr_cache_keys (fst (pipeline_run sql_ops
      (build (with_offload halving_offload (with_offload failing_offload (with_reformat failing_reformat new_builder))))
      ''abcd'' PlainText blank_ctx fresh_sqlite))) = 1"
  by (rule pipeline_progress [where cur = "''abcd''" and steps = "[]" and saved = 0 and off = halving_offload])
     (simp_all add: failing_reformat_def failing_offload_def halving_offload_def build_def with_offload_def
        with_reformat_def new_builder_def default_config_def)

end
