(* ===== verification/Gjson.thy ===== *)
theory Gjson
  imports GoStrings
begin

text \<open>
  The third-party JSON reader \<open>github.com/tidwall/gjson\<close>, as the program sees it: the fields of
  \<open>gjson.Result\<close> that it reads, and the functions and methods it calls, which are parameters
  of the model (a record of functions). What a property relies on is stated as a hypothesis.
\<close>

datatype gtype = GNull | GFalse | GNumber | GString | GTrue | GJson

record gres =
  g_type :: gtype
  g_raw :: string
  g_str :: string
  g_index :: int

text \<open>
  \<open>gj_valid\<close>: \<open>ValidBytes\<close>; \<open>gj_parse\<close>: \<open>ParseBytes\<close>; \<open>gj_get\<close>: \<open>Get(json, path)\<close> and
  \<open>GetBytes\<close>; \<open>gj_sub\<close>: \<open>Result.Get(path)\<close>; the rest are the methods of \<open>Result\<close>.
  \<open>gj_for_each\<close> lists the key and value pairs that \<open>ForEach\<close> visits, in order.
\<close>

record gjson =
  gj_valid :: "string \<Rightarrow> bool"
  gj_parse :: "string \<Rightarrow> gres"
  gj_get :: "string \<Rightarrow> string \<Rightarrow> gres"
  gj_sub :: "gres \<Rightarrow> string \<Rightarrow> gres"
  gj_exists :: "gres \<Rightarrow> bool"
  gj_is_array :: "gres \<Rightarrow> bool"
  gj_is_object :: "gres \<Rightarrow> bool"
  gj_array :: "gres \<Rightarrow> gres list"
  gj_string :: "gres \<Rightarrow> string"
  gj_int :: "gres \<Rightarrow> int"
  gj_for_each :: "gres \<Rightarrow> (gres \<times> gres) list"

text \<open>A value that does not exist.\<close>

definition g_none :: gres where
  "g_none = \<lparr>g_type = GNull, g_raw = [], g_str = [], g_index = 0\<rparr>"

text \<open>
  Documented behaviour of \<open>Result.Index\<close>: when it is positive it is the offset of the raw
  value inside the original JSON.
\<close>

definition index_exact :: "gjson \<Rightarrow> string \<Rightarrow> bool" where
  "index_exact G body \<longleftrightarrow>
     (\<forall>path. let r = gj_get G body path
             in 0 < g_index r \<longrightarrow> g_index r \<le> int (length body) \<and> has_prefix (drop (nat (g_index r)) body) (g_raw r))"

section \<open>Paths\<close>

text \<open>\<open>fmt.Sprintf\<close> of the path formats the program uses.\<close>

definition path_message :: "nat \<Rightarrow> string" where
  "path_message i = ''messages.'' @ itoa (int i)"

definition path_content :: "nat \<Rightarrow> string" where
  "path_content i = path_message i @ ''.content''"

definition path_block :: "nat \<Rightarrow> nat \<Rightarrow> string \<Rightarrow> string" where
  "path_block i j field = path_content i @ ''.'' @ itoa (int j) @ ''.'' @ field"

definition path_nested :: "nat \<Rightarrow> nat \<Rightarrow> nat \<Rightarrow> string \<Rightarrow> string" where
  "path_nested i j k field = path_block i j ''content.'' @ itoa (int k) @ ''.'' @ field"

section \<open>A reader given by tables\<close>

text \<open>
  A concrete instance of the parameter, used where a property is applied to a concrete body: the
  values at the paths of the body and of its values are read from tables.
\<close>

definition type_starts :: "char \<Rightarrow> gres \<Rightarrow> bool" where
  "type_starts c r \<longleftrightarrow> g_type r = GJson \<and> has_prefix (g_raw r) [c]"

definition table_gjson ::
  "(string \<times> gres) list \<Rightarrow> ((string \<times> string) \<times> gres) list \<Rightarrow> (string \<times> gres list) list \<Rightarrow> gjson" where
  "table_gjson gets subs arrays =
     \<lparr>gj_valid = (\<lambda>_. True),
      gj_parse = (\<lambda>body. \<lparr>g_type = GJson, g_raw = body, g_str = [], g_index = 0\<rparr>),
      gj_get = (\<lambda>body path. case map_of gets path of None \<Rightarrow> g_none | Some r \<Rightarrow> r),
      gj_sub = (\<lambda>r path. case map_of subs (g_raw r, path) of None \<Rightarrow> g_none | Some v \<Rightarrow> v),
      gj_exists = (\<lambda>r. g_type r \<noteq> GNull \<or> g_raw r \<noteq> []),
      gj_is_array = type_starts CHR ''['',
      gj_is_object = type_starts CHR ''{'',
      gj_array = (\<lambda>r. case map_of arrays (g_raw r) of None \<Rightarrow> [] | Some vs \<Rightarrow> vs),
      gj_string = g_str,
      gj_int = (\<lambda>r. int (digits_val (g_raw r))),
      gj_for_each = (\<lambda>r. case map_of arrays (g_raw r) of None \<Rightarrow> [] | Some vs \<Rightarrow> map (Pair g_none) vs)\<rparr>"

lemmas table_defs = table_gjson_def type_starts_def g_none_def

lemma index_exact_table:
  "list_all (\<lambda>(path, r). 0 < g_index r \<longrightarrow> g_index r \<le> int (length body) \<and> has_prefix (drop (nat (g_index r)) body) (g_raw r)) gets
     \<Longrightarrow> index_exact (table_gjson gets subs arrays) body"
proof -
  assume h: "list_all (\<lambda>(path, r). 0 < g_index r \<longrightarrow> g_index r \<le> int (length body) \<and> has_prefix (drop (nat (g_index r)) body) (g_raw r)) gets"
  have "0 < g_index r \<longrightarrow> g_index r \<le> int (length body) \<and> has_prefix (drop (nat (g_index r)) body) (g_raw r)" if "map_of gets path = Some r" for path r
    using map_of_SomeD [OF that] h by (auto simp: list_all_iff)
  then show ?thesis by (auto simp: index_exact_def table_gjson_def g_none_def Let_def split: option.splits)
qed

end
