(* ===== verification/GoRegexp.thy ===== *)
theory GoRegexp
  imports GoUtf8
begin

text \<open>
  Go's \<open>regexp\<close> on the expressions the program compiles. A match is leftmost-first: the earliest
  start wins, then the alternatives and repetitions in the order Perl would try them. \<open>ends\<close>
  lists the end offsets of an expression at one start, best first. A class reads one rune (an
  invalid byte is the rune U+FFFD of width 1).
\<close>

datatype rx =
    Eps
  | Cls bool "(nat \<times> nat) list"
  | Seq rx rx
  | Alt rx rx
  | Rep rx nat "nat option"
  | BeginText
  | EndText
  | BeginLine
  | WordB

section \<open>Building expressions\<close>

definition lit_char :: "char \<Rightarrow> rx" where "lit_char c = Cls False [(ord c, ord c)]"

fun lit :: "string \<Rightarrow> rx" where
  "lit [] = Eps"
| "lit [c] = lit_char c"
| "lit (c # d # s) = Seq (lit_char c) (lit (d # s))"

text \<open>\<open>(?i)\<close>: both cases of a letter; \<open>k\<close> and \<open>s\<close> also fold with U+212A and U+017F.\<close>

definition fold_char :: "char \<Rightarrow> rx" where
  "fold_char c =
     (let n = ord (lower_byte c) in
      if is_alpha c then Cls False ([(n, n), (n - 32, n - 32)]
        @ (if n = 107 then [(0x212A, 0x212A)] else []) @ (if n = 115 then [(0x17F, 0x17F)] else []))
      else lit_char c)"

fun lit_fold :: "string \<Rightarrow> rx" where
  "lit_fold [] = Eps"
| "lit_fold [c] = fold_char c"
| "lit_fold (c # d # s) = Seq (fold_char c) (lit_fold (d # s))"

fun alts :: "rx list \<Rightarrow> rx" where
  "alts [] = Cls False []"
| "alts [r] = r"
| "alts (r # q # rs) = Alt r (alts (q # rs))"

fun seqs :: "rx list \<Rightarrow> rx" where
  "seqs [] = Eps"
| "seqs [r] = r"
| "seqs (r # q # rs) = Seq r (seqs (q # rs))"

definition star :: "rx \<Rightarrow> rx" where "star r = Rep r 0 None"
definition plus1 :: "rx \<Rightarrow> rx" where "plus1 r = Rep r 1 None"
definition opt :: "rx \<Rightarrow> rx" where "opt r = Rep r 0 (Some 1)"

definition rx_digit :: rx where "rx_digit = Cls False [(48, 57)]"
definition rx_hex :: rx where "rx_hex = Cls False [(48, 57), (97, 102), (65, 70)]"
definition rx_space :: rx where "rx_space = Cls False [(9, 10), (12, 13), (32, 32)]"
definition rx_any :: rx where "rx_any = Cls True [(10, 10)]"

section \<open>Matching\<close>

definition in_class :: "bool \<Rightarrow> (nat \<times> nat) list \<Rightarrow> nat \<Rightarrow> bool" where
  "in_class neg rs r \<longleftrightarrow> (if neg then \<not> (\<exists>(a, b)\<in>set rs. a \<le> r \<and> r \<le> b) else (\<exists>(a, b)\<in>set rs. a \<le> r \<and> r \<le> b))"

text \<open>\<open>\b\<close>: an ASCII word byte on exactly one side.\<close>

definition word_at :: "string \<Rightarrow> nat \<Rightarrow> bool" where
  "word_at s i \<longleftrightarrow> i < length s \<and> word_byte (s ! i)"

definition at_boundary :: "string \<Rightarrow> nat \<Rightarrow> bool" where
  "at_boundary s i \<longleftrightarrow> (0 < i \<and> word_at s (i - 1)) \<noteq> word_at s i"

fun rx_weight :: "rx \<Rightarrow> nat" where
  "rx_weight (Seq a b) = Suc (rx_weight a + rx_weight b)"
| "rx_weight (Alt a b) = Suc (rx_weight a + rx_weight b)"
| "rx_weight (Rep a m hi) = Suc (rx_weight a + m + (case hi of None \<Rightarrow> 0 | Some h \<Rightarrow> h))"
| "rx_weight _ = 1"

text \<open>
  A repetition that has reached its minimum goes round again only if the round consumes
  something, so every path ends within the text.
\<close>

function ends :: "string \<Rightarrow> rx \<Rightarrow> nat \<Rightarrow> nat list" where
  "ends s Eps i = [i]"
| "ends s (Cls neg rs) i =
     (if i < length s \<and> in_class neg rs (fst (decode_rune (drop i s))) then [i + rune_width (drop i s)] else [])"
| "ends s (Seq a b) i = concat (map (ends s b) (ends s a i))"
| "ends s (Alt a b) i = ends s a i @ ends s b i"
| "ends s (Rep a (Suc m) hi) i =
     concat (map (ends s (Rep a m (map_option (\<lambda>h. h - 1) hi))) (ends s a i))"
| "ends s (Rep a 0 (Some 0)) i = [i]"
| "ends s (Rep a 0 (Some (Suc h))) i =
     concat (map (\<lambda>j. if i < j \<and> j \<le> length s then ends s (Rep a 0 (Some h)) j else []) (ends s a i)) @ [i]"
| "ends s (Rep a 0 None) i =
     concat (map (\<lambda>j. if i < j \<and> j \<le> length s then ends s (Rep a 0 None) j else []) (ends s a i)) @ [i]"
| "ends s BeginText i = (if i = 0 then [i] else [])"
| "ends s EndText i = (if i = length s then [i] else [])"
| "ends s BeginLine i = (if i = 0 \<or> i \<le> length s \<and> s ! (i - 1) = NL then [i] else [])"
| "ends s WordB i = (if at_boundary s i then [i] else [])"
  by pat_completeness auto

termination
  by (relation "measures [\<lambda>(s, r, i). rx_weight r, \<lambda>(s, r, i). length s - i]")
     (auto split: option.splits)

lemmas ends_star = ends.simps(8)
declare ends.simps(8) [simp del]

text \<open>The rune boundaries at which a search may start, the end of the text included.\<close>

function starts_from :: "string \<Rightarrow> nat \<Rightarrow> nat list" where
  "starts_from s i = (if length s \<le> i then [length s] else i # starts_from s (i + max 1 (rune_width (drop i s))))"
  by pat_completeness auto
termination
  by (relation "measure (\<lambda>(s, i). length s - i)") auto

declare starts_from.simps [simp del]

fun first_match :: "string \<Rightarrow> rx \<Rightarrow> nat list \<Rightarrow> (nat \<times> nat) option" where
  "first_match s r [] = None"
| "first_match s r (i # is) = (case ends s r i of [] \<Rightarrow> first_match s r is | j # _ \<Rightarrow> Some (i, j))"

definition find_index_from :: "rx \<Rightarrow> string \<Rightarrow> nat \<Rightarrow> (nat \<times> nat) option" where
  "find_index_from r s i = first_match s r (starts_from s i)"

definition find_index :: "rx \<Rightarrow> string \<Rightarrow> (nat \<times> nat) option" where
  "find_index r s = find_index_from r s 0"

definition match_string :: "rx \<Rightarrow> string \<Rightarrow> bool" where
  "match_string r s = (find_index r s \<noteq> None)"

definition find_string :: "rx \<Rightarrow> string \<Rightarrow> string option" where
  "find_string r s = map_option (\<lambda>(i, j). take (j - i) (drop i s)) (find_index r s)"

text \<open>
  All matches that do not overlap, for expressions that match no empty text (every expression
  the program searches repeatedly): the search resumes at the end of the match.
\<close>

function find_all_from :: "rx \<Rightarrow> string \<Rightarrow> nat \<Rightarrow> (nat \<times> nat) list" where
  "find_all_from r s i =
     (case find_index_from r s i of
        None \<Rightarrow> []
      | Some (a, b) \<Rightarrow> (a, b) # (if i < b \<and> b \<le> length s then find_all_from r s b else []))"
  by pat_completeness auto
termination
  by (relation "measure (\<lambda>(r, s, i). length s - i)") auto

declare find_all_from.simps [simp del]

definition find_all :: "rx \<Rightarrow> string \<Rightarrow> (nat \<times> nat) list" where
  "find_all r s = find_all_from r s 0"

definition find_all_string :: "rx \<Rightarrow> string \<Rightarrow> string list" where
  "find_all_string r s = map (\<lambda>(i, j). take (j - i) (drop i s)) (find_all r s)"

text \<open>\<open>ReplaceAllString\<close> with a replacement that names no group.\<close>

fun replace_spans :: "string \<Rightarrow> string \<Rightarrow> nat \<Rightarrow> (nat \<times> nat) list \<Rightarrow> string" where
  "replace_spans s rep i [] = drop i s"
| "replace_spans s rep i ((a, b) # ms) = take (a - i) (drop i s) @ rep @ replace_spans s rep b ms"

definition replace_all :: "rx \<Rightarrow> string \<Rightarrow> string \<Rightarrow> string" where
  "replace_all r s rep = replace_spans s rep 0 (find_all r s)"

section \<open>Lemmas\<close>

lemma ends_bounds: "j \<in> set (ends s r i) \<Longrightarrow> i \<le> length s \<Longrightarrow> i \<le> j \<and> j \<le> length s"
proof (induction s r i arbitrary: j rule: ends.induct)
  case (2 s neg rs i)
  then show ?case using rune_width_length [of "drop i s"] by (auto split: if_splits)
next
  case (3 s a b i)
  then obtain k where "k \<in> set (ends s a i)" "j \<in> set (ends s b k)" by auto
  then show ?case using 3 by (meson order.trans)
next
  case (4 s a b i)
  then show ?case by auto
next
  case (5 s a m hi i)
  then obtain k where "k \<in> set (ends s a i)" "j \<in> set (ends s (Rep a m (map_option (\<lambda>h. h - 1) hi)) k)" by auto
  then show ?case using 5 by (meson order.trans)
next
  case (7 s a h i)
  consider "j = i" | k where "i < k" "k \<le> length s" "k \<in> set (ends s a i)" "j \<in> set (ends s (Rep a 0 (Some h)) k)"
    using 7(3) by (auto split: if_splits)
  then show ?case
  proof cases
    case (2 k)
    then show ?thesis using 7(2) [of k j] by simp
  qed (use 7(4) in simp)
next
  case (8 s a i)
  consider "j = i" | k where "i < k" "k \<le> length s" "k \<in> set (ends s a i)" "j \<in> set (ends s (Rep a 0 None) k)"
    using 8(3) by (auto simp: ends_star [of s a i] split: if_splits)
  then show ?case
  proof cases
    case (2 k)
    then show ?thesis using 8(2) [of k j] by simp
  qed (use 8(4) in simp)
qed (simp_all split: if_splits)

lemma match_string_iff:
  "match_string r s \<longleftrightarrow> (\<exists>i\<in>set (starts_from s 0). ends s r i \<noteq> [])"
proof -
  have "first_match s r is \<noteq> None \<longleftrightarrow> (\<exists>i\<in>set is. ends s r i \<noteq> [])" for "is"
    by (induction "is") (auto split: list.splits)
  then show ?thesis by (simp add: match_string_def find_index_def find_index_from_def)
qed

section \<open>Replacing\<close>

lemma starts_from_bounds: "j \<in> set (starts_from s i) \<Longrightarrow> i \<le> length s \<Longrightarrow> i \<le> j \<and> j \<le> length s"
proof (induction s i rule: starts_from.induct)
  case (1 s i)
  have w: "rune_width (drop i s) \<le> length (drop i s)" by (rule rune_width_length)
  consider "length s \<le> i" "j = length s" | "i < length s" "j = i"
    | "i < length s" "j \<in> set (starts_from s (i + max 1 (rune_width (drop i s))))"
    using 1(2) by (subst (asm) starts_from.simps) (auto split: if_splits)
  then show ?case
  proof cases
    case 3
    then have "i + max 1 (rune_width (drop i s)) \<le> length s" using w by simp
    then show ?thesis using 1(1) [OF _ 3(2)] 3(1) by linarith
  qed (use 1(3) in auto)
qed

lemma first_match_Some:
  "first_match s r is = Some (a, b) \<Longrightarrow> a \<in> set is \<and> b \<in> set (ends s r a)"
  by (induction s r "is" rule: first_match.induct) (auto split: list.splits)

lemma find_index_from_bounds:
  "find_index_from r s i = Some (a, b) \<Longrightarrow> i \<le> length s \<Longrightarrow> i \<le> a \<and> a \<le> b \<and> b \<le> length s"
  using first_match_Some [of s r "starts_from s i" a b] starts_from_bounds [of a s i] ends_bounds [of b s r a]
  by (auto simp: find_index_from_def)

text \<open>Spans in order, without overlap, inside the text.\<close>

fun spans_ok :: "nat \<Rightarrow> nat \<Rightarrow> (nat \<times> nat) list \<Rightarrow> bool" where
  "spans_ok n i [] = (i \<le> n)"
| "spans_ok n i ((a, b) # ms) = (i \<le> a \<and> a \<le> b \<and> b \<le> n \<and> spans_ok n b ms)"

lemma find_all_from_ok: "i \<le> length s \<Longrightarrow> spans_ok (length s) i (find_all_from r s i)"
proof (induction r s i rule: find_all_from.induct)
  case (1 r s i)
  show ?case
  proof (cases "find_index_from r s i")
    case None
    then show ?thesis using 1 by (simp add: find_all_from.simps)
  next
    case (Some p)
    obtain a b where ab: "find_index_from r s i = Some (a, b)" using Some by (cases p) auto
    have bd: "i \<le> a \<and> a \<le> b \<and> b \<le> length s" using find_index_from_bounds [OF ab 1(2)] .
    show ?thesis
    proof (cases "i < b")
      case True
      then show ?thesis using 1(1) [OF ab HOL.refl] bd find_all_from.simps [of r s i] by (simp add: ab)
    next
      case False
      then show ?thesis using bd find_all_from.simps [of r s i] by (simp add: ab)
    qed
  qed
qed

lemma replace_spans_empty:
  assumes "spans_ok (length s) i ms"
  shows "replace_spans s '''' i ms = drop i s \<or> length (replace_spans s '''' i ms) < length s - i"
  using assms
proof (induction ms arbitrary: i)
  case (Cons m ms)
  obtain a b where m: "m = (a, b)" by (cases m)
  have bd: "i \<le> a" "a \<le> b" "b \<le> length s" "spans_ok (length s) b ms" using Cons.prems by (auto simp: m)
  have hd: "length (take (a - i) (drop i s)) = a - i" using bd by simp
  from Cons.IH [OF bd(4)] show ?case
  proof
    assume rest: "replace_spans s '''' b ms = drop b s"
    show ?thesis
    proof (cases "a = b")
      case True
      have "take (a - i) (drop i s) @ drop a s = drop i s"
        using bd by (metis append_take_drop_id drop_drop le_add_diff_inverse2)
      then show ?thesis using rest True by (simp add: m)
    next
      case False
      then have "length (replace_spans s '''' i (m # ms)) < length s - i" using rest bd hd by (simp add: m)
      then show ?thesis ..
    qed
  next
    assume "length (replace_spans s '''' b ms) < length s - b"
    then have "length (replace_spans s '''' i (m # ms)) < length s - i" using bd hd by (simp add: m)
    then show ?thesis ..
  qed
qed simp

lemma replace_all_empty: "replace_all r s '''' = s \<or> length (replace_all r s '''') < length s"
  using replace_spans_empty [OF find_all_from_ok, of 0 s r] by (simp add: replace_all_def find_all_def)

end
