(* ===== verification/Detect.thy ===== *)
theory Detect
  imports GoRegexp GoUnicode GoJson Transform
begin

text \<open>
  \<open>internal/detect\<close>: the ordered content heuristics (\<open>detect.go\<close>) and the rule that keeps file
  reads byte-exact (\<open>readprotect.go\<close>). \<open>lower\<close> is \<open>unicode.ToLower\<close> on runes from 128.
\<close>

section \<open>Content types\<close>

record detection_result =
  dr_type :: content_type
  dr_confidence :: rat

definition diff_strong_re :: rx where
  "diff_strong_re = Seq BeginLine (Alt (lit ''diff --git '') (seqs [lit ''@@ '', star rx_any, lit '' @@'']))"

definition diff_minus_re :: rx where "diff_minus_re = Seq BeginLine (lit ''--- '')"
definition diff_plus_re :: rx where "diff_plus_re = Seq BeginLine (lit ''+++ '')"

definition html_re :: rx where
  "html_re = seqs [BeginText, star rx_space, lit ''<'',
     alts (map lit_fold [''!doctype'', ''html'', ''head'', ''body'', ''div'', ''span'', ''table'', ''ul'', ''ol'', ''p'', ''a'']),
     WordB]"

definition search_re :: rx where
  "search_re = seqs [BeginLine, Cls True [(9, 10), (12, 13), (32, 32), (58, 58)], star (Cls True [(58, 58), (10, 10)]),
     lit '':'', plus1 rx_digit, lit '':'', Cls True [(48, 57)]]"

definition build_re :: rx where
  "build_re = alts [seqs [lit '':'', plus1 rx_digit, lit '':'', plus1 rx_digit, lit '':''],
     lit_fold ''error:'', lit_fold ''warning:'', lit_fold ''FAILED'', lit_fold ''panic:'', lit_fold ''undefined:'']"

definition go_test_re :: rx where
  "go_test_re = Seq BeginLine (Alt (Seq (lit ''=== RUN'') WordB)
     (seqs [lit ''--- '', alts [lit ''PASS'', lit ''FAIL'', lit ''SKIP''], lit '': '']))"

definition code_re :: rx where
  "code_re = seqs [BeginLine, star rx_space,
     alts (map lit [''package '', ''import '', ''func '', ''class '', ''def '', ''fn '', ''public '', ''private '',
       ''const '', ''let '', ''var '', ''#include'']), WordB]"

definition looks_like_diff :: "string \<Rightarrow> bool" where
  "looks_like_diff s \<longleftrightarrow> match_string diff_strong_re s \<or> match_string diff_minus_re s \<and> match_string diff_plus_re s"

text \<open>\<open>json.Unmarshal\<close> into \<open>[]json.RawMessage\<close> succeeds on an array (and on \<open>null\<close>).\<close>

definition looks_like_json_array :: "string \<Rightarrow> bool" where
  "looks_like_json_array s = (case parse_json max_nesting s of Some (JArr _) \<Rightarrow> True | Some JNull \<Rightarrow> True | _ \<Rightarrow> False)"

definition detect_content_type :: "string \<Rightarrow> detection_result" where
  "detect_content_type content =
     (let s = trim_space content in
      if s = '''' then \<lparr>dr_type = PlainText, dr_confidence = 1\<rparr>
      else if has_prefix s ''['' \<and> looks_like_json_array s then \<lparr>dr_type = JsonArray, dr_confidence = f32 (95/100)\<rparr>
      else if looks_like_diff s then \<lparr>dr_type = GitDiff, dr_confidence = f32 (9/10)\<rparr>
      else if match_string html_re s then \<lparr>dr_type = Html, dr_confidence = f32 (85/100)\<rparr>
      else if match_string search_re s then \<lparr>dr_type = SearchResults, dr_confidence = f32 (8/10)\<rparr>
      else if match_string build_re s \<or> match_string go_test_re s then \<lparr>dr_type = BuildOutput, dr_confidence = f32 (75/100)\<rparr>
      else if match_string code_re s then \<lparr>dr_type = SourceCode, dr_confidence = f32 (7/10)\<rparr>
      else \<lparr>dr_type = PlainText, dr_confidence = f32 (5/10)\<rparr>)"

section \<open>Read commands\<close>

definition read_verbs :: "string list" where
  "read_verbs = [''cat'', ''head'', ''tail'', ''nl'', ''bat'', ''less'', ''more'']"

definition shell_wrappers :: "string list" where
  "shell_wrappers = [''rtk'', ''sudo'', ''env'', ''time'', ''nice'', ''ionice'', ''nohup'', ''stdbuf'', ''command'',
     ''timeout'', ''xargs'']"

definition lockfile_re :: rx where
  "lockfile_re = seqs [Alt BeginText (Cls False [(9, 10), (12, 13), (32, 32), (47, 47)]),
     alts (map lit_fold [''bun.lock'', ''bun.lockb'', ''package-lock.json'', ''npm-shrinkwrap.json'', ''yarn.lock'',
       ''pnpm-lock.yaml'', ''uv.lock'', ''poetry.lock'', ''Pipfile.lock'', ''Cargo.lock'', ''go.sum'', ''Gemfile.lock'',
       ''composer.lock'', ''flake.lock'', ''Package.resolved'', ''gradle.lockfile'', ''packages.lock.json'']),
     Alt rx_space EndText]"

definition write_re :: rx where
  "write_re = Seq (Alt BeginText rx_space) (alts [Seq (lit ''>'') (opt (lit ''>'')), Seq (lit ''tee'') WordB, lit ''<<''])"

definition sed_range_re :: rx where
  "sed_range_re = seqs [Alt BeginText rx_space, lit ''-n'', Alt rx_space EndText]"

definition cd_prefix_re :: rx where
  "cd_prefix_re = seqs [BeginText, star rx_space, lit ''cd'', plus1 rx_space,
     plus1 (Cls True [(38, 38), (59, 59), (124, 124)]), Alt (lit ''&&'') (lit '';''), star rx_space]"

function strip_cd :: "string \<Rightarrow> string" where
  "strip_cd c = (let stripped = replace_all cd_prefix_re c '''' in if stripped = c then c else strip_cd stripped)"
  by pat_completeness auto
termination
  by (relation "measure length") (use replace_all_empty in \<open>auto simp: Let_def\<close>)

declare strip_cd.simps [simp del]

definition is_numeric :: "string \<Rightarrow> bool" where
  "is_numeric s \<longleftrightarrow> s \<noteq> '''' \<and> list_all (\<lambda>c. is_digit c \<or> c = CHR ''.'') s \<and> length (filter (\<lambda>c. c = CHR ''.'') s) \<le> 1"

text \<open>What follows the last slash.\<close>

definition base_name :: "string \<Rightarrow> string" where
  "base_name s = rev (takeWhile (\<lambda>c. c \<noteq> CHR ''/'') (rev s))"

text \<open>The loop of \<open>bashProgram\<close> over the fields that are left.\<close>

function bash_program_loop :: "(nat \<Rightarrow> nat) \<Rightarrow> string list \<Rightarrow> string \<times> string list" where
  "bash_program_loop lower [] = ('''', [])"
| "bash_program_loop lower (tok # rest) =
     (if contains tok ''='' \<and> \<not> has_prefix tok ''-'' then bash_program_loop lower rest
      else
        (let base = to_lower lower (base_name tok) in
         if base \<in> set shell_wrappers
         then bash_program_loop lower (dropWhile (\<lambda>f. has_prefix f ''-'' \<or> is_numeric f) rest)
         else (base, rest)))"
  by pat_completeness auto
termination
  by (relation "measure (length \<circ> snd)") (auto simp: less_Suc_eq_le length_dropWhile_le)

definition bash_program :: "(nat \<Rightarrow> nat) \<Rightarrow> string \<Rightarrow> string \<times> string list" where
  "bash_program lower command = bash_program_loop lower (str_fields command)"

text \<open>The arguments after the first \<open>-c\<close> that has any.\<close>

fun shell_argument :: "string list \<Rightarrow> string list option" where
  "shell_argument [] = None"
| "shell_argument (tok # rest) =
     (if tok \<in> {''-c'', ''-lc'', ''-lic'', ''-ic''} \<and> rest \<noteq> [] then Some rest else shell_argument rest)"

lemma strip_cd_length: "length (strip_cd c) \<le> length c"
proof (induction c rule: strip_cd.induct)
  case (1 c)
  show ?case
  proof (cases "replace_all cd_prefix_re c '''' = c")
    case True
    then show ?thesis by (simp add: strip_cd.simps)
  next
    case False
    then have "length (strip_cd c) = length (strip_cd (replace_all cd_prefix_re c ''''))"
      by (subst strip_cd.simps) (simp add: Let_def)
    then show ?thesis using 1 [OF HOL.refl False] replace_all_empty [of cd_prefix_re c] False by simp
  qed
qed

lemma bash_program_suffix: "bash_program_loop lower fs = (p, rest) \<Longrightarrow> p \<noteq> '''' \<Longrightarrow> \<exists>u. fs = u @ rest \<and> u \<noteq> []"
proof (induction lower fs arbitrary: p rest rule: bash_program_loop.induct)
  case (2 lower tok args)
  show ?case
  proof (cases "contains tok ''='' \<and> \<not> has_prefix tok ''-''")
    case True
    then obtain u where "args = u @ rest" using 2(1) [OF True] 2(3,4) by auto
    then show ?thesis by (metis append_Cons list.distinct(1))
  next
    case False
    let ?d = "dropWhile (\<lambda>f. has_prefix f ''-'' \<or> is_numeric f) args"
    show ?thesis
    proof (cases "to_lower lower (base_name tok) \<in> set shell_wrappers")
      case True
      then obtain u where "?d = u @ rest" using 2(2) [OF False HOL.refl True] 2(3,4) False by (auto simp: Let_def)
      then have "tok # args = (tok # takeWhile (\<lambda>f. has_prefix f ''-'' \<or> is_numeric f) args @ u) @ rest"
        using takeWhile_dropWhile_id [of "\<lambda>f. has_prefix f ''-'' \<or> is_numeric f" args] by simp
      then show ?thesis by blast
    next
      case False2: False
      then have "args = rest" using 2(3) False by (auto simp: Let_def)
      then have "tok # args = [tok] @ rest" by simp
      then show ?thesis by blast
    qed
  qed
qed simp

lemma shell_argument_suffix: "shell_argument rest = Some args \<Longrightarrow> \<exists>u. rest = u @ args \<and> u \<noteq> [] \<and> args \<noteq> []"
proof (induction rest)
  case (Cons tok rest)
  show ?case
  proof (cases "tok \<in> {''-c'', ''-lc'', ''-lic'', ''-ic''} \<and> rest \<noteq> []")
    case True
    then have "args = rest" "rest \<noteq> []" using Cons.prems by auto
    then have "tok # rest = [tok] @ args \<and> [tok] \<noteq> [] \<and> args \<noteq> []" by simp
    then show ?thesis by blast
  next
    case False
    then have "shell_argument rest = Some args" using Cons.prems by (auto split: if_splits)
    then obtain u where "rest = u @ args" "args \<noteq> []" using Cons.IH by blast
    then have "tok # rest = (tok # u) @ args \<and> tok # u \<noteq> [] \<and> args \<noteq> []" by simp
    then show ?thesis by blast
  qed
qed simp

text \<open>The command a shell is given is shorter than the command that starts the shell.\<close>

lemma shell_argument_shorter:
  assumes "bash_program lower c = (p, rest)" "p \<noteq> ''''" "shell_argument rest = Some args"
  shows "length (trim_set cs (join '' '' args)) < length c"
proof -
  obtain u v where f: "str_fields c = u @ v @ args" "u \<noteq> []" "args \<noteq> []"
    using bash_program_suffix [of lower "str_fields c" p rest] shell_argument_suffix [OF assms(3)] assms(1,2)
    by (auto simp: bash_program_def)
  let ?n = "\<lambda>xs. sum_list (map (\<lambda>f. Suc (length f)) xs)"
  have "0 < ?n u" using f(2) by (cases u) auto
  then have "?n args < ?n (str_fields c)" by (simp add: f(1))
  then have "Suc (length (join '' '' args)) < Suc (length c)"
    using str_fields_length [of c] join_length [OF f(3), of "CHR '' ''"] by linarith
  then show ?thesis using trim_set_length [of cs "join '' '' args"] by simp
qed

function is_read_command :: "(nat \<Rightarrow> nat) \<Rightarrow> string \<Rightarrow> bool" where
  "is_read_command lower command =
     (if command = '''' then False
      else
        (let c = strip_cd command in
         if match_string write_re c then False
         else
           (case bash_program lower c of
              (prog, rest) \<Rightarrow>
                if prog = '''' then False
                else if prog \<in> {''sh'', ''bash'', ''zsh'', ''dash''} \<and> rest \<noteq> [] then
                  (case shell_argument rest of
                     Some args \<Rightarrow> is_read_command lower (trim_set [CHR 0x60, CHR 0x27, CHR 0x22] (join '' '' args))
                   | None \<Rightarrow> False)
                else (prog \<in> set read_verbs \<or> prog = ''sed'' \<and> match_string sed_range_re c)
                     \<and> \<not> match_string lockfile_re c)))"
  by pat_completeness auto
termination
proof (relation "measure (length \<circ> snd)")
  fix lower :: "nat \<Rightarrow> nat" and command c prog rest args
  assume h: "c = strip_cd command" "(prog, rest) = bash_program lower c" "prog \<noteq> ''''"
    "shell_argument rest = Some args"
  have "length (trim_set [CHR 0x60, CHR 0x27, CHR 0x22] (join '' '' args)) < length c"
    using shell_argument_shorter [of lower c prog rest args] h(2) [symmetric] h(3,4) by blast
  then show "((lower, trim_set [CHR 0x60, CHR 0x27, CHR 0x22] (join '' '' args)), lower, command) \<in> measure (length \<circ> snd)"
    using strip_cd_length [of command] h(1) by simp
qed simp

declare is_read_command.simps [simp del]

section \<open>Protected reads\<close>

definition releasable_read_types :: "content_type list" where
  "releasable_read_types = [JsonArray, SearchResults, BuildOutput, GitDiff, Html]"

text \<open>\<open>filepath.Ext\<close>: from the last dot of the last path element.\<close>

definition file_ext :: "string \<Rightarrow> string" where
  "file_ext path =
     (let base = takeWhile (\<lambda>c. c \<noteq> CHR ''/'') (rev path); stem = takeWhile (\<lambda>c. c \<noteq> CHR ''.'') base
      in if length stem < length base then CHR ''.'' # rev stem else '''')"

definition code_extensions :: "string list" where
  "code_extensions = [''.go'', ''.py'', ''.ts'', ''.tsx'', ''.js'', ''.jsx'', ''.rs'', ''.java'', ''.rb'', ''.c'', ''.h'',
     ''.cpp'', ''.cc'', ''.hpp'']"

definition code_extension_from_path :: "(nat \<Rightarrow> nat) \<Rightarrow> string \<Rightarrow> string" where
  "code_extension_from_path lower path =
     (let ext = to_lower lower (file_ext path) in if ext \<in> set code_extensions then ext else '''')"

definition read_output_is_protected :: "(nat \<Rightarrow> nat) \<Rightarrow> string \<Rightarrow> string \<Rightarrow> string \<Rightarrow> content_type \<Rightarrow> bool" where
  "read_output_is_protected lower tool command path ct \<longleftrightarrow>
     (let is_read =
        (if tool \<in> {''Read'', ''read_file'', ''view'', ''cat'', ''mcp__filesystem__read_text_file'', ''mcp__fs__read_text_file''}
         then True
         else if tool \<in> {''Bash'', ''bash'', ''shell'', ''run_command''} then is_read_command lower command else False)
      in is_read \<and> (code_extension_from_path lower path \<noteq> '''' \<or> ct \<notin> set releasable_read_types))"

end
