(* ===== verification/Adaptive.thy ===== *)
theory Adaptive
  imports Prelude GoFloat
begin

text \<open>
  \<open>internal/adaptive/adaptive.go\<close>: how many leading items to keep, from the share of distinct items.
\<close>

definition compute_optimal_k :: "string list \<Rightarrow> rat \<Rightarrow> int \<Rightarrow> int \<Rightarrow> int" where
  "compute_optimal_k items bias min_k max_k =
     (let n = int (length items);
          eff_max = (if max_k \<le> 0 then n else max_k) in
      if n \<le> 8 then n
      else
        (let unique = int (length (remdups items));
             dv = f64 (of_int unique / of_int n) in
         if unique \<le> 3 then min (max min_k unique) eff_max
         else
           (let keep_fraction = f64 (f64 (3/10) + f64 (f64 (7/10) * dv));
                knee = max min_k (trunc (f64 (of_int n * keep_fraction)));
                k = (if 0 < bias then max min_k (trunc (f64 (of_int knee * bias))) else knee)
            in max min_k (min k eff_max))))"

lemma compute_optimal_k_small: "length items \<le> 8 \<Longrightarrow> compute_optimal_k items bias min_k max_k = int (length items)"
  by (simp add: compute_optimal_k_def Let_def)

lemma compute_optimal_k_upper:
  "8 < length items \<Longrightarrow> 0 < max_k \<Longrightarrow> compute_optimal_k items bias min_k max_k \<le> max min_k max_k"
  by (auto simp: compute_optimal_k_def Let_def)

lemma compute_optimal_k_lower:
  "8 < length items \<Longrightarrow> 0 < max_k \<Longrightarrow> min_k \<le> max_k \<Longrightarrow> min_k \<le> compute_optimal_k items bias min_k max_k"
  by (auto simp: compute_optimal_k_def Let_def)

text \<open>Never more than the cap, or than the handful of items that are always kept.\<close>

lemma compute_optimal_k_le:
  "min_k \<le> max_k \<Longrightarrow> 8 \<le> max_k \<Longrightarrow> compute_optimal_k items bias min_k max_k \<le> max_k"
  using compute_optimal_k_small [of items bias min_k max_k] compute_optimal_k_upper [of items max_k bias min_k]
  by (cases "length items \<le> 8") auto

end
