(* ===== verification/LogCompressor.thy ===== *)
theory LogCompressor
  imports Adaptive GoRegexp GoUnicode CcrMarker Transform
begin

text \<open>
  \<open>internal/compress/log_compressor.go\<close> and \<open>lines.go\<close>: a log is split into lines, each line is
  classified and scored, the important lines with their context are selected under a budget, and
  the original is stored when the saving is large enough.
\<close>

section \<open>Lines\<close>

text \<open>\<open>splitLinesRust\<close>: only a line that a newline ended loses its carriage return.\<close>

definition split_lines_rust :: "string \<Rightarrow> string list" where
  "split_lines_rust s =
     (if s = '''' then []
      else
        (let parts = split_on NL s in
         if has_suffix s [NL] then map (\<lambda>p. trim_suffix p [CR]) (butlast parts)
         else map (\<lambda>p. trim_suffix p [CR]) (butlast parts) @ [last parts]))"

section \<open>Configuration\<close>

datatype log_level = LevelUnknown | LevelError | LevelFail | LevelWarn | LevelInfo | LevelDebug | LevelTrace

datatype log_format = FormatGeneric | FormatPytest | FormatNpm | FormatCargo | FormatJest | FormatMake

record log_result =
  lr_compressed :: string
  lr_original_line_count :: nat
  lr_compressed_line_count :: nat
  lr_ratio :: rat
  lr_cache_key :: string

record log_config =
  lc_max_errors :: nat
  lc_error_context_lines :: nat
  lc_keep_first_error :: bool
  lc_keep_last_error :: bool
  lc_max_stack_traces :: nat
  lc_stack_trace_max_lines :: nat
  lc_max_warnings :: nat
  lc_dedupe_warnings :: bool
  lc_keep_summary_lines :: bool
  lc_max_total_lines :: nat
  lc_enable_ccr :: bool
  lc_min_lines_for_ccr :: nat
  lc_min_compression_ratio_for_ccr :: rat

definition default_log_config :: log_config where
  "default_log_config = \<lparr>lc_max_errors = 10, lc_error_context_lines = 3, lc_keep_first_error = True,
     lc_keep_last_error = True, lc_max_stack_traces = 3, lc_stack_trace_max_lines = 20, lc_max_warnings = 5,
     lc_dedupe_warnings = True, lc_keep_summary_lines = True, lc_max_total_lines = 100, lc_enable_ccr = True,
     lc_min_lines_for_ccr = 50, lc_min_compression_ratio_for_ccr = 1/2\<rparr>"

record log_line =
  ll_content :: string
  ll_level :: log_level
  ll_is_stack_trace :: bool
  ll_is_summary :: bool
  ll_score :: rat

section \<open>Format\<close>

definition format_markers :: "(log_format \<times> string list) list" where
  "format_markers =
     [(FormatPytest, [''=== FAILURES'', ''=== ERRORS'', ''=== test session'', ''=== short test summary'', ''PASSED ['',
         ''FAILED ['', ''ERROR ['', ''SKIPPED ['', ''collected '']),
      (FormatNpm, [''npm ERR!'', ''npm WARN'', ''npm info'', ''npm http'']),
      (FormatCargo, [''Compiling '', ''Finished '', ''Running '', ''warning: '', ''error[E'']),
      (FormatJest, [''PASS '', ''FAIL '', ''Test Suites:'']),
      (FormatMake, [''make['', ''make:'', ''gcc '', ''g++ '', ''clang ''])]"

definition marker_count :: "string list \<Rightarrow> string list \<Rightarrow> nat" where
  "marker_count sample markers = sum_list (map (\<lambda>line. length (filter (contains line) markers)) sample)"

definition detect_format :: "string list \<Rightarrow> log_format" where
  "detect_format ls =
     (let sample = take 100 ls in
      fst (fold (\<lambda>(f, markers) (best, best_count).
             let c = marker_count sample markers in if best_count < c then (f, c) else (best, best_count))
           format_markers (FormatGeneric, 0)))"

section \<open>Levels\<close>

definition error_level_keywords :: "string list" where
  "error_level_keywords = [''ERROR'', ''error'', ''Error'', ''FATAL'', ''fatal'', ''Fatal'', ''CRITICAL'', ''critical'']"
definition fail_level_keywords :: "string list" where
  "fail_level_keywords = [''FAIL'', ''FAILED'', ''fail'', ''failed'', ''Fail'', ''Failed'']"
definition warn_level_keywords :: "string list" where
  "warn_level_keywords = [''WARN'', ''WARNING'', ''warn'', ''warning'', ''Warn'', ''Warning'']"
definition info_level_keywords :: "string list" where "info_level_keywords = [''INFO'', ''info'', ''Info'']"
definition debug_level_keywords :: "string list" where "debug_level_keywords = [''DEBUG'', ''debug'', ''Debug'']"
definition trace_level_keywords :: "string list" where "trace_level_keywords = [''TRACE'', ''trace'', ''Trace'']"

text \<open>\<open>containsWord\<close>: \<open>prev\<close> is the byte before the text that is left, if any.\<close>

fun contains_word_from :: "char option \<Rightarrow> string \<Rightarrow> string \<Rightarrow> bool" where
  "contains_word_from prev [] kw = False"
| "contains_word_from prev (c # s) kw =
     (has_prefix (c # s) kw
        \<and> (case prev of None \<Rightarrow> True | Some p \<Rightarrow> \<not> word_byte p)
        \<and> (case drop (length kw) (c # s) of [] \<Rightarrow> True | d # _ \<Rightarrow> \<not> word_byte d)
      \<or> contains_word_from (Some c) s kw)"

definition contains_word :: "string \<Rightarrow> string \<Rightarrow> bool" where
  "contains_word line kw = contains_word_from None line kw"

definition any_word :: "string \<Rightarrow> string list \<Rightarrow> bool" where
  "any_word line kws = list_ex (contains_word line) kws"

definition classify_level :: "string \<Rightarrow> log_level" where
  "classify_level line =
     (if any_word line error_level_keywords then LevelError
      else if any_word line fail_level_keywords then LevelFail
      else if any_word line warn_level_keywords then LevelWarn
      else if any_word line info_level_keywords then LevelInfo
      else if any_word line debug_level_keywords then LevelDebug
      else if any_word line trace_level_keywords then LevelTrace
      else LevelUnknown)"

section \<open>Stack frames and summaries\<close>

definition go_frame_re :: rx where
  "go_frame_re = seqs [BeginText, plus1 rx_digit, lit '':0x'', plus1 rx_hex]"
definition rust_loc_re :: rx where
  "rust_loc_re = seqs [lit '':'', plus1 rx_digit, lit '':'', plus1 rx_digit]"
definition js_frame_suffix_re :: rx where
  "js_frame_suffix_re = seqs [lit '':'', plus1 rx_digit, lit '':'', plus1 rx_digit]"

definition java_package_ok :: "string \<Rightarrow> bool" where
  "java_package_ok s \<longleftrightarrow> s \<noteq> ''''
     \<and> list_all (\<lambda>b. is_upper b \<or> is_lower b \<or> is_digit b \<or> b = CHR ''.'' \<or> b = CHR ''_'' \<or> b = CHR ''$'') s"

definition is_stack_trace_line :: "string \<Rightarrow> bool" where
  "is_stack_trace_line line =
     (let trimmed = trim_space line in
      if contains trimmed ''Traceback (most recent call last)'' then True
      else if contains line (''File '' @ [CHR 0x22]) \<and> contains line (CHR 0x22 # '', line '') then True
      else if has_prefix trimmed ''at '' \<and> contains trimmed ''('' \<and> contains trimmed '')''
              \<and> match_string js_frame_suffix_re trimmed then True
      else if has_prefix trimmed ''at '' \<and> contains trimmed ''(''
              \<and> (case strings_cut (drop 3 trimmed) ''('' of Some (before, _) \<Rightarrow> java_package_ok before | None \<Rightarrow> False) then True
      else if has_prefix trimmed ''--> '' \<and> match_string rust_loc_re trimmed then True
      else match_string go_frame_re trimmed)"

definition summary_count_re :: rx where
  "summary_count_re = seqs [BeginText, plus1 rx_digit, lit '' '',
     alts (map lit [''passed'', ''failed'', ''skipped'', ''error'', ''warning''])]"

definition summary_test_re :: rx where
  "summary_test_re = seqs [BeginText, alts (map lit [''Test'', ''Tests'', ''Suite'', ''Suites'']), opt (lit '':''),
     star rx_space, rx_digit]"

definition is_summary_line :: "string \<Rightarrow> bool" where
  "is_summary_line line =
     (let trimmed = trim_space line in
      if trimmed = '''' then False
      else if has_prefix trimmed ''==='' \<or> has_prefix trimmed ''---'' then True
      else if match_string summary_count_re trimmed then True
      else if match_string summary_test_re trimmed then True
      else if has_prefix trimmed ''TOTAL'' \<or> has_prefix trimmed ''Total'' \<or> has_prefix trimmed ''Summary'' then True
      else (has_prefix trimmed ''Build'' \<or> has_prefix trimmed ''Compile'' \<or> has_prefix trimmed ''Test'')
           \<and> (contains trimmed ''succeeded'' \<or> contains trimmed ''failed'' \<or> contains trimmed ''complete''))"

section \<open>Scores\<close>

fun level_score :: "log_level \<Rightarrow> rat" where
  "level_score LevelError = 1"
| "level_score LevelFail = 1"
| "level_score LevelWarn = 1/2"
| "level_score LevelInfo = f32 (1/10)"
| "level_score LevelUnknown = f32 (1/10)"
| "level_score LevelDebug = f32 (5/100)"
| "level_score LevelTrace = f32 (2/100)"

definition score_log_line :: "log_level \<Rightarrow> bool \<Rightarrow> bool \<Rightarrow> rat" where
  "score_log_line level is_stack_trace is_summary =
     (let s0 = level_score level;
          s1 = (if is_stack_trace then f32 (s0 + f32 (3/10)) else s0);
          s2 = (if is_summary then f32 (s1 + f32 (4/10)) else s1)
      in if 1 < s2 then 1 else s2)"

definition parse_log_line :: "string \<Rightarrow> log_line" where
  "parse_log_line line =
     (let level = classify_level line; stack = is_stack_trace_line line; summary = is_summary_line line
      in \<lparr>ll_content = line, ll_level = level, ll_is_stack_trace = stack, ll_is_summary = summary,
          ll_score = score_log_line level stack summary\<rparr>)"

section \<open>Duplicate warnings\<close>

definition digit_re :: rx where "digit_re = plus1 rx_digit"
definition hex_re :: rx where "hex_re = seqs [lit ''0x'', plus1 rx_hex]"
definition path_re :: rx where
  "path_re = seqs [lit ''/'', plus1 (Cls False [(48, 57), (65, 90), (95, 95), (97, 122), (47, 47)]), lit ''/'']"

definition normalize_for_dedupe :: "string \<Rightarrow> string" where
  "normalize_for_dedupe content =
     (let head = takeWhile (\<lambda>c. c \<noteq> CHR '':'' \<and> c \<noteq> CHR ''='') content;
          (prefix, suffix) =
            (if length head < length content then (take (length head + 1) content, drop (length head + 1) content)
             else ('''', content))
      in prefix @ replace_all path_re (replace_all hex_re (replace_all digit_re suffix ''N'') ''ADDR'') ''/PATH/'')"

section \<open>Selection\<close>

text \<open>\<open>add\<close>: only indices inside the log are kept. A kept set is the list of its members.\<close>

definition add_index :: "nat \<Rightarrow> int \<Rightarrow> nat list \<Rightarrow> nat list" where
  "add_index n i keep = (if 0 \<le> i \<and> i < int n then List.insert (nat i) keep else keep)"

definition add_with_context :: "log_config \<Rightarrow> nat \<Rightarrow> nat \<Rightarrow> nat list \<Rightarrow> nat list" where
  "add_with_context cfg n i keep =
     fold (\<lambda>d keep. add_index n (int i + int d) (add_index n (int i - int d) keep))
       [1..<lc_error_context_lines cfg + 1] (add_index n (int i) keep)"

definition level_indices :: "log_level \<Rightarrow> log_line list \<Rightarrow> nat list" where
  "level_indices level parsed = filter (\<lambda>i. ll_level (parsed ! i) = level) [0..<length parsed]"

definition summary_indices :: "log_line list \<Rightarrow> nat list" where
  "summary_indices parsed = filter (\<lambda>i. ll_is_summary (parsed ! i)) [0..<length parsed]"

text \<open>A stable sort by descending score.\<close>

definition by_score :: "log_line list \<Rightarrow> nat list \<Rightarrow> nat list" where
  "by_score parsed idxs = sort_key (\<lambda>i. - ll_score (parsed ! i)) idxs"

fun fill_category :: "nat \<Rightarrow> nat list \<Rightarrow> nat list \<Rightarrow> nat list" where
  "fill_category max_n [] chosen = chosen"
| "fill_category max_n (i # rest) chosen =
     (if max_n \<le> length chosen then chosen else fill_category max_n rest (List.insert i chosen))"

definition pick_category :: "log_line list \<Rightarrow> nat list \<Rightarrow> nat \<Rightarrow> bool \<Rightarrow> bool \<Rightarrow> nat list" where
  "pick_category parsed idxs max_n keep_first keep_last =
     (if idxs = [] \<or> max_n = 0 then []
      else
        (let c1 = (if keep_first then [hd idxs] else []);
             c2 = (if keep_last then List.insert (last idxs) c1 else c1)
         in fill_category max_n (by_score parsed idxs) c2))"

definition select_category :: "log_config \<Rightarrow> log_line list \<Rightarrow> nat list \<Rightarrow> nat list \<Rightarrow> nat list" where
  "select_category cfg parsed idxs keep =
     fold (add_with_context cfg (length parsed))
       (pick_category parsed idxs (lc_max_errors cfg) (lc_keep_first_error cfg) (lc_keep_last_error cfg)) keep"

text \<open>The warnings that are kept: \<open>seen\<close> are the normalized keys of the ones before.\<close>

fun pick_warnings :: "log_config \<Rightarrow> log_line list \<Rightarrow> nat list \<Rightarrow> string list \<Rightarrow> nat \<Rightarrow> nat list" where
  "pick_warnings cfg parsed [] seen kept = []"
| "pick_warnings cfg parsed (i # rest) seen kept =
     (if lc_max_warnings cfg \<le> kept then []
      else if lc_dedupe_warnings cfg then
        (let k = normalize_for_dedupe (ll_content (parsed ! i)) in
         if k \<in> set seen then pick_warnings cfg parsed rest seen kept
         else i # pick_warnings cfg parsed rest (k # seen) (kept + 1))
      else i # pick_warnings cfg parsed rest seen (kept + 1))"

function select_stack_traces :: "log_config \<Rightarrow> log_line list \<Rightarrow> nat \<Rightarrow> nat \<Rightarrow> nat list" where
  "select_stack_traces cfg parsed i blocks =
     (if length parsed \<le> i then []
      else if \<not> ll_is_stack_trace (parsed ! i) then select_stack_traces cfg parsed (i + 1) blocks
      else if lc_max_stack_traces cfg \<le> blocks then []
      else
        (let end = i + length (takeWhile ll_is_stack_trace (drop i parsed));
             limit = (if lc_stack_trace_max_lines cfg < end - i then i + lc_stack_trace_max_lines cfg else end)
         in [i..<limit] @ select_stack_traces cfg parsed end (blocks + 1)))"
  by pat_completeness auto
termination
proof (relation "measure (\<lambda>(cfg, parsed, i, blocks). length parsed - i)")
  fix cfg :: log_config and parsed :: "log_line list" and i blocks e l :: nat
  assume h: "\<not> length parsed \<le> i" "\<not> \<not> ll_is_stack_trace (parsed ! i)"
    "e = i + length (takeWhile ll_is_stack_trace (drop i parsed))"
  then have "drop i parsed = parsed ! i # drop (Suc i) parsed" by (simp add: Cons_nth_drop_Suc)
  then have "0 < length (takeWhile ll_is_stack_trace (drop i parsed))" using h(2) by simp
  then show "((cfg, parsed, e, blocks + 1), cfg, parsed, i, blocks) \<in> measure (\<lambda>(cfg, parsed, i, blocks). length parsed - i)"
    using h(1,3) by (simp add: diff_less_mono2)
qed auto

declare select_stack_traces.simps [simp del]

text \<open>What the categories keep, before the cap.\<close>

definition kept_indices :: "log_config \<Rightarrow> log_line list \<Rightarrow> nat list" where
  "kept_indices cfg parsed =
     (let n = length parsed;
          k1 = select_category cfg parsed (level_indices LevelError parsed) [];
          k2 = select_category cfg parsed (level_indices LevelFail parsed) k1;
          k3 = fold (\<lambda>i. add_index n (int i)) (pick_warnings cfg parsed (level_indices LevelWarn parsed) [] 0) k2;
          k4 = fold (\<lambda>i. add_index n (int i)) (select_stack_traces cfg parsed 0 0) k3
      in if lc_keep_summary_lines cfg then fold (\<lambda>i. add_index n (int i)) (summary_indices parsed) k4 else k4)"

definition select_indices :: "log_config \<Rightarrow> log_line list \<Rightarrow> int \<Rightarrow> nat list" where
  "select_indices cfg parsed cap =
     (let keep = kept_indices cfg parsed; selected = filter (\<lambda>i. i \<in> set keep) [0..<length parsed]
      in if 0 < cap \<and> cap < int (length selected) then sort (take (nat cap) (by_score parsed selected)) else selected)"

section \<open>Output\<close>

definition omitted_count :: "log_line list \<Rightarrow> nat list \<Rightarrow> (log_level \<Rightarrow> bool) \<Rightarrow> nat" where
  "omitted_count parsed selected p =
     length (filter (\<lambda>i. i \<notin> set selected \<and> p (ll_level (parsed ! i))) [0..<length parsed])"

definition count_part :: "nat \<Rightarrow> string \<Rightarrow> string list" where
  "count_part n label = (if 0 < n then [utoa n @ '' '' @ label] else [])"

definition log_format_output :: "log_line list \<Rightarrow> nat list \<Rightarrow> string" where
  "log_format_output parsed selected =
     (let out = join [NL] (map (\<lambda>i. ll_content (parsed ! i)) selected);
          omitted = int (length parsed) - int (length selected);
          count = omitted_count parsed selected;
          parts = count_part (count (\<lambda>l. l = LevelError)) ''ERROR'' @ count_part (count (\<lambda>l. l = LevelFail)) ''FAIL''
                  @ count_part (count (\<lambda>l. l = LevelWarn)) ''WARN''
                  @ count_part (count (\<lambda>l. l = LevelInfo \<or> l = LevelUnknown)) ''INFO'';
          footer = ''['' @ itoa omitted @ '' lines omitted: '' @ join '', '' parts @ '']''
      in if 0 < omitted then (if out = '''' then footer else out @ [NL] @ footer) else out)"

section \<open>The engine\<close>

text \<open>The note that names the key of the stored original.\<close>

definition log_note :: "nat \<Rightarrow> nat \<Rightarrow> string \<Rightarrow> string" where
  "log_note original compressed key =
     [NL] @ ''['' @ utoa original @ '' lines compressed to '' @ utoa compressed @ ''. Retrieve more: hash='' @ key @ '']''"

definition log_budget :: "log_config \<Rightarrow> string list \<Rightarrow> int" where
  "log_budget cfg ls =
     min (compute_optimal_k ls 0 5 (int (lc_max_total_lines cfg))) (int (lc_max_total_lines cfg))"

definition log_compress ::
  "(string \<Rightarrow> string) \<Rightarrow> log_config \<Rightarrow> 's store_ops \<Rightarrow> string \<Rightarrow> 's \<Rightarrow> log_result \<times> 's" where
  "log_compress md5 cfg ops content st =
     (let ls = split_lines_rust content; original = length ls in
      if original = 0 then
        (\<lparr>lr_compressed = content, lr_original_line_count = 0, lr_compressed_line_count = 0, lr_ratio = 1,
          lr_cache_key = ''''\<rparr>, st)
      else
        (let parsed = map parse_log_line ls;
             selected = select_indices cfg parsed (log_budget cfg ls);
             out = log_format_output parsed selected;
             ratio = f32 (of_nat (length selected) / of_nat original);
             result = \<lparr>lr_compressed = out, lr_original_line_count = original,
               lr_compressed_line_count = length selected, lr_ratio = ratio, lr_cache_key = ''''\<rparr>
         in if lc_enable_ccr cfg \<and> lc_min_lines_for_ccr cfg \<le> original \<and> ratio < lc_min_compression_ratio_for_ccr cfg
            then (let key = compute_key_md5 md5 content
                  in (result\<lparr>lr_compressed := out @ log_note original (length selected) key, lr_cache_key := key\<rparr>,
                      st_put ops key content st))
            else (result, st)))"

section \<open>Lemmas\<close>

lemma set_add_index: "set (add_index n i keep) = set keep \<union> (if 0 \<le> i \<and> i < int n then {nat i} else {})"
  by (auto simp: add_index_def)

lemma set_fold_add:
  "set (fold (\<lambda>i. add_index n (int i)) xs keep) = set keep \<union> {i \<in> set xs. i < n}"
  by (induction xs arbitrary: keep) (auto simp: set_add_index)

lemma set_fold_window:
  "set (fold (\<lambda>d keep. add_index n (int i + int d) (add_index n (int i - int d) keep)) ds keep)
     = set keep \<union> {j. j < n \<and> (\<exists>d\<in>set ds. j = i + d \<or> i = j + d)}"
proof (induction ds arbitrary: keep)
  case (Cons d ds)
  have "set (add_index n (int i + int d) (add_index n (int i - int d) keep))
      = set keep \<union> {j. j < n \<and> (j = i + d \<or> i = j + d)}"
    by (auto simp: set_add_index)
  then show ?case using Cons by auto
qed simp

text \<open>A line and its window: exactly the lines at most the configured distance away.\<close>

lemma set_add_with_context:
  "i < n \<Longrightarrow> set (add_with_context cfg n i keep)
     = set keep \<union> {j. j < n \<and> i \<le> j + lc_error_context_lines cfg \<and> j \<le> i + lc_error_context_lines cfg}"
proof -
  assume i: "i < n"
  have "(j = i \<or> (\<exists>d\<in>{1..<c + 1}. j = i + d \<or> i = j + d)) \<longleftrightarrow> i \<le> j + c \<and> j \<le> i + c" for j c :: nat
  proof
    assume h: "i \<le> j + c \<and> j \<le> i + c"
    show "j = i \<or> (\<exists>d\<in>{1..<c + 1}. j = i + d \<or> i = j + d)"
    proof (cases "j = i")
      case False
      then have "j = i + (j - i) \<and> j - i \<in> {1..<c + 1} \<or> i = j + (i - j) \<and> i - j \<in> {1..<c + 1}" using h by auto
      then show ?thesis by blast
    qed simp
  qed auto
  then show ?thesis using i unfolding add_with_context_def set_fold_window set_add_index set_upt by auto
qed

lemma set_select_category:
  assumes "\<forall>i\<in>set idxs. i < length parsed"
  shows "set (select_category cfg parsed idxs keep) = set keep
    \<union> {j. j < length parsed \<and> (\<exists>i\<in>set (pick_category parsed idxs (lc_max_errors cfg) (lc_keep_first_error cfg)
            (lc_keep_last_error cfg)). i \<le> j + lc_error_context_lines cfg \<and> j \<le> i + lc_error_context_lines cfg)}"
proof -
  have fill: "set (fill_category m xs chosen) \<subseteq> set chosen \<union> set xs" for m xs chosen
    by (induction m xs chosen rule: fill_category.induct) auto
  have sub: "set (pick_category parsed idxs m f l) \<subseteq> set idxs" for m f l
    using fill by (fastforce simp: pick_category_def Let_def by_score_def dest: hd_in_set last_in_set split: if_splits)
  have "set (fold (add_with_context cfg n) ps keep) = set keep
      \<union> {j. j < n \<and> (\<exists>i\<in>set ps. i \<le> j + lc_error_context_lines cfg \<and> j \<le> i + lc_error_context_lines cfg)}"
    if "\<forall>i\<in>set ps. i < n" for ps n keep
    using that by (induction ps arbitrary: keep) (auto simp: set_add_with_context)
  then show ?thesis using sub assms unfolding select_category_def by blast
qed

lemma fill_category_mono: "set chosen \<subseteq> set (fill_category m xs chosen)"
  by (induction m xs chosen rule: fill_category.induct) auto

lemma pick_category_ends:
  assumes "idxs \<noteq> []" "0 < m"
  shows "f \<Longrightarrow> hd idxs \<in> set (pick_category parsed idxs m f l)"
    and "l \<Longrightarrow> last idxs \<in> set (pick_category parsed idxs m f l)"
  using assms fill_category_mono by (fastforce simp: pick_category_def Let_def)+

lemma level_indices_bound: "i \<in> set (level_indices level parsed) \<Longrightarrow> i < length parsed"
  by (simp add: level_indices_def)

lemma kept_indices_mono:
  "set (select_category cfg parsed (level_indices LevelError parsed) []) \<subseteq> set (kept_indices cfg parsed)"
  "set (select_category cfg parsed (level_indices LevelFail parsed) []) \<subseteq> set (kept_indices cfg parsed)"
  using set_select_category [of "level_indices LevelFail parsed" parsed cfg] level_indices_bound
  by (auto simp: kept_indices_def Let_def set_fold_add)

lemma kept_indices_window:
  assumes "level \<in> {LevelError, LevelFail}" and "i \<in> {hd (level_indices level parsed), last (level_indices level parsed)}"
    and "level_indices level parsed \<noteq> []" "0 < lc_max_errors cfg" "lc_keep_first_error cfg" "lc_keep_last_error cfg"
    and "j < length parsed" "i \<le> j + lc_error_context_lines cfg" "j \<le> i + lc_error_context_lines cfg"
  shows "j \<in> set (kept_indices cfg parsed)"
proof -
  have "i \<in> set (pick_category parsed (level_indices level parsed) (lc_max_errors cfg) (lc_keep_first_error cfg)
      (lc_keep_last_error cfg))"
    using assms(2) pick_category_ends [OF assms(3,4)] assms(5,6) by auto
  then have "j \<in> set (select_category cfg parsed (level_indices level parsed) [])"
    using set_select_category [of "level_indices level parsed" parsed cfg "[]"] level_indices_bound assms(7-9) by blast
  then show ?thesis using kept_indices_mono assms(1) by blast
qed

lemma kept_summary: "lc_keep_summary_lines cfg \<Longrightarrow> i < length parsed \<Longrightarrow> ll_is_summary (parsed ! i) \<Longrightarrow> i \<in> set (kept_indices cfg parsed)"
  by (auto simp: kept_indices_def Let_def set_fold_add summary_indices_def)

definition candidates :: "log_config \<Rightarrow> log_line list \<Rightarrow> nat list" where
  "candidates cfg parsed = filter (\<lambda>i. i \<in> set (kept_indices cfg parsed)) [0..<length parsed]"

lemma select_indices_cases:
  "select_indices cfg parsed cap =
     (if 0 < cap \<and> cap < int (length (candidates cfg parsed))
      then sort (take (nat cap) (by_score parsed (candidates cfg parsed))) else candidates cfg parsed)"
  by (simp add: select_indices_def candidates_def Let_def)

lemma candidates_sorted: "sorted_wrt (<) (candidates cfg parsed)"
  by (simp add: candidates_def sorted_wrt_filter)

lemma select_indices_sound:
  "sorted_wrt (<) (select_indices cfg parsed cap)"
  "set (select_indices cfg parsed cap) \<subseteq> set (candidates cfg parsed)"
  "0 < cap \<Longrightarrow> int (length (select_indices cfg parsed cap)) \<le> cap"
proof -
  have d: "distinct (candidates cfg parsed)" by (simp add: candidates_def)
  then have "distinct (take k (by_score parsed (candidates cfg parsed)))" for k
    by (simp add: by_score_def)
  then have "sorted_wrt (<) (sort (take k (by_score parsed (candidates cfg parsed))))" for k
    by (simp add: strict_sorted_iff)
  then show "sorted_wrt (<) (select_indices cfg parsed cap)"
    by (simp add: select_indices_cases candidates_sorted)
  show "set (select_indices cfg parsed cap) \<subseteq> set (candidates cfg parsed)"
    using set_take_subset [of "nat cap" "by_score parsed (candidates cfg parsed)"]
    by (auto simp: select_indices_cases by_score_def)
  show "0 < cap \<Longrightarrow> int (length (select_indices cfg parsed cap)) \<le> cap"
    by (auto simp: select_indices_cases by_score_def)
qed

text \<open>The cap drops the lines of lowest score.\<close>

lemma select_indices_best:
  assumes "i \<in> set (candidates cfg parsed)" "i \<notin> set (select_indices cfg parsed cap)" "j \<in> set (select_indices cfg parsed cap)"
  shows "ll_score (parsed ! i) \<le> ll_score (parsed ! j)"
proof -
  let ?s = "by_score parsed (candidates cfg parsed)"
  have c: "0 < cap \<and> cap < int (length (candidates cfg parsed))" using assms(1,2) by (auto simp: select_indices_cases split: if_splits)
  then have j: "j \<in> set (take (nat cap) ?s)" and i: "i \<notin> set (take (nat cap) ?s)" "i \<in> set ?s"
    using assms by (auto simp: select_indices_cases by_score_def)
  have "i \<in> set (drop (nat cap) ?s)" using i by (metis UnE append_take_drop_id set_append)
  moreover have "sorted_wrt (\<lambda>a b. - ll_score (parsed ! a) \<le> - ll_score (parsed ! b)) (take (nat cap) ?s @ drop (nat cap) ?s)"
    using sorted_sort_key [of "\<lambda>i. - ll_score (parsed ! i)" "candidates cfg parsed"]
    by (simp add: by_score_def sorted_map)
  ultimately have "- ll_score (parsed ! j) \<le> - ll_score (parsed ! i)" using j unfolding sorted_wrt_append by blast
  then show ?thesis by simp
qed

lemma log_compress_effect:
  assumes "log_compress md5 cfg ops content st = (r, st')"
  shows "lr_cache_key r = '''' \<and> st' = st
    \<or> lr_cache_key r = compute_key_md5 md5 content \<and> st' = st_put ops (lr_cache_key r) content st
      \<and> (\<exists>out m n. lr_compressed r = out @ log_note m n (lr_cache_key r))"
proof -
  have "lr_cache_key r = '''' \<and> st' = st
    \<or> lr_cache_key r = compute_key_md5 md5 content \<and> st' = st_put ops (lr_cache_key r) content st
      \<and> lr_compressed r = (let parsed = map parse_log_line (split_lines_rust content) in
            log_format_output parsed (select_indices cfg parsed (log_budget cfg (split_lines_rust content))))
          @ log_note (length (split_lines_rust content)) (lr_compressed_line_count r) (lr_cache_key r)"
    using assms by (auto simp: log_compress_def Let_def split: if_splits)
  then show ?thesis by blast
qed

section \<open>Properties\<close>

text \<open>What a log keeps: the selected lines are original lines in their order, at most \<open>cap\<close> of
  them; when the cap drops a line, no kept line scores less than it; and when the cap drops none,
  every summary line is kept, and so is every line within three of the first and of the last
  error, and of the first and of the last failure.\<close>

theorem log_selection_keeps:
  "let sel = select_indices default_log_config parsed cap in
   sorted_wrt (<) sel \<and> set sel \<subseteq> {..<length parsed} \<and> (0 < cap \<longrightarrow> int (length sel) \<le> cap)
   \<and> (\<forall>i\<in>set (candidates default_log_config parsed) - set sel. \<forall>j\<in>set sel. ll_score (parsed ! i) \<le> ll_score (parsed ! j))
   \<and> (int (length (candidates default_log_config parsed)) \<le> cap \<longrightarrow>
        (\<forall>i<length parsed. ll_is_summary (parsed ! i) \<longrightarrow> i \<in> set sel)
        \<and> (\<forall>level\<in>{LevelError, LevelFail}. \<forall>i\<in>{hd (level_indices level parsed), last (level_indices level parsed)}.
             \<forall>j<length parsed. level_indices level parsed \<noteq> [] \<and> i \<le> j + 3 \<and> j \<le> i + 3 \<longrightarrow> j \<in> set sel))"
proof -
  let ?c = default_log_config
  let ?sel = "select_indices ?c parsed cap"
  have bound: "set ?sel \<subseteq> {..<length parsed}"
    using select_indices_sound(2) [of ?c parsed cap] by (auto simp: candidates_def)
  have best: "\<forall>i\<in>set (candidates ?c parsed) - set ?sel. \<forall>j\<in>set ?sel. ll_score (parsed ! i) \<le> ll_score (parsed ! j)"
    using select_indices_best [of _ ?c parsed cap] by simp
  have cap: "0 < cap \<longrightarrow> int (length ?sel) \<le> cap" using select_indices_sound(3) by blast
  have cand: "i \<in> set (candidates ?c parsed) \<longleftrightarrow> i < length parsed \<and> i \<in> set (kept_indices ?c parsed)" for i
    by (auto simp: candidates_def)
  have fits: "(\<forall>i<length parsed. ll_is_summary (parsed ! i) \<longrightarrow> i \<in> set ?sel)
      \<and> (\<forall>level\<in>{LevelError, LevelFail}. \<forall>i\<in>{hd (level_indices level parsed), last (level_indices level parsed)}.
           \<forall>j<length parsed. level_indices level parsed \<noteq> [] \<and> i \<le> j + 3 \<and> j \<le> i + 3 \<longrightarrow> j \<in> set ?sel)"
    if "int (length (candidates ?c parsed)) \<le> cap"
  proof -
    have all: "?sel = candidates ?c parsed" using that by (simp add: select_indices_cases)
    have "i \<in> set ?sel" if "i < length parsed" "ll_is_summary (parsed ! i)" for i
      using that kept_summary [of ?c i parsed] by (simp add: all cand) (simp add: default_log_config_def)
    moreover have "j \<in> set ?sel"
      if "level \<in> {LevelError, LevelFail}" "i \<in> {hd (level_indices level parsed), last (level_indices level parsed)}"
        "j < length parsed" "level_indices level parsed \<noteq> [] \<and> i \<le> j + 3 \<and> j \<le> i + 3" for level i j
      using kept_indices_window [OF that(1,2), of ?c j] that(3,4) by (simp add: all cand) (simp add: default_log_config_def)
    ultimately show ?thesis by blast
  qed
  show ?thesis
    unfolding Let_def using select_indices_sound(1) bound cap best fits by (intro conjI impI) simp_all
qed

definition sample_log :: "log_line list" where
  "sample_log = map (\<lambda>(l, s). \<lparr>ll_content = ''x'', ll_level = l, ll_is_stack_trace = False, ll_is_summary = s, ll_score = level_score l\<rparr>)
     [(LevelInfo, False), (LevelError, False), (LevelInfo, False), (LevelInfo, False), (LevelInfo, False), (LevelInfo, False),
      (LevelInfo, True)]"

theorem log_selection_keeps_witness:
  "select_indices default_log_config sample_log 6 = [0, 1, 2, 3, 4, 6] \<and> 4 \<in> set (select_indices default_log_config sample_log 6)"
proof -
  have c: "candidates default_log_config sample_log = [0, 1, 2, 3, 4, 6]" by code_simp
  have l: "level_indices LevelError sample_log = [1]" "length sample_log = 7" by code_simp+
  have "4 \<in> set (select_indices default_log_config sample_log 6)"
    using log_selection_keeps [of sample_log 6] l by (simp add: Let_def c)
  then show ?thesis using c by (simp add: select_indices_cases)
qed

end
