(* ===== verification/Signals.thy ===== *)
theory Signals
  imports GoUnicode GoFloat
begin

text \<open>
  \<open>internal/signals\<close>: the importance of a line (\<open>signals.go\<close>), the keyword detector
  (\<open>keyword_detector.go\<close>) and the combinator over ordered detectors (\<open>tiered.go\<close>).
\<close>

section \<open>Signals\<close>

datatype importance_category = CatError | CatWarning | CatImportance | CatSecurity | CatMarkdown

datatype importance_context = CtxText | CtxSearch | CtxDiff | CtxLog

record importance_signal =
  is_category :: "importance_category option"
  is_priority :: rat
  is_confidence :: rat

fun priority_for :: "importance_category \<Rightarrow> rat" where
  "priority_for CatError = f32 (95/100)"
| "priority_for CatSecurity = f32 (85/100)"
| "priority_for CatWarning = f32 (75/100)"
| "priority_for CatImportance = f32 (6/10)"
| "priority_for CatMarkdown = f32 (45/100)"

definition keyword_confidence :: rat where "keyword_confidence = f32 (7/10)"
definition escalate_threshold :: rat where "escalate_threshold = f32 (7/10)"

definition neutral :: importance_signal where
  "neutral = \<lparr>is_category = None, is_priority = 0, is_confidence = 0\<rparr>"

definition matched :: "importance_category \<Rightarrow> rat \<Rightarrow> rat \<Rightarrow> importance_signal" where
  "matched cat prio conf = \<lparr>is_category = Some cat, is_priority = prio, is_confidence = conf\<rparr>"

definition is_match :: "importance_signal \<Rightarrow> bool" where
  "is_match s \<longleftrightarrow> is_category s \<noteq> None"

type_synonym line_detector = "string \<Rightarrow> importance_context \<Rightarrow> importance_signal"

section \<open>Keywords\<close>

definition error_keywords :: "string list" where
  "error_keywords = [''error'', ''exception'', ''fail'', ''failed'', ''failure'', ''fatal'', ''critical'', ''crash'',
     ''panic'', ''abort'', ''timeout'', ''denied'', ''rejected'']"

definition importance_keywords :: "string list" where
  "importance_keywords = [''important'', ''note'', ''todo'', ''fixme'', ''hack'', ''xxx'', ''bug'', ''fix'']"

definition warning_keywords :: "string list" where "warning_keywords = [''warn'', ''warning'']"

definition security_keywords :: "string list" where
  "security_keywords = [''security'', ''auth'', ''password'', ''secret'']"

definition markdown_prefixes :: "string list" where
  "markdown_prefixes = [''# '', ''## '', ''### '', ''#### '', ''**'', ''> '']"

definition error_indicators :: "string list" where
  "error_indicators = [''error'', ''fail'', ''exception'', ''traceback'', ''fatal'', ''panic'', ''crash'']"

record keyword_detector =
  kd_universal :: "(string \<times> importance_category) list"
  kd_warning :: "(string \<times> importance_category) list"
  kd_security :: "(string \<times> importance_category) list"

definition new_keyword_detector :: keyword_detector where
  "new_keyword_detector =
     \<lparr>kd_universal = map (\<lambda>w. (w, CatError)) error_keywords @ map (\<lambda>w. (w, CatImportance)) importance_keywords,
      kd_warning = map (\<lambda>w. (w, CatWarning)) warning_keywords,
      kd_security = map (\<lambda>w. (w, CatSecurity)) security_keywords\<rparr>"

definition matches_word_at :: "string \<Rightarrow> nat \<Rightarrow> string \<Rightarrow> bool" where
  "matches_word_at line i kw \<longleftrightarrow>
     (let end = i + length kw in
      end \<le> length line \<and> \<not> (0 < i \<and> word_byte (line ! (i - 1))) \<and> \<not> (end < length line \<and> word_byte (line ! end))
      \<and> ascii_lower (take (length kw) (drop i line)) = kw)"

text \<open>\<open>consider\<close>: a category replaces the best one only with a higher priority.\<close>

definition consider_cat :: "importance_category \<Rightarrow> importance_signal \<Rightarrow> importance_signal" where
  "consider_cat cat best =
     (if \<not> is_match best \<or> is_priority best < priority_for cat then matched cat (priority_for cat) keyword_confidence else best)"

definition allowed_entries :: "keyword_detector \<Rightarrow> importance_context \<Rightarrow> (string \<times> importance_category) list" where
  "allowed_entries d ctx =
     kd_universal d @ (if ctx \<noteq> CtxDiff then kd_warning d else []) @ (if ctx = CtxDiff then kd_security d else [])"

text \<open>The categories that match, in the order of the scan.\<close>

definition keyword_hits :: "(string \<times> importance_category) list \<Rightarrow> string \<Rightarrow> importance_category list" where
  "keyword_hits entries line =
     concat (map (\<lambda>i. map snd (filter (\<lambda>(w, c). matches_word_at line i w) entries)) [0..<length line])"

definition keyword_score :: "keyword_detector \<Rightarrow> line_detector" where
  "keyword_score d line ctx =
     (let best = fold consider_cat (keyword_hits (allowed_entries d ctx) line) neutral
      in if ctx = CtxText \<and> list_ex (has_prefix line) markdown_prefixes then consider_cat CatMarkdown best else best)"

definition contains_error_indicator :: "(nat \<Rightarrow> nat) \<Rightarrow> string \<Rightarrow> bool" where
  "contains_error_indicator lower line = list_ex (contains (to_lower lower line)) error_indicators"

section \<open>Tiers\<close>

fun tiered_from :: "line_detector list \<Rightarrow> importance_signal \<Rightarrow> line_detector" where
  "tiered_from [] best line ctx = best"
| "tiered_from (tier # tiers) best line ctx =
     (let sig = tier line ctx in
      if escalate_threshold \<le> is_confidence sig then sig
      else tiered_from tiers (if is_confidence best < is_confidence sig then sig else best) line ctx)"

definition tiered_score :: "line_detector list \<Rightarrow> line_detector" where
  "tiered_score tiers line ctx = tiered_from tiers neutral line ctx"

section \<open>Lemmas\<close>

definition keyword_signal :: "importance_category list \<Rightarrow> importance_signal" where
  "keyword_signal cs = fold consider_cat cs neutral"

lemma fold_consider:
  assumes "best = neutral \<or> (\<exists>c. best = matched c (priority_for c) keyword_confidence)"
  shows "fold consider_cat cs best = neutral \<and> cs = [] \<and> best = neutral
    \<or> (\<exists>c. fold consider_cat cs best = matched c (priority_for c) keyword_confidence
         \<and> (c \<in> set cs \<or> best = matched c (priority_for c) keyword_confidence)
         \<and> is_priority best \<le> priority_for c \<and> (\<forall>c'\<in>set cs. priority_for c' \<le> priority_for c))"
  using assms
proof (induction cs arbitrary: best)
  case Nil
  then show ?case by (auto simp: matched_def)
next
  case (Cons a cs)
  let ?b = "consider_cat a best"
  have b: "?b = matched a (priority_for a) keyword_confidence \<or> ?b = best \<and> best \<noteq> neutral \<and> priority_for a \<le> is_priority best"
    by (auto simp: consider_cat_def is_match_def neutral_def)
  then have pre: "?b = neutral \<or> (\<exists>c. ?b = matched c (priority_for c) keyword_confidence)" using Cons.prems by auto
  have nn: "?b \<noteq> neutral" using b by (auto simp: matched_def neutral_def)
  have up: "is_priority best \<le> is_priority ?b" "priority_for a \<le> is_priority ?b"
  proof -
    have "0 \<le> priority_for a" by (cases a) (simp_all add: flt_nonneg)
    then show "is_priority best \<le> is_priority ?b" "priority_for a \<le> is_priority ?b"
      using Cons.prems by (auto simp: consider_cat_def is_match_def neutral_def matched_def)
  qed
  obtain c where c: "fold consider_cat cs ?b = matched c (priority_for c) keyword_confidence"
      "c \<in> set cs \<or> ?b = matched c (priority_for c) keyword_confidence"
      "is_priority ?b \<le> priority_for c" "\<forall>c'\<in>set cs. priority_for c' \<le> priority_for c"
    using Cons.IH [OF pre] nn by auto
  have "c \<in> set (a # cs) \<or> best = matched c (priority_for c) keyword_confidence"
    using c(2) b by (auto simp: matched_def)
  then show ?case using c up by (intro disjI2 exI [of _ c]) auto
qed

lemma keyword_signal_spec:
  "keyword_signal cs = neutral \<and> cs = []
   \<or> (\<exists>c\<in>set cs. keyword_signal cs = matched c (priority_for c) keyword_confidence
        \<and> (\<forall>c'\<in>set cs. priority_for c' \<le> priority_for c))"
  using fold_consider [of neutral cs] by (auto simp: keyword_signal_def matched_def neutral_def)

end
