(* ===== verification/SearchCompressor.thy ===== *)
theory SearchCompressor
  imports Adaptive Signals CcrMarker Transform "HOL-Library.Multiset" "HOL-Library.Word" "HOL-Library.Product_Lexorder"
begin

text \<open>
  \<open>internal/compress/search_compressor.go\<close>: grep output is parsed into matches per file, the
  matches are scored, the best ones are kept under a file cap and a budget, and the original is
  stored when the saving is large enough. The detector is an interface value, hence an argument.
\<close>

unbundle bit_operations_syntax

section \<open>Data\<close>

record search_result =
  sr_compressed :: string
  sr_original_match_count :: nat
  sr_compressed_match_count :: nat
  sr_files_affected :: nat
  sr_compression_ratio :: rat
  sr_cache_key :: string

record search_config =
  sc_max_matches_per_file :: nat
  sc_always_keep_first :: bool
  sc_always_keep_last :: bool
  sc_max_total_matches :: nat
  sc_max_files :: nat
  sc_context_keywords :: "string list"
  sc_boost_errors :: bool
  sc_enable_ccr :: bool
  sc_min_matches_for_ccr :: nat
  sc_min_compression_ratio_for_ccr :: rat

definition default_search_config :: search_config where
  "default_search_config = \<lparr>sc_max_matches_per_file = 5, sc_always_keep_first = True, sc_always_keep_last = True,
     sc_max_total_matches = 30, sc_max_files = 15, sc_context_keywords = [], sc_boost_errors = True,
     sc_enable_ccr = True, sc_min_matches_for_ccr = 10, sc_min_compression_ratio_for_ccr = f64 (8/10)\<rparr>"

record search_match =
  sm_file :: string
  sm_line_no :: nat
  sm_content :: string
  sm_score :: rat

record file_matches =
  fm_file :: string
  fm_matches :: "search_match list"

definition total_score :: "file_matches \<Rightarrow> rat" where
  "total_score fm = fold (\<lambda>m s. f64 (s + sm_score m)) (fm_matches fm) 0"

section \<open>Parsing\<close>

definition is_sep :: "char \<Rightarrow> bool" where "is_sep c \<longleftrightarrow> c = CHR '':'' \<or> c = CHR ''-''"

text \<open>The scan of \<open>parseMatchLine\<close> from offset \<open>i\<close>; \<open>ParseUint\<close> fails from \<open>2^64\<close>.\<close>

function scan_match :: "string \<Rightarrow> nat \<Rightarrow> (string \<times> nat \<times> string) option" where
  "scan_match b i =
     (if length b \<le> i then None
      else if is_sep (b ! i) then
        (if 0 < i \<and> is_sep (b ! (i - 1)) then scan_match b (i + 1)
         else
           (let digits = takeWhile is_digit (drop (i + 1) b); j = i + 1 + length digits in
            if i + 1 < j \<and> j < length b \<and> is_sep (b ! j) then
              (if i = 0 then None
               else if 2 ^ 64 \<le> digits_val digits then None
               else Some (take i b, digits_val digits, drop (j + 1) b))
            else scan_match b (i + 1)))
      else scan_match b (i + 1))"
  by pat_completeness auto
termination
  by (relation "measure (\<lambda>(b, i). length b - i)") auto

declare scan_match.simps [simp del]

definition parse_match_line :: "string \<Rightarrow> (string \<times> nat \<times> string) option" where
  "parse_match_line line =
     (let windows = 3 \<le> length line \<and> is_alpha (line ! 0) \<and> line ! 1 = CHR '':'' \<and> line ! 2 \<in> {CHR 0x5C, CHR ''/''}
      in scan_match line (if windows then 2 else 0))"

definition line_match :: "string \<Rightarrow> search_match list" where
  "line_match raw =
     (let line = trim_space raw in
      if line = '''' then []
      else (case parse_match_line line of
              None \<Rightarrow> []
            | Some (file, n, body) \<Rightarrow> [\<lparr>sm_file = file, sm_line_no = n, sm_content = body, sm_score = 0\<rparr>]))"

text \<open>The matches of each file in the order of the text, the files in the order of their paths.\<close>

definition group_by_path :: "search_match list \<Rightarrow> file_matches list" where
  "group_by_path ms =
     map (\<lambda>p. \<lparr>fm_file = p, fm_matches = filter (\<lambda>m. sm_file m = p) ms\<rparr>) (sort (remdups (map sm_file ms)))"

definition parse_search_results :: "string \<Rightarrow> file_matches list" where
  "parse_search_results content = group_by_path (concat (map line_match (split_on NL content)))"

section \<open>Scoring\<close>

definition add_hits :: "rat \<Rightarrow> bool list \<Rightarrow> rat \<Rightarrow> rat" where
  "add_hits w hits s = fold (\<lambda>h s. if h then f64 (s + w) else s) hits s"

fun category_boost :: "importance_category \<Rightarrow> rat \<Rightarrow> rat" where
  "category_boost CatError s = f64 (s + 1/2)"
| "category_boost CatWarning s = f64 (s + f64 (4/10))"
| "category_boost CatImportance s = f64 (s + f64 (3/10))"
| "category_boost CatSecurity s = s"
| "category_boost CatMarkdown s = s"

definition context_words :: "string \<Rightarrow> string list" where
  "context_words query = filter (\<lambda>w. 2 < length w) (str_fields (ascii_lower query))"

definition score_match :: "search_config \<Rightarrow> line_detector \<Rightarrow> string list \<Rightarrow> search_match \<Rightarrow> search_match" where
  "score_match cfg det words m =
     (let content = ascii_lower (sm_content m);
          s1 = add_hits (f64 (3/10)) (map (contains content) words) 0;
          s2 = (if sc_boost_errors cfg
                then (case is_category (det (sm_content m) CtxSearch) of None \<Rightarrow> s1 | Some c \<Rightarrow> category_boost c s1)
                else s1);
          s3 = add_hits (f64 (4/10)) (map (\<lambda>kw. contains content (ascii_lower kw)) (sc_context_keywords cfg)) s2
      in m\<lparr>sm_score := (if 1 < s3 then 1 else s3)\<rparr>)"

definition score_matches :: "search_config \<Rightarrow> line_detector \<Rightarrow> string \<Rightarrow> file_matches list \<Rightarrow> file_matches list" where
  "score_matches cfg det query files =
     map (\<lambda>fm. fm\<lparr>fm_matches := map (score_match cfg det (context_words query)) (fm_matches fm)\<rparr>) files"

section \<open>Selection\<close>

text \<open>\<open>fnv.New64a\<close>.\<close>

definition fnv_hash :: "string \<Rightarrow> 64 word" where
  "fnv_hash s = fold (\<lambda>c h. (h XOR word_of_nat (ord c)) * 1099511628211) s 14695981039346656037"

definition dedup_key :: "search_match \<Rightarrow> nat \<times> 64 word" where
  "dedup_key m = (sm_line_no m, fnv_hash (sm_content m))"

definition push_unique :: "search_match \<Rightarrow> search_match list \<Rightarrow> search_match list" where
  "push_unique m sel = (if dedup_key m \<in> set (map dedup_key sel) then sel else sel @ [m])"

fun push_best :: "nat \<Rightarrow> search_match list \<Rightarrow> search_match list \<Rightarrow> search_match list" where
  "push_best cap [] sel = sel"
| "push_best cap (m # ms) sel = (if cap \<le> length sel then sel else push_best cap ms (push_unique m sel))"

definition select_file :: "search_config \<Rightarrow> nat \<Rightarrow> file_matches \<Rightarrow> search_match list" where
  "select_file cfg cap fm =
     (let ms = fm_matches fm;
          best = sort_key (\<lambda>m. (- sm_score m, sm_line_no m)) ms;
          s1 = (if sc_always_keep_first cfg \<and> ms \<noteq> [] \<and> 0 < cap then push_unique (hd ms) [] else []);
          s2 = (if sc_always_keep_last cfg \<and> 1 < length ms \<and> length s1 < cap then push_unique (last ms) s1 else s1)
      in sort_key sm_line_no (push_best cap best s2))"

fun select_files :: "search_config \<Rightarrow> int \<Rightarrow> file_matches list \<Rightarrow> nat \<Rightarrow> file_matches list" where
  "select_files cfg budget [] taken = []"
| "select_files cfg budget (fm # fms) taken =
     (if budget \<le> int taken then select_files cfg budget fms taken
      else
        (let cap = min (sc_max_matches_per_file cfg) (nat (budget - int taken)); sel = select_file cfg cap fm
         in \<lparr>fm_file = fm_file fm, fm_matches = sel\<rparr> # select_files cfg budget fms (taken + length sel)))"

definition match_string_of :: "string \<Rightarrow> search_match \<Rightarrow> string" where
  "match_string_of file m = file @ '':'' @ utoa (sm_line_no m) @ '':'' @ sm_content m"

text \<open>The files that survive the cap, by descending total score.\<close>

definition top_files :: "search_config \<Rightarrow> file_matches list \<Rightarrow> file_matches list" where
  "top_files cfg files = take (sc_max_files cfg) (sort_key (\<lambda>fm. - total_score fm) files)"

definition search_budget :: "search_config \<Rightarrow> file_matches list \<Rightarrow> rat \<Rightarrow> int" where
  "search_budget cfg files bias =
     compute_optimal_k (concat (map (\<lambda>fm. map (match_string_of (fm_file fm)) (fm_matches fm)) (top_files cfg files)))
       bias 5 (int (sc_max_total_matches cfg))"

definition select_matches :: "search_config \<Rightarrow> file_matches list \<Rightarrow> rat \<Rightarrow> file_matches list" where
  "select_matches cfg files bias =
     sort_key fm_file (select_files cfg (search_budget cfg files bias) (top_files cfg files) 0)"

section \<open>Output\<close>

definition match_count :: "file_matches list \<Rightarrow> nat" where
  "match_count files = sum_list (map (\<lambda>fm. length (fm_matches fm)) files)"

definition file_lines :: "file_matches list \<Rightarrow> file_matches \<Rightarrow> string list" where
  "file_lines original fm =
     map (\<lambda>m. match_string_of (sm_file m) m) (fm_matches fm)
     @ (case filter (\<lambda>orig. fm_file orig = fm_file fm) original of
          [] \<Rightarrow> []
        | orig # _ \<Rightarrow>
            if length (fm_matches fm) < length (fm_matches orig)
            then [''[... and '' @ utoa (length (fm_matches orig) - length (fm_matches fm)) @ '' more matches in '' @ fm_file fm @ '']'']
            else [])"

definition search_format_output :: "file_matches list \<Rightarrow> file_matches list \<Rightarrow> string" where
  "search_format_output selected original = join [NL] (concat (map (file_lines original) selected))"

definition search_note :: "nat \<Rightarrow> nat \<Rightarrow> string \<Rightarrow> string" where
  "search_note original compressed key =
     [NL] @ ''['' @ utoa original @ '' matches compressed to '' @ utoa compressed @ ''. Retrieve more: hash='' @ key @ '']''"

definition search_compress ::
  "(string \<Rightarrow> string) \<Rightarrow> search_config \<Rightarrow> line_detector \<Rightarrow> 's store_ops option \<Rightarrow> string \<Rightarrow> string \<Rightarrow> rat \<Rightarrow> 's
     \<Rightarrow> search_result \<times> 's" where
  "search_compress md5 cfg det store content query bias st =
     (let parsed = parse_search_results content in
      if parsed = [] then
        (\<lparr>sr_compressed = content, sr_original_match_count = 0, sr_compressed_match_count = 0, sr_files_affected = 0,
          sr_compression_ratio = 1, sr_cache_key = ''''\<rparr>, st)
      else
        (let original = match_count parsed;
             scored = score_matches cfg det query parsed;
             selected = select_matches cfg scored bias;
             body = search_format_output selected scored;
             compressed = match_count selected;
             ratio = f64 (of_nat (length body) / of_nat (max 1 (length content)));
             result = \<lparr>sr_compressed = body, sr_original_match_count = original, sr_compressed_match_count = compressed,
               sr_files_affected = length parsed, sr_compression_ratio = ratio, sr_cache_key = ''''\<rparr>
         in if sc_enable_ccr cfg \<and> sc_min_matches_for_ccr cfg \<le> original \<and> ratio < sc_min_compression_ratio_for_ccr cfg
            then (case store of
                    None \<Rightarrow> (result, st)
                  | Some ops \<Rightarrow>
                      (let key = compute_key_md5 md5 content
                       in (result\<lparr>sr_compressed := body @ search_note original compressed key, sr_cache_key := key\<rparr>,
                           st_put ops key content st)))
            else (result, st)))"

section \<open>Lemmas\<close>

lemma set_push_unique: "set (push_unique m sel) \<subseteq> insert m (set sel)"
  by (auto simp: push_unique_def)

lemma distinct_push_unique: "distinct (map dedup_key sel) \<Longrightarrow> distinct (map dedup_key (push_unique m sel))"
  by (auto simp: push_unique_def)

lemma length_push_unique: "length (push_unique m sel) \<le> Suc (length sel)"
  by (simp add: push_unique_def)

lemma push_best_spec:
  "set (push_best cap ms sel) \<subseteq> set ms \<union> set sel
   \<and> (distinct (map dedup_key sel) \<longrightarrow> distinct (map dedup_key (push_best cap ms sel)))
   \<and> (length sel \<le> cap \<longrightarrow> length (push_best cap ms sel) \<le> cap)"
proof (induction cap ms sel rule: push_best.induct)
  case (2 cap m ms sel)
  show ?case
  proof (cases "cap \<le> length sel")
    case False
    have "length sel \<le> cap \<Longrightarrow> length (push_unique m sel) \<le> cap" using False length_push_unique [of m sel] by simp
    then show ?thesis
      using 2 [OF False] set_push_unique [of m sel] distinct_push_unique [of sel m] False by auto
  qed auto
qed simp

lemma select_file_spec:
  "set (select_file cfg cap fm) \<subseteq> set (fm_matches fm)" "distinct (map dedup_key (select_file cfg cap fm))"
  "length (select_file cfg cap fm) \<le> cap" "sorted (map sm_line_no (select_file cfg cap fm))"
proof -
  let ?ms = "fm_matches fm"
  let ?best = "sort_key (\<lambda>m. (- sm_score m, sm_line_no m)) ?ms"
  let ?s1 = "if sc_always_keep_first cfg \<and> ?ms \<noteq> [] \<and> 0 < cap then push_unique (hd ?ms) [] else []"
  let ?s2 = "if sc_always_keep_last cfg \<and> 1 < length ?ms \<and> length ?s1 < cap then push_unique (last ?ms) ?s1 else ?s1"
  have e: "select_file cfg cap fm = sort_key sm_line_no (push_best cap ?best ?s2)"
    by (simp only: select_file_def Let_def)
  have s1: "set ?s1 \<subseteq> set ?ms" "distinct (map dedup_key ?s1)" "length ?s1 \<le> cap"
    by (auto simp: push_unique_def)
  have s2: "set ?s2 \<subseteq> set ?ms" "distinct (map dedup_key ?s2)" "length ?s2 \<le> cap"
  proof -
    have "1 < length ?ms \<Longrightarrow> last ?ms \<in> set ?ms" by (intro last_in_set) auto
    then show "set ?s2 \<subseteq> set ?ms" using s1(1) set_push_unique [of "last ?ms" ?s1] by (smt (verit) insert_subset order.trans subset_insertI2 insert_absorb)
    show "distinct (map dedup_key ?s2)" using s1(2) distinct_push_unique [of ?s1 "last ?ms"] by presburger
    show "length ?s2 \<le> cap" using s1(3) length_push_unique [of "last ?ms" ?s1] by (smt (verit) Suc_leI order.trans)
  qed
  have "distinct (map dedup_key (sort_key sm_line_no xs))" if "distinct (map dedup_key xs)" for xs
    using that by (simp add: distinct_map)
  then show "set (select_file cfg cap fm) \<subseteq> set ?ms" "distinct (map dedup_key (select_file cfg cap fm))"
    "length (select_file cfg cap fm) \<le> cap" "sorted (map sm_line_no (select_file cfg cap fm))"
    unfolding e using push_best_spec [of cap ?best ?s2] s2 by auto
qed

lemma select_files_spec:
  assumes "distinct (map fm_file files)"
  shows "length (select_files cfg budget files taken) \<le> length files"
    "fm_file ` set (select_files cfg budget files taken) \<subseteq> fm_file ` set files"
    "distinct (map fm_file (select_files cfg budget files taken))"
    "fm \<in> set (select_files cfg budget files taken) \<Longrightarrow>
       \<exists>orig\<in>set files. \<exists>cap\<le> sc_max_matches_per_file cfg. fm = \<lparr>fm_file = fm_file orig, fm_matches = select_file cfg cap orig\<rparr>"
    "int (taken + match_count (select_files cfg budget files taken)) \<le> max (int taken) budget"
  using assms
proof (induction files arbitrary: taken)
  case (Cons f files)
  {
    case 1
    then show ?case using Cons.IH(1) by (simp add: Let_def le_SucI)
  next
    case 2
    then show ?case using Cons.IH(2) by (auto simp: Let_def)
  next
    case 3
    then have d: "distinct (map fm_file files)" and f: "fm_file f \<notin> fm_file ` set files" by auto
    have "fm_file f \<notin> fm_file ` set (select_files cfg budget files t)" for t using Cons.IH(2) [OF d] f by blast
    then show ?case using Cons.IH(3) [OF d] by (simp add: Let_def)
  next
    case 4
    let ?cap = "min (sc_max_matches_per_file cfg) (nat (budget - int taken))"
    let ?sel = "select_file cfg ?cap f"
    have d: "distinct (map fm_file files)" using 4 by simp
    have "(\<exists>t. fm \<in> set (select_files cfg budget files t)) \<or> fm = \<lparr>fm_file = fm_file f, fm_matches = ?sel\<rparr>"
      using 4(1) by (cases "budget \<le> int taken") (auto simp: Let_def)
    then show ?case
    proof
      assume "\<exists>t. fm \<in> set (select_files cfg budget files t)"
      then show ?thesis using Cons.IH(4) [OF _ d] by fastforce
    next
      assume "fm = \<lparr>fm_file = fm_file f, fm_matches = ?sel\<rparr>"
      moreover have "?cap \<le> sc_max_matches_per_file cfg" by simp
      ultimately show ?thesis unfolding list.set(2) by blast
    qed
  next
    case 5
    let ?cap = "min (sc_max_matches_per_file cfg) (nat (budget - int taken))"
    let ?sel = "select_file cfg ?cap f"
    show ?case
    proof (cases "budget \<le> int taken")
      case True
      then show ?thesis using Cons.IH(5) [of taken] 5 by simp
    next
      case False
      have "length ?sel \<le> nat (budget - int taken)" using select_file_spec(3) [of cfg ?cap f] by simp
      then have "int (taken + length ?sel) \<le> budget" using False by linarith
      then show ?thesis using Cons.IH(5) [of "taken + length ?sel"] 5 False by (simp add: Let_def match_count_def)
    qed
  }
qed (simp_all add: match_count_def)

lemma match_count_sort [simp]: "match_count (sort_key f files) = match_count files"
proof -
  let ?len = "\<lambda>fm. length (fm_matches fm)"
  have "mset (map ?len (sort_key f files)) = mset (map ?len files)" by (simp only: mset_map mset_sort)
  then show ?thesis unfolding match_count_def using sum_mset_sum_list by metis
qed

lemma distinct_take_sort: "distinct (map f xs) \<Longrightarrow> distinct (map f (take n (sort_key g xs)))"
  by (metis distinct_map distinct_sort distinct_take set_sort take_map)

lemma search_budget_le: "8 \<le> sc_max_total_matches cfg \<Longrightarrow> search_budget cfg files bias \<le> int (sc_max_total_matches cfg)"
  by (simp add: search_budget_def compute_optimal_k_le)

lemma group_by_path_files: "map fm_file (group_by_path ms) = sort (remdups (map sm_file ms))"
  by (simp add: group_by_path_def comp_def)

lemma search_compress_effect:
  assumes "search_compress md5 cfg det (Some ops) content query bias st = (r, st')"
  shows "sr_cache_key r = '''' \<and> st' = st
    \<or> sr_cache_key r = compute_key_md5 md5 content \<and> st' = st_put ops (sr_cache_key r) content st
      \<and> (\<exists>out m n. sr_compressed r = out @ search_note m n (sr_cache_key r))"
proof -
  have "sr_cache_key r = '''' \<and> st' = st
    \<or> sr_cache_key r = compute_key_md5 md5 content \<and> st' = st_put ops (sr_cache_key r) content st
      \<and> sr_compressed r = (let scored = score_matches cfg det query (parse_search_results content) in
           search_format_output (select_matches cfg scored bias) scored)
          @ search_note (sr_original_match_count r) (sr_compressed_match_count r) (sr_cache_key r)"
    using assms by (auto simp: search_compress_def Let_def split: if_splits)
  then show ?thesis by blast
qed

section \<open>Properties\<close>

text \<open>What a search result keeps: the files are in path order without repetition and at most
  \<open>maxFiles\<close>, at most \<open>maxTotalMatches\<close> matches are kept, and what is kept of a file are matches of
  that file, at most \<open>maxMatchesPerFile\<close>, in line order, no two with the same line and content hash.\<close>

theorem search_selection_bounded:
  fixes bias :: rat
  assumes "distinct (map fm_file files)" and "8 \<le> sc_max_total_matches cfg"
  defines "sel \<equiv> select_matches cfg files bias"
  shows "sorted_wrt (<) (map fm_file sel) \<and> length sel \<le> sc_max_files cfg \<and> match_count sel \<le> sc_max_total_matches cfg
    \<and> (\<forall>fm\<in>set sel. \<exists>orig\<in>set files. fm_file fm = fm_file orig \<and> set (fm_matches fm) \<subseteq> set (fm_matches orig)
         \<and> length (fm_matches fm) \<le> sc_max_matches_per_file cfg \<and> sorted (map sm_line_no (fm_matches fm))
         \<and> distinct (map dedup_key (fm_matches fm)))"
proof -
  let ?top = "top_files cfg files" and ?b = "search_budget cfg files bias"
  have d: "distinct (map fm_file ?top)" using assms(1) by (simp add: top_files_def distinct_take_sort)
  have sub: "set ?top \<subseteq> set files" using set_take_subset by (fastforce simp: top_files_def)
  note spec = select_files_spec [OF d, where cfg = cfg and budget = ?b and taken = 0]
  have "distinct (map fm_file sel)" using spec(3) by (simp add: sel_def select_matches_def distinct_map)
  then have 1: "sorted_wrt (<) (map fm_file sel)"
    by (simp add: strict_sorted_iff) (simp add: sel_def select_matches_def)
  have 2: "length sel \<le> sc_max_files cfg" using spec(1) by (simp add: sel_def select_matches_def top_files_def)
  have "int (match_count sel) \<le> max 0 ?b" using spec(5) by (simp add: sel_def select_matches_def)
  then have 3: "match_count sel \<le> sc_max_total_matches cfg" using search_budget_le [OF assms(2), of files bias] by linarith
  have 4: "\<exists>orig\<in>set files. fm_file fm = fm_file orig \<and> set (fm_matches fm) \<subseteq> set (fm_matches orig)
         \<and> length (fm_matches fm) \<le> sc_max_matches_per_file cfg \<and> sorted (map sm_line_no (fm_matches fm))
         \<and> distinct (map dedup_key (fm_matches fm))" if "fm \<in> set sel" for fm
  proof -
    have mem: "fm \<in> set (select_files cfg ?b ?top 0)" using that by (simp add: sel_def select_matches_def)
    obtain orig cap where o: "orig \<in> set files" "cap \<le> sc_max_matches_per_file cfg"
      "fm = \<lparr>fm_file = fm_file orig, fm_matches = select_file cfg cap orig\<rparr>"
      using spec(4) [of fm] sub mem by blast
    then show ?thesis using select_file_spec [of cfg cap orig] by (intro bexI [of _ orig]) auto
  qed
  show ?thesis using 1 2 3 4 by blast
qed

definition sample_matches :: "file_matches list" where
  "sample_matches = [\<lparr>fm_file = ''b.go'', fm_matches = map (\<lambda>n. \<lparr>sm_file = ''b.go'', sm_line_no = n, sm_content = ''x'', sm_score = 0\<rparr>) [9, 3, 3, 1]\<rparr>,
     \<lparr>fm_file = ''a.go'', fm_matches = [\<lparr>sm_file = ''a.go'', sm_line_no = 4, sm_content = ''y'', sm_score = 1/2\<rparr>]\<rparr>]"

theorem search_selection_bounded_witness:
  "match_count (select_matches default_search_config sample_matches 0) \<le> 30
   \<and> sorted_wrt (<) (map fm_file (select_matches default_search_config sample_matches 0))"
  using search_selection_bounded [of sample_matches default_search_config 0]
  by (simp add: sample_matches_def default_search_config_def)

end
