(* ===== verification/DiffCompressor.thy ===== *)
theory DiffCompressor
  imports GoRegexp GoUnicode GoFloat CcrMarker Transform "HOL-Library.Multiset" "HOL-Library.Sublist"
begin

text \<open>
  \<open>internal/compress/diff_compressor.go\<close>: a unified diff is parsed into files and hunks, the hunks
  are scored, files and hunks are capped, context is trimmed around the changes, and the original
  is stored when the saving is large enough. \<open>lower\<close> is \<open>unicode.ToLower\<close> on runes from 128.
\<close>

section \<open>Data\<close>

record diff_result =
  df_compressed :: string
  df_original_line_count :: nat
  df_compressed_line_count :: nat
  df_files_affected :: nat
  df_additions :: nat
  df_deletions :: nat
  df_hunks_kept :: nat
  df_hunks_removed :: int
  df_cache_key :: string

record diff_config =
  dc_max_context_lines :: nat
  dc_max_hunks_per_file :: nat
  dc_max_files :: nat
  dc_enable_ccr :: bool
  dc_min_lines_for_ccr :: nat
  dc_min_compression_ratio_for_ccr :: rat

definition default_diff_config :: diff_config where
  "default_diff_config = \<lparr>dc_max_context_lines = 2, dc_max_hunks_per_file = 10, dc_max_files = 20,
     dc_enable_ccr = True, dc_min_lines_for_ccr = 50, dc_min_compression_ratio_for_ccr = f64 (8/10)\<rparr>"

record diff_hunk =
  dh_header :: string
  dh_lines :: "string list"
  dh_additions :: nat
  dh_deletions :: nat
  dh_context_lines :: nat
  dh_score :: rat

record diff_file =
  fl_header :: string
  fl_old_file :: string
  fl_new_file :: string
  fl_hunks :: "diff_hunk list"
  fl_is_new_file :: bool
  fl_is_deleted_file :: bool
  fl_is_renamed :: bool
  fl_is_binary :: bool
  fl_rename_lines :: "string list"
  fl_original_new_file_mode_line :: string
  fl_original_deleted_file_mode_line :: string
  fl_original_binary_line :: string

definition new_hunk :: "string \<Rightarrow> diff_hunk" where
  "new_hunk header = \<lparr>dh_header = header, dh_lines = [], dh_additions = 0, dh_deletions = 0, dh_context_lines = 0, dh_score = 0\<rparr>"

definition new_file :: "string \<Rightarrow> diff_file" where
  "new_file header = \<lparr>fl_header = header, fl_old_file = '''', fl_new_file = '''', fl_hunks = [], fl_is_new_file = False,
     fl_is_deleted_file = False, fl_is_renamed = False, fl_is_binary = False, fl_rename_lines = [],
     fl_original_new_file_mode_line = '''', fl_original_deleted_file_mode_line = '''', fl_original_binary_line = ''''\<rparr>"

definition total_additions :: "diff_file \<Rightarrow> nat" where
  "total_additions f = sum_list (map dh_additions (fl_hunks f))"

definition total_deletions :: "diff_file \<Rightarrow> nat" where
  "total_deletions f = sum_list (map dh_deletions (fl_hunks f))"

record parsed_diff =
  pd_pre_diff_lines :: "string list"
  pd_files :: "diff_file list"

section \<open>Expressions\<close>

definition rx_range :: "char \<Rightarrow> rx" where
  "rx_range sign = seqs [lit_char sign, plus1 rx_digit, opt (Seq (lit '','') (plus1 rx_digit))]"

definition hunk_header_re :: rx where
  "hunk_header_re = seqs [BeginText, alts
     [seqs [lit ''@@ '', rx_range CHR ''-'', lit '' '', rx_range CHR ''+'', lit '' @@''],
      seqs [lit ''@@@ '', rx_range CHR ''-'', lit '' '', rx_range CHR ''-'', lit '' '', rx_range CHR ''+'', lit '' @@@''],
      seqs [lit ''@@@@ '', rx_range CHR ''-'', lit '' '', rx_range CHR ''-'', lit '' '', rx_range CHR ''-'', lit '' '',
        rx_range CHR ''+'', lit '' @@@@'']],
     star rx_any, EndText]"

definition hunk_new_range_re :: rx where "hunk_new_range_re = Seq (lit ''+'') (plus1 rx_digit)"
definition diff_git_re :: rx where
  "diff_git_re = seqs [BeginText, lit ''diff --git a/'', plus1 rx_any, lit '' b/'', plus1 rx_any, EndText]"
definition diff_combined_re :: rx where
  "diff_combined_re = seqs [BeginText, lit ''diff --combined '', plus1 rx_any, EndText]"
definition diff_cc_re :: rx where
  "diff_cc_re = seqs [BeginText, lit ''diff --cc '', plus1 rx_any, EndText]"
definition old_file_re :: rx where
  "old_file_re = seqs [BeginText, lit ''--- '', Alt (Seq (lit ''a/'') (plus1 rx_any)) (lit ''/dev/null''), EndText]"
definition new_file_re :: rx where
  "new_file_re = seqs [BeginText, lit ''+++ '', Alt (Seq (lit ''b/'') (plus1 rx_any)) (lit ''/dev/null''), EndText]"
definition binary_re :: rx where
  "binary_re = seqs [BeginText, lit ''Binary files '', plus1 rx_any, lit '' differ'', EndText]"

definition priority_res :: "rx list" where
  "priority_res =
     [seqs [WordB, alts [lit_fold ''error'', lit_fold ''exception'',
              Seq (lit_fold ''fail'') (opt (Alt (lit_fold ''ed'') (lit_fold ''ure''))), lit_fold ''fatal'',
              lit_fold ''critical'', lit_fold ''crash'', lit_fold ''panic''], WordB],
      seqs [WordB, alts (map lit_fold [''important'', ''note'', ''todo'', ''fixme'', ''hack'', ''xxx'', ''bug'', ''fix'']), WordB],
      seqs [WordB, alts (map lit_fold [''security'', ''auth'', ''password'', ''secret'', ''token'']), WordB]]"

definition is_diff_header :: "string \<Rightarrow> bool" where
  "is_diff_header line \<longleftrightarrow>
     match_string diff_git_re line \<or> match_string diff_combined_re line \<or> match_string diff_cc_re line"

section \<open>Parsing\<close>

record diff_state =
  ds_diff :: parsed_diff
  ds_file :: "diff_file option"
  ds_hunk :: "diff_hunk option"

definition flush_hunk :: "diff_state \<Rightarrow> diff_state" where
  "flush_hunk s =
     (case (ds_file s, ds_hunk s) of
        (Some f, Some h) \<Rightarrow> s\<lparr>ds_file := Some (f\<lparr>fl_hunks := fl_hunks f @ [h]\<rparr>), ds_hunk := None\<rparr>
      | _ \<Rightarrow> s\<lparr>ds_hunk := None\<rparr>)"

definition flush_file :: "diff_state \<Rightarrow> diff_state" where
  "flush_file s =
     (let s1 = flush_hunk s in
      case ds_file s1 of
        Some f \<Rightarrow> s1\<lparr>ds_diff := (ds_diff s1)\<lparr>pd_files := pd_files (ds_diff s1) @ [f]\<rparr>, ds_file := None\<rparr>
      | None \<Rightarrow> s1)"

text \<open>Step (3): the markers of the file itself.\<close>

definition mark_file :: "string \<Rightarrow> diff_file \<Rightarrow> diff_file" where
  "mark_file line f =
     (if has_prefix line ''new file mode'' then f\<lparr>fl_is_new_file := True, fl_original_new_file_mode_line := line\<rparr>
      else if has_prefix line ''deleted file mode''
      then f\<lparr>fl_is_deleted_file := True, fl_original_deleted_file_mode_line := line\<rparr>
      else if has_prefix line ''rename '' \<or> has_prefix line ''similarity '' \<or> has_prefix line ''copy ''
              \<or> has_prefix line ''dissimilarity ''
      then f\<lparr>fl_is_renamed := True, fl_rename_lines := fl_rename_lines f @ [line]\<rparr>
      else if match_string binary_re line then f\<lparr>fl_is_binary := True, fl_original_binary_line := line\<rparr>
      else f)"

text \<open>Step (7): a line of a hunk.\<close>

definition add_hunk_line :: "string \<Rightarrow> diff_hunk \<Rightarrow> diff_hunk" where
  "add_hunk_line line h =
     (let h1 = h\<lparr>dh_lines := dh_lines h @ [line]\<rparr> in
      if has_prefix line ''+'' \<and> \<not> has_prefix line ''+++'' then h1\<lparr>dh_additions := dh_additions h + 1\<rparr>
      else if has_prefix line ''-'' \<and> \<not> has_prefix line ''---'' then h1\<lparr>dh_deletions := dh_deletions h + 1\<rparr>
      else if has_prefix line '' '' \<or> line = '''' then h1\<lparr>dh_context_lines := dh_context_lines h + 1\<rparr>
      else h1)"

definition diff_line :: "string \<Rightarrow> diff_state \<Rightarrow> diff_state" where
  "diff_line line s =
     (if is_diff_header line then (flush_file s)\<lparr>ds_file := Some (new_file line)\<rparr>
      else
        (case ds_file s of
           None \<Rightarrow> s\<lparr>ds_diff := (ds_diff s)\<lparr>pd_pre_diff_lines := pd_pre_diff_lines (ds_diff s) @ [line]\<rparr>\<rparr>
         | Some f \<Rightarrow>
             (let f1 = mark_file line f; s1 = s\<lparr>ds_file := Some f1\<rparr> in
              if match_string old_file_re line then s1\<lparr>ds_file := Some (f1\<lparr>fl_old_file := line\<rparr>)\<rparr>
              else if match_string new_file_re line then s1\<lparr>ds_file := Some (f1\<lparr>fl_new_file := line\<rparr>)\<rparr>
              else if match_string hunk_header_re line then (flush_hunk s1)\<lparr>ds_hunk := Some (new_hunk line)\<rparr>
              else s1\<lparr>ds_hunk := map_option (add_hunk_line line) (ds_hunk s1)\<rparr>)))"

definition parse_diff :: "string list \<Rightarrow> parsed_diff" where
  "parse_diff ls =
     ds_diff (flush_file (fold diff_line ls
       \<lparr>ds_diff = \<lparr>pd_pre_diff_lines = [], pd_files = []\<rparr>, ds_file = None, ds_hunk = None\<rparr>))"

section \<open>Scoring\<close>

definition score_hunk :: "(nat \<Rightarrow> nat) \<Rightarrow> string list \<Rightarrow> diff_hunk \<Rightarrow> diff_hunk" where
  "score_hunk lower words h =
     (let s0 = f64 (of_nat (dh_additions h + dh_deletions h) * f64 (3/100));
          s1 = (if f64 (3/10) < s0 then f64 (3/10) else s0);
          content = to_lower lower (join [NL] (dh_lines h));
          s2 = fold (\<lambda>w s. if 2 < length w \<and> contains content w then f64 (s + f64 (2/10)) else s) words s1;
          s3 = (if list_ex (\<lambda>pat. match_string pat content) priority_res then f64 (s2 + f64 (3/10)) else s2)
      in h\<lparr>dh_score := (if 1 < s3 then 1 else s3)\<rparr>)"

definition score_hunks :: "(nat \<Rightarrow> nat) \<Rightarrow> string \<Rightarrow> diff_file list \<Rightarrow> diff_file list" where
  "score_hunks lower query files =
     (let words = str_fields (to_lower lower query)
      in map (\<lambda>f. f\<lparr>fl_hunks := map (score_hunk lower words) (fl_hunks f)\<rparr>) files)"

section \<open>Selection\<close>

text \<open>\<open>Atoi\<close> fails from \<open>2^63\<close>.\<close>

definition extract_line_number :: "string \<Rightarrow> nat" where
  "extract_line_number header =
     (case find_string hunk_new_range_re header of
        None \<Rightarrow> 0
      | Some m \<Rightarrow> (let n = digits_val (tl m) in if 2 ^ 63 \<le> n then 0 else n))"

definition select_hunks :: "diff_config \<Rightarrow> diff_hunk list \<Rightarrow> diff_hunk list \<times> diff_hunk list" where
  "select_hunks cfg hunks =
     (if length hunks \<le> dc_max_hunks_per_file cfg then (hunks, [])
      else if hunks = [] then ([], [])
      else
        (let middle = sort_key (\<lambda>h. - dh_score h) (take (length hunks - 2) (tl hunks));
             slots = dc_max_hunks_per_file cfg - 2;
             selected = [hd hunks] @ take slots middle @ [last hunks]
         in (sort_key (\<lambda>h. extract_line_number (dh_header h)) selected, drop slots middle)))"

definition is_change :: "string \<Rightarrow> bool" where
  "is_change line \<longleftrightarrow> has_prefix line ''+'' \<or> has_prefix line ''-''"

definition change_positions :: "string list \<Rightarrow> nat list" where
  "change_positions ls = filter (\<lambda>i. is_change (ls ! i)) [0..<length ls]"

text \<open>The kept indices: within the context of a change, or a no-newline marker.\<close>

definition context_kept :: "nat \<Rightarrow> string list \<Rightarrow> nat \<Rightarrow> bool" where
  "context_kept max_context ls i \<longleftrightarrow>
     list_ex (\<lambda>pos. pos - max_context \<le> i \<and> i < min (pos + max_context + 1) (length ls)) (change_positions ls)
     \<or> has_prefix (ls ! i) [CHR 0x5C]"

definition recount :: "string \<Rightarrow> diff_hunk \<Rightarrow> diff_hunk" where
  "recount line h =
     (let h1 = h\<lparr>dh_lines := dh_lines h @ [line]\<rparr> in
      if has_prefix line ''+'' then h1\<lparr>dh_additions := dh_additions h + 1\<rparr>
      else if has_prefix line ''-'' then h1\<lparr>dh_deletions := dh_deletions h + 1\<rparr>
      else h1\<lparr>dh_context_lines := dh_context_lines h + 1\<rparr>)"

definition reduce_context :: "diff_config \<Rightarrow> diff_hunk \<Rightarrow> diff_hunk" where
  "reduce_context cfg h =
     (let ls = dh_lines h in
      if change_positions ls = [] then
        (let n = min (dc_max_context_lines cfg) (length ls)
         in h\<lparr>dh_lines := take n ls, dh_additions := 0, dh_deletions := 0, dh_context_lines := n\<rparr>)
      else
        fold recount (map (\<lambda>i. ls ! i) (filter (context_kept (dc_max_context_lines cfg) ls) [0..<length ls]))
          ((new_hunk (dh_header h))\<lparr>dh_score := dh_score h\<rparr>))"

definition compress_file :: "diff_config \<Rightarrow> diff_file \<Rightarrow> diff_file" where
  "compress_file cfg f = f\<lparr>fl_hunks := map (reduce_context cfg) (fst (select_hunks cfg (fl_hunks f)))\<rparr>"

definition cap_files :: "diff_config \<Rightarrow> diff_file list \<Rightarrow> diff_file list" where
  "cap_files cfg files =
     (if dc_max_files cfg < length files
      then take (dc_max_files cfg) (sort_key (\<lambda>f. - (int (total_additions f) + int (total_deletions f))) files) else files)"

section \<open>Output\<close>

definition file_text :: "diff_file \<Rightarrow> string list" where
  "file_text f =
     [fl_header f] @ fl_rename_lines f
     @ (if fl_is_new_file f then [''new file mode 100644'']
        else if fl_is_deleted_file f then [''deleted file mode 100644''] else [])
     @ (if fl_is_binary f then [''Binary files differ'']
        else (if fl_old_file f \<noteq> '''' then [fl_old_file f] else [])
             @ (if fl_new_file f \<noteq> '''' then [fl_new_file f] else [])
             @ concat (map (\<lambda>h. dh_header h # dh_lines h) (fl_hunks f)))"

definition diff_footer :: "nat \<Rightarrow> nat \<Rightarrow> nat \<Rightarrow> int \<Rightarrow> string list" where
  "diff_footer files additions deletions removed =
     (if 0 < removed \<or> 0 < files
      then [''['' @ join '', '' ([utoa files @ '' files changed'', ''+'' @ utoa additions @ '' -'' @ utoa deletions @ '' lines'']
              @ (if 0 < removed then [itoa removed @ '' hunks omitted''] else [])) @ '']'']
      else [])"

definition diff_format_output :: "string list \<Rightarrow> diff_file list \<Rightarrow> nat \<Rightarrow> nat \<Rightarrow> nat \<Rightarrow> int \<Rightarrow> string" where
  "diff_format_output pre files affected additions deletions removed =
     join [NL] (pre @ concat (map file_text files) @ diff_footer affected additions deletions removed)"

section \<open>The engine\<close>

definition pass_through_diff :: "string \<Rightarrow> nat \<Rightarrow> diff_result" where
  "pass_through_diff content n = \<lparr>df_compressed = content, df_original_line_count = n, df_compressed_line_count = n,
     df_files_affected = 0, df_additions = 0, df_deletions = 0, df_hunks_kept = 0, df_hunks_removed = 0, df_cache_key = ''''\<rparr>"

definition diff_note :: "nat \<Rightarrow> nat \<Rightarrow> string \<Rightarrow> string" where
  "diff_note original compressed key =
     [NL] @ ''['' @ utoa original @ '' lines compressed to '' @ utoa compressed @ ''. Retrieve full diff: hash='' @ key @ '']''"

definition diff_compress ::
  "(nat \<Rightarrow> nat) \<Rightarrow> (string \<Rightarrow> string) \<Rightarrow> diff_config \<Rightarrow> 's store_ops \<Rightarrow> string \<Rightarrow> string \<Rightarrow> 's \<Rightarrow> diff_result \<times> 's" where
  "diff_compress lower md5 cfg ops content query st =
     (let ls = split_on NL content; original = length ls in
      if original < dc_min_lines_for_ccr cfg then (pass_through_diff content original, st)
      else
        (let pd = parse_diff ls in
         if pd_files pd = [] then (pass_through_diff content original, st)
         else
           (let files = cap_files cfg (score_hunks lower query (pd_files pd));
                additions = sum_list (map total_additions files);
                deletions = sum_list (map total_deletions files);
                compressed = map (compress_file cfg) files;
                kept = sum_list (map (\<lambda>f. length (fl_hunks f)) compressed);
                removed = sum_list (map (\<lambda>f. int (length (fl_hunks f)) - int (length (fl_hunks (compress_file cfg f)))) files);
                out = diff_format_output (pd_pre_diff_lines pd) compressed (length files) additions deletions removed;
                n = length (split_on NL out);
                result = \<lparr>df_compressed = out, df_original_line_count = original, df_compressed_line_count = n,
                  df_files_affected = length files, df_additions = additions, df_deletions = deletions, df_hunks_kept = kept,
                  df_hunks_removed = removed, df_cache_key = ''''\<rparr>
            in if dc_enable_ccr cfg \<and> of_nat n < f64 (of_nat original * dc_min_compression_ratio_for_ccr cfg)
               then (let key = compute_key_md5 md5 content
                     in (result\<lparr>df_compressed := out @ diff_note original n key, df_cache_key := key\<rparr>,
                         st_put ops key content st))
               else (result, st))))"

section \<open>Lemmas\<close>

lemma fold_recount:
  "dh_lines (fold recount ls h) = dh_lines h @ ls
   \<and> dh_header (fold recount ls h) = dh_header h
   \<and> dh_additions (fold recount ls h) = dh_additions h + length (filter (\<lambda>l. has_prefix l ''+'') ls)
   \<and> dh_deletions (fold recount ls h) = dh_deletions h + length (filter (\<lambda>l. \<not> has_prefix l ''+'' \<and> has_prefix l ''-'') ls)"
  by (induction ls arbitrary: h) (auto simp: recount_def Let_def)

lemma filter_kept:
  assumes "\<And>x. x \<in> set xs \<Longrightarrow> P (f x) \<Longrightarrow> Q x"
  shows "filter P (map f (filter Q xs)) = filter P (map f xs)"
  using assms by (induction xs) auto

lemma subseq_map_filter: "subseq (map f (filter Q xs)) (map f xs)"
  by (induction xs) auto

lemma change_kept:
  "i < length ls \<Longrightarrow> is_change (ls ! i) \<Longrightarrow> context_kept m ls i"
  unfolding context_kept_def list_ex_iff by (intro disjI1 bexI [of _ i]) (auto simp: change_positions_def)

lemma no_change_positions: "change_positions ls = [] \<longleftrightarrow> filter is_change ls = []"
  by (auto simp: change_positions_def filter_empty_conv in_set_conv_nth) (metis nth_mem)

lemma reduce_context_lines:
  "change_positions (dh_lines h) \<noteq> [] \<Longrightarrow> dh_lines (reduce_context cfg h)
     = map (\<lambda>i. dh_lines h ! i) (filter (context_kept (dc_max_context_lines cfg) (dh_lines h)) [0..<length (dh_lines h)])"
  by (simp add: reduce_context_def Let_def fold_recount new_hunk_def)

lemma reduce_context_keeps:
  "filter is_change (dh_lines (reduce_context cfg h)) = filter is_change (dh_lines h)"
  "subseq (dh_lines (reduce_context cfg h)) (dh_lines h)"
  "dh_header (reduce_context cfg h) = dh_header h"
proof -
  let ?ls = "dh_lines h"
  have nth: "map (\<lambda>i. ?ls ! i) [0..<length ?ls] = ?ls" by (rule map_nth)
  show "filter is_change (dh_lines (reduce_context cfg h)) = filter is_change ?ls"
  proof (cases "change_positions ?ls = []")
    case True
    then have "filter is_change (take n ?ls) = []" for n
      using no_change_positions [of ?ls] by (auto simp: filter_empty_conv dest: in_set_takeD)
    then show ?thesis using True no_change_positions [of ?ls] by (simp add: reduce_context_def Let_def)
  next
    case False
    have "filter is_change (map (\<lambda>i. ?ls ! i) (filter (context_kept (dc_max_context_lines cfg) ?ls) [0..<length ?ls]))
        = filter is_change (map (\<lambda>i. ?ls ! i) [0..<length ?ls])"
      by (rule filter_kept) (simp add: change_kept)
    then show ?thesis by (simp only: reduce_context_lines [OF False] nth)
  qed
  show "subseq (dh_lines (reduce_context cfg h)) ?ls"
  proof (cases "change_positions ?ls = []")
    case True
    have "subseq (take n ?ls) ?ls" for n by (metis append_take_drop_id prefixI prefix_imp_subseq)
    then show ?thesis using True by (simp add: reduce_context_def Let_def)
  next
    case False
    have "subseq (map (\<lambda>i. ?ls ! i) (filter (context_kept (dc_max_context_lines cfg) ?ls) [0..<length ?ls]))
        (map (\<lambda>i. ?ls ! i) [0..<length ?ls])" by (rule subseq_map_filter)
    then show ?thesis by (simp only: reduce_context_lines [OF False] nth)
  qed
  show "dh_header (reduce_context cfg h) = dh_header h"
    by (simp add: reduce_context_def Let_def fold_recount) (simp add: new_hunk_def)
qed

lemma select_hunks_partition:
  assumes "select_hunks cfg hunks = (sel, dropped)" and "1 \<le> dc_max_hunks_per_file cfg"
  shows "mset sel + mset dropped = mset hunks" "2 \<le> dc_max_hunks_per_file cfg \<Longrightarrow> length sel \<le> dc_max_hunks_per_file cfg"
    "hunks \<noteq> [] \<Longrightarrow> hd hunks \<in> set sel \<and> last hunks \<in> set sel"
proof -
  have "mset sel + mset dropped = mset hunks
    \<and> (2 \<le> dc_max_hunks_per_file cfg \<longrightarrow> length sel \<le> dc_max_hunks_per_file cfg)
    \<and> (hunks \<noteq> [] \<longrightarrow> hd hunks \<in> set sel \<and> last hunks \<in> set sel)"
  proof (cases "length hunks \<le> dc_max_hunks_per_file cfg \<or> length hunks < 2")
    case True
    then show ?thesis using assms
      by (cases hunks rule: list.exhaust [case_product list.exhaust]) (auto simp: select_hunks_def Let_def split: if_splits)
  next
    case False
    then obtain a b ms where h: "hunks = a # ms @ [b]"
      by (metis (no_types, opaque_lifting) One_nat_def Suc_1 append_butlast_last_id le_less_linear length_Cons list.exhaust list.size(3) not_less_eq_eq zero_le)
    let ?mid = "sort_key (\<lambda>x. - dh_score x) ms" and ?k = "dc_max_hunks_per_file cfg - 2"
    have sel: "sel = sort_key (\<lambda>x. extract_line_number (dh_header x)) ([a] @ take ?k ?mid @ [b])" "dropped = drop ?k ?mid"
      using assms False by (auto simp: select_hunks_def Let_def h)
    have "mset (take ?k ?mid) + mset (drop ?k ?mid) = mset ?mid" by (metis append_take_drop_id mset_append)
    then have "mset sel + mset dropped = mset hunks" by (simp add: sel h)
    moreover have "set sel = set ([a] @ take ?k ?mid @ [b])" by (simp only: sel set_sort)
    moreover have "length sel = 2 + length (take ?k ?mid)" by (simp add: sel)
    ultimately show ?thesis using False by (auto simp: h)
  qed
  then show "mset sel + mset dropped = mset hunks" "2 \<le> dc_max_hunks_per_file cfg \<Longrightarrow> length sel \<le> dc_max_hunks_per_file cfg"
    "hunks \<noteq> [] \<Longrightarrow> hd hunks \<in> set sel \<and> last hunks \<in> set sel" by auto
qed

lemma diff_compress_effect:
  assumes "diff_compress lower md5 cfg ops content query st = (r, st')"
  shows "df_cache_key r = '''' \<and> st' = st
    \<or> df_cache_key r = compute_key_md5 md5 content \<and> st' = st_put ops (df_cache_key r) content st
      \<and> (\<exists>out m n. df_compressed r = out @ diff_note m n (df_cache_key r))"
  using assms unfolding diff_compress_def Let_def
  by (auto simp: pass_through_diff_def split: if_splits) blast+

section \<open>Properties\<close>

text \<open>C23. What a compressed diff keeps of a file: its hunks are split into the selected and the
  dropped ones, the first and the last are selected and at most \<open>maxHunksPerFile\<close> in all; a selected
  hunk keeps its header and, in order, every added and removed line, and loses only other lines.\<close>

theorem diff_file_keeps_changes:
  assumes "select_hunks cfg (fl_hunks f) = (sel, dropped)" and "2 \<le> dc_max_hunks_per_file cfg"
  shows "mset sel + mset dropped = mset (fl_hunks f)
    \<and> length sel \<le> dc_max_hunks_per_file cfg
    \<and> (fl_hunks f \<noteq> [] \<longrightarrow> hd (fl_hunks f) \<in> set sel \<and> last (fl_hunks f) \<in> set sel)
    \<and> list_all2 (\<lambda>h h'. dh_header h' = dh_header h \<and> subseq (dh_lines h') (dh_lines h)
          \<and> filter is_change (dh_lines h') = filter is_change (dh_lines h)) sel (fl_hunks (compress_file cfg f))"
  using select_hunks_partition [OF assms(1)] assms
  by (simp add: compress_file_def list_all2_conv_all_nth reduce_context_keeps)

theorem diff_file_keeps_changes_witness:
  "length (fl_hunks (compress_file default_diff_config
     ((new_file ''diff --git a/x b/x'')\<lparr>fl_hunks := [(new_hunk ''@@ -1 +1 @@'')\<lparr>dh_lines := [''+a'']\<rparr>]\<rparr>))) = 1
   \<and> filter is_change [''+a''] = [''+a'']"
proof -
  let ?h = "(new_hunk ''@@ -1 +1 @@'')\<lparr>dh_lines := [''+a'']\<rparr>"
  let ?f = "(new_file ''diff --git a/x b/x'')\<lparr>fl_hunks := [?h]\<rparr>"
  have "select_hunks default_diff_config (fl_hunks ?f) = ([?h], [])" by (simp add: select_hunks_def default_diff_config_def)
  moreover have "2 \<le> dc_max_hunks_per_file default_diff_config" by (simp add: default_diff_config_def)
  ultimately show ?thesis
    using diff_file_keeps_changes [of default_diff_config ?f "[?h]" "[]"]
    by (auto simp: is_change_def dest: list_all2_lengthD)
qed

end
