(* ===== verification/Relevance.thy ===== *)
theory Relevance
  imports GoRegexp GoUnicode GoFloat
begin

text \<open>
  \<open>internal/relevance\<close>: the keyword scorer (\<open>bm25.go\<close>), its boosted form (\<open>hybrid.go\<close>, where the
  embedding scorer is never available) and the factory (\<open>base.go\<close>).
\<close>

section \<open>Scores\<close>

record rel_score =
  rs_score :: rat
  rs_reason :: string
  rs_matched_terms :: "string list"

definition new_score :: "rat \<Rightarrow> string \<Rightarrow> string list \<Rightarrow> rel_score" where
  "new_score s reason terms =
     \<lparr>rs_score = (if s < 0 then 0 else if 1 < s then 1 else s), rs_reason = reason, rs_matched_terms = terms\<rparr>"

definition empty_score :: "string \<Rightarrow> rel_score" where "empty_score reason = new_score 0 reason []"

section \<open>BM25\<close>

record bm25_scorer =
  bm_k1 :: rat
  bm_b :: rat
  bm_normalize :: bool
  bm_max_score :: rat

definition new_bm25 :: bm25_scorer where
  "new_bm25 = \<lparr>bm_k1 = 3/2, bm_b = 3/4, bm_normalize = True, bm_max_score = 10\<rparr>"

text \<open>\<open>math.Log(2)\<close> as a \<open>float64\<close>.\<close>

definition bm_idf :: rat where "bm_idf = 6243314768165359 / 9007199254740992"

definition hex_times :: "nat \<Rightarrow> rx" where "hex_times n = Rep rx_hex n (Some n)"

definition rx_uuid :: rx where
  "rx_uuid = seqs [hex_times 8, lit ''-'', hex_times 4, lit ''-'', hex_times 4, lit ''-'', hex_times 4, lit ''-'', hex_times 12]"

definition token_pattern :: rx where
  "token_pattern = alts [rx_uuid, seqs [WordB, Rep rx_digit 4 None, WordB],
     plus1 (Cls False [(97, 122), (65, 90), (48, 57), (95, 95)])]"

definition tokenize :: "(nat \<Rightarrow> nat) \<Rightarrow> string \<Rightarrow> string list" where
  "tokenize lower text = find_all_string token_pattern (to_lower lower text)"

text \<open>How often a term occurs.\<close>

definition term_freq :: "string list \<Rightarrow> string \<Rightarrow> nat" where
  "term_freq tokens t = length (filter (\<lambda>u. u = t) tokens)"

definition term_score :: "bm25_scorer \<Rightarrow> rat \<Rightarrow> rat \<Rightarrow> nat \<Rightarrow> nat \<Rightarrow> rat" where
  "term_score s doc_len avgdl f qf =
     (let ff = of_nat f;
          numerator = f64 (ff * f64 (bm_k1 s + 1));
          norm = f64 (f64 (1 - bm_b s) + f64 (f64 (bm_b s * doc_len) / avgdl));
          denominator = f64 (ff + f64 (bm_k1 s * norm))
      in f64 (f64 (f64 (bm_idf * numerator) / denominator) * of_nat qf))"

definition bm25_score :: "bm25_scorer \<Rightarrow> string list \<Rightarrow> string list \<Rightarrow> rat \<Rightarrow> rat \<times> string list" where
  "bm25_score s doc query avg_doc_len =
     (if doc = [] \<or> query = [] then (0, [])
      else
        (let doc_len = of_nat (length doc);
             avgdl = (if 0 < avg_doc_len then avg_doc_len else if 0 < doc_len then doc_len else 1);
             matched = filter (\<lambda>t. t \<in> set doc) (sort (remdups query))
         in (fold (\<lambda>t acc. f64 (acc + term_score s doc_len avgdl (term_freq doc t) (term_freq query t))) matched 0, matched)))"

definition bm25_finalize :: "bm25_scorer \<Rightarrow> rat \<Rightarrow> string list \<Rightarrow> rat" where
  "bm25_finalize s raw matched =
     (let n0 = (if bm_normalize s then (let x = f64 (raw / bm_max_score s) in if 1 < x then 1 else x) else raw)
      in if list_ex (\<lambda>t. 8 \<le> length t) matched
         then (let n1 = f64 (n0 + f64 (3/10)) in if 1 < n1 then 1 else n1) else n0)"

definition bm25_reason :: "string list \<Rightarrow> string" where
  "bm25_reason matched =
     (case matched of
        [] \<Rightarrow> ''BM25: no term matches''
      | [t] \<Rightarrow> ''BM25: matched '' @ [CHR 0x27] @ t @ [CHR 0x27]
      | _ \<Rightarrow> ''BM25: matched '' @ utoa (length matched) @ '' terms ('' @ join '', '' (take 3 matched)
              @ (if 3 < length matched then ''...'' else '''') @ '')'')"

definition bm25_score_item :: "(nat \<Rightarrow> nat) \<Rightarrow> bm25_scorer \<Rightarrow> string \<Rightarrow> string \<Rightarrow> rel_score" where
  "bm25_score_item lower s item query =
     (case bm25_score s (tokenize lower item) (tokenize lower query) 0 of
        (raw, matched) \<Rightarrow> new_score (bm25_finalize s raw matched) (bm25_reason matched) (take 10 matched))"

definition bm25_score_batch :: "(nat \<Rightarrow> nat) \<Rightarrow> bm25_scorer \<Rightarrow> string list \<Rightarrow> string \<Rightarrow> rel_score list" where
  "bm25_score_batch lower s items query =
     (let words = tokenize lower query in
      if words = [] then map (\<lambda>_. empty_score ''BM25: empty context'') items
      else
        (let tokens = map (tokenize lower) items;
             avg = f64 (of_nat (sum_list (map length tokens)) / of_nat (max 1 (length items)))
         in map (\<lambda>ts. case bm25_score s ts words avg of
                   (raw, matched) \<Rightarrow>
                     new_score (bm25_finalize s raw matched)
                       (if matched = [] then ''BM25: no matches'' else ''BM25: '' @ utoa (length matched) @ '' terms'')
                       (take 5 matched)) tokens))"

section \<open>The boosted scorer\<close>

definition boost_bm25_only :: "rel_score \<Rightarrow> rel_score" where
  "boost_bm25_only r =
     (let s0 = rs_score r;
          s1 = (if rs_matched_terms r \<noteq> [] then max s0 (f64 (3/10)) else s0);
          s2 = (if 2 \<le> length (rs_matched_terms r) then (let x = f64 (s1 + f64 (2/10)) in if 1 < x then 1 else x) else s1)
      in new_score s2 (''Hybrid (BM25 only, boosted): '' @ rs_reason r) (rs_matched_terms r))"

definition hybrid_score_item :: "(nat \<Rightarrow> nat) \<Rightarrow> string \<Rightarrow> string \<Rightarrow> rel_score" where
  "hybrid_score_item lower item query = boost_bm25_only (bm25_score_item lower new_bm25 item query)"

definition hybrid_score_batch :: "(nat \<Rightarrow> nat) \<Rightarrow> string list \<Rightarrow> string \<Rightarrow> rel_score list" where
  "hybrid_score_batch lower items query =
     (if items = [] then [] else map boost_bm25_only (bm25_score_batch lower new_bm25 items query))"

section \<open>The factory\<close>

datatype scorer_kind = BM25 | Hybrid

datatype scorer_error = EmbeddingUnavailable | UnknownTier string

definition create_scorer :: "string \<Rightarrow> scorer_error + scorer_kind" where
  "create_scorer tier =
     (let t = ascii_lower tier in
      if t = ''bm25'' then Inr BM25
      else if t = ''hybrid'' then Inr Hybrid
      else if t = ''embedding'' then Inl EmbeddingUnavailable
      else Inl (UnknownTier tier))"

text \<open>\<open>Scorer\<close>: the interface its users see.\<close>

fun score_batch :: "(nat \<Rightarrow> nat) \<Rightarrow> scorer_kind \<Rightarrow> string list \<Rightarrow> string \<Rightarrow> rel_score list" where
  "score_batch lower BM25 items query = bm25_score_batch lower new_bm25 items query"
| "score_batch lower Hybrid items query = hybrid_score_batch lower items query"

fun score_item :: "(nat \<Rightarrow> nat) \<Rightarrow> scorer_kind \<Rightarrow> string \<Rightarrow> string \<Rightarrow> rel_score" where
  "score_item lower BM25 item query = bm25_score_item lower new_bm25 item query"
| "score_item lower Hybrid item query = hybrid_score_item lower item query"

section \<open>Lemmas\<close>

lemma new_score_range: "0 \<le> rs_score (new_score s reason terms) \<and> rs_score (new_score s reason terms) \<le> 1"
  by (simp add: new_score_def)

lemma length_bm25_batch [simp]: "length (bm25_score_batch lower s items query) = length items"
  by (simp add: bm25_score_batch_def Let_def)

lemma bm25_batch_range: "r \<in> set (bm25_score_batch lower s items query) \<Longrightarrow> 0 \<le> rs_score r \<and> rs_score r \<le> 1"
  using new_score_range by (auto simp: bm25_score_batch_def empty_score_def Let_def split: if_splits prod.splits)

text \<open>Every scorer gives one score in \<open>[0, 1]\<close> per item.\<close>

lemma score_batch_sound:
  "length (score_batch lower k items query) = length items
   \<and> (\<forall>r\<in>set (score_batch lower k items query). 0 \<le> rs_score r \<and> rs_score r \<le> 1)"
proof (cases k)
  case Hybrid
  have "0 \<le> rs_score (boost_bm25_only r) \<and> rs_score (boost_bm25_only r) \<le> 1" for r
    by (simp add: boost_bm25_only_def Let_def new_score_range)
  then show ?thesis by (simp add: Hybrid hybrid_score_batch_def)
qed (simp add: bm25_batch_range)

end
