(* ===== verification/TextCrusher.thy ===== *)
theory TextCrusher
  imports Relevance "HOL-Library.Sublist"
begin

text \<open>
  \<open>internal/compress/text_crusher.go\<close>: prose is split into sentences, each is scored by recency,
  relevance and salience, near duplicates are skipped, and the best sentences are kept in their
  order up to a budget of bytes.
\<close>

section \<open>Segments\<close>

abbreviation of_runes :: "nat list \<Rightarrow> string" where
  "of_runes rs \<equiv> concat (map encode_rune rs)"

text \<open>The segment being read, if it is not blank.\<close>

definition end_segment :: "nat list \<Rightarrow> string list" where
  "end_segment cur = (let s = trim_space (of_runes cur) in if s = '''' then [] else [s])"

fun split_line :: "nat list \<Rightarrow> nat list \<Rightarrow> bool \<Rightarrow> string list" where
  "split_line [] cur prev_term = end_segment cur"
| "split_line (ch # rs) cur prev_term =
     (if prev_term \<and> is_space_rune ch then end_segment cur @ split_line rs [] False
      else split_line rs (cur @ [ch]) (ch \<in> {46, 33, 63}))"

definition split_segments :: "string \<Rightarrow> string list" where
  "split_segments s =
     concat (map (\<lambda>line. let trimmed = trim_space line in
                    if trimmed = '''' then [] else split_line (runes trimmed) [] False) (split_on NL s))"

definition count_segments :: "string \<Rightarrow> nat" where "count_segments s = length (split_segments s)"

section \<open>Words\<close>

fun tokens_from :: "unicode_tables \<Rightarrow> nat list \<Rightarrow> string \<Rightarrow> string list" where
  "tokens_from U [] cur = (if cur = '''' then [] else [cur])"
| "tokens_from U (ch # rs) cur =
     (if rune_is_letter U ch \<or> rune_is_digit U ch \<or> ch = 95
      then tokens_from U rs (cur @ encode_rune (lower_rune (ut_lower U) ch))
      else (if cur = '''' then [] else [cur]) @ tokens_from U rs '''')"

definition crusher_tokens :: "unicode_tables \<Rightarrow> string \<Rightarrow> string list" where
  "crusher_tokens U s = tokens_from U (runes s) ''''"

definition windows :: "nat \<Rightarrow> string list \<Rightarrow> string list" where
  "windows k ws = map (\<lambda>i. join [CHR 0x01] (take k (drop i ws))) [0..<Suc (length ws) - k]"

text \<open>The set of shingles, as a list without repetition.\<close>

definition shingles :: "string list \<Rightarrow> nat \<Rightarrow> string list" where
  "shingles ws k =
     (if ws = [] then []
      else if length ws < k then remdups (concat (map (\<lambda>n. windows n ws) [1..<Suc (length ws)]))
      else remdups (windows k ws))"

definition text_keywords :: "string list" where
  "text_keywords = [''error'', ''exception'', ''failed'', ''failure'', ''fail'', ''warning'', ''traceback'', ''assert'',
     ''todo'', ''fixme'']"

definition ident_start :: "unicode_tables \<Rightarrow> string \<Rightarrow> bool" where
  "ident_start U s = (case runes s of [] \<Rightarrow> False | ch # _ \<Rightarrow> rune_is_letter U ch \<or> ch = 95)"

text \<open>The word without the runes at its ends that are neither letters nor digits.\<close>

definition trim_word :: "unicode_tables \<Rightarrow> string \<Rightarrow> string" where
  "trim_word U word =
     (let p = (\<lambda>r. \<not> rune_is_letter U r \<and> \<not> rune_is_digit U r)
      in of_runes (rev (dropWhile p (rev (dropWhile p (runes word))))))"

definition is_salient :: "unicode_tables \<Rightarrow> string \<Rightarrow> bool" where
  "is_salient U word =
     (let rs = runes word; letters = filter (rune_is_letter U) rs in
      if list_ex (\<lambda>r. 48 \<le> r \<and> r \<le> 57) rs then True
      else if to_lower (ut_lower U) (trim_word U word) \<in> set text_keywords then True
      else if 2 \<le> length letters \<and> list_all (rune_is_upper U) letters then True
      else (case index_of word ''.'' of
              None \<Rightarrow> False
            | Some dot \<Rightarrow> 0 < dot \<and> dot + 1 < length word
                \<and> ident_start U (take dot word) \<and> ident_start U (drop (dot + 1) word)))"

definition count_words :: "string \<Rightarrow> nat" where "count_words s = length (str_fields s)"

section \<open>Configuration\<close>

record text_crusher_config =
  tc_target_ratio :: rat
  tc_w_recency :: rat
  tc_w_relevance :: rat
  tc_w_salience :: rat
  tc_min_segment_chars :: nat
  tc_near_dup_threshold :: rat
  tc_min_segments_for_crush :: nat

definition default_text_crusher_config :: text_crusher_config where
  "default_text_crusher_config = \<lparr>tc_target_ratio = 1/2, tc_w_recency = 1, tc_w_relevance = 2, tc_w_salience = 3/2,
     tc_min_segment_chars = 12, tc_near_dup_threshold = f64 (85/100), tc_min_segments_for_crush = 6\<rparr>"

record text_crusher_result =
  tr_compressed :: string
  tr_original_tokens :: nat
  tr_compressed_tokens :: nat
  tr_compression_ratio :: rat
  tr_kept_segments :: nat
  tr_total_segments :: nat

definition new_text_crusher :: "text_crusher_config \<Rightarrow> text_crusher_config" where
  "new_text_crusher cfg = (if tc_target_ratio cfg = 0 then default_text_crusher_config else cfg)"

definition text_passthrough :: "string \<Rightarrow> nat \<Rightarrow> text_crusher_result" where
  "text_passthrough content n = \<lparr>tr_compressed = content, tr_original_tokens = count_words content,
     tr_compressed_tokens = count_words content, tr_compression_ratio = 1, tr_kept_segments = n, tr_total_segments = n\<rparr>"

section \<open>Scores\<close>

definition segment_score :: "text_crusher_config \<Rightarrow> unicode_tables \<Rightarrow> nat \<Rightarrow> nat \<Rightarrow> string \<Rightarrow> rat \<Rightarrow> rat" where
  "segment_score cfg U n i segment rel =
     (let recency = f64 ((of_nat i + 1) / of_nat n);
          ws = str_fields segment;
          salience = f64 (of_nat (length (filter (is_salient U) ws)) / (of_nat (length ws) + 1));
          s = f64 (f64 (f64 (tc_w_recency cfg * recency) + f64 (tc_w_relevance cfg * rel)) + f64 (tc_w_salience cfg * salience))
      in if length segment < tc_min_segment_chars cfg then f64 (s * (1/4)) else s)"

definition segment_scores :: "text_crusher_config \<Rightarrow> unicode_tables \<Rightarrow> string list \<Rightarrow> string \<Rightarrow> rat list" where
  "segment_scores cfg U segs query =
     (let scored = bm25_score_batch (ut_lower U) new_bm25 segs query
      in map (\<lambda>i. segment_score cfg U (length segs) i (segs ! i) (if i < length scored then rs_score (scored ! i) else 0))
           [0..<length segs])"

section \<open>Selection\<close>

text \<open>The loop over the candidates, best first: what is kept, the shingles seen, the bytes kept.\<close>

fun keep_segments ::
  "rat \<Rightarrow> unicode_tables \<Rightarrow> string list \<Rightarrow> nat \<Rightarrow> nat list \<Rightarrow> nat list \<Rightarrow> string list \<Rightarrow> nat \<Rightarrow> nat list" where
  "keep_segments dup U segs target [] kept seen chars = kept"
| "keep_segments dup U segs target (i # rest) kept seen chars =
     (if target \<le> chars then kept
      else
        (let sh = shingles (crusher_tokens U (segs ! i)) 3;
             covered = length (filter (\<lambda>s. s \<in> set seen) sh) in
         if sh \<noteq> [] \<and> dup \<le> f64 (of_nat covered / of_nat (length sh))
         then keep_segments dup U segs target rest kept seen chars
         else keep_segments dup U segs target rest (kept @ [i]) (seen @ sh) (chars + length (segs ! i))))"

definition clamp_ratio :: "text_crusher_config \<Rightarrow> rat \<Rightarrow> rat" where
  "clamp_ratio cfg ratio =
     (let r0 = (if ratio \<le> 0 then tc_target_ratio cfg else ratio); r1 = (if r0 < f64 (5/100) then f64 (5/100) else r0)
      in if 1 < r1 then 1 else r1)"

definition text_target :: "string list \<Rightarrow> rat \<Rightarrow> nat" where
  "text_target segs ratio = nat (max 1 (trunc (f64 (of_nat (sum_list (map length segs)) * ratio))))"

definition kept_segments :: "text_crusher_config \<Rightarrow> unicode_tables \<Rightarrow> string list \<Rightarrow> string \<Rightarrow> rat \<Rightarrow> nat list" where
  "kept_segments cfg U segs query ratio =
     (let scores = segment_scores cfg U segs query;
          order = sort_key (\<lambda>i. - (scores ! i)) [0..<length segs];
          kept = keep_segments (tc_near_dup_threshold cfg) U segs (text_target segs ratio) order [] [] 0
      in filter (\<lambda>i. i \<in> set kept) [0..<length segs])"

definition text_compress ::
  "text_crusher_config \<Rightarrow> unicode_tables \<Rightarrow> string \<Rightarrow> string \<Rightarrow> rat \<Rightarrow> text_crusher_result" where
  "text_compress cfg U content query ratio =
     (let r = clamp_ratio cfg ratio; segs = split_segments content in
      if length segs < tc_min_segments_for_crush cfg then text_passthrough content (length segs)
      else
        (let kept = kept_segments cfg U segs query r in
         if kept = [] then text_passthrough content (length segs)
         else
           (let compressed = join [NL] (map (\<lambda>i. segs ! i) kept);
                orig = count_words content; comp = count_words compressed
            in \<lparr>tr_compressed = compressed, tr_original_tokens = orig, tr_compressed_tokens = comp,
                tr_compression_ratio = (if 0 < orig then f64 (of_nat comp / of_nat orig) else 1),
                tr_kept_segments = length kept, tr_total_segments = length segs\<rparr>)))"

section \<open>Lemmas\<close>

lemma keep_segments_budget:
  assumes "keep_segments dup U segs target order kept seen chars = kept2"
  shows "\<exists>more. kept2 = kept @ more \<and> set more \<subseteq> set order
    \<and> (more \<noteq> [] \<longrightarrow> chars + sum_list (map (\<lambda>i. length (segs ! i)) (butlast more)) < target)"
  using assms
proof (induction dup U segs target order kept seen chars arbitrary: kept2 rule: keep_segments.induct)
  case (2 dup U segs target i rest kept seen chars)
  let ?sh = "shingles (crusher_tokens U (segs ! i)) 3"
  let ?dup = "?sh \<noteq> [] \<and> dup \<le> f64 (of_nat (length (filter (\<lambda>s. s \<in> set seen) ?sh)) / of_nat (length ?sh))"
  consider (full) "target \<le> chars" | (dup) "\<not> target \<le> chars" "?dup" | (keep) "\<not> target \<le> chars" "\<not> ?dup" by blast
  then show ?case
  proof cases
    case full
    then show ?thesis using 2(3) by auto
  next
    case dup
    then have "keep_segments dup U segs target rest kept seen chars = kept2" using 2(3) by (simp add: Let_def)
    then show ?thesis using 2(1) [OF dup(1) HOL.refl HOL.refl dup(2)] by (metis set_subset_Cons order.trans)
  next
    case keep
    then have k: "keep_segments dup U segs target rest (kept @ [i]) (seen @ ?sh) (chars + length (segs ! i)) = kept2"
      using 2(3) by (simp add: Let_def split: if_splits)
    from 2(2) [OF keep(1) HOL.refl HOL.refl keep(2) k] obtain m where
      m: "kept2 = (kept @ [i]) @ m" "set m \<subseteq> set rest"
        "m \<noteq> [] \<longrightarrow> chars + length (segs ! i) + sum_list (map (\<lambda>i. length (segs ! i)) (butlast m)) < target"
      by blast
    show ?thesis using m keep(1) by (intro exI [of _ "i # m"]) auto
  qed
qed simp

lemma nth_filter_upt_subseq: "subseq (map (\<lambda>i. xs ! i) (filter P [0..<length xs])) xs"
proof -
  have "subseq (map (\<lambda>i. xs ! i) (filter P [0..<length xs])) (map (\<lambda>i. xs ! i) [0..<length xs])"
    by (rule subseq_map) simp
  then show ?thesis by (simp add: map_nth)
qed

lemma length_kept_segments: "length (kept_segments cfg U segs query ratio) \<le> length segs"
  using length_filter_le [of _ "[0..<length segs]"] by (simp add: kept_segments_def Let_def)

section \<open>Properties\<close>

text \<open>The crusher is extractive: what it returns is the input unchanged, or the concatenation
  of some of the input's sentences, in their order and one per line; the counts it reports are the
  number of kept sentences and of all sentences.\<close>

theorem text_crusher_extractive:
  "let r = text_compress cfg U content query ratio; segs = split_segments content in
     tr_total_segments r = length segs \<and> tr_kept_segments r \<le> length segs
     \<and> (tr_compressed r = content
        \<or> (\<exists>kept. subseq kept segs \<and> kept \<noteq> [] \<and> tr_compressed r = join [NL] kept \<and> tr_kept_segments r = length kept))"
proof -
  let ?segs = "split_segments content" and ?r = "clamp_ratio cfg ratio"
  let ?k = "map (\<lambda>i. ?segs ! i) (kept_segments cfg U ?segs query ?r)"
  have "subseq ?k ?segs"
    using nth_filter_upt_subseq by (simp add: kept_segments_def Let_def)
  then show ?thesis
    using length_kept_segments [of cfg U ?segs query ?r]
    by (cases "length ?segs < tc_min_segments_for_crush cfg \<or> kept_segments cfg U ?segs query ?r = []")
       (auto simp: text_compress_def text_passthrough_def Let_def)
qed

end
