(* ===== verification/Offloads.thy ===== *)
theory Offloads
  imports Pipeline Gjson Detect LogCompressor SearchCompressor DiffCompressor TextCrusher
begin

text \<open>
  \<open>internal/offloads\<close>: the compression engines as transforms of the pipeline, and the two
  self-contained ones (\<open>diff_noise.go\<close>, \<open>json_offload.go\<close>). Each stores the original under its key
  before it returns a shortened text. What the engines need from outside is one record.
\<close>

section \<open>The environment\<close>

record crush_result =
  cr_compressed :: string
  cr_was_modified :: bool

text \<open>\<open>oe_crush\<close> is the \<open>Crusher\<close> interface of the JSON offload.\<close>

record offload_env =
  oe_unicode :: unicode_tables
  oe_gjson :: gjson
  oe_md5 :: "string \<Rightarrow> string"
  oe_crush :: "string \<Rightarrow> string \<Rightarrow> rat \<Rightarrow> crush_result"

definition passthrough_crusher :: "string \<Rightarrow> string \<Rightarrow> rat \<Rightarrow> crush_result" where
  "passthrough_crusher content query bias = \<lparr>cr_compressed = content, cr_was_modified = False\<rparr>"

definition from_lengths :: "nat \<Rightarrow> string \<Rightarrow> string \<Rightarrow> offload_output" where
  "from_lengths input_len output cache_key =
     (let saved = int input_len - int (length output)
      in \<lparr>oo_output = output, oo_bytes_saved = (if saved < 0 then 0 else saved), oo_cache_key = cache_key\<rparr>)"

definition clamp01 :: "rat \<Rightarrow> rat" where
  "clamp01 x = (if x < 0 then 0 else if 1 < x then 1 else x)"

fun tool_input_path :: "gjson \<Rightarrow> string \<Rightarrow> string list \<Rightarrow> string" where
  "tool_input_path G input [] = ''''"
| "tool_input_path G input (key # keys) =
     (let v = gj_get G input key
      in if gj_exists G v \<and> gj_string G v \<noteq> '''' then gj_string G v else tool_input_path G input keys)"

definition file_path_from_tool_input :: "gjson \<Rightarrow> string \<Rightarrow> string" where
  "file_path_from_tool_input G input = tool_input_path G input [''file_path'', ''path'', ''filePath'', ''filename'']"

text \<open>The guard of the log and the text offload.\<close>

definition is_protected_read :: "offload_env \<Rightarrow> compression_context \<Rightarrow> content_type \<Rightarrow> bool" where
  "is_protected_read E ctx ct =
     read_output_is_protected (ut_lower (oe_unicode E)) (cx_producing_tool ctx) (cx_tool_command ctx)
       (file_path_from_tool_input (oe_gjson E) (cx_tool_input ctx)) ct"

section \<open>Logs\<close>

definition log_estimate_bloat :: "line_detector \<Rightarrow> string \<Rightarrow> rat" where
  "log_estimate_bloat det content =
     (if content = '''' then 0
      else
        (let ls = split_lines_rust content; sample = take 100 ls; sampled = length sample;
             low = length (filter (\<lambda>l. is_priority (det l CtxLog) \<le> f32 (4/10)) sample) in
         if length ls < 50 \<or> sampled = 0 then 0
         else
           (let repetition = f32 (1 - f32 (of_nat (length (remdups sample)) / of_nat sampled));
                dilution = f32 (of_nat low / of_nat sampled)
            in clamp01 (f32 (f32 (repetition * (1/2)) + f32 (dilution * (1/2)))))))"

definition log_offload :: "offload_env \<Rightarrow> 's offload_transform" where
  "log_offload E =
     \<lparr>of_name = ''log_offload'', of_applies_to = [BuildOutput],
      of_estimate_bloat = log_estimate_bloat (keyword_score new_keyword_detector),
      of_apply = (\<lambda>ops content ctx st.
        if is_protected_read E ctx BuildOutput then (Inl ErrSkipped, st)
        else (case log_compress (oe_md5 E) default_log_config ops content st of
                (r, st') \<Rightarrow>
                  if lr_cache_key r = '''' then (Inl ErrSkipped, st')
                  else (Inr (from_lengths (length content) (lr_compressed r) (lr_cache_key r)), st'))),
      of_confidence = f32 (85/100)\<rparr>"

section \<open>Search results\<close>

text \<open>The text before the first separator that follows a digit; a drive letter is skipped.\<close>

definition extract_file_prefix :: "string \<Rightarrow> string option" where
  "extract_file_prefix line =
     (let start = (if 2 \<le> length line \<and> line ! 1 = CHR '':'' \<and> is_alpha (line ! 0) then 2 else 0)
      in case filter (\<lambda>i. is_sep (line ! i) \<and> 0 < i \<and> is_digit (line ! (i - 1))) [start..<length line] of
           [] \<Rightarrow> None
         | i # _ \<Rightarrow> Some (take i line))"

definition search_estimate_bloat :: "string \<Rightarrow> rat" where
  "search_estimate_bloat content =
     (let hits = List.map_filter extract_file_prefix (split_lines_rust content); total = length hits;
          files = length (remdups hits) in
      if content = '''' then 0
      else if total < 10 \<or> files = 0 then 0
      else (let avg = f32 (of_nat total / of_nat files)
            in if avg \<le> 1 then 0 else clamp01 (f32 (f32 (avg - 1) / 10))))"

definition search_offload :: "offload_env \<Rightarrow> 's offload_transform" where
  "search_offload E =
     \<lparr>of_name = ''search_offload'', of_applies_to = [SearchResults], of_estimate_bloat = search_estimate_bloat,
      of_apply = (\<lambda>ops content ctx st.
        case search_compress (oe_md5 E) default_search_config (keyword_score new_keyword_detector) (Some ops) content
               (cx_query ctx) 0 st of
          (r, st') \<Rightarrow>
            if sr_cache_key r = '''' then (Inl ErrSkipped, st')
            else (Inr (from_lengths (length content) (sr_compressed r) (sr_cache_key r)), st')),
      of_confidence = f32 (85/100)\<rparr>"

section \<open>Diffs\<close>

text \<open>The scan of \<open>EstimateBloat\<close>: context lines, change lines, and whether a hunk is open.\<close>

definition bloat_line :: "string \<Rightarrow> nat \<times> nat \<times> bool \<Rightarrow> nat \<times> nat \<times> bool" where
  "bloat_line line s =
     (case s of
        (context, change, in_hunk) \<Rightarrow>
          if has_prefix line ''@@'' then (context, change, True)
          else if has_prefix line ''diff --git'' then (context, change, False)
          else if has_prefix line ''+++'' \<or> has_prefix line ''---'' then s
          else if \<not> in_hunk \<or> line = '''' then s
          else if line ! 0 = CHR ''+'' \<or> line ! 0 = CHR ''-'' then (context, change + 1, in_hunk)
          else if line ! 0 = CHR '' '' then (context + 1, change, in_hunk)
          else s)"

definition diff_estimate_bloat :: "string \<Rightarrow> rat" where
  "diff_estimate_bloat content =
     (if content = '''' then 0
      else
        (let ls = split_lines_rust content in
         case fold bloat_line ls (0, 0, False) of
           (context, change, _) \<Rightarrow>
             if length ls < 50 \<or> context + change = 0 then 0
             else
               (let ratio = f32 (of_nat context / of_nat (context + change)); normal = f32 (6/10); span = f32 (1 - normal)
                in if ratio \<le> normal then 0 else if span \<le> 0 then 1 else clamp01 (f32 (f32 (ratio - normal) / span)))))"

definition diff_offload :: "offload_env \<Rightarrow> 's offload_transform" where
  "diff_offload E =
     \<lparr>of_name = ''diff_offload'', of_applies_to = [GitDiff], of_estimate_bloat = diff_estimate_bloat,
      of_apply = (\<lambda>ops content ctx st.
        case diff_compress (ut_lower (oe_unicode E)) (oe_md5 E) default_diff_config ops content (cx_query ctx) st of
          (r, st') \<Rightarrow>
            if df_cache_key r = '''' then (Inl ErrSkipped, st')
            else (Inr (from_lengths (length content) (df_compressed r) (df_cache_key r)), st')),
      of_confidence = f32 (85/100)\<rparr>"

section \<open>Diff noise\<close>

record diff_noise =
  dn_min_lines :: nat
  dn_drop_whitespace_only_hunks :: bool
  dn_lockfile_suffixes :: "string list"

definition new_diff_noise :: diff_noise where
  "new_diff_noise = \<lparr>dn_min_lines = 30, dn_drop_whitespace_only_hunks = True,
     dn_lockfile_suffixes = [''Cargo.lock'', ''package-lock.json'', ''yarn.lock'', ''pnpm-lock.yaml'', ''poetry.lock'',
       ''Pipfile.lock'', ''Gemfile.lock'', ''go.sum'', ''composer.lock'']\<rparr>"

record diff_segment =
  sg_new_path :: string
  sg_header_lines :: "string list"
  sg_body_lines :: "string list"

text \<open>What follows the last \<open> b/\<close>.\<close>

fun after_last :: "string \<Rightarrow> string \<Rightarrow> string option" where
  "after_last [] p = None"
| "after_last (c # s) p =
     (case after_last s p of
        Some r \<Rightarrow> Some r
      | None \<Rightarrow> if has_prefix (c # s) p then Some (drop (length p) (c # s)) else None)"

definition parse_new_path :: "string \<Rightarrow> string" where
  "parse_new_path header = (case after_last header '' b/'' of None \<Rightarrow> '''' | Some r \<Rightarrow> r)"

fun segment_lines_from :: "string list \<Rightarrow> diff_segment option \<Rightarrow> bool \<Rightarrow> diff_segment list" where
  "segment_lines_from [] cur in_body = (case cur of None \<Rightarrow> [] | Some s \<Rightarrow> [s])"
| "segment_lines_from (line # ls) cur in_body =
     (if has_prefix line ''diff --git''
      then (case cur of None \<Rightarrow> [] | Some s \<Rightarrow> [s])
           @ segment_lines_from ls (Some \<lparr>sg_new_path = parse_new_path line, sg_header_lines = [line], sg_body_lines = []\<rparr>) False
      else
        (case cur of
           None \<Rightarrow> segment_lines_from ls None in_body
         | Some s \<Rightarrow>
             if \<not> in_body \<and> \<not> has_prefix line ''@@''
             then segment_lines_from ls (Some (s\<lparr>sg_header_lines := sg_header_lines s @ [line]\<rparr>)) False
             else segment_lines_from ls (Some (s\<lparr>sg_body_lines := sg_body_lines s @ [line]\<rparr>)) True))"

definition parse_segments :: "string \<Rightarrow> diff_segment list" where
  "parse_segments content = segment_lines_from (split_lines_rust content) None False"

definition leading_pre_diff_lines :: "string \<Rightarrow> string" where
  "leading_pre_diff_lines content =
     concat (map (\<lambda>l. l @ [NL]) (takeWhile (\<lambda>l. \<not> has_prefix l ''diff --git'') (split_lines_rust content)))"

definition is_lockfile :: "diff_noise \<Rightarrow> string \<Rightarrow> bool" where
  "is_lockfile cfg path \<longleftrightarrow> path \<noteq> ''''
     \<and> list_ex (\<lambda>suffix. has_suffix path suffix
          \<and> (let n = length path - length suffix in n = 0 \<or> path ! (n - 1) \<in> {CHR ''/'', CHR 0x5C}))
        (dn_lockfile_suffixes cfg)"

definition strip_ws :: "string \<Rightarrow> string" where
  "strip_ws s = filter (\<lambda>c. ord c \<notin> {32, 9, 10, 13, 11, 12}) s"

definition body_is_whitespace_only :: "string list \<Rightarrow> bool" where
  "body_is_whitespace_only body \<longleftrightarrow>
     (let adds = filter (\<lambda>l. has_prefix l ''+'' \<and> \<not> has_prefix l ''+++'') body;
          subs = filter (\<lambda>l. has_prefix l ''-'' \<and> \<not> has_prefix l ''---'') body
      in (adds \<noteq> [] \<or> subs \<noteq> []) \<and> map (\<lambda>l. strip_ws (tl l)) adds = map (\<lambda>l. strip_ws (tl l)) subs)"

definition body_bytes :: "diff_segment \<Rightarrow> nat" where
  "body_bytes s = sum_list (map (\<lambda>l. length l + 1) (sg_body_lines s))"

definition droppable :: "diff_noise \<Rightarrow> diff_segment \<Rightarrow> bool" where
  "droppable cfg s \<longleftrightarrow> is_lockfile cfg (sg_new_path s)
     \<or> dn_drop_whitespace_only_hunks cfg \<and> body_is_whitespace_only (sg_body_lines s)"

definition noise_estimate_bloat :: "diff_noise \<Rightarrow> string \<Rightarrow> rat" where
  "noise_estimate_bloat cfg content =
     (if content = '''' \<or> length (split_lines_rust content) < dn_min_lines cfg then 0
      else
        (let segs = parse_segments content; total = sum_list (map body_bytes segs);
             drops = sum_list (map body_bytes (filter (droppable cfg) segs)) in
         if segs = [] \<or> total = 0 then 0 else clamp01 (f32 (of_nat drops / of_nat total))))"

definition noise_segment :: "diff_noise \<Rightarrow> diff_segment \<Rightarrow> string" where
  "noise_segment cfg s =
     concat (map (\<lambda>l. l @ [NL]) (sg_header_lines s))
     @ (if droppable cfg s
        then ''[diff_noise: '' @ (if is_lockfile cfg (sg_new_path s) then ''lockfile'' else ''whitespace-only'')
             @ '' hunks dropped ('' @ utoa (length (sg_body_lines s)) @ '' lines)]'' @ [NL]
        else concat (map (\<lambda>l. l @ [NL]) (sg_body_lines s)))"

definition noise_apply ::
  "(string \<Rightarrow> string) \<Rightarrow> diff_noise \<Rightarrow> 's store_ops \<Rightarrow> string \<Rightarrow> 's \<Rightarrow> (transform_error + offload_output) \<times> 's" where
  "noise_apply md5 cfg ops content st =
     (let segs = parse_segments content in
      if segs = [] then (Inl ErrSkipped, st)
      else
        (let output = leading_pre_diff_lines content @ concat (map (noise_segment cfg) segs) in
         if \<not> list_ex (droppable cfg) segs \<or> length content \<le> length output then (Inl ErrSkipped, st)
         else (let key = compute_key_md5 md5 content
               in (Inr (from_lengths (length content) (output @ [NL] @ ''[diff_noise CCR: hash='' @ key @ '']'') key),
                   st_put ops key content st))))"

definition diff_noise_offload :: "offload_env \<Rightarrow> 's offload_transform" where
  "diff_noise_offload E =
     \<lparr>of_name = ''diff_noise'', of_applies_to = [GitDiff], of_estimate_bloat = noise_estimate_bloat new_diff_noise,
      of_apply = (\<lambda>ops content ctx st. noise_apply (oe_md5 E) new_diff_noise ops content st),
      of_confidence = f32 (9/10)\<rparr>"

section \<open>JSON arrays\<close>

definition count_row_separators :: "string \<Rightarrow> nat" where
  "count_row_separators content = count_of content ''},{'' + count_of content ''}, {'' + count_of content (''},'' @ [NL])"

definition json_estimate_bloat :: "nat \<Rightarrow> nat \<Rightarrow> string \<Rightarrow> rat" where
  "json_estimate_bloat min_rows saturation content =
     (let seps = count_row_separators content in
      if content = '''' \<or> \<not> has_prefix (trim_left_space content) ''['' \<or> int seps < int min_rows - 1 then 0
      else clamp01 (f32 (of_nat seps / of_nat (max 1 (saturation - 1)))))"

definition json_offload :: "offload_env \<Rightarrow> 's offload_transform" where
  "json_offload E =
     \<lparr>of_name = ''json_offload'', of_applies_to = [JsonArray], of_estimate_bloat = json_estimate_bloat 5 50,
      of_apply = (\<lambda>ops content ctx st.
        let r = oe_crush E content (cx_query ctx) 0 in
        if \<not> cr_was_modified r then (Inl ErrSkipped, st)
        else if length content \<le> length (cr_compressed r) then (Inl ErrSkipped, st)
        else (let key = compute_key_md5 (oe_md5 E) content
              in (Inr (from_lengths (length content) (cr_compressed r @ [NL] @ ''[json_offload CCR: hash='' @ key @ '']'') key),
                  st_put ops key content st))),
      of_confidence = f32 (85/100)\<rparr>"

section \<open>Plain text\<close>

definition text_estimate_bloat :: "string \<Rightarrow> rat" where
  "text_estimate_bloat content =
     (if length content < 1024 then 0 else if count_segments content < 6 then 0 else 1/2)"

definition text_note :: "nat \<Rightarrow> nat \<Rightarrow> string \<Rightarrow> string" where
  "text_note kept n key =
     [NL] @ ''['' @ utoa kept @ '' of '' @ utoa n @ '' sentences kept. Retrieve the full text: hash='' @ key @ '']''"

definition text_offload :: "offload_env \<Rightarrow> 's offload_transform" where
  "text_offload E =
     \<lparr>of_name = ''text_offload'', of_applies_to = [PlainText], of_estimate_bloat = text_estimate_bloat,
      of_apply = (\<lambda>ops content ctx st.
        if is_protected_read E ctx PlainText then (Inl ErrSkipped, st)
        else
          (let r = text_compress default_text_crusher_config (oe_unicode E) content (cx_query ctx) 0 in
           if tr_compressed r = content \<or> tr_kept_segments r = tr_total_segments r then (Inl ErrSkipped, st)
           else (let key = compute_key_md5 (oe_md5 E) content
                 in (Inr (from_lengths (length content)
                            (tr_compressed r @ text_note (tr_kept_segments r) (tr_total_segments r) key) key),
                     st_put ops key content st)))),
      of_confidence = f32 (7/10)\<rparr>"

section \<open>Contracts\<close>

text \<open>A text that names a key, in the form that \<open>HashesIn\<close> recognises.\<close>

definition names_key :: "string \<Rightarrow> string \<Rightarrow> bool" where
  "names_key w key \<longleftrightarrow> (\<exists>u v. w = u @ ''hash='' @ key @ v)"

lemma names_keyI: "names_key (u @ ''hash='' @ key @ v) key"
  unfolding names_key_def by blast

lemma names_key_append: "names_key w key \<Longrightarrow> names_key (u @ w) key"
  unfolding names_key_def by (metis append.assoc)

text \<open>
  What every offload does: it skips, or it puts the original under its
  key and returns a text that names the key.
\<close>

definition stores_original :: "(string \<Rightarrow> string) \<Rightarrow> 's offload_transform \<Rightarrow> bool" where
  "stores_original md5 off \<longleftrightarrow>
     (\<forall>ops c ctx st.
        (\<exists>st'. store_reach ops st st' \<and> of_apply off ops c ctx st = (Inl ErrSkipped, st'))
        \<or> (\<exists>w. names_key w (compute_key_md5 md5 c) \<and> of_apply off ops c ctx st
             = (Inr (from_lengths (length c) w (compute_key_md5 md5 c)), st_put ops (compute_key_md5 md5 c) c st)))"

lemma stores_original_cases:
  assumes "stores_original md5 off"
  obtains st' where "store_reach ops st st'" "of_apply off ops c ctx st = (Inl ErrSkipped, st')"
  | w where "names_key w (compute_key_md5 md5 c)" "of_apply off ops c ctx st
      = (Inr (from_lengths (length c) w (compute_key_md5 md5 c)), st_put ops (compute_key_md5 md5 c) c st)"
  using assms unfolding stores_original_def by blast

lemma from_lengths_sel [simp]:
  "oo_bytes_saved (from_lengths n out key) = max 0 (int n - int (length out))"
  "oo_output (from_lengths n out key) = out" "oo_cache_key (from_lengths n out key) = key"
  by (auto simp: from_lengths_def Let_def)

lemma stores_original_contract:
  fixes off :: "'s offload_transform"
  assumes "stores_original md5 off" shows "offload_contract off"
proof
  fix ops :: "'s store_ops" and st st' c and ctx :: compression_context and out sinv view
  show "store_reach ops st (snd (of_apply off ops c ctx st))"
    by (rule stores_original_cases [OF assms, where ops = ops and st = st and c = c and ctx = ctx]) auto
  show "oo_bytes_saved out = max 0 (int (length c) - int (length (oo_output out)))"
    if "of_apply off ops c ctx st = (Inr out, st')"
    by (rule stores_original_cases [OF assms, where ops = ops and st = st and c = c and ctx = ctx]) (use that in auto)
  show "view st' (oo_cache_key out) = Some c"
    if "of_apply off ops c ctx st = (Inr out, st')" "ccr_store ops sinv view" "sinv st"
    by (rule stores_original_cases [OF assms, where ops = ops and st = st and c = c and ctx = ctx]) (use that ccr_store.put_same in auto)
qed

lemma names_note:
  "names_key (log_note m n key) key" "names_key (search_note m n key) key" "names_key (diff_note m n key) key"
  "names_key (text_note m n key) key" "names_key ([NL] @ ''[diff_noise CCR: hash='' @ key @ '']'') key"
  "names_key ([NL] @ ''[json_offload CCR: hash='' @ key @ '']'') key"
proof -
  have split: "w = u @ ''hash='' @ key @ v \<Longrightarrow> names_key w key" for w u v unfolding names_key_def by blast
  show "names_key (log_note m n key) key"
    by (rule split [of _ "[NL] @ ''['' @ utoa m @ '' lines compressed to '' @ utoa n @ ''. Retrieve more: ''" "'']''"]) (simp add: log_note_def)
  show "names_key (search_note m n key) key"
    by (rule split [of _ "[NL] @ ''['' @ utoa m @ '' matches compressed to '' @ utoa n @ ''. Retrieve more: ''" "'']''"]) (simp add: search_note_def)
  show "names_key (diff_note m n key) key"
    by (rule split [of _ "[NL] @ ''['' @ utoa m @ '' lines compressed to '' @ utoa n @ ''. Retrieve full diff: ''" "'']''"]) (simp add: diff_note_def)
  show "names_key (text_note m n key) key"
    by (rule split [of _ "[NL] @ ''['' @ utoa m @ '' of '' @ utoa n @ '' sentences kept. Retrieve the full text: ''" "'']''"]) (simp add: text_note_def)
  show "names_key ([NL] @ ''[diff_noise CCR: hash='' @ key @ '']'') key"
    by (rule split [of _ "[NL] @ ''[diff_noise CCR: ''" "'']''"]) simp
  show "names_key ([NL] @ ''[json_offload CCR: hash='' @ key @ '']'') key"
    by (rule split [of _ "[NL] @ ''[json_offload CCR: ''" "'']''"]) simp
qed

lemma names_witness: "names_key x key \<Longrightarrow> \<exists>w. names_key w key \<and> from_lengths n x key = from_lengths n w key"
  by blast

lemmas names_intros = names_witness names_key_append names_note names_note(5,6) [simplified]

lemma log_offload_stores: "stores_original (oe_md5 E) (log_offload E)"
  unfolding stores_original_def
proof (intro allI)
  fix ops :: "'a store_ops" and c and ctx :: compression_context and st
  obtain r st' where r: "log_compress (oe_md5 E) default_log_config ops c st = (r, st')" by fastforce
  from log_compress_effect [OF r]
  show "(\<exists>st'. store_reach ops st st' \<and> of_apply (log_offload E) ops c ctx st = (Inl ErrSkipped, st'))
      \<or> (\<exists>w. names_key w (compute_key_md5 (oe_md5 E) c) \<and> of_apply (log_offload E) ops c ctx st
           = (Inr (from_lengths (length c) w (compute_key_md5 (oe_md5 E) c)), st_put ops (compute_key_md5 (oe_md5 E) c) c st))"
    by (elim disjE conjE exE) (auto simp: log_offload_def r intro!: names_intros)
qed

lemma search_offload_stores: "stores_original (oe_md5 E) (search_offload E)"
  unfolding stores_original_def
proof (intro allI)
  fix ops :: "'a store_ops" and c and ctx :: compression_context and st
  obtain r st' where r: "search_compress (oe_md5 E) default_search_config (keyword_score new_keyword_detector) (Some ops) c
      (cx_query ctx) 0 st = (r, st')" by fastforce
  from search_compress_effect [OF r]
  show "(\<exists>st'. store_reach ops st st' \<and> of_apply (search_offload E) ops c ctx st = (Inl ErrSkipped, st'))
      \<or> (\<exists>w. names_key w (compute_key_md5 (oe_md5 E) c) \<and> of_apply (search_offload E) ops c ctx st
           = (Inr (from_lengths (length c) w (compute_key_md5 (oe_md5 E) c)), st_put ops (compute_key_md5 (oe_md5 E) c) c st))"
    by (elim disjE conjE exE) (auto simp: search_offload_def r intro!: names_intros)
qed

lemma diff_offload_stores: "stores_original (oe_md5 E) (diff_offload E)"
  unfolding stores_original_def
proof (intro allI)
  fix ops :: "'a store_ops" and c and ctx :: compression_context and st
  obtain r st' where r: "diff_compress (ut_lower (oe_unicode E)) (oe_md5 E) default_diff_config ops c (cx_query ctx) st = (r, st')"
    by fastforce
  from diff_compress_effect [OF r]
  show "(\<exists>st'. store_reach ops st st' \<and> of_apply (diff_offload E) ops c ctx st = (Inl ErrSkipped, st'))
      \<or> (\<exists>w. names_key w (compute_key_md5 (oe_md5 E) c) \<and> of_apply (diff_offload E) ops c ctx st
           = (Inr (from_lengths (length c) w (compute_key_md5 (oe_md5 E) c)), st_put ops (compute_key_md5 (oe_md5 E) c) c st))"
    by (elim disjE conjE exE) (auto simp: diff_offload_def r intro!: names_intros)
qed

lemma diff_noise_stores: "stores_original (oe_md5 E) (diff_noise_offload E)"
  unfolding stores_original_def diff_noise_offload_def noise_apply_def Let_def offload_transform.select_convs
  by (intro allI) (auto intro!: names_intros)

lemma json_offload_stores: "stores_original (oe_md5 E) (json_offload E)"
  unfolding stores_original_def json_offload_def Let_def offload_transform.select_convs
  by (intro allI) (auto intro!: names_intros)

lemma text_offload_stores: "stores_original (oe_md5 E) (text_offload E)"
  unfolding stores_original_def text_offload_def Let_def offload_transform.select_convs
  by (intro allI) (auto intro!: names_intros)

interpretation log_off: offload_contract "log_offload E" for E by (rule stores_original_contract [OF log_offload_stores])
interpretation search_off: offload_contract "search_offload E" for E by (rule stores_original_contract [OF search_offload_stores])
interpretation diff_off: offload_contract "diff_offload E" for E by (rule stores_original_contract [OF diff_offload_stores])
interpretation noise_off: offload_contract "diff_noise_offload E" for E by (rule stores_original_contract [OF diff_noise_stores])
interpretation json_off: offload_contract "json_offload E" for E by (rule stores_original_contract [OF json_offload_stores])
interpretation text_off: offload_contract "text_offload E" for E by (rule stores_original_contract [OF text_offload_stores])

end
