(* ===== verification/JsonMinifier.thy ===== *)
theory JsonMinifier
  imports Pipeline GoJsonProps GoUnicode
begin

text \<open>
  \<open>internal/reformats/json_minifier.go\<close>: the text is decoded into generic values and written
  back compactly, members in key order (a Go map). The result is used only when it is shorter.
\<close>

text \<open>\<open>Encode\<close> of a decoded value: a map is written in the byte order of its keys.\<close>

definition minify :: "json \<Rightarrow> string" where
  "minify v = encode_json (sort_members v)"

definition json_minifier_apply :: "string \<Rightarrow> transform_error + reformat_output" where
  "json_minifier_apply content =
     (let trimmed = trim_space content in
      if trimmed = '''' then Inl ErrSkipped
      else
        (case parse_json max_nesting trimmed of
           None \<Rightarrow> Inl ErrInvalidInput
         | Some v \<Rightarrow>
             (let m = minify v in
              if length content \<le> length m then Inr \<lparr>ro_output = content, ro_bytes_saved = 0\<rparr>
              else Inr \<lparr>ro_output = m, ro_bytes_saved = int (length content) - int (length m)\<rparr>)))"

definition json_minifier :: reformat_transform where
  "json_minifier = \<lparr>rf_name = ''json_minifier'', rf_applies_to = [JsonArray], rf_apply = json_minifier_apply\<rparr>"

interpretation minifier: reformat_contract json_minifier
  by unfold_locales (auto simp: json_minifier_def json_minifier_apply_def Let_def split: if_splits option.splits)

section \<open>Lemmas\<close>

lemma minify_parses: "parse_json d s = Some v \<Longrightarrow> parse_json d (minify v) = Some (sort_members v)"
  using parse_json_ok [of d s v] sort_members_ok [of v] parse_json_encode [of "sort_members v" d]
  by (simp add: minify_def)

lemma sort_key_idem: "sort_key f (sort_key f xs) = sort_key f xs"
  by (simp add: sort_key_id_if_sorted)

lemma map_sort_key_fst:
  assumes "\<And>x. fst (g x) = fst x" shows "map g (sort_key fst xs) = sort_key fst (map g xs)"
proof -
  have "map g (insort_key fst x ys) = insort_key fst (g x) (map g ys)" for x ys
    by (induction ys) (simp_all add: assms)
  then show ?thesis by (induction xs) simp_all
qed

lemma sort_members_idem: "sort_members (sort_members v) = sort_members v"
proof (induction v)
  case (JObj ms)
  let ?g = "\<lambda>(key, v). (key, sort_members v)"
  have "map ?g (sort_key fst (map ?g ms)) = sort_key fst (map ?g (map ?g ms))"
    by (rule map_sort_key_fst) auto
  moreover have "map ?g (map ?g ms) = map ?g ms" using JObj by fastforce
  ultimately show ?case by (simp only: sort_members.simps sort_key_idem)
qed auto

section \<open>Properties\<close>

text \<open>C21. The minifier is lossless up to the order of members: whenever it rewrites a text, the
  result is strictly shorter, is a JSON text again, and decodes to the value of the input with
  the members of every object in key order; minifying it once more changes nothing.\<close>

theorem minifier_preserves_value:
  assumes "json_minifier_apply content = Inr out" and "0 < ro_bytes_saved out"
  shows "\<exists>v. parse_json max_nesting (trim_space content) = Some v
    \<and> parse_json max_nesting (ro_output out) = Some (sort_members v)
    \<and> length (ro_output out) < length content
    \<and> minify (sort_members v) = ro_output out"
proof -
  obtain v where v: "parse_json max_nesting (trim_space content) = Some v" "ro_output out = minify v"
    "length (minify v) < length content"
    using assms by (auto simp: json_minifier_apply_def Let_def split: if_splits option.splits)
  then show ?thesis using minify_parses [OF v(1)] by (simp add: minify_def sort_members_idem)
qed

theorem minifier_preserves_value_witness:
  "\<exists>v. parse_json max_nesting (trim_space '' [true , null]'') = Some v
    \<and> parse_json max_nesting ''[true,null]'' = Some (sort_members v)
    \<and> length ''[true,null]'' < length '' [true , null]''
    \<and> minify (sort_members v) = ''[true,null]''"
proof -
  have t: "trim_space '' [true , null]'' = ''[true , null]''" by code_simp
  have p: "parse_json max_nesting ''[true , null]'' = Some (JArr [JBool True, JNull])"
    by (simp add: max_nesting_def parse_json_def skip_ws_def is_json_space_def numeral_eq_Suc)
  have "json_minifier_apply '' [true , null]'' = Inr \<lparr>ro_output = ''[true,null]'', ro_bytes_saved = 3\<rparr>"
    by (simp add: json_minifier_apply_def t p minify_def)
  then show ?thesis using minifier_preserves_value [of "'' [true , null]''" "\<lparr>ro_output = ''[true,null]'', ro_bytes_saved = 3\<rparr>"]
    by (simp only: reformat_output.simps)
qed

end
