(* ===== verification/LogTemplate.thy ===== *)
theory LogTemplate
  imports Pipeline GoUnicode
begin

text \<open>
  \<open>internal/reformats/log_template.go\<close>: consecutive lines of one shape become a template header
  and a table of the tokens that vary. \<open>lines.go\<close> splits the text.
\<close>

section \<open>Lines\<close>

text \<open>\<open>splitLinesRust\<close> of this package: every line loses one trailing carriage return.\<close>

definition reformat_lines :: "string \<Rightarrow> string list" where
  "reformat_lines s =
     (if s = '''' then []
      else let parts = split_on NL s; ps = (if last parts = '''' then butlast parts else parts)
           in map (\<lambda>p. trim_suffix p [CR]) ps)"

section \<open>Runs\<close>

record log_template_config =
  lt_min_lines :: nat
  lt_min_run :: nat
  lt_similarity_threshold :: rat
  lt_min_constant_tokens :: nat

definition default_log_template_config :: log_template_config where
  "default_log_template_config = \<lparr>lt_min_lines = 20, lt_min_run = 3, lt_similarity_threshold = f32 (4/10),
     lt_min_constant_tokens = 2\<rparr>"

record tslot =
  sl_tok :: string
  sl_wild :: bool

record trun =
  rn_indices :: "nat list"
  rn_template :: "tslot list"

definition wildcard :: string where "wildcard = ''<*>''"

definition start_run :: "nat \<Rightarrow> string list \<Rightarrow> trun" where
  "start_run i toks = \<lparr>rn_indices = [i], rn_template = map (\<lambda>t. \<lparr>sl_tok = t, sl_wild = False\<rparr>) toks\<rparr>"

definition run_matches :: "tslot list \<Rightarrow> string list \<Rightarrow> nat" where
  "run_matches template toks = length (filter (\<lambda>(s, t). sl_wild s \<or> sl_tok s = t) (zip template toks))"

definition extends_run :: "trun \<Rightarrow> string list \<Rightarrow> rat \<Rightarrow> bool" where
  "extends_run r toks sim \<longleftrightarrow>
     length toks = length (rn_template r)
     \<and> sim \<le> f32 (of_nat (run_matches (rn_template r) toks) / of_nat (length toks))"

definition merge_into_template :: "tslot list \<Rightarrow> string list \<Rightarrow> tslot list" where
  "merge_into_template template toks =
     map (\<lambda>(s, t). if \<not> sl_wild s \<and> sl_tok s \<noteq> t then s\<lparr>sl_wild := True\<rparr> else s) (zip template toks)"

text \<open>The tokens of one line at the wildcard positions, in order.\<close>

definition variant_row :: "tslot list \<Rightarrow> string list \<Rightarrow> string list" where
  "variant_row template toks = map snd (filter (\<lambda>(s, t). sl_wild s) (zip template toks))"

definition template_header :: "nat \<Rightarrow> trun \<Rightarrow> string" where
  "template_header k r =
     ''[Template T'' @ utoa k @ '': '' @ join '' '' (map (\<lambda>s. if sl_wild s then wildcard else sl_tok s) (rn_template r))
       @ ''] ('' @ utoa (length (rn_indices r)) @ '' occurrences)'' @ [NL]"

definition collapses :: "log_template_config \<Rightarrow> trun \<Rightarrow> bool" where
  "collapses cfg r \<longleftrightarrow>
     (let constant = length (filter (\<lambda>s. \<not> sl_wild s) (rn_template r));
          varying = length (rn_template r) - constant
      in lt_min_run cfg \<le> length (rn_indices r) \<and> lt_min_constant_tokens cfg \<le> constant \<and> 0 < varying)"

text \<open>\<open>flushRun\<close>: what is written, and the next template number.\<close>

definition flush_run ::
  "log_template_config \<Rightarrow> string list \<Rightarrow> string list list \<Rightarrow> trun \<Rightarrow> nat \<Rightarrow> string \<times> nat" where
  "flush_run cfg ls tokenized r k =
     (if \<not> collapses cfg r then (concat (map (\<lambda>i. ls ! i @ [NL]) (rn_indices r)), k)
      else (template_header k r
              @ concat (map (\<lambda>i. join '' '' (variant_row (rn_template r) (tokenized ! i)) @ [NL]) (rn_indices r)),
            k + 1))"

section \<open>The loop\<close>

fun template_loop ::
  "log_template_config \<Rightarrow> string list \<Rightarrow> string list list \<Rightarrow> (nat \<times> string list) list \<Rightarrow> trun option \<Rightarrow> nat \<Rightarrow> string \<Rightarrow> string"
  where
  "template_loop cfg ls tokenized [] active k out =
     (case active of None \<Rightarrow> out | Some r \<Rightarrow> out @ fst (flush_run cfg ls tokenized r k))"
| "template_loop cfg ls tokenized ((i, toks) # rest) active k out =
     (if toks = [] then
        (case active of
           None \<Rightarrow> template_loop cfg ls tokenized rest None k (out @ ls ! i @ [NL])
         | Some r \<Rightarrow>
             (let (w, k2) = flush_run cfg ls tokenized r k
              in template_loop cfg ls tokenized rest None k2 (out @ w @ ls ! i @ [NL])))
      else
        (case active of
           None \<Rightarrow> template_loop cfg ls tokenized rest (Some (start_run i toks)) k out
         | Some r \<Rightarrow>
             if extends_run r toks (lt_similarity_threshold cfg)
             then template_loop cfg ls tokenized rest
                    (Some \<lparr>rn_indices = rn_indices r @ [i], rn_template = merge_into_template (rn_template r) toks\<rparr>) k out
             else (let (w, k2) = flush_run cfg ls tokenized r k
                   in template_loop cfg ls tokenized rest (Some (start_run i toks)) k2 (out @ w))))"

definition template_text :: "log_template_config \<Rightarrow> string list \<Rightarrow> string" where
  "template_text cfg ls =
     (let tokenized = map str_fields ls in template_loop cfg ls tokenized (enumerate 0 tokenized) None 1 '''')"

definition log_template_apply :: "log_template_config \<Rightarrow> string \<Rightarrow> transform_error + reformat_output" where
  "log_template_apply cfg content =
     (if content = '''' then Inl ErrSkipped
      else
        (let ls = reformat_lines content in
         if length ls < lt_min_lines cfg then Inl ErrSkipped
         else
           (let text = template_text cfg ls;
                result = (if \<not> has_suffix content [NL] \<and> has_suffix text [NL] then butlast text else text)
            in if length content \<le> length result then Inr \<lparr>ro_output = content, ro_bytes_saved = 0\<rparr>
               else Inr \<lparr>ro_output = result, ro_bytes_saved = int (length content) - int (length result)\<rparr>)))"

definition log_template :: reformat_transform where
  "log_template = \<lparr>rf_name = ''log_template'', rf_applies_to = [BuildOutput],
     rf_apply = log_template_apply default_log_template_config\<rparr>"

interpretation templater: reformat_contract log_template
  by unfold_locales (auto simp: log_template_def log_template_apply_def Let_def split: if_splits)

section \<open>Segments\<close>

text \<open>
  The specification of the loop: the lines are cut into segments, blank lines and mined runs,
  and the output is the rendering of the segments.
\<close>

datatype segment = Blank nat | Mined trun

fun segments :: "log_template_config \<Rightarrow> (nat \<times> string list) list \<Rightarrow> trun option \<Rightarrow> segment list" where
  "segments cfg [] active = (case active of None \<Rightarrow> [] | Some r \<Rightarrow> [Mined r])"
| "segments cfg ((i, toks) # rest) active =
     (if toks = [] then (case active of None \<Rightarrow> [] | Some r \<Rightarrow> [Mined r]) @ Blank i # segments cfg rest None
      else (case active of
              None \<Rightarrow> segments cfg rest (Some (start_run i toks))
            | Some r \<Rightarrow>
                if extends_run r toks (lt_similarity_threshold cfg)
                then segments cfg rest
                       (Some \<lparr>rn_indices = rn_indices r @ [i], rn_template = merge_into_template (rn_template r) toks\<rparr>)
                else Mined r # segments cfg rest (Some (start_run i toks))))"

fun render :: "log_template_config \<Rightarrow> string list \<Rightarrow> string list list \<Rightarrow> nat \<Rightarrow> segment list \<Rightarrow> string" where
  "render cfg ls tokenized k [] = ''''"
| "render cfg ls tokenized k (Blank i # ss) = ls ! i @ [NL] @ render cfg ls tokenized k ss"
| "render cfg ls tokenized k (Mined r # ss) =
     (let (w, k2) = flush_run cfg ls tokenized r k in w @ render cfg ls tokenized k2 ss)"

fun segment_lines :: "segment \<Rightarrow> nat list" where
  "segment_lines (Blank i) = [i]"
| "segment_lines (Mined r) = rn_indices r"

text \<open>A template with its wildcards replaced, in order, by the tokens of a row.\<close>

fun fill :: "tslot list \<Rightarrow> string list \<Rightarrow> string list" where
  "fill [] row = []"
| "fill (s # ss) row =
     (if sl_wild s then (case row of [] \<Rightarrow> [] | t # ts \<Rightarrow> t # fill ss ts) else sl_tok s # fill ss row)"

section \<open>Lemmas\<close>

lemma template_loop_segments:
  "template_loop cfg ls tokenized its active k out = out @ render cfg ls tokenized k (segments cfg its active)"
  by (induction cfg ls tokenized its active k out rule: template_loop.induct)
     (auto simp: Let_def split: option.splits prod.splits)

text \<open>Every line of a run agrees with the template at its constant positions.\<close>

definition fits :: "tslot list \<Rightarrow> string list \<Rightarrow> bool" where
  "fits template toks \<longleftrightarrow> list_all2 (\<lambda>s t. sl_wild s \<or> sl_tok s = t) template toks"

lemma fits_fill: "fits template toks \<Longrightarrow> fill template (variant_row template toks) = toks"
proof (induction template arbitrary: toks)
  case (Cons s ss)
  then obtain t ts where "toks = t # ts" by (cases toks) (auto simp: fits_def)
  then show ?case using Cons by (auto simp: fits_def variant_row_def)
qed (simp add: fits_def)

lemma fits_start: "fits (rn_template (start_run i toks)) toks"
  by (simp add: fits_def start_run_def list_all2_conv_all_nth)

lemma fits_merge_new: "length toks = length template \<Longrightarrow> fits (merge_into_template template toks) toks"
  by (auto simp: fits_def merge_into_template_def list_all2_conv_all_nth)

lemma fits_merge_old: "fits template old \<Longrightarrow> length toks = length template \<Longrightarrow> fits (merge_into_template template toks) old"
  by (auto simp: fits_def merge_into_template_def list_all2_conv_all_nth)

definition run_fits :: "string list list \<Rightarrow> trun \<Rightarrow> bool" where
  "run_fits tokenized r \<longleftrightarrow> (\<forall>i\<in>set (rn_indices r). i < length tokenized \<and> fits (rn_template r) (tokenized ! i))"

lemma segments_fit:
  assumes "\<And>i toks. (i, toks) \<in> set its \<Longrightarrow> i < length tokenized \<and> toks = tokenized ! i"
    and "\<And>r. active = Some r \<Longrightarrow> run_fits tokenized r" and "Mined r \<in> set (segments cfg its active)"
  shows "run_fits tokenized r"
  using assms
proof (induction cfg its active rule: segments.induct)
  case (1 cfg active)
  then show ?case by (auto split: option.splits)
next
  case (2 cfg i toks rest active)
  have it: "i < length tokenized" "toks = tokenized ! i" using 2(5) by auto
  have rest: "(j, u) \<in> set rest \<Longrightarrow> j < length tokenized \<and> u = tokenized ! j" for j u using 2(5) by auto
  have new: "run_fits tokenized (start_run i toks)"
    using it fits_start [of i toks] by (simp add: run_fits_def) (simp add: start_run_def)
  consider (blank) "toks = []" | (first) "toks \<noteq> []" "active = None"
    | (ext) a where "toks \<noteq> []" "active = Some a" "extends_run a toks (lt_similarity_threshold cfg)"
    | (cut) a where "toks \<noteq> []" "active = Some a" "\<not> extends_run a toks (lt_similarity_threshold cfg)"
    by (cases active) auto
  then show ?case
  proof cases
    case blank
    then show ?thesis using 2(1) [OF blank rest] 2(6,7) by (cases active) auto
  next
    case first
    then show ?thesis using 2(2) [OF first rest] new 2(7) by auto
  next
    case ext
    then have len: "length toks = length (rn_template a)" by (simp add: extends_run_def)
    have "run_fits tokenized \<lparr>rn_indices = rn_indices a @ [i], rn_template = merge_into_template (rn_template a) toks\<rparr>"
      using 2(6) [OF ext(2)] it fits_merge_new [OF len] fits_merge_old [OF _ len] by (auto simp: run_fits_def)
    then show ?thesis using 2(3) [OF ext rest] 2(7) ext by auto
  next
    case cut
    then show ?thesis using 2(4) [OF cut rest] new 2(6,7) by auto
  qed
qed

lemma segments_lines:
  "concat (map segment_lines (segments cfg its active))
     = (case active of None \<Rightarrow> [] | Some r \<Rightarrow> rn_indices r) @ map fst its"
  by (induction cfg its active rule: segments.induct) (auto simp: start_run_def split: option.splits)

section \<open>Properties\<close>



end
