(* ===== verification/ToolPairs.thy ===== *)
theory ToolPairs
  imports Gjson "HOL-Library.AList"
begin

text \<open>
  \<open>internal/toolpairs\<close>: the structural facts that keep a tool call paired with its result, and the
  index from a \<open>tool_use_id\<close> to the call that produced it. The Go map of the index is an
  association list with distinct keys (\<open>AList.update\<close> is the assignment \<open>out[id] = u\<close>): the
  dispatcher iterates over it, so its size matters and the order in which it is visited does not.
\<close>

section \<open>Model\<close>

definition hot_zone_block_types :: "string list" where
  "hot_zone_block_types = [''tool_use'', ''thinking'', ''redacted_thinking'', ''compaction'']"

fun is_hot_zone_loop :: "string list \<Rightarrow> string \<Rightarrow> bool" where
  "is_hot_zone_loop [] block_type = False"
| "is_hot_zone_loop (t # ts) block_type = (if t = block_type then True else is_hot_zone_loop ts block_type)"

definition is_hot_zone_block_type :: "string \<Rightarrow> bool" where
  "is_hot_zone_block_type = is_hot_zone_loop hot_zone_block_types"

definition inner_content_field :: "string \<Rightarrow> string \<times> bool" where
  "inner_content_field block_type =
     (if block_type = ''tool_result'' then (''content'', True)
      else if block_type = ''text'' then (''text'', True) else ('''', False))"

record tool_use =
  tu_name :: string
  tu_input :: string
  tu_seq :: nat

type_synonym tool_index = "(string \<times> tool_use) list"

text \<open>The two nested \<open>ForEach\<close> callbacks over the variables \<open>out\<close> and \<open>seq\<close>.\<close>

fun index_blocks :: "gjson \<Rightarrow> (gres \<times> gres) list \<Rightarrow> tool_index \<times> nat \<Rightarrow> tool_index \<times> nat" where
  "index_blocks G [] st = st"
| "index_blocks G ((k, block) # blocks) (out, seq) =
     (if gj_string G (gj_sub G block ''type'') \<noteq> ''tool_use'' then index_blocks G blocks (out, seq)
      else (let tid = gj_string G (gj_sub G block ''id'')
            in if tid = '''' then index_blocks G blocks (out, seq)
               else index_blocks G blocks
                 (AList.update tid \<lparr>tu_name = gj_string G (gj_sub G block ''name''),
                    tu_input = g_raw (gj_sub G block ''input''), tu_seq = seq\<rparr> out, seq + 1)))"

fun index_messages :: "gjson \<Rightarrow> (gres \<times> gres) list \<Rightarrow> tool_index \<times> nat \<Rightarrow> tool_index \<times> nat" where
  "index_messages G [] st = st"
| "index_messages G ((k, msg) # msgs) st =
     (let content = gj_sub G msg ''content''
      in if \<not> gj_is_array G content then index_messages G msgs st
         else index_messages G msgs (index_blocks G (gj_for_each G content) st))"

definition index_tools :: "gjson \<Rightarrow> string \<Rightarrow> tool_index" where
  "index_tools G body = fst (index_messages G (gj_for_each G (gj_get G body ''messages'')) ([], 0))"

section \<open>The calls of a body, in document order\<close>

definition calls_of_blocks :: "gjson \<Rightarrow> (gres \<times> gres) list \<Rightarrow> (string \<times> string \<times> string) list" where
  "calls_of_blocks G blocks =
     map (\<lambda>(k, b). (gj_string G (gj_sub G b ''id''), gj_string G (gj_sub G b ''name''), g_raw (gj_sub G b ''input'')))
       (filter (\<lambda>(k, b). gj_string G (gj_sub G b ''type'') = ''tool_use'' \<and> gj_string G (gj_sub G b ''id'') \<noteq> '''') blocks)"

definition calls_of_messages :: "gjson \<Rightarrow> (gres \<times> gres) list \<Rightarrow> (string \<times> string \<times> string) list" where
  "calls_of_messages G msgs = concat (map (\<lambda>(k, m). let content = gj_sub G m ''content''
     in if gj_is_array G content then calls_of_blocks G (gj_for_each G content) else []) msgs)"

definition tool_calls :: "gjson \<Rightarrow> string \<Rightarrow> (string \<times> string \<times> string) list" where
  "tool_calls G body = calls_of_messages G (gj_for_each G (gj_get G body ''messages''))"

text \<open>Assigning a list of calls, numbered from \<open>n\<close>, into the index.\<close>

fun assign_calls :: "(string \<times> string \<times> string) list \<Rightarrow> tool_index \<times> nat \<Rightarrow> tool_index \<times> nat" where
  "assign_calls [] st = st"
| "assign_calls ((tid, name, input) # cs) (out, n) =
     assign_calls cs (AList.update tid \<lparr>tu_name = name, tu_input = input, tu_seq = n\<rparr> out, n + 1)"

lemma assign_calls_append: "assign_calls (xs @ ys) st = assign_calls ys (assign_calls xs st)"
  by (induction xs st rule: assign_calls.induct) auto

lemma index_blocks_assign: "index_blocks G blocks st = assign_calls (calls_of_blocks G blocks) st"
  by (induction G blocks st rule: index_blocks.induct) (auto simp: calls_of_blocks_def Let_def)

lemma index_messages_assign: "index_messages G msgs st = assign_calls (calls_of_messages G msgs) st"
  by (induction G msgs st rule: index_messages.induct)
     (auto simp: calls_of_messages_def index_blocks_assign assign_calls_append Let_def)

lemma index_tools_assign: "index_tools G body = fst (assign_calls (tool_calls G body) ([], 0))"
  by (simp add: index_tools_def tool_calls_def index_messages_assign)

definition numbered :: "nat \<Rightarrow> (string \<times> string \<times> string) list \<Rightarrow> tool_index" where
  "numbered n cs = map (\<lambda>(i, tid, name, input). (tid, \<lparr>tu_name = name, tu_input = input, tu_seq = i\<rparr>)) (enumerate n cs)"

lemma map_of_assign_calls:
  "map_of (fst (assign_calls cs (out, n))) = map_of out ++ map_of (rev (numbered n cs))"
  by (induction cs "(out, n)" arbitrary: out n rule: assign_calls.induct)
     (auto simp: numbered_def update_conv' map_add_def fun_eq_iff split: option.splits)

lemma distinct_assign_calls:
  "distinct (map fst out) \<Longrightarrow> distinct (map fst (fst (assign_calls cs (out, n))))"
  by (induction cs "(out, n)" arbitrary: out n rule: assign_calls.induct) (auto intro: distinct_update)

lemma is_hot_zone_loop_iff: "is_hot_zone_loop ts b \<longleftrightarrow> b \<in> set ts"
  by (induction ts) auto

section \<open>Properties\<close>

text \<open>The index resolves an id to the last call of the body that carries it, with the number of
  calls before it; calls without an id are not counted, each id is present once.\<close>

theorem index_tools_last_call:
  "map_of (index_tools G body) = map_of (rev (numbered 0 (tool_calls G body)))
     \<and> distinct (map fst (index_tools G body))"
  by (simp add: index_tools_assign map_of_assign_calls distinct_assign_calls)

end
