(* ===== verification/CompressBlock.thy ===== *)
theory CompressBlock
  imports Pipeline CcrMarker ToolPairs
begin

text \<open>
  \<open>internal/livezone/compress.go\<close> and the per-block helpers of \<open>livezone.go\<close>: the router is run
  against a staging store, the marker is appended, and invariant I5 decides. The router and the
  tokenizer are interface values, hence arguments; the digests are third-party functions.
\<close>

section \<open>Options\<close>

type_synonym 'g router = "'g store_ops \<Rightarrow> string \<Rightarrow> compression_context \<Rightarrow> 'g \<Rightarrow> pipeline_result \<times> 'g"

type_synonym tokenizer = "string \<Rightarrow> int"

text \<open>The third-party functions the dispatcher calls.\<close>

record digests =
  dg_blake3 :: "string \<Rightarrow> string"
  dg_md5 :: "string \<Rightarrow> string"

section \<open>The context of a block\<close>

definition live_is_read_tool :: "string \<Rightarrow> bool" where
  "live_is_read_tool tool_name \<longleftrightarrow>
     tool_name = ''Read'' \<or> tool_name = ''read_file'' \<or> tool_name = ''view'' \<or> tool_name = ''cat''
     \<or> tool_name = ''mcp__filesystem__read_text_file'' \<or> tool_name = ''mcp__fs__read_text_file''"

fun first_field :: "gjson \<Rightarrow> string \<Rightarrow> string list \<Rightarrow> string" where
  "first_field G input [] = ''''"
| "first_field G input (key # keys) =
     (let v = gj_get G input key
      in if gj_exists G v \<and> gj_string G v \<noteq> '''' then gj_string G v else first_field G input keys)"

definition file_path_from_input :: "gjson \<Rightarrow> string \<Rightarrow> string" where
  "file_path_from_input G input = first_field G input [''file_path'', ''path'', ''filePath'', ''filename'']"

definition prior_reads :: "gjson \<Rightarrow> tool_index \<Rightarrow> tool_use \<Rightarrow> string \<Rightarrow> int" where
  "prior_reads G tools u file_path =
     int (length (filter (\<lambda>(i, other). tu_seq other < tu_seq u \<and> live_is_read_tool (tu_name other)
            \<and> file_path_from_input G (tu_input other) = file_path) tools))"

definition empty_context :: "string \<Rightarrow> compression_context" where
  "empty_context query = \<lparr>cx_query = query, cx_token_budget = None, cx_producing_tool = [],
     cx_tool_command = [], cx_tool_input = [], cx_prior_reads = 0\<rparr>"

definition block_context :: "gjson \<Rightarrow> string \<Rightarrow> tool_index \<Rightarrow> string \<Rightarrow> compression_context" where
  "block_context G query tools tool_use_id =
     (if tool_use_id = '''' then empty_context query
      else (case map_of tools tool_use_id of
              None \<Rightarrow> empty_context query
            | Some u \<Rightarrow>
                (let ctx = (empty_context query)\<lparr>cx_producing_tool := tu_name u,
                       cx_tool_command := gj_string G (gj_get G (tu_input u) ''command''),
                       cx_tool_input := tu_input u\<rparr>
                 in if live_is_read_tool (tu_name u)
                    then (let file_path = file_path_from_input G (tu_input u)
                          in if file_path \<noteq> ''''
                             then ctx\<lparr>cx_prior_reads := prior_reads G tools u file_path\<rparr> else ctx)
                    else ctx)))"

section \<open>Store checks\<close>

fun all_resolve :: "'s store_ops \<Rightarrow> string list \<Rightarrow> 's \<Rightarrow> bool \<times> 's" where
  "all_resolve ops [] st = (True, st)"
| "all_resolve ops (h # hs) st =
     (case st_get ops h st of (None, st') \<Rightarrow> (False, st') | (Some p, st') \<Rightarrow> all_resolve ops hs st')"

definition store_resolves :: "'s store_ops \<Rightarrow> string \<Rightarrow> string \<Rightarrow> string \<Rightarrow> 's \<Rightarrow> bool \<times> 's" where
  "store_resolves ops hash original replacement st =
     (case st_get ops hash st of
        (None, st') \<Rightarrow> (False, st')
      | (Some got, st') \<Rightarrow>
          if got \<noteq> original then (False, st') else all_resolve ops (hashes_in replacement) st')"

section \<open>One block\<close>

record block_result =
  br_accepted :: bool
  br_action :: string
  br_strategy :: string
  br_replacement :: string
  br_tokens_before :: int
  br_tokens_after :: int
  br_cache_key :: string

definition no_op :: block_result where
  "no_op = \<lparr>br_accepted = False, br_action = ''no_op'', br_strategy = [], br_replacement = [],
     br_tokens_before = 0, br_tokens_after = 0, br_cache_key = []\<rparr>"

definition accepts_i5 :: "int \<Rightarrow> int \<Rightarrow> bool" where
  "accepts_i5 tokens_before tokens_after \<longleftrightarrow> tokens_after < tokens_before"

definition inject_ccr_marker :: "digests \<Rightarrow> string \<Rightarrow> string \<Rightarrow> bool \<Rightarrow> string \<times> string" where
  "inject_ccr_marker D original compressed has_store =
     (if \<not> has_store then (compressed, [])
      else (let hash = compute_key (dg_blake3 D) original; marker = marker_for hash
            in if has_suffix compressed [NL] then (compressed @ marker, hash)
               else (compressed @ [NL] @ marker, hash)))"

definition compress_block ::
  "digests \<Rightarrow> string \<Rightarrow> compression_context \<Rightarrow> 's staging router option \<Rightarrow> 's store_ops option \<Rightarrow> tokenizer \<Rightarrow> 's
     \<Rightarrow> block_result \<times> 's" where
  "compress_block D text ctx router store tok st =
     (case router of
        None \<Rightarrow> (no_op, st)
      | Some compress \<Rightarrow>
        (case store of
           None \<Rightarrow> (no_op, st)
         | Some ops \<Rightarrow>
             (let (res, staged) = compress (staging_ops ops) text ctx (staging_new st)
              in if pr_output res = [] \<or> pr_output res = text then (no_op, sg_backing staged)
                 else
                   (let strategy = join ''+'' (pr_steps_applied res);
                        (candidate, hash) = inject_ccr_marker D text (pr_output res) True;
                        before = tok text;
                        after = tok candidate
                    in if \<not> accepts_i5 before after
                       then (\<lparr>br_accepted = False, br_action = ''rejected_tokens'', br_strategy = strategy,
                              br_replacement = [], br_tokens_before = before, br_tokens_after = after,
                              br_cache_key = []\<rparr>, sg_backing staged)
                       else (\<lparr>br_accepted = True, br_action = ''compressed'', br_strategy = strategy,
                              br_replacement = candidate, br_tokens_before = before, br_tokens_after = after,
                              br_cache_key = hash\<rparr>, staging_commit ops staged)))))"

section \<open>Lemmas\<close>

text \<open>What a router may do to the store it is given: call its methods.\<close>

definition router_ok :: "'s store_ops \<Rightarrow> 's staging router \<Rightarrow> bool" where
  "router_ok ops R \<longleftrightarrow> (\<forall>text ctx g. store_reach (staging_ops ops) g (snd (R (staging_ops ops) text ctx g)))"

definition digests_ok :: "digests \<Rightarrow> bool" where
  "digests_ok D \<longleftrightarrow> (\<forall>s. length (dg_blake3 D s) = 32) \<and> (\<forall>s. length (dg_md5 D s) = 16)"

definition marked_text :: "digests \<Rightarrow> string \<Rightarrow> string \<Rightarrow> string" where
  "marked_text D text out =
     (if has_suffix out [NL] then out else out @ [NL]) @ marker_for (compute_key (dg_blake3 D) text)"

lemma inject_marked [simp]:
  "inject_ccr_marker D text out True = (marked_text D text out, compute_key (dg_blake3 D) text)"
  by (simp add: inject_ccr_marker_def marked_text_def Let_def)

lemma marked_text_names_key:
  "digests_ok D \<Longrightarrow> compute_key (dg_blake3 D) text \<in> set (hashes_in (marked_text D text out))"
  using marker_named [of "compute_key (dg_blake3 D) text" "if has_suffix out [NL] then out else out @ [NL]" "[]"]
  by (simp add: marked_text_def digests_ok_def compute_key_is_key)

text \<open>The two ways \<open>compressBlock\<close> returns once the router has run.\<close>

lemma compress_block_shape:
  assumes "compress_block D text ctx (Some R) (Some ops) tok st = (br, st')"
    and "R (staging_ops ops) text ctx (staging_new st) = (res, g)"
  obtains
    (kept) "\<not> br_accepted br" "br_replacement br = []" "br_cache_key br = []" "st' = sg_backing g"
  | (accepted) "br_accepted br" "br_tokens_before br = tok text" "br_tokens_after br = tok (br_replacement br)"
      "br_tokens_after br < br_tokens_before br" "br_cache_key br = compute_key (dg_blake3 D) text"
      "pr_output res \<noteq> []" "pr_output res \<noteq> text" "br_replacement br = marked_text D text (pr_output res)"
      "st' = staging_commit ops g"
proof -
  have "(\<not> br_accepted br \<and> br_replacement br = [] \<and> br_cache_key br = [] \<and> st' = sg_backing g)
     \<or> (br_accepted br \<and> br_tokens_before br = tok text \<and> br_tokens_after br = tok (br_replacement br)
        \<and> br_tokens_after br < br_tokens_before br \<and> br_cache_key br = compute_key (dg_blake3 D) text
        \<and> pr_output res \<noteq> [] \<and> pr_output res \<noteq> text \<and> br_replacement br = marked_text D text (pr_output res)
        \<and> st' = staging_commit ops g)"
    using assms
    by (cases "pr_output res = [] \<or> pr_output res = text"; cases "tok (marked_text D text (pr_output res)) < tok text")
       (simp_all add: compress_block_def no_op_def accepts_i5_def Let_def, auto)
  then show ?thesis using that by blast
qed

context ccr_store
begin

lemma all_resolve_spec:
  "inv st \<Longrightarrow> inv (snd (all_resolve ops hs st)) \<and> view (snd (all_resolve ops hs st)) = view st
     \<and> (fst (all_resolve ops hs st) \<longleftrightarrow> (\<forall>h\<in>set hs. view st h \<noteq> None))"
proof (induction hs arbitrary: st)
  case (Cons h hs)
  obtain r st' where g: "st_get ops h st = (r, st')" by (cases "st_get ops h st")
  have "r = view st h" "view st' = view st" "inv st'"
    using get_view [OF Cons.prems, of h] get_keeps [OF Cons.prems, of h] get_inv [OF Cons.prems, of h] g by simp_all
  then show ?case using Cons.IH [of st'] g by (cases "view st h") simp_all
qed simp

lemma store_resolves_spec:
  assumes "inv st"
  shows "inv (snd (store_resolves ops hash original repl st)) \<and> view (snd (store_resolves ops hash original repl st)) = view st
     \<and> (fst (store_resolves ops hash original repl st) \<longleftrightarrow>
          view st hash = Some original \<and> (\<forall>h\<in>set (hashes_in repl). view st h \<noteq> None))"
proof -
  obtain r st' where g: "st_get ops hash st = (r, st')" by (cases "st_get ops hash st")
  have "r = view st hash" "view st' = view st" "inv st'"
    using get_view [OF assms, of hash] get_keeps [OF assms, of hash] get_inv [OF assms, of hash] g by simp_all
  then show ?thesis
    using all_resolve_spec [of st' "hashes_in repl"] g by (cases "view st hash") (simp_all add: store_resolves_def)
qed

text \<open>What one block leaves behind.\<close>

lemma compress_block_spec:
  assumes "inv st" and "compress_block D text ctx (Some R) (Some ops) tok st = (br, st')" and "router_ok ops R"
  shows "inv st'
     \<and> (\<not> br_accepted br \<longrightarrow> view st' = view st \<and> br_replacement br = [] \<and> br_cache_key br = [])
     \<and> (br_accepted br \<longrightarrow> br_tokens_before br = tok text \<and> br_tokens_after br = tok (br_replacement br)
          \<and> br_tokens_after br < br_tokens_before br \<and> br_cache_key br = compute_key (dg_blake3 D) text
          \<and> (\<exists>out. out \<noteq> [] \<and> out \<noteq> text \<and> br_replacement br = marked_text D text out))"
proof -
  obtain res g where r: "R (staging_ops ops) text ctx (staging_new st) = (res, g)"
    by (cases "R (staging_ops ops) text ctx (staging_new st)")
  have "store_reach (staging_ops ops) (staging_new st) g"
    using assms(3) r unfolding router_ok_def by (metis snd_conv)
  then have g: "staging_inv inv g" "view (sg_backing g) = view st"
    using staged_reach [OF _ staging_new_inv [of inv, OF assms(1)]] by (auto simp: staging_new_def)
  then have "inv (sg_backing g)" by (simp add: staging_inv_def)
  with assms(2) r show ?thesis
    using g commit_inv [OF g(1)] by (elim compress_block_shape) auto
qed

end

context lossless_store
begin

text \<open>A lossless store keeps everything it resolved.\<close>

lemma staged_dom:
  assumes "store_reach (staging_ops ops) g g'" and "staging_inv inv g"
  shows "dom (staging_view view g) \<subseteq> dom (staging_view view g')"
  using staged_reach [OF assms] staged_reach_mono [OF assms(1)] by (auto simp: staging_view_def)

lemma compress_block_keeps:
  assumes "inv st" and "compress_block D text ctx (Some R) (Some ops) tok st = (br, st')" and "router_ok ops R"
  shows "dom (view st) \<subseteq> dom (view st')"
proof -
  obtain res g where r: "R (staging_ops ops) text ctx (staging_new st) = (res, g)"
    by (cases "R (staging_ops ops) text ctx (staging_new st)")
  have reach: "store_reach (staging_ops ops) (staging_new st) g"
    using assms(3) r unfolding router_ok_def by (metis snd_conv)
  have new: "staging_inv inv (staging_new st)" by (rule staging_new_inv [of inv, OF assms(1)])
  have g: "staging_inv inv g" "view (sg_backing g) = view st"
    using staged_reach [OF reach new] by (auto simp: staging_new_def)
  have "dom (view st) \<subseteq> dom (view (staging_commit ops g))"
    using staged_dom [OF reach new] commit_view_exact [OF g(1)] by (simp add: staging_view_def staging_new_def)
  with assms(2) r g show ?thesis by (elim compress_block_shape) auto
qed

end

end
