(* ===== verification/DefaultRouter.thy ===== *)
theory DefaultRouter
  imports Offloads JsonMinifier LogTemplate CompressBlock
begin

text \<open>
  \<open>internal/router\<close>: the content type is detected and the pipeline of the registered transforms
  runs on the content (\<open>router.go\<close>); \<open>NewDefault\<close> (\<open>default.go\<close>) registers two reformats and five
  offloads, in this order.
\<close>

definition new_default :: "offload_env \<Rightarrow> 's pipeline" where
  "new_default E =
     build (with_offload (text_offload E) (with_offload (log_offload E) (with_offload (json_offload E)
       (with_offload (diff_offload E) (with_offload (diff_noise_offload E)
         (with_reformat log_template (with_reformat json_minifier new_builder)))))))"

definition router_compress :: "'s pipeline \<Rightarrow> 's router" where
  "router_compress p = (\<lambda>ops content ctx st. pipeline_run ops p content (dr_type (detect_content_type content)) ctx st)"

definition default_router :: "offload_env \<Rightarrow> 's router" where
  "default_router E = router_compress (new_default E)"

text \<open>What the reformats of the router make of a content: the text its offloads see and store.\<close>

definition reformatted :: "string \<Rightarrow> string" where
  "reformatted content =
     fst (run_reformats default_config (length content)
       (case dr_type (detect_content_type content) of JsonArray \<Rightarrow> [json_minifier] | BuildOutput \<Rightarrow> [log_template] | _ \<Rightarrow> [])
       content [] 0)"

section \<open>Registration\<close>

lemma default_reformats:
  "pl_reformats_by_type (new_default E) ct
     = (case ct of JsonArray \<Rightarrow> [json_minifier] | BuildOutput \<Rightarrow> [log_template] | _ \<Rightarrow> [])"
  by (cases ct) (simp_all add: new_default_def build_def with_offload_def with_reformat_def new_builder_def
      json_minifier_def log_template_def)

lemma default_offloads:
  "pl_offloads_by_type (new_default E) ct
     = (case ct of GitDiff \<Rightarrow> [diff_noise_offload E, diff_offload E] | JsonArray \<Rightarrow> [json_offload E]
        | BuildOutput \<Rightarrow> [log_offload E] | PlainText \<Rightarrow> [text_offload E] | _ \<Rightarrow> [])"
  by (cases ct) (simp_all add: new_default_def build_def with_offload_def with_reformat_def new_builder_def
      diff_noise_offload_def diff_offload_def json_offload_def log_offload_def text_offload_def)

lemma default_config_used: "pl_config (new_default E) = default_config"
  by (simp add: new_default_def build_def with_offload_def with_reformat_def new_builder_def)

lemma default_reformat_contracts: "\<forall>rf\<in>set (pl_reformats_by_type (new_default E) ct). reformat_contract rf"
  using minifier.reformat_contract_axioms templater.reformat_contract_axioms
  by (cases ct) (simp_all add: default_reformats)

lemma default_offloads_store:
  "off \<in> set (pl_offloads_by_type (new_default E) ct) \<Longrightarrow> stores_original (oe_md5 E) off"
  using diff_noise_stores diff_offload_stores json_offload_stores log_offload_stores text_offload_stores
  by (cases ct) (auto simp: default_offloads)

lemma default_offload_contracts: "\<forall>off\<in>set (pl_offloads_by_type (new_default E) ct). offload_contract off"
  using default_offloads_store stores_original_contract by blast

section \<open>Lemmas\<close>

lemma names_key_found: "names_key w key \<Longrightarrow> is_key key \<Longrightarrow> key \<in> set (hashes_in w)"
proof -
  assume "names_key w key" and k: "is_key key"
  then obtain u v where w: "w = u @ ''hash='' @ key @ v" unfolding names_key_def by blast
  have "drop (length u) w = ''hash='' @ key @ v" by (simp add: w)
  then have "match_hash (drop (length u) w) = Some (key, v)" using k match_hash_iff by blast
  then show ?thesis by (auto simp: hashes_in_def set_dedup_hashes set_find_hashes)
qed

lemma default_router_reach:
  fixes ops :: "'s store_ops"
  shows "store_reach ops st (snd (default_router E ops content ctx st))"
proof -
  let ?p = "new_default E :: 's pipeline"
  let ?ct = "dr_type (detect_content_type content)"
  obtain r st' where r: "default_router E ops content ctx st = (r, st')" by fastforce
  then have run: "pipeline_run ops ?p content ?ct ctx st = (r, st')" by (simp add: default_router_def router_compress_def)
  obtain cur steps saved ratio where "run_offloads ops (pl_config ?p) ratio ctx
      (pl_offloads_by_type ?p ?ct) cur steps saved st = (r, st')"
    using pipeline_run_phases [OF run] by blast
  from run_offloads_outcome [OF default_offload_contracts this] have "store_reach ops st st'"
  proof (cases rule: offload_outcome.cases)
    case (one off st0 out)
    have "offload_contract off" using one(2) default_offload_contracts by blast
    then have "store_reach ops st0 st'" by (rule offload_contract.off_reach) (rule one(5))
    then show ?thesis using one(3) by (rule store_reach_trans)
  next
    case none
    then show ?thesis by simp
  qed
  then show ?thesis by (simp add: r)
qed

lemma default_router_ok: "router_ok ops (default_router E)"
  by (simp add: router_ok_def default_router_reach)

context ccr_store
begin

lemma default_router_keys:
  assumes "inv st" "\<forall>s. length (oe_md5 E s) = 16" "int (length content) \<le> max_int"
    and r: "default_router E ops content ctx st = (r, st')" and key: "key \<in> set (pr_cache_keys r)"
  shows "key \<in> set (hashes_in (pr_output r))
    \<and> view st' key = Some (reformatted content) \<and> length (pr_output r) < length (reformatted content)
    \<and> length (reformatted content) \<le> length content"
proof -
  let ?p = "new_default E :: 's pipeline" and ?ct = "dr_type (detect_content_type content)"
  have run: "pipeline_run ops ?p content ?ct ctx st = (r, st')"
    using r by (simp add: default_router_def router_compress_def)
  obtain cur steps saved ratio
    where p1: "run_reformats (pl_config ?p) (length content) (pl_reformats_by_type ?p ?ct) content [] 0 = (cur, steps, saved)"
      and p2: "run_offloads ops (pl_config ?p) ratio ctx (pl_offloads_by_type ?p ?ct) cur steps saved st = (r, st')"
    using pipeline_run_phases [OF run] by blast
  have acc: "saved + int (length cur) = int (length content)" "0 \<le> saved"
    using run_reformats_accounting [OF default_reformat_contracts p1] assms(3) by auto
  have cur: "cur = reformatted content" using p1 by (simp add: reformatted_def default_reformats default_config_used)
  from run_offloads_outcome [OF default_offload_contracts p2] show ?thesis
  proof (cases rule: offload_outcome.cases)
    case none
    then show ?thesis using key by simp
  next
    case (one off st0 out)
    have i: "inv st0" using reach_inv [OF one(3) assms(1)] .
    have c: "offload_contract off" using one(2) default_offload_contracts by blast
    have st: "stores_original (oe_md5 E) off" using one(2) by (rule default_offloads_store)
    have k: "key = oo_cache_key out" using key one(1) by simp
    have v: "view st' key = Some cur" using offload_contract.off_resolves [OF c one(5) ccr_store_axioms i] k by simp
    have "names_key (oo_output out) (oo_cache_key out) \<and> oo_cache_key out = compute_key_md5 (oe_md5 E) cur"
      by (rule stores_original_cases [OF st, where ops = ops and st = st0 and c = cur and ctx = ctx]) (use one(5) in auto)
    moreover have "is_key (compute_key_md5 (oe_md5 E) cur)" using assms(2) compute_key_md5_is_key by blast
    ultimately have "key \<in> set (hashes_in (pr_output r))" unfolding k one(1) pipeline_result.select_convs
      using names_key_found by metis
    moreover have "length (oo_output out) < length cur" using offload_contract.off_used [OF c one(5,6)] by simp
    moreover have "length cur \<le> length content" using acc by linarith
    ultimately show ?thesis using v one(1) cur by auto
  qed
qed

end

lemma router_default_run: "default_router E ops content ctx st
    = pipeline_run ops (new_default E) content (dr_type (detect_content_type content)) ctx st"
  by (simp add: default_router_def router_compress_def)

section \<open>Properties\<close>

text \<open>C19. The shipped router is recoverable on every store that keeps the store's contract: what it reports
  as saved is exactly what it removed, and a key it emits is named by the output in the form the
  retrieval side recognises, resolves to the text the offload saw, and stands for a strictly
  longer text. That text is the content after the lossless reformats.\<close>

theorem router_recoverable:
  assumes "ccr_store ops sinv view" and "sinv st" and "\<forall>s. length (oe_md5 E s) = 16"
    and "int (length content) \<le> max_int" and "default_router E ops content ctx st = (r, st')"
  shows "pr_bytes_saved r = int (length content) - int (length (pr_output r)) \<and> 0 \<le> pr_bytes_saved r
    \<and> sinv st' \<and> length (pr_cache_keys r) \<le> 1
    \<and> (\<forall>key\<in>set (pr_cache_keys r). key \<in> set (hashes_in (pr_output r))
         \<and> view st' key = Some (reformatted content)
         \<and> length (pr_output r) < length (reformatted content) \<and> length (reformatted content) \<le> length content)"
proof -
  have sound: "pr_bytes_saved r = int (length content) - int (length (pr_output r)) \<and> 0 \<le> pr_bytes_saved r
      \<and> length (pr_cache_keys r) \<le> 1"
    using pipeline_run_sound [OF default_reformat_contracts default_offload_contracts assms(4)
      assms(5) [unfolded router_default_run]] by blast
  have "store_reach ops st st'" using default_router_reach [of ops st E content ctx] assms(5) by simp
  then have "sinv st'" using ccr_store.reach_inv [OF assms(1)] assms(2) by blast
  then show ?thesis using sound ccr_store.default_router_keys [OF assms(1-5)] by blast
qed

definition sample_env :: offload_env where
  "sample_env = \<lparr>oe_unicode = ascii_tables, oe_gjson = table_gjson [(''file_path'', \<lparr>g_type = GString, g_raw = [], g_str = ''main.rb'', g_index = 0\<rparr>)] [] [], oe_md5 = (\<lambda>_. replicate 16 CHR ''a''),
     oe_crush = (\<lambda>_ _ _. \<lparr>cr_compressed = ''[]'', cr_was_modified = True\<rparr>)\<rparr>"

definition sample_rows :: json where "sample_rows = JArr (replicate 60 (JObj []))"

definition sample_json :: string where "sample_json = ''['' @ concat (replicate 59 ''{},'') @ ''{}]''"

lemma sample_json_parses: "parse_json max_nesting sample_json = Some sample_rows"
proof -
  have "encode_json sample_rows = sample_json" unfolding sample_rows_def sample_json_def by code_simp
  moreover have "json_ok sample_rows" unfolding sample_rows_def by code_simp
  moreover have "depth sample_rows \<le> max_nesting" by (simp add: sample_rows_def max_nesting_def)
  ultimately show ?thesis using parse_json_encode by metis
qed

lemma sample_json_detected: "dr_type (detect_content_type sample_json) = JsonArray"
proof -
  have "trim_space sample_json = sample_json" "has_prefix sample_json ''[''" unfolding sample_json_def by code_simp+
  moreover have "sample_json \<noteq> ''''" by (simp add: sample_json_def)
  ultimately show ?thesis
    by (simp add: detect_content_type_def looks_like_json_array_def sample_json_parses sample_rows_def)
qed

lemma sample_json_bloat: "1/2 \<le> json_estimate_bloat 5 50 sample_json"
  unfolding sample_json_def by code_simp

definition sample_ctx :: compression_context where
  "sample_ctx = \<lparr>cx_query = [], cx_token_budget = None, cx_producing_tool = ''Read'', cx_tool_command = [],
     cx_tool_input = ''{}'', cx_prior_reads = 0\<rparr>"

definition sample_st :: sqlite where
  "sample_st = \<lparr>sq_rows = Map.empty, sq_ttl = 0, sq_now = 1, sq_up = True\<rparr>"

definition sample_key :: string where "sample_key = concat (replicate 12 ''61'')"

lemma sample_minified: "json_minifier_apply sample_json = Inr \<lparr>ro_output = sample_json, ro_bytes_saved = 0\<rparr>"
proof -
  have "sort_members sample_rows = sample_rows" "encode_json sample_rows = sample_json" "trim_space sample_json = sample_json"
    unfolding sample_rows_def sample_json_def by code_simp+
  moreover have "sample_json \<noteq> ''''" by (simp add: sample_json_def)
  ultimately show ?thesis by (simp add: json_minifier_apply_def sample_json_parses minify_def)
qed

lemma sample_run:
  "default_router sample_env sql_ops sample_json sample_ctx sample_st
     = (\<lparr>pr_output = ''[]'' @ [NL] @ ''[json_offload CCR: hash='' @ sample_key @ '']'', pr_bytes_saved = 129,
         pr_steps_applied = [''json_offload''], pr_cache_keys = [sample_key]\<rparr>, sql_put sample_key sample_json sample_st)"
proof -
  have key: "compute_key_md5 (\<lambda>_. replicate 16 CHR ''a'') sample_json = sample_key"
    unfolding sample_key_def by code_simp
  have add: "saturating_add 0 129 = 129" by code_simp
  have len: "length sample_json = 181" "length sample_key = 24" unfolding sample_json_def sample_key_def by code_simp+
  show ?thesis
    using sample_json_bloat
    by (simp add: router_default_run sample_json_detected pipeline_run_def default_reformats default_offloads
        default_config_used default_config_def sample_minified json_minifier_def json_offload_def len key from_lengths_def
        sql_ops_def sample_env_def Let_def add)
qed

theorem router_recoverable_witness:
  "sample_key \<in> set (hashes_in (''[]'' @ [NL] @ ''[json_offload CCR: hash='' @ sample_key @ '']''))
    \<and> sql_view (sql_put sample_key sample_json sample_st) sample_key = Some (reformatted sample_json)
    \<and> length (reformatted sample_json) \<le> length sample_json"
proof -
  have pre: "sq_up sample_st" "\<forall>s. length (oe_md5 sample_env s) = 16" by (simp_all add: sample_st_def sample_env_def)
  have "int (length sample_json) = 181" unfolding sample_json_def by code_simp
  then have "int (length sample_json) \<le> max_int" by (simp add: max_int_def)
  from router_recoverable [OF sql.ccr_store_axioms pre this sample_run] show ?thesis by simp
qed

text \<open>C20. A protected file read whose detected type is neither a JSON array nor a diff is never offloaded: no
  key is emitted and the store is untouched. Only build output is reformatted; any other type
  comes back byte for byte.\<close>

theorem router_protected_read:
  assumes "is_protected_read E ctx ct" and "dr_type (detect_content_type content) = ct"
    and "ct \<notin> {JsonArray, GitDiff}" and "default_router E ops content ctx st = (r, st')"
  shows "st' = st \<and> pr_cache_keys r = [] \<and> pr_output r = reformatted content
    \<and> (ct \<noteq> BuildOutput \<longrightarrow> pr_output r = content \<and> pr_bytes_saved r = 0 \<and> pr_steps_applied r = [])"
proof -
  have run: "pipeline_run ops (new_default E) content ct ctx st = (r, st')"
    using assms(2,4) unfolding router_default_run by simp
  obtain cur steps saved ratio
    where p1: "run_reformats default_config (length content) (pl_reformats_by_type (new_default E :: 'a pipeline) ct) content [] 0
        = (cur, steps, saved)"
      and p2: "run_offloads ops default_config ratio ctx (pl_offloads_by_type (new_default E) ct) cur steps saved st = (r, st')"
    using pipeline_run_phases [OF run] unfolding default_config_used by blast
  have "cur = reformatted content" using p1 assms(2) by (simp add: reformatted_def default_reformats)
  moreover have "r = \<lparr>pr_output = cur, pr_bytes_saved = saved, pr_steps_applied = steps, pr_cache_keys = []\<rparr> \<and> st' = st"
    using p2 assms(1,3)
    by (cases ct) (auto simp: default_offloads text_offload_def log_offload_def Let_def split: if_splits)
  moreover have "ct \<noteq> BuildOutput \<Longrightarrow> cur = content \<and> steps = [] \<and> saved = 0"
    using p1 assms(3) by (cases ct) (auto simp: default_reformats)
  ultimately show ?thesis by auto
qed

theorem router_protected_read_witness:
  "snd (default_router sample_env sql_ops ''x = 1'' sample_ctx sample_st) = sample_st
    \<and> pr_output (fst (default_router sample_env sql_ops ''x = 1'' sample_ctx sample_st)) = ''x = 1''"
proof -
  have "is_protected_read sample_env sample_ctx PlainText" unfolding sample_env_def sample_ctx_def by code_simp
  moreover have "dr_type (detect_content_type ''x = 1'') = PlainText" by code_simp
  ultimately show ?thesis
    using router_protected_read [of sample_env sample_ctx PlainText "''x = 1''" sql_ops sample_st
        "fst (default_router sample_env sql_ops ''x = 1'' sample_ctx sample_st)"
        "snd (default_router sample_env sql_ops ''x = 1'' sample_ctx sample_st)"]
    by fastforce
qed

end
