(* ===== verification/CrushStats.thy ===== *)
theory CrushStats
  imports CrushTypes
begin

text \<open>
  The numeric helpers of the crusher: \<open>statsmath.go\<close> (mean, sample variance, standard deviation,
  median), \<open>statistics.go\<close> (UUID shape, entropy, sequences) and \<open>fielddetect.go\<close> (identifier and score
  columns). \<open>None\<close> is the second result \<open>false\<close> of a helper.
\<close>

section \<open>Leaf statistics\<close>

definition fl_sum :: "fl list \<Rightarrow> fl" where "fl_sum vs = fold (\<lambda>v acc. fl_add acc v) vs (Fin 0)"

definition finite_opt :: "fl \<Rightarrow> fl option" where "finite_opt x = (if is_finite x then Some x else None)"

definition fl_mean :: "fl list \<Rightarrow> fl option" where
  "fl_mean vs = (if vs = [] then None else finite_opt (fl_div (fl_sum vs) (fl_of_nat (length vs))))"

definition sample_variance :: "fl list \<Rightarrow> fl option" where
  "sample_variance vs =
     (if length vs < 2 then None
      else (case fl_mean vs of
              None \<Rightarrow> None
            | Some m \<Rightarrow> finite_opt (fl_div (fl_sum (map (\<lambda>v. let d = fl_sub v m in fl_mul d d) vs)) (fl_of_nat (length vs - 1)))))"

definition sample_stdev :: "fl list \<Rightarrow> fl option" where
  "sample_stdev vs = map_option fl_sqrt (sample_variance vs)"

definition fl_median :: "fl list \<Rightarrow> fl option" where
  "fl_median vs =
     (if vs = [] then None
      else (let cp = sort vs; n = length cp
            in if even n then Some (fl_div (fl_add (cp ! (n div 2 - 1)) (cp ! (n div 2))) (Fin 2)) else Some (cp ! (n div 2))))"

definition mean_or_zero :: "fl list \<Rightarrow> fl" where
  "mean_or_zero vs = (case fl_mean vs of None \<Rightarrow> Fin 0 | Some m \<Rightarrow> m)"

text \<open>\<open>asFloat64\<close>: JSON numbers in range only.\<close>

fun as_float64 :: "json \<Rightarrow> rat option" where
  "as_float64 (JNum m) = parse_float m"
| "as_float64 _ = None"

section \<open>Strings\<close>

definition is_ascii_hex :: "char \<Rightarrow> bool" where
  "is_ascii_hex c \<longleftrightarrow> is_digit c \<or> 97 \<le> ord c \<and> ord c \<le> 102 \<or> 65 \<le> ord c \<and> ord c \<le> 70"

definition is_uuid_format :: "string \<Rightarrow> bool" where
  "is_uuid_format s \<longleftrightarrow>
     length s = 36 \<and> map length (split_on CHR ''-'' s) = [8, 4, 4, 4, 12]
     \<and> list_all (list_all is_ascii_hex) (split_on CHR ''-'' s)"

text \<open>Shannon entropy over runes, normalised. The sum runs in the order of the Go map.\<close>

definition rune_counts :: "nat list \<Rightarrow> nat list" where
  "rune_counts rs = map (\<lambda>r. length (filter (\<lambda>q. q = r) rs)) (remdups rs)"

definition string_entropy :: "crush_env \<Rightarrow> string \<Rightarrow> rat" where
  "string_entropy E s =
     (let rs = runes s; n = length rs in
      if n < 2 then 0
      else
        (let len = of_nat n; counts = rune_counts rs;
             entropy = fold (\<lambda>c acc. let p = f64 (of_nat c / len) in f64 (acc - f64 (p * ce_log2 E p))) (ce_map_order E counts) 0;
             max_entropy = ce_log2 E (of_nat (min n (length counts)))
         in if 0 < max_entropy then f64 (entropy / max_entropy) else 0))"

text \<open>\<open>pythonIntParse\<close>.\<close>

definition python_int_parse :: "string \<Rightarrow> int option" where
  "python_int_parse s =
     (let t = trim_space s in
      if t = [] then None
      else if CHR ''_'' \<in> set t \<and> (hd t = CHR ''_'' \<or> last t = CHR ''_'' \<or> contains t ''__'') then None
      else parse_int64 (filter (\<lambda>c. c \<noteq> CHR ''_'') t))"

section \<open>Sequences\<close>

text \<open>The numbers of the sample; \<open>True\<close> marks those that were JSON numbers.\<close>

fun seq_number :: "json \<Rightarrow> (rat \<times> bool) option" where
  "seq_number (JNum m) = map_option (\<lambda>f. (f, True)) (parse_float m)"
| "seq_number (JStr t) = map_option (\<lambda>n. (f64 (of_int n), False)) (python_int_parse t)"
| "seq_number _ = None"

fun diffs :: "rat list \<Rightarrow> fl list" where
  "diffs (x # y # xs) = round_fl (y - x) # diffs (y # xs)"
| "diffs _ = []"

fun ascending_pairs :: "rat list \<Rightarrow> nat" where
  "ascending_pairs (x # y # xs) = (if x \<le> y then 1 else 0) + ascending_pairs (y # xs)"
| "ascending_pairs _ = 0"

definition seq_step :: "fl \<Rightarrow> bool" where "seq_step d \<longleftrightarrow> fl_le (Fin (1/2)) d \<and> fl_le d (Fin 2)"

definition detect_sequential :: "json list \<Rightarrow> bool \<Rightarrow> bool" where
  "detect_sequential values check_order =
     (if length values < 5 then False
      else
        (let found = List.map_filter seq_number values; nums = map fst found in
         if length nums < 5 then False
         else if \<not> list_ex snd found then False
         else
           (let ds = diffs (sort nums) in
            if \<not> seq_step (fl_div (fl_sum ds) (fl_of_nat (length ds))) then False
            else if \<not> f64 (8/10) < f64 (of_nat (length (filter seq_step ds)) / of_nat (length ds)) then False
            else if check_order
                 then f64 (7/10) < f64 (of_nat (ascending_pairs nums) / of_nat (length nums - 1))
                 else True)))"

section \<open>Identifier columns\<close>

definition detect_id_field :: "crush_env \<Rightarrow> field_stats \<Rightarrow> json list \<Rightarrow> bool \<times> rat" where
  "detect_id_field E st values =
     (if fs_unique_ratio st < f64 (9/10) then (False, 0)
      else
        (let strs = List.map_filter (\<lambda>v. case v of JStr s \<Rightarrow> Some s | _ \<Rightarrow> None) (take 20 values);
             n = of_nat (length strs);
             uuids = of_nat (length (filter is_uuid_format strs));
             avg = f64 (fold (\<lambda>s acc. f64 (acc + string_entropy E s)) strs 0 / n)
         in if fs_field_type st = ''string'' \<and> strs \<noteq> [] \<and> f64 (8/10) < f64 (uuids / n) then (True, f64 (95/100))
            else if fs_field_type st = ''string'' \<and> strs \<noteq> [] \<and> f64 (7/10) < avg \<and> f64 (95/100) < fs_unique_ratio st
            then (True, f64 (8/10))
            else if fs_field_type st = ''numeric'' \<and> detect_sequential values True \<and> f64 (95/100) < fs_unique_ratio st
            then (True, f64 (9/10))
            else if fs_field_type st = ''numeric'' \<and> f64 (95/100) < fs_unique_ratio st
                 \<and> (case (fs_min_val st, fs_max_val st) of (Some a, Some b) \<Rightarrow> fl_lt (Fin 0) (fl_sub b a) | _ \<Rightarrow> False)
            then (True, f64 (85/100))
            else if f64 (98/100) < fs_unique_ratio st then (True, f64 (7/10))
            else (False, 0)))"

section \<open>Score columns\<close>

text \<open>The range bonus; \<open>None\<close> when the column is not bounded.\<close>

definition range_bonus :: "fl \<Rightarrow> fl \<Rightarrow> rat option" where
  "range_bonus mn mx =
     (if fl_le (Fin 0) mn \<and> fl_le mx (Fin 1) then Some (f64 (4/10))
      else if fl_le (Fin 0) mn \<and> fl_le mx (Fin 10) then Some (f64 (3/10))
      else if fl_le (Fin 0) mn \<and> fl_le mx (Fin 100) then Some (1/4)
      else if fl_le (Fin (-1)) mn \<and> fl_le mx (Fin 1) then Some (f64 (35/100))
      else None)"

text \<open>The value a row has under a key, \<open>om.Get\<close>.\<close>

definition member :: "string \<Rightarrow> json \<Rightarrow> json option" where
  "member k v = (case v of JObj ms \<Rightarrow> map_of ms k | _ \<Rightarrow> None)"

definition descending_pairs :: "rat list \<Rightarrow> nat" where
  "descending_pairs xs = length (filter (\<lambda>(x, y). y \<le> x) (zip xs (tl xs)))"

definition detect_score_field :: "field_stats \<Rightarrow> json list \<Rightarrow> bool \<times> rat" where
  "detect_score_field st items =
     (if fs_field_type st \<noteq> ''numeric'' then (False, 0)
      else
        (case (fs_min_val st, fs_max_val st) of
           (Some mn, Some mx) \<Rightarrow>
             (case range_bonus mn mx of
                None \<Rightarrow> (False, 0)
              | Some c0 \<Rightarrow>
                  (let present = List.map_filter (member (fs_name st)) items in
                   if detect_sequential (take 50 present) True then (False, 0)
                   else
                     (let vs = List.map_filter as_float64 present; pairs = length vs - 1;
                          c1 = (if 5 \<le> length vs \<and> f64 (7/10) < f64 (of_nat (descending_pairs vs) / of_nat pairs)
                                then f64 (c0 + f64 (3/10)) else c0);
                          first = take 20 vs;
                          floats = length (filter (\<lambda>v. of_int (trunc v) \<noteq> v) first);
                          c2 = (if first \<noteq> [] \<and> f64 (of_nat (length first) * f64 (3/10)) < of_nat floats
                                then f64 (c1 + f64 (1/10)) else c1)
                      in (f64 (4/10) \<le> c2, min c2 (f64 (95/100))))))
         | _ \<Rightarrow> (False, 0)))"

section \<open>Lemmas\<close>

lemma finite_opt_Some: "finite_opt x = Some y \<longleftrightarrow> x = y \<and> is_finite x"
  by (auto simp: finite_opt_def)

text \<open>Every reported statistic is finite.\<close>

lemma fl_mean_finite: "fl_mean vs = Some m \<Longrightarrow> is_finite m"
  by (auto simp: fl_mean_def finite_opt_Some split: if_splits)

lemma sample_variance_finite: "sample_variance vs = Some v \<Longrightarrow> is_finite v"
  by (auto simp: sample_variance_def finite_opt_Some split: if_splits option.splits)

lemma mean_or_zero_finite: "is_finite (mean_or_zero vs)"
  by (cases "fl_mean vs") (auto simp: mean_or_zero_def is_finite_def dest: fl_mean_finite)

lemma fl_mul_self_nonneg: "fl_mul d d = NaN \<or> fl_le (Fin 0) (fl_mul d d)"
proof (cases d)
  case (Fin r)
  have "round_fl (r * r) = Fin 0 \<or> fl_le (Fin 0) (round_fl (r * r))"
    by (auto simp: round_fl_def Let_def sgn_if zero_less_mult_iff intro!: mult_nonneg_nonneg rne_ge)
  then show ?thesis by (auto simp: fl_mul_def Fin)
qed (auto simp: fl_mul_def inf_of_def)

text \<open>A column with few distinct values is never an identifier, and the confidences are fixed.\<close>

lemma detect_id_gate: "fst (detect_id_field E st values) \<Longrightarrow> f64 (9/10) \<le> fs_unique_ratio st"
  by (auto simp: detect_id_field_def not_less split: if_splits)

text \<open>A sequence is never a score.\<close>

lemma sequence_not_score:
  "detect_sequential (take 50 (List.map_filter (member (fs_name st)) items)) True
     \<Longrightarrow> detect_score_field st items = (False, 0)"
  by (simp add: detect_score_field_def Let_def split: option.splits)

text \<open>Numeric strings alone are no sequence.\<close>

lemma strings_not_sequence: "list_all is_str values \<Longrightarrow> \<not> detect_sequential values check"
proof -
  assume a: "list_all is_str values"
  have "\<not> snd y" if "y \<in> set (List.map_filter seq_number values)" for y
  proof -
    obtain v where "v \<in> set values" "seq_number v = Some y"
      using \<open>y \<in> set (List.map_filter seq_number values)\<close> by (auto simp: List.map_filter_def)
    moreover from this have "is_str v" using a by (auto simp: list_all_iff)
    ultimately show ?thesis by (cases v rule: json.exhaust) auto
  qed
  then have "\<not> list_ex snd (List.map_filter seq_number values)" by (auto simp: list_ex_iff)
  then show ?thesis by (simp add: detect_sequential_def Let_def)
qed

end
