(* ===== verification/CrushOutliers.thy ===== *)
theory CrushOutliers
  imports CrushTypes "HOL-Library.Product_Lexorder"
begin

text \<open>
  \<open>outliers.go\<close> and \<open>constraints.go\<close>: which rows must be kept. A row is an outlier when it carries a rare
  field, or a value outside the dominant cluster of a common field; it is an error row when its text
  contains an error keyword. Every result is a list of row indices.
\<close>

section \<open>Values as text\<close>

definition null_sentinel :: string where "null_sentinel = ''__none__''"

fun stringify_outlier :: "json \<Rightarrow> string" where
  "stringify_outlier JNull = null_sentinel"
| "stringify_outlier (JBool b) = (if b then ''true'' else ''false'')"
| "stringify_outlier (JNum m) = m"
| "stringify_outlier (JStr s) = s"
| "stringify_outlier v = marshal_json v"

section \<open>Rare values\<close>

definition row_keys :: "row \<Rightarrow> string list" where
  "row_keys r = (case r of None \<Rightarrow> [] | Some ms \<Rightarrow> map fst ms)"

definition row_get :: "string \<Rightarrow> row \<Rightarrow> json option" where
  "row_get k r = (case r of None \<Rightarrow> None | Some ms \<Rightarrow> map_of ms k)"

text \<open>\<open>field_counts\<close>: one per key of every object.\<close>

definition field_count :: "row list \<Rightarrow> string \<Rightarrow> nat" where
  "field_count items k = length (filter (\<lambda>q. q = k) (concat (map row_keys items)))"

definition field_names :: "row list \<Rightarrow> string list" where
  "field_names items = remdups (concat (map row_keys items))"

text \<open>The dominant cluster: values by descending count until they cover the threshold.\<close>

fun pareto_cluster :: "(string \<times> nat) list \<Rightarrow> nat \<Rightarrow> nat \<Rightarrow> string list" where
  "pareto_cluster [] cum threshold = []"
| "pareto_cluster ((k, c) # es) cum threshold =
     k # (if threshold \<le> cum + c then [] else pareto_cluster es (cum + c) threshold)"

definition column_values :: "row list \<Rightarrow> string \<Rightarrow> (nat \<times> json) list" where
  "column_values items k = List.map_filter (\<lambda>(i, r). map_option (\<lambda>v. (i, v)) (row_get k r)) (enumerate 0 items)"

definition value_count :: "(nat \<times> json) list \<Rightarrow> string \<Rightarrow> nat" where
  "value_count vs k = length (filter (\<lambda>(i, v). stringify_outlier v = k) vs)"

definition pareto_order :: "(nat \<times> json) list \<Rightarrow> (string \<times> nat) list" where
  "pareto_order vs =
     sort_key (\<lambda>(k, c). (- int c, k)) (map (\<lambda>k. (k, value_count vs k)) (remdups (map (stringify_outlier \<circ> snd) vs)))"

definition coverage_threshold :: "nat \<Rightarrow> nat" where
  "coverage_threshold n = nat \<lceil>f64 (of_nat n * f64 (8/10))\<rceil>"

text \<open>The rare rows of one common field.\<close>

definition rare_in_column :: "row list \<Rightarrow> string \<Rightarrow> nat list" where
  "rare_in_column items k =
     (let vs = column_values items k;
          distinct_values = remdups (map (stringify_outlier \<circ> snd) (filter (\<lambda>(i, v). v \<noteq> JNull) vs)) in
      if length distinct_values < 2 \<or> 50 < length distinct_values then []
      else
        (let top = pareto_cluster (pareto_order vs) 0 (coverage_threshold (length vs)) in
         if 5 < length top then []
         else map fst (filter (\<lambda>(i, v). stringify_outlier v \<notin> set top) vs)))"

definition detect_rare_status :: "row list \<Rightarrow> string list \<Rightarrow> nat list" where
  "detect_rare_status items common = concat (map (rare_in_column items) (sort common))"

section \<open>Structural outliers\<close>

definition common_fields :: "row list \<Rightarrow> string list" where
  "common_fields items =
     filter (\<lambda>k. f64 (of_nat (length items) * f64 (8/10)) \<le> of_nat (field_count items k)) (field_names items)"

definition rare_fields :: "row list \<Rightarrow> string list" where
  "rare_fields items =
     filter (\<lambda>k. of_nat (field_count items k) < f64 (of_nat (length items) * f64 (2/10))) (field_names items)"

definition has_rare_field :: "row list \<Rightarrow> nat \<Rightarrow> bool" where
  "has_rare_field items i = list_ex (\<lambda>k. k \<in> set (rare_fields items)) (row_keys (items ! i))"

definition detect_structural_outliers :: "row list \<Rightarrow> nat list" where
  "detect_structural_outliers items =
     (if length items < 5 then []
      else sorted_list_of_set (set (filter (has_rare_field items) [0..<length items])
                               \<union> set (detect_rare_status items (common_fields items))))"

section \<open>Error rows\<close>

text \<open>The text of row \<open>i\<close>: from the cache when there is one.\<close>

definition row_text :: "string list option \<Rightarrow> nat \<Rightarrow> obj \<Rightarrow> string" where
  "row_text cache i ms =
     (case cache of
        Some strs \<Rightarrow> if i < length strs then strs ! i else stringify_outlier (JObj ms)
      | None \<Rightarrow> stringify_outlier (JObj ms))"

definition is_error_text :: "crush_env \<Rightarrow> string \<Rightarrow> bool" where
  "is_error_text E s = list_ex (contains (to_lower (ce_lower E) s)) crush_error_keywords"

definition detect_error_items :: "crush_env \<Rightarrow> row list \<Rightarrow> string list option \<Rightarrow> nat list" where
  "detect_error_items E items cache =
     filter (\<lambda>i. case items ! i of None \<Rightarrow> False | Some ms \<Rightarrow> is_error_text E (row_text cache i ms)) [0..<length items]"

section \<open>Constraints\<close>

text \<open>The interface \<open>Constraint\<close>: a name, and the rows that must be kept.\<close>

record crush_constraint =
  cn_name :: string
  cn_must_keep :: "row list \<Rightarrow> string list option \<Rightarrow> nat list"

definition keep_errors :: "crush_env \<Rightarrow> crush_constraint" where
  "keep_errors E = \<lparr>cn_name = ''keep_errors'', cn_must_keep = detect_error_items E\<rparr>"

definition keep_structural_outliers :: crush_constraint where
  "keep_structural_outliers =
     \<lparr>cn_name = ''keep_structural_outliers'', cn_must_keep = (\<lambda>items _. detect_structural_outliers items)\<rparr>"

definition default_oss_constraints :: "crush_env \<Rightarrow> crush_constraint list" where
  "default_oss_constraints E = [keep_errors E, keep_structural_outliers]"

section \<open>Bounds\<close>

lemma column_values_iff:
  "(i, v) \<in> set (column_values items k) \<longleftrightarrow> i < length items \<and> row_get k (items ! i) = Some v"
  by (auto simp: column_values_def List.map_filter_def in_set_enumerate_eq image_iff split: option.splits)

lemma rare_in_column_bound: "i \<in> set (rare_in_column items k) \<Longrightarrow> i < length items"
  by (auto simp: rare_in_column_def Let_def column_values_iff split: if_splits)

lemma rare_status_bound: "i \<in> set (detect_rare_status items common) \<Longrightarrow> i < length items"
  by (auto simp: detect_rare_status_def dest: rare_in_column_bound)

lemma set_structural_outliers:
  "set (detect_structural_outliers items) =
     (if length items < 5 then {}
      else {i. i < length items \<and> has_rare_field items i} \<union> set (detect_rare_status items (common_fields items)))"
  by (auto simp: detect_structural_outliers_def)

lemma structural_outliers_bound: "i \<in> set (detect_structural_outliers items) \<Longrightarrow> i < length items"
  by (auto simp: set_structural_outliers dest: rare_status_bound split: if_splits)

lemma error_items_bound: "i \<in> set (detect_error_items E items cache) \<Longrightarrow> i < length items"
  by (auto simp: detect_error_items_def)

section \<open>The dominant cluster covers four fifths\<close>

lemma pareto_cluster_cover:
  "threshold \<le> cum + sum_list (map snd es) \<Longrightarrow> es \<noteq> [] \<Longrightarrow>
   distinct (map fst es) \<Longrightarrow>
   threshold \<le> cum + sum_list (map snd (filter (\<lambda>(k, c). k \<in> set (pareto_cluster es cum threshold)) es))"
proof (induction es cum threshold rule: pareto_cluster.induct)
  case (2 k c es cum threshold)
  show ?case
  proof (cases "threshold \<le> cum + c")
    case True
    then show ?thesis by simp
  next
    case False
    then have es: "es \<noteq> []" using 2(2) by auto
    have IH: "threshold \<le> cum + c + sum_list (map snd (filter (\<lambda>(q, d). q \<in> set (pareto_cluster es (cum + c) threshold)) es))"
      using 2 False es by (simp add: add.assoc)
    have "filter (\<lambda>(q, d). q = k \<or> q \<in> set (pareto_cluster es (cum + c) threshold)) es
        = filter (\<lambda>(q, d). q \<in> set (pareto_cluster es (cum + c) threshold)) es"
      using 2(4) by (intro filter_cong) (auto simp: image_iff split: prod.splits)
    then show ?thesis using False IH by (simp add: add.assoc)
  qed
qed simp

lemma sum_counts:
  "distinct ks \<Longrightarrow> sum_list (map (\<lambda>k. length (filter (\<lambda>x. f x = k) xs)) ks) = length (filter (\<lambda>x. f x \<in> set ks) xs)"
proof (induction ks)
  case (Cons k ks)
  have "length (filter (\<lambda>x. f x = k \<or> f x \<in> set ks) xs)
      = length (filter (\<lambda>x. f x = k) xs) + length (filter (\<lambda>x. f x \<in> set ks) xs)"
    using Cons.prems by (induction xs) auto
  then show ?case using Cons by simp
qed simp

lemma sum_filter_sort_key:
  "sum_list (map g (filter P (sort_key f xs))) = (sum_list (map g (filter P xs)) :: nat)"
proof -
  have "mset (map g (filter P (sort_key f xs))) = mset (map g (filter P xs))" by simp
  then show ?thesis by (metis sum_mset_sum_list)
qed

lemma pareto_order_sum:
  "sum_list (map snd (filter (\<lambda>(k, c). k \<in> S) (pareto_order vs)))
     = length (filter (\<lambda>(i, v). stringify_outlier v \<in> S) vs)"
proof -
  let ?ks = "filter (\<lambda>k. k \<in> S) (remdups (map (stringify_outlier \<circ> snd) vs))"
  have "sum_list (map snd (filter (\<lambda>(k, c). k \<in> S) (pareto_order vs)))
      = sum_list (map (\<lambda>k. length (filter (\<lambda>x. stringify_outlier (snd x) = k) vs)) ?ks)"
    by (simp add: pareto_order_def sum_filter_sort_key filter_map o_def value_count_def case_prod_unfold)
  also have "\<dots> = length (filter (\<lambda>x. stringify_outlier (snd x) \<in> set ?ks) vs)"
    by (rule sum_counts) simp
  also have "filter (\<lambda>x. stringify_outlier (snd x) \<in> set ?ks) vs = filter (\<lambda>(i, v). stringify_outlier v \<in> S) vs"
    by (rule filter_cong) auto
  finally show ?thesis .
qed

lemma distinct_pareto_order: "distinct (map fst (pareto_order vs))"
proof -
  have "mset (map f (sort_key g xs)) = mset (map f xs)" for f :: "string \<times> nat \<Rightarrow> string" and g :: "string \<times> nat \<Rightarrow> int \<times> string" and xs
    by (metis mset_map mset_sort)
  then have "mset (map fst (pareto_order vs)) = mset (map fst (map (\<lambda>k. (k, value_count vs k)) (remdups (map (stringify_outlier \<circ> snd) vs))))"
    unfolding pareto_order_def by blast
  also have "\<dots> = mset (remdups (map (stringify_outlier \<circ> snd) vs))" by (simp add: o_def)
  finally show ?thesis by (metis distinct_remdups mset_eq_imp_distinct_iff)
qed

lemma coverage_threshold_le: "n < 2 ^ 53 \<Longrightarrow> coverage_threshold n \<le> n"
proof -
  assume n: "n < 2 ^ 53"
  have c: "f64 (8/10) \<le> 1" using flt_mono [of 53 "8/10" 1] by simp
  then have "(of_nat n :: rat) * f64 (8/10) \<le> of_nat n" by (simp add: mult_left_le)
  then have "f64 (of_nat n * f64 (8/10)) \<le> f64 (of_nat n)" by (intro flt_mono) simp_all
  also have "\<dots> = of_nat n" using n by (simp add: flt_nat)
  finally have "\<lceil>f64 (of_nat n * f64 (8/10))\<rceil> \<le> int n" by (simp add: ceiling_le_iff)
  then show ?thesis by (simp add: coverage_threshold_def)
qed

text \<open>So a column never contributes more rows than the ones the threshold leaves over.\<close>

lemma rare_in_column_few:
  assumes "length items < 2 ^ 53"
  shows "length (rare_in_column items k) + coverage_threshold (length (column_values items k)) \<le> length (column_values items k)
         \<or> rare_in_column items k = []"
proof -
  let ?vs = "column_values items k"
  let ?th = "coverage_threshold (length ?vs)"
  let ?top = "pareto_cluster (pareto_order ?vs) 0 ?th"
  have len: "length ?vs \<le> length items"
    unfolding column_values_def List.map_filter_def by (simp add: le_trans [OF length_filter_le])
  show ?thesis
  proof (cases "rare_in_column items k = []")
    case False
    then have r: "rare_in_column items k = map fst (filter (\<lambda>(i, v). stringify_outlier v \<notin> set ?top) ?vs)"
      by (auto simp: rare_in_column_def Let_def split: if_splits)
    have ne: "?vs \<noteq> []" using False r by auto
    have "pareto_order ?vs \<noteq> []"
    proof
      assume "pareto_order ?vs = []"
      then have "mset (map (\<lambda>k. (k, value_count ?vs k)) (remdups (map (stringify_outlier \<circ> snd) ?vs))) = mset []"
        unfolding pareto_order_def by (metis mset_sort)
      then show False using ne by simp
    qed
    moreover have "?th \<le> 0 + sum_list (map snd (pareto_order ?vs))"
      using pareto_order_sum [of UNIV ?vs] coverage_threshold_le [of "length ?vs"] len assms by simp
    ultimately have "?th \<le> length (filter (\<lambda>(i, v). stringify_outlier v \<in> set ?top) ?vs)"
      using pareto_cluster_cover [of ?th 0 "pareto_order ?vs"] distinct_pareto_order pareto_order_sum [of "set ?top" ?vs] by simp
    moreover have "length (filter (\<lambda>(i, v). stringify_outlier v \<in> set ?top) ?vs)
        + length (filter (\<lambda>(i, v). stringify_outlier v \<notin> set ?top) ?vs) = length ?vs"
      using sum_length_filter_compl [of "\<lambda>(i, v). stringify_outlier v \<in> set ?top" ?vs] by (simp add: case_prod_unfold)
    ultimately show ?thesis by (simp add: r)
  qed simp
qed

section \<open>The cache of row texts matters\<close>

text \<open>Without a cache a row is searched in its HTML-escaped form, where \<open><rash\<close> reads \<open>\u003crash\<close>.\<close>

lemma error_cache_matters:
  fixes E :: crush_env
  defines "items \<equiv> [Some [(''a'', JStr ''<rash'')]]"
  shows "detect_error_items E items None = [0]
       \<and> detect_error_items E items (Some [encode_json (JObj [(''a'', JStr ''<rash'')])]) = []"
proof -
  let ?raw = "[CHR ''{'', CHR 0x22, CHR ''a'', CHR 0x22, CHR '':'', CHR 0x22] @ ''<rash'' @ [CHR 0x22, CHR ''}'']"
  let ?html = "[CHR ''{'', CHR 0x22, CHR ''a'', CHR 0x22, CHR '':'', CHR 0x22, CHR 0x5C] @ ''u003crash'' @ [CHR 0x22, CHR ''}'']"
  have e: "encode_json (JObj [(''a'', JStr ''<rash'')]) = ?raw" by (simp add: encode_json_string_def esc_ascii_def)
  have h: "html_escape ?raw = ?html" by code_simp
  have "is_error_text E ?html \<and> \<not> is_error_text E ?raw"
    by (simp add: is_error_text_def to_lower_def ascii_lower_def byte_defs crush_error_keywords_def)
  moreover have "marshal_json (JObj [(''a'', JStr ''<rash'')]) = ?html" by (simp only: marshal_json_def e h)
  ultimately show ?thesis
    by (simp add: items_def detect_error_items_def row_text_def e del: encode_json.simps)
qed

end
