(* ===== verification/CrushAnalyzer.thy ===== *)
theory CrushAnalyzer
  imports CrushStats CrushOutliers
begin

text \<open>
  \<open>analyzer.go\<close>: the statistics of every field of an array of objects, the pattern the array follows,
  and the verdict whether and how it may be sampled. Ratios of counts are rationals rounded by \<open>f64\<close>;
  values of the input are \<open>fl\<close>.
\<close>

section \<open>One field\<close>

text \<open>The value of a row under a key; a missing key counts as null (\<open>fieldValuesFor\<close>).\<close>

definition field_values :: "row list \<Rightarrow> string \<Rightarrow> json list" where
  "field_values items key = map (\<lambda>r. case row_get key r of None \<Rightarrow> JNull | Some v \<Rightarrow> v) items"

fun field_type_of :: "json \<Rightarrow> string" where
  "field_type_of (JBool b) = ''boolean''"
| "field_type_of (JNum m) = ''numeric''"
| "field_type_of (JStr s) = ''string''"
| "field_type_of (JObj ms) = ''object''"
| "field_type_of (JArr vs) = ''array''"
| "field_type_of JNull = ''unknown''"

fun cardinality_repr :: "json \<Rightarrow> string" where
  "cardinality_repr JNull = ''None''"
| "cardinality_repr (JBool b) = (if b then ''True'' else ''False'')"
| "cardinality_repr (JNum m) = m"
| "cardinality_repr (JStr s) = s"
| "cardinality_repr v = marshal_json v"

text \<open>The distinct texts in the order of their first occurrence, by descending count (stable).\<close>

definition top_n_by_count :: "string list \<Rightarrow> nat \<Rightarrow> top_value list" where
  "top_n_by_count strs n =
     take n (sort_key (\<lambda>t. - int (tv_count t))
       (map (\<lambda>s. \<lparr>tv_value = s, tv_count = length (filter (\<lambda>q. q = s) strs)\<rparr>) (rev (remdups (rev strs)))))"

text \<open>Keep the first change point, then every one more than a window past the last kept.\<close>

fun dedup_gap :: "nat \<Rightarrow> nat \<Rightarrow> nat list \<Rightarrow> nat list" where
  "dedup_gap w prev [] = []"
| "dedup_gap w prev (c # cs) = (if prev + w < c then c # dedup_gap w c cs else dedup_gap w prev cs)"

definition detect_change_points :: "crush_config \<Rightarrow> fl list \<Rightarrow> nat \<Rightarrow> nat list" where
  "detect_change_points cfg vs w =
     (if length vs < 2 * w then []
      else
        (case sample_stdev vs of
           None \<Rightarrow> []
         | Some std \<Rightarrow>
             if fl_le std (Fin 0) then []
             else
               (let threshold = fl_mul (Fin (kc_variance_threshold cfg)) std;
                    shift = (\<lambda>i. fl_abs (fl_sub (mean_or_zero (take w (drop i vs))) (mean_or_zero (take w (drop (i - w) vs)))))
                in (case filter (\<lambda>i. fl_lt threshold (shift i)) [w..<length vs - w] of
                      [] \<Rightarrow> []
                    | c # cs \<Rightarrow> c # dedup_gap w c cs))))"

definition change_point_window :: nat where "change_point_window = 5"

text \<open>The record before the numeric and string parts are filled in.\<close>

definition base_stats :: "string \<Rightarrow> json list \<Rightarrow> json list \<Rightarrow> field_stats" where
  "base_stats key values non_null =
     (let uc = length (remdups (map cardinality_repr values))
      in \<lparr>fs_name = key, fs_field_type = field_type_of (hd non_null), fs_count = length values, fs_unique_count = uc,
          fs_unique_ratio = f64 (of_nat uc / of_nat (length values)), fs_is_constant = (uc = 1),
          fs_constant_value = (if uc = 1 then Some (hd non_null) else None),
          fs_min_val = None, fs_max_val = None, fs_mean_val = None, fs_variance = None, fs_change_points = [],
          fs_avg_length = None, fs_top_values = []\<rparr>)"

definition null_stats :: "string \<Rightarrow> nat \<Rightarrow> field_stats" where
  "null_stats key n =
     \<lparr>fs_name = key, fs_field_type = ''null'', fs_count = n, fs_unique_count = 0, fs_unique_ratio = 0,
      fs_is_constant = True, fs_constant_value = None, fs_min_val = None, fs_max_val = None, fs_mean_val = None,
      fs_variance = None, fs_change_points = [], fs_avg_length = None, fs_top_values = []\<rparr>"

definition numeric_stats :: "crush_config \<Rightarrow> rat list \<Rightarrow> field_stats \<Rightarrow> field_stats" where
  "numeric_stats cfg nums st =
     (if nums = [] then st
      else
        (let vs = map Fin nums;
             var = (if 1 < length nums then (case sample_variance vs of Some v \<Rightarrow> v | None \<Rightarrow> Fin 0) else Fin 0)
         in case fl_mean vs of
              Some m \<Rightarrow>
                st\<lparr>fs_min_val := Some (Fin (fold min (tl nums) (hd nums))),
                   fs_max_val := Some (Fin (fold max (tl nums) (hd nums))),
                   fs_mean_val := Some m, fs_variance := Some var,
                   fs_change_points := detect_change_points cfg vs change_point_window\<rparr>
            | None \<Rightarrow> st\<lparr>fs_variance := Some (Fin 0)\<rparr>))"

definition string_stats :: "json list \<Rightarrow> field_stats \<Rightarrow> field_stats" where
  "string_stats non_null st =
     (let strs = List.map_filter (\<lambda>v. case v of JStr s \<Rightarrow> Some s | _ \<Rightarrow> None) non_null in
      if fs_field_type st = ''string'' \<and> strs \<noteq> []
      then st\<lparr>fs_avg_length := fl_mean (map (\<lambda>s. fl_of_nat (rune_count s)) strs),
              fs_top_values := top_n_by_count strs 5\<rparr>
      else st)"

definition analyze_field :: "crush_config \<Rightarrow> string \<Rightarrow> row list \<Rightarrow> field_stats" where
  "analyze_field cfg key items =
     (let values = field_values items key; non_null = filter (\<lambda>v. v \<noteq> JNull) values in
      if non_null = [] then null_stats key (length values)
      else string_stats non_null
             (numeric_stats cfg (List.map_filter as_float64 non_null) (base_stats key values non_null)))"

section \<open>Patterns\<close>

definition is_iso_date_prefix :: "string \<Rightarrow> bool" where
  "is_iso_date_prefix s \<longleftrightarrow>
     list_all (\<lambda>i. is_digit (s ! i)) [0, 1, 2, 3, 5, 6, 8, 9] \<and> s ! 4 = CHR ''-'' \<and> s ! 7 = CHR ''-''"

definition is_iso_datetime :: "string \<Rightarrow> bool" where
  "is_iso_datetime s \<longleftrightarrow>
     19 \<le> length s \<and> is_iso_date_prefix s \<and> (s ! 10 = CHR ''T'' \<or> s ! 10 = CHR '' '')
     \<and> list_all (\<lambda>i. is_digit (s ! i)) [11, 12, 14, 15, 17, 18] \<and> s ! 13 = CHR '':'' \<and> s ! 16 = CHR '':''"

definition is_iso_date :: "string \<Rightarrow> bool" where
  "is_iso_date s \<longleftrightarrow> length s = 10 \<and> is_iso_date_prefix s"

text \<open>The fields in ascending key order.\<close>

definition sorted_fields :: "stats_map \<Rightarrow> stats_map" where "sorted_fields m = sort_key fst m"

definition temporal_field :: "row list \<Rightarrow> string \<times> field_stats \<Rightarrow> bool" where
  "temporal_field items = (\<lambda>(k, st).
     if fs_field_type st = ''string'' then
       (let strs = List.map_filter (\<lambda>r. case row_get k r of Some (JStr s) \<Rightarrow> Some s | _ \<Rightarrow> None) (take 10 items);
            iso = length (filter (\<lambda>s. is_iso_datetime s \<or> is_iso_date s) strs)
        in strs \<noteq> [] \<and> 1 / 2 < f64 (of_nat iso / of_nat (length strs)))
     else if fs_field_type st = ''numeric'' then
       (case (fs_min_val st, fs_max_val st) of
          (Some mn, Some mx) \<Rightarrow>
            fl_le (Fin (10 ^ 9)) mn \<and> fl_le mn (Fin (2 * 10 ^ 9)) \<or> fl_le (Fin (10 ^ 12)) mn \<and> fl_le mn (Fin (2 * 10 ^ 12))
        | _ \<Rightarrow> False)
     else False)"

definition detect_temporal_field :: "stats_map \<Rightarrow> row list \<Rightarrow> bool" where
  "detect_temporal_field m items = list_ex (temporal_field items) (sorted_fields m)"

definition numeric_with_variance :: "field_stats \<Rightarrow> bool" where
  "numeric_with_variance st \<longleftrightarrow>
     fs_field_type st = ''numeric'' \<and> (case fs_variance st of Some v \<Rightarrow> fl_lt (Fin 0) v | None \<Rightarrow> False)"

definition message_like :: "field_stats \<Rightarrow> bool" where
  "message_like st \<longleftrightarrow>
     fs_field_type st = ''string'' \<and> 1 / 2 < fs_unique_ratio st
     \<and> fl_lt (Fin 20) (case fs_avg_length st of Some a \<Rightarrow> a | None \<Rightarrow> Fin 0)"

definition level_like :: "field_stats \<Rightarrow> bool" where
  "level_like st \<longleftrightarrow>
     fs_field_type st = ''string'' \<and> fs_unique_ratio st < f64 (1/10) \<and> 2 \<le> fs_unique_count st \<and> fs_unique_count st \<le> 10"

definition detect_pattern :: "stats_map \<Rightarrow> row list \<Rightarrow> string" where
  "detect_pattern m items =
     (let cols = sorted_fields m; any_items = to_any_slice items in
      if detect_temporal_field m items \<and> list_ex (numeric_with_variance \<circ> snd) cols then ''time_series''
      else if list_ex (message_like \<circ> snd) cols \<and> list_ex (level_like \<circ> snd) cols then ''logs''
      else if list_ex (\<lambda>(k, st). case detect_score_field st any_items of (ok, conf) \<Rightarrow> ok \<and> 1 / 2 \<le> conf) cols
      then ''search_results''
      else ''generic'')"

section \<open>Anomalies\<close>

text \<open>\<open>forEachAnomaly\<close>: the rows whose value deviates from the mean by more than the threshold.\<close>

definition field_anomalies :: "rat \<Rightarrow> row list \<Rightarrow> string \<times> field_stats \<Rightarrow> nat list" where
  "field_anomalies vt items = (\<lambda>(k, st).
     case (fs_mean_val st, fs_variance st) of
       (Some m, Some v) \<Rightarrow>
         if fs_field_type st \<noteq> ''numeric'' \<or> fl_le v (Fin 0) \<or> fl_le (fl_sqrt v) (Fin 0) then []
         else (let threshold = fl_mul (Fin vt) (fl_sqrt v)
               in filter (\<lambda>i. case Option.bind (row_get k (items ! i)) as_float64 of
                                None \<Rightarrow> False
                              | Some x \<Rightarrow> fl_lt threshold (fl_abs (fl_sub (Fin x) m))) [0..<length items])
     | _ \<Rightarrow> [])"

section \<open>The verdict\<close>

text \<open>The best identifier field so far: confidence, name and uniqueness.\<close>

definition best_id :: "crush_env \<Rightarrow> row list \<Rightarrow> stats_map \<Rightarrow> rat \<times> string \<times> rat" where
  "best_id E items cols =
     fold (\<lambda>(k, st) (conf0, name, uniq).
             case detect_id_field E st (field_values items k) of
               (ok, conf) \<Rightarrow> if ok \<and> conf0 < conf then (conf, k, fs_unique_ratio st) else (conf0, name, uniq))
          cols (0, [], 0)"

definition score_signal :: "row list \<Rightarrow> stats_map \<Rightarrow> string option" where
  "score_signal items cols =
     map_option (\<lambda>(k, st). ''score_field:'' @ k @ ''(conf='' @ format_2f (snd (detect_score_field st (to_any_slice items))) @ '')'')
       (List.find (\<lambda>(k, st). fst (detect_score_field st (to_any_slice items))) cols)"

text \<open>\<open>meanOrZero\<close> of uniqueness ratios.\<close>

definition mean_ratio :: "rat list \<Rightarrow> rat" where
  "mean_ratio rs = (if rs = [] then 0 else f64 (fold (\<lambda>r acc. f64 (acc + r)) rs 0 / of_nat (length rs)))"

definition numeric_change_points :: "field_stats \<Rightarrow> bool" where
  "numeric_change_points st \<longleftrightarrow> fs_field_type st = ''numeric'' \<and> fs_change_points st \<noteq> []"

definition analyze_crushability :: "crush_env \<Rightarrow> crush_config \<Rightarrow> row list \<Rightarrow> stats_map \<Rightarrow> crushability" where
  "analyze_crushability E cfg items m =
     (let cols = sorted_fields m;
          (id_conf, id_name, id_uniq) = best_id E items cols;
          has_id = (id_name \<noteq> [] \<and> f64 (7/10) \<le> id_conf);
          score = score_signal items cols;
          outliers = length (detect_structural_outliers items);
          errors = length (detect_error_items E items None);
          anomalies = length (remdups (concat (map (field_anomalies (kc_variance_threshold cfg) items) cols)));
          avg_str = mean_ratio (map (fs_unique_ratio \<circ> snd) (filter (\<lambda>(k, st). fs_field_type st = ''string'' \<and> k \<noteq> id_name) cols));
          avg_num = mean_ratio (map (fs_unique_ratio \<circ> snd) (filter (\<lambda>(k, st). fs_field_type st = ''numeric'' \<and> k \<noteq> id_name) cols));
          max_uniq = max (max avg_str id_uniq) 0;
          content = max avg_str avg_num;
          changes = list_ex (numeric_change_points \<circ> snd) cols;
          present = (case score of None \<Rightarrow> [] | Some s \<Rightarrow> [s])
                    @ (if 0 < outliers then [''structural_outliers:'' @ utoa outliers] else [])
                    @ (if 0 < errors \<and> outliers = 0 then [''error_keywords:'' @ utoa errors] else [])
                    @ (if 0 < anomalies then [''anomalies''] else [])
                    @ (if changes then [''change_points''] else []);
          absent = (if score = None then [''score_field''] else [])
                   @ (if outliers = 0 then [''structural_outliers''] else [])
                   @ (if anomalies = 0 then [''anomalies''] else []);
          any_signal = (present \<noteq> []);
          verdict = (\<lambda>ok conf reason extra.
            \<lparr>ca_crushable = ok, ca_confidence = conf, ca_reason = reason, ca_signals_present = present @ extra,
             ca_signals_absent = absent, ca_has_id_field = has_id, ca_id_uniqueness = id_uniq,
             ca_avg_string_uniqueness = avg_str, ca_has_score_field = (score \<noteq> None),
             ca_error_item_count = max outliers errors, ca_anomaly_count = anomalies\<rparr>)
      in if content < f64 (1/10) \<and> has_id
         then verdict True (f64 (85/100)) ''repetitive_content_with_ids'' [''repetitive_content'']
         else if max_uniq < f64 (3/10) then verdict True (f64 (9/10)) ''low_uniqueness_safe_to_sample'' []
         else if has_id \<and> f64 (8/10) < max_uniq \<and> \<not> any_signal
         then verdict False (f64 (85/100)) ''unique_entities_no_signal'' []
         else if f64 (8/10) < max_uniq \<and> any_signal then verdict True (f64 (7/10)) ''unique_entities_with_signal'' []
         else if \<not> any_signal then verdict False (f64 (6/10)) ''medium_uniqueness_no_signal'' []
         else verdict True (1/2) ''medium_uniqueness_with_signal'' [])"

section \<open>Strategy and estimate\<close>

definition select_strategy :: "crush_env \<Rightarrow> crush_config \<Rightarrow> stats_map \<Rightarrow> string \<Rightarrow> int \<Rightarrow> crushability option \<Rightarrow> crush_strategy" where
  "select_strategy E cfg m pattern item_count crushability =
     (if item_count < kc_min_items cfg then StrategyNone
      else if (case crushability of Some c \<Rightarrow> \<not> ca_crushable c | None \<Rightarrow> False) then StrategySkip
      else
        (let cols = sorted_fields m in
         if pattern = ''time_series'' \<and> list_ex (numeric_change_points \<circ> snd) cols then StrategyTimeSeries
         else if pattern = ''logs''
              \<and> (case List.find (\<lambda>(k, st). contains (to_lower (ce_lower E) k) ''message'') cols of
                   Some (k, st) \<Rightarrow> fs_unique_ratio st < 1 / 2 | None \<Rightarrow> False) then StrategyClusterSample
         else if pattern = ''search_results'' then StrategyTopN
         else StrategySmartSample))"

definition estimate_reduction :: "stats_map \<Rightarrow> crush_strategy \<Rightarrow> rat" where
  "estimate_reduction m strategy =
     (if strategy = StrategyNone \<or> m = [] then 0
      else
        (let ratio = f64 (of_nat (length (filter (fs_is_constant \<circ> snd) m)) / of_nat (length m));
             base = (case strategy of StrategyTimeSeries \<Rightarrow> f64 (7/10) | StrategyClusterSample \<Rightarrow> f64 (8/10)
                     | StrategyTopN \<Rightarrow> f64 (6/10) | StrategySmartSample \<Rightarrow> 1/2 | _ \<Rightarrow> f64 (3/10))
         in min (f64 (base + f64 (ratio * f64 (2/10)))) (f64 (95/100))))"

section \<open>The array\<close>

definition analyze_array :: "crush_env \<Rightarrow> crush_config \<Rightarrow> row list \<Rightarrow> array_analysis" where
  "analyze_array E cfg items =
     (if items = [] \<or> hd items = None then
        \<lparr>aa_item_count = length items, aa_field_stats = [], aa_detected_pattern = ''generic'', aa_strategy = StrategyNone,
         aa_constant_fields = [], aa_estimated_reduction = 0, aa_crushability = None\<rparr>
      else
        (let m = map (\<lambda>k. (k, analyze_field cfg k items)) (sort (field_names items));
             pattern = detect_pattern m items;
             constants = List.map_filter (\<lambda>(k, st). if fs_is_constant st then map_option (\<lambda>v. (k, v)) (fs_constant_value st) else None) m;
             c = analyze_crushability E cfg items m;
             strategy = select_strategy E cfg m pattern (int (length items)) (Some c)
         in \<lparr>aa_item_count = length items, aa_field_stats = m, aa_detected_pattern = pattern, aa_strategy = strategy,
             aa_constant_fields = constants,
             aa_estimated_reduction = (if strategy = StrategySkip then 0 else estimate_reduction m strategy),
             aa_crushability = Some c\<rparr>))"

section \<open>Change points\<close>

lemma set_dedup_gap: "set (dedup_gap w prev cs) \<subseteq> set cs"
  by (induction w prev cs rule: dedup_gap.induct) auto

lemma dedup_gap_spaced: "sorted_wrt (\<lambda>a b. a + w < b) (prev # dedup_gap w prev cs)"
proof (induction w prev cs rule: dedup_gap.induct)
  case (2 w prev c cs)
  show ?case
  proof (cases "prev + w < c")
    case True
    have "prev + w < b" if "b \<in> set (dedup_gap w c cs)" for b
      using 2(1) True that by auto
    then show ?thesis using 2(1) True by simp
  qed (use 2 in simp)
qed simp

text \<open>Change points lie a window away from both ends and more than a window apart.\<close>

lemma change_points_ok:
  "(\<forall>c\<in>set (detect_change_points cfg vs w). w \<le> c \<and> c + w < length vs)
   \<and> sorted_wrt (\<lambda>a b. a + w < b) (detect_change_points cfg vs w)"
proof (cases "detect_change_points cfg vs w = []")
  case False
  then obtain std where std: "sample_stdev vs = Some std" "\<not> fl_le std (Fin 0)" "\<not> length vs < 2 * w"
    by (auto simp: detect_change_points_def split: if_splits option.splits)
  define shift where "shift = (\<lambda>i. fl_abs (fl_sub (mean_or_zero (take w (drop i vs))) (mean_or_zero (take w (drop (i - w) vs)))))"
  define raw where "raw = filter (\<lambda>i. fl_lt (fl_mul (Fin (kc_variance_threshold cfg)) std) (shift i)) [w..<length vs - w]"
  have d: "detect_change_points cfg vs w = (case raw of [] \<Rightarrow> [] | c # cs \<Rightarrow> c # dedup_gap w c cs)"
    using std by (simp add: detect_change_points_def raw_def shift_def Let_def)
  then obtain c cs where raw: "raw = c # cs" using False by (cases raw) auto
  have "set (c # dedup_gap w c cs) \<subseteq> set raw" using set_dedup_gap by (auto simp: raw)
  moreover have "w \<le> i \<and> i + w < length vs" if "i \<in> set raw" for i using that by (auto simp: raw_def)
  ultimately show ?thesis using dedup_gap_spaced [of w c cs] d raw by auto
qed simp

section \<open>Ratios\<close>

lemma field_values_length [simp]: "length (field_values items key) = length items"
  by (simp add: field_values_def)

lemma numeric_stats_ratio [simp]:
  "fs_unique_ratio (numeric_stats cfg nums st) = fs_unique_ratio st"
  "fs_unique_count (numeric_stats cfg nums st) = fs_unique_count st"
  "fs_field_type (numeric_stats cfg nums st) = fs_field_type st"
  "fs_name (numeric_stats cfg nums st) = fs_name st"
  by (simp_all add: numeric_stats_def Let_def split: option.splits)

lemma string_stats_same [simp]:
  "fs_unique_ratio (string_stats vs st) = fs_unique_ratio st"
  "fs_unique_count (string_stats vs st) = fs_unique_count st"
  "fs_name (string_stats vs st) = fs_name st"
  "fs_change_points (string_stats vs st) = fs_change_points st"
  "fs_mean_val (string_stats vs st) = fs_mean_val st"
  "fs_variance (string_stats vs st) = fs_variance st"
  by (simp_all add: string_stats_def Let_def)

lemma analyze_field_ratio: "0 \<le> fs_unique_ratio (analyze_field cfg key items) \<and> fs_unique_ratio (analyze_field cfg key items) \<le> 1"
proof -
  have "(of_nat (length (remdups xs)) / of_nat (length xs) :: rat) \<le> 1" for xs :: "string list"
    using length_remdups_leq [of xs] by (simp add: divide_le_eq_1)
  from this [of "map cardinality_repr (field_values items key)"]
  show ?thesis
    by (auto simp: analyze_field_def null_stats_def base_stats_def Let_def intro!: flt_nonneg)
       (metis flt_unit divide_nonneg_nonneg of_nat_0_le_iff one_le_numeral)
qed

text \<open>Every numeric statistic of a field is finite.\<close>

lemma analyze_field_finite:
  "fs_mean_val (analyze_field cfg key items) = Some m \<Longrightarrow> is_finite m"
  "fs_variance (analyze_field cfg key items) = Some v \<Longrightarrow> is_finite v"
  by (auto simp: analyze_field_def null_stats_def base_stats_def numeric_stats_def Let_def is_finite_def
      dest: fl_mean_finite sample_variance_finite split: if_splits option.splits fl.splits)

section \<open>The verdict\<close>

text \<open>An array that the analyzer refuses to sample has no outlier, no error row, no anomaly, no change
  point and no score field.\<close>

lemma not_crushable_no_signal:
  assumes "\<not> ca_crushable (analyze_crushability E cfg items m)"
  shows "detect_structural_outliers items = [] \<and> detect_error_items E items None = []
    \<and> concat (map (field_anomalies (kc_variance_threshold cfg) items) (sorted_fields m)) = []
    \<and> \<not> list_ex (numeric_change_points \<circ> snd) (sorted_fields m) \<and> score_signal items (sorted_fields m) = None"
proof -
  obtain ic inm iu where b: "best_id E items (sorted_fields m) = (ic, inm, iu)" by (cases "best_id E items (sorted_fields m)")
  show ?thesis
    using assms unfolding analyze_crushability_def Let_def b
    by (auto split: if_splits option.splits)
qed

end
