(* ===== verification/CrushAnchors.thy ===== *)
theory CrushAnchors
  imports CrushOutliers Relevance
begin

text \<open>
  \<open>anchors.go\<close> and \<open>anchorselector.go\<close>: the salient tokens of a query (UUIDs, long numbers, host names,
  quoted strings, e-mail addresses), the rows that mention one of them, and the rows an array always
  keeps: the first three, the last two and the matching ones. A Go set of strings is a list.
\<close>

section \<open>Patterns\<close>

definition rx_alnum :: "(nat \<times> nat) list" where "rx_alnum = [(97, 122), (65, 90), (48, 57)]"

definition uuid_pattern :: rx where "uuid_pattern = seqs [WordB, rx_uuid, WordB]"

definition numeric_id_pattern :: rx where "numeric_id_pattern = seqs [WordB, Rep rx_digit 4 None, WordB]"

definition hostname_pattern :: rx where
  "hostname_pattern =
     (let label = Seq (Cls False rx_alnum) (star (Cls False ((45, 45) # rx_alnum)))
      in seqs [WordB, label, lit ''.'', label, opt (Seq (lit ''.'') (Rep (Cls False [(97, 122), (65, 90)]) 2 None)), WordB])"

definition quoted_string_pattern :: rx where
  "quoted_string_pattern =
     (let quote = Cls False [(39, 39), (34, 34)] in seqs [quote, Rep (Cls True [(39, 39), (34, 34)]) 1 (Some 50), quote])"

definition email_pattern :: rx where
  "email_pattern =
     seqs [WordB, plus1 (Cls False (rx_alnum @ [(46, 46), (95, 95), (37, 37), (43, 43), (45, 45)])), lit ''@'',
           plus1 (Cls False (rx_alnum @ [(46, 46), (45, 45)])), lit ''.'',
           Rep (Cls False [(65, 90), (124, 124), (97, 122)]) 2 None, WordB]"

section \<open>Anchors of a query\<close>

definition hostname_false_positives :: "string list" where
  "hostname_false_positives = [''e.g'', ''i.e'', ''etc.'']"

definition extract_query_anchors :: "crush_env \<Rightarrow> string \<Rightarrow> string list" where
  "extract_query_anchors E text =
     (if text = [] then []
      else
        (let lower = to_lower (ce_lower E) in
         map lower (find_all_string uuid_pattern text)
         @ find_all_string numeric_id_pattern text
         @ filter (\<lambda>m. m \<notin> set hostname_false_positives) (map lower (find_all_string hostname_pattern text))
         @ map lower (filter (\<lambda>inner. 2 \<le> length (trim_space inner))
                        (map (\<lambda>m. butlast (tl m)) (find_all_string quoted_string_pattern text)))
         @ map lower (find_all_string email_pattern text)))"

section \<open>Rows that match\<close>

fun python_repr :: "json \<Rightarrow> string" where
  "python_repr JNull = ''None''"
| "python_repr (JBool b) = (if b then ''True'' else ''False'')"
| "python_repr (JNum m) = m"
| "python_repr (JStr s) = [CHR 0x27] @ s @ [CHR 0x27]"
| "python_repr (JArr vs) = ''['' @ join '', '' (map python_repr vs) @ '']''"
| "python_repr (JObj ms) =
     ''{'' @ join '', '' (map (\<lambda>(k, v). [CHR 0x27] @ k @ [CHR 0x27] @ '': '' @ python_repr v) ms) @ ''}''"

definition item_matches_anchors :: "crush_env \<Rightarrow> obj \<Rightarrow> string list \<Rightarrow> bool" where
  "item_matches_anchors E item anchors \<longleftrightarrow>
     (if anchors = [] then False
      else (let s = to_lower (ce_lower E) (python_repr (JObj item)) in list_ex (contains s) anchors))"

section \<open>The selector\<close>

datatype anchor_pattern = AnchorGeneric | AnchorTimeSeries | AnchorSearchResults | AnchorLogs

record anchor_config =
  an_first :: int
  an_last :: int

definition default_anchor_config :: anchor_config where
  "default_anchor_config = \<lparr>an_first = 3, an_last = 2\<rparr>"

text \<open>The rows that match an anchor of the query.\<close>

definition query_rows :: "crush_env \<Rightarrow> row list \<Rightarrow> string \<Rightarrow> nat list" where
  "query_rows E items query =
     (let anchors = extract_query_anchors E query
      in filter (\<lambda>i. case items ! i of None \<Rightarrow> False | Some ms \<Rightarrow> item_matches_anchors E ms anchors) [0..<length items])"

definition select_anchors :: "crush_env \<Rightarrow> anchor_config \<Rightarrow> row list \<Rightarrow> int \<Rightarrow> anchor_pattern \<Rightarrow> string \<Rightarrow> nat list" where
  "select_anchors E cfg items max_items pattern query =
     (let n = int (length items) in
      if items = [] then []
      else sorted_list_of_set
             (set [0..<nat (min (an_first cfg) n)]
              \<union> set [nat (max (n - an_last cfg) 0)..<length items]
              \<union> (if query = [] then {} else set (query_rows E items query))))"

section \<open>Lemmas\<close>

lemma query_rows_bound: "i \<in> set (query_rows E items query) \<Longrightarrow> i < length items"
  by (auto simp: query_rows_def Let_def)

lemma query_rows_empty: "query_rows E items [] = []"
  by (auto simp: query_rows_def extract_query_anchors_def item_matches_anchors_def filter_empty_conv split: option.splits)

lemma select_anchors_bound: "i \<in> set (select_anchors E cfg items m p query) \<Longrightarrow> i < length items"
  by (auto simp: select_anchors_def Let_def dest: query_rows_bound split: if_splits)

text \<open>The first and the last rows are always selected.\<close>

lemma select_anchors_ends:
  "i < length items \<Longrightarrow> int i < an_first cfg \<or> int (length items) - an_last cfg \<le> int i
     \<Longrightarrow> i \<in> set (select_anchors E cfg items m p query)"
  by (auto simp: select_anchors_def Let_def)

end
