(* ===== verification/CrushPlanner.thy ===== *)
theory CrushPlanner
  imports CrushAnalyzer CrushAnchors
begin

text \<open>
  \<open>orchestration.go\<close> and \<open>planning.go\<close>: the set of rows to keep. A Go set of indices is a \<open>nat set\<close>, read in
  ascending order (\<open>sortedIntSet\<close>). The serialisers of the content hash cannot fail on decoded values, so
  their fallback keys are not modelled.
\<close>

section \<open>Content hashes\<close>

definition hex4_of :: "nat \<Rightarrow> string" where
  "hex4_of n = map hex_digit [n div 4096 mod 16, n div 256 mod 16, n div 16 mod 16, n mod 16]"

definition canonical_rune :: "nat \<Rightarrow> string" where
  "canonical_rune r =
     (if r = 34 then [CHR 0x5C, CHR 0x22]
      else if r = 92 then [CHR 0x5C, CHR 0x5C]
      else if r = 10 then [CHR 0x5C, CHR ''n'']
      else if r = 13 then [CHR 0x5C, CHR ''r'']
      else if r = 9 then [CHR 0x5C, CHR ''t'']
      else if r < 32 then CHR 0x5C # CHR ''u'' # hex4_of r
      else if r < 128 then [chr r]
      else if r < 65536 then CHR 0x5C # CHR ''u'' # hex4_of r
      else (let q = r - 65536
            in CHR 0x5C # CHR ''u'' # hex4_of (55296 + q div 1024) @ CHR 0x5C # CHR ''u'' # hex4_of (56320 + q mod 1024)))"

definition canonical_string :: "string \<Rightarrow> string" where
  "canonical_string s = CHR 0x22 # concat (map canonical_rune (runes s)) @ [CHR 0x22]"

fun canonical_write :: "json \<Rightarrow> string" where
  "canonical_write (JObj ms) =
     ''{'' @ join '', '' (map snd (sort_key fst (map (\<lambda>(k, v). (k, canonical_string k @ '': '' @ canonical_write v)) ms))) @ ''}''"
| "canonical_write (JArr vs) = ''['' @ join '', '' (map canonical_write vs) @ '']''"
| "canonical_write (JStr s) = canonical_string s"
| "canonical_write (JBool b) = (if b then ''true'' else ''false'')"
| "canonical_write JNull = ''null''"
| "canonical_write (JNum m) = m"

definition md5_hex16 :: "crush_env \<Rightarrow> string \<Rightarrow> string" where
  "md5_hex16 E s = take 16 (hex_encode (ce_md5 E s))"

fun item_content_hash :: "crush_env \<Rightarrow> json \<Rightarrow> string" where
  "item_content_hash E JNull = md5_hex16 E ''None''"
| "item_content_hash E (JStr s) = md5_hex16 E s"
| "item_content_hash E (JBool b) = md5_hex16 E (if b then ''true'' else ''false'')"
| "item_content_hash E (JNum m) = md5_hex16 E m"
| "item_content_hash E v = md5_hex16 E (canonical_write v)"

text \<open>The hash of the element at an index.\<close>

definition hash_at :: "crush_env \<Rightarrow> json list \<Rightarrow> nat \<Rightarrow> string" where
  "hash_at E items i = item_content_hash E (items ! i)"

section \<open>Sets of indices\<close>

text \<open>\<open>DeduplicateIndicesByContent\<close>: the first index of every content, in ascending order.\<close>

fun dedup_loop :: "(nat \<Rightarrow> string) \<Rightarrow> string list \<Rightarrow> nat list \<Rightarrow> nat list" where
  "dedup_loop h seen [] = []"
| "dedup_loop h seen (i # is) = (if h i \<in> set seen then dedup_loop h seen is else i # dedup_loop h (h i # seen) is)"

definition deduplicate_indices :: "crush_env \<Rightarrow> nat set \<Rightarrow> json list \<Rightarrow> nat set" where
  "deduplicate_indices E keep items =
     set (dedup_loop (hash_at E items) [] (filter (\<lambda>i. i < length items) (sorted_list_of_set keep)))"

text \<open>\<open>FillRemainingSlots\<close>: candidates in strides, skipping contents already present.\<close>

definition stride_order :: "nat \<Rightarrow> nat \<Rightarrow> nat list" where
  "stride_order step n = concat (map (\<lambda>off. filter (\<lambda>i. i mod step = off) [0..<n]) [0..<step])"

fun fill_loop :: "(nat \<Rightarrow> string) \<Rightarrow> nat \<Rightarrow> nat list \<Rightarrow> nat set \<Rightarrow> string set \<Rightarrow> nat set" where
  "fill_loop h 0 cs keep seen = keep"
| "fill_loop h (Suc r) [] keep seen = keep"
| "fill_loop h (Suc r) (i # cs) keep seen =
     (if h i \<in> seen then fill_loop h (Suc r) cs keep seen else fill_loop h r cs (insert i keep) (insert (h i) seen))"

definition sat_sub :: "int \<Rightarrow> int \<Rightarrow> nat" where "sat_sub a b = nat (a - b)"

definition fill_remaining_slots :: "crush_env \<Rightarrow> nat set \<Rightarrow> json list \<Rightarrow> nat \<Rightarrow> int \<Rightarrow> nat set" where
  "fill_remaining_slots E keep items n effective_max =
     (let remaining = sat_sub effective_max (int (card keep));
          seen = hash_at E items ` {i \<in> keep. i < n};
          candidates = filter (\<lambda>i. i \<notin> keep) [0..<n];
          step = max 1 (length candidates div (remaining + 1))
      in if remaining = 0 \<or> candidates = [] then keep
         else fill_loop (hash_at E items) remaining (map ((!) candidates) (stride_order step (length candidates))) keep seen)"

text \<open>Add indices in order while there is room; what is left of the room comes back too.\<close>

fun top_up :: "nat \<Rightarrow> nat list \<Rightarrow> nat set \<Rightarrow> nat \<times> nat set" where
  "top_up 0 is keep = (0, keep)"
| "top_up (Suc r) [] keep = (Suc r, keep)"
| "top_up (Suc r) (i # is) keep = (if i \<in> keep then top_up (Suc r) is keep else top_up r is (insert i keep))"

definition numeric_anomaly_indices :: "crush_config \<Rightarrow> json list \<Rightarrow> array_analysis option \<Rightarrow> nat set" where
  "numeric_anomaly_indices cfg items analysis =
     (case analysis of
        None \<Rightarrow> {}
      | Some a \<Rightarrow> set (concat (map (field_anomalies (kc_variance_threshold cfg) (as_ordered_maps items)) (aa_field_stats a))))"

text \<open>The rows that are never dropped over budget.\<close>

definition critical_indices :: "crush_env \<Rightarrow> crush_config \<Rightarrow> json list \<Rightarrow> nat \<Rightarrow> array_analysis option \<Rightarrow> nat set" where
  "critical_indices E cfg items n analysis =
     {i \<in> set (detect_error_items E (as_ordered_maps items) None). i < n}
     \<union> {i \<in> set (detect_structural_outliers (as_ordered_maps items)). i < n}
     \<union> numeric_anomaly_indices cfg items analysis"

definition prioritize_indices ::
  "crush_env \<Rightarrow> crush_config \<Rightarrow> nat set \<Rightarrow> json list \<Rightarrow> nat \<Rightarrow> array_analysis option \<Rightarrow> int \<Rightarrow> nat set" where
  "prioritize_indices E cfg keep items n analysis effective_max =
     (let deduped = (if kc_dedup_identical cfg then deduplicate_indices E keep items else keep);
          current = (if int (card deduped) < effective_max \<and> card deduped < n
                     then fill_remaining_slots E deduped items n effective_max else deduped)
      in if int (card current) \<le> effective_max then current
         else
           (let critical = critical_indices E cfg items n analysis;
                (r1, s1) = top_up (sat_sub effective_max (int (card critical))) [0..<min 3 n] critical;
                (r2, s2) = top_up r1 [n - 2..<n] s1;
                (r3, s3) = top_up r2 (sorted_list_of_set current) s2
            in s3))"

section \<open>The planner\<close>

text \<open>The collaborators of a planner; the scorer is an interface value.\<close>

record planner =
  pn_config :: crush_config
  pn_anchors :: anchor_config
  pn_scorer :: "string list \<Rightarrow> string \<Rightarrow> rel_score list"
  pn_constraints :: "crush_constraint list"

definition map_to_anchor_pattern :: "crush_strategy \<Rightarrow> anchor_pattern" where
  "map_to_anchor_pattern s =
     (case s of StrategyTimeSeries \<Rightarrow> AnchorTimeSeries | StrategyTopN \<Rightarrow> AnchorSearchResults
      | StrategyClusterSample \<Rightarrow> AnchorLogs | _ \<Rightarrow> AnchorGeneric)"

definition apply_constraints :: "planner \<Rightarrow> row list \<Rightarrow> string list option \<Rightarrow> nat set" where
  "apply_constraints P items cache =
     {i \<in> set (concat (map (\<lambda>c. cn_must_keep c items cache) (pn_constraints P))). i < length items}"

text \<open>Rows within one of a change point.\<close>

definition change_point_rows :: "nat \<Rightarrow> stats_map \<Rightarrow> nat set" where
  "change_point_rows n m =
     {i \<in> set (concat (map (\<lambda>(k, st). concat (map (\<lambda>cp. [cp - 1, cp, cp + 1]) (filter (\<lambda>cp. 0 < cp) (fs_change_points st))
                @ map (\<lambda>cp. [cp, cp + 1]) (filter (\<lambda>cp. cp = 0) (fs_change_points st)))) m)). i < n}"

definition scored_rows :: "planner \<Rightarrow> row list \<Rightarrow> string \<Rightarrow> string list option \<Rightarrow> nat set" where
  "scored_rows P items query cache =
     (let strs = (case cache of Some ss \<Rightarrow> ss
                  | None \<Rightarrow> map (\<lambda>r. case r of None \<Rightarrow> [] | Some ms \<Rightarrow> encode_json (JObj ms)) items);
          scores = pn_scorer P strs query
      in set (filter (\<lambda>i. kc_relevance_threshold (pn_config P) \<le> rs_score (scores ! i)) [0..<min (length scores) (length items)]))"

definition apply_query_signals :: "crush_env \<Rightarrow> planner \<Rightarrow> row list \<Rightarrow> string \<Rightarrow> string list option \<Rightarrow> nat set" where
  "apply_query_signals E P items query cache =
     (if query = [] then {} else set (query_rows E items query) \<union> scored_rows P items query cache)"

definition value_to_string :: "json \<Rightarrow> string" where
  "value_to_string v = (case v of JStr s \<Rightarrow> s | _ \<Rightarrow> encode_json v)"

definition item_has_preserve_match :: "crush_env \<Rightarrow> row \<Rightarrow> string list \<Rightarrow> string \<Rightarrow> bool" where
  "item_has_preserve_match E item hashes query =
     (case item of
        None \<Rightarrow> False
      | Some ms \<Rightarrow>
          query \<noteq> [] \<and>
          list_ex (\<lambda>(k, v). hash_field_name E k \<in> set hashes \<and> v \<noteq> JNull
                     \<and> (let s = to_lower (ce_lower E) (value_to_string v); q = to_lower (ce_lower E) query
                        in s \<noteq> [] \<and> (contains s q \<or> contains q s))) ms)"

definition preserve_field_rows :: "crush_env \<Rightarrow> row list \<Rightarrow> string \<Rightarrow> string list \<Rightarrow> nat set" where
  "preserve_field_rows E items query preserve =
     (if preserve = [] \<or> query = [] then {}
      else set (filter (\<lambda>i. item_has_preserve_match E (items ! i) (map (hash_field_name E) preserve) query) [0..<length items]))"

text \<open>The union of all signals, before the budget.\<close>

definition signal_rows :: "crush_env \<Rightarrow> planner \<Rightarrow> array_analysis \<Rightarrow> row list \<Rightarrow> string \<Rightarrow> string list \<Rightarrow> int \<Rightarrow> string list option \<Rightarrow> nat set" where
  "signal_rows E P a items query preserve max_items cache =
     set (select_anchors E (pn_anchors P) items max_items (map_to_anchor_pattern StrategySmartSample) query)
     \<union> apply_constraints P items cache
     \<union> set (concat (map (field_anomalies (kc_variance_threshold (pn_config P)) items) (aa_field_stats a)))
     \<union> (if kc_preserve_change_points (pn_config P) then change_point_rows (length items) (aa_field_stats a) else {})
     \<union> apply_query_signals E P items query cache
     \<union> preserve_field_rows E items query preserve"

definition plan_smart_sample ::
  "crush_env \<Rightarrow> planner \<Rightarrow> array_analysis \<Rightarrow> row list \<Rightarrow> compression_plan \<Rightarrow> string \<Rightarrow> string list \<Rightarrow> int \<Rightarrow> string list option
     \<Rightarrow> compression_plan" where
  "plan_smart_sample E P a items plan query preserve max_items cache =
     plan\<lparr>pl_keep_indices := sorted_list_of_set
       (prioritize_indices E (pn_config P) (signal_rows E P a items query preserve max_items cache)
          (to_any_slice items) (length items) (Some a) max_items)\<rparr>"

definition create_plan ::
  "crush_env \<Rightarrow> planner \<Rightarrow> array_analysis \<Rightarrow> row list \<Rightarrow> string \<Rightarrow> string list \<Rightarrow> int option \<Rightarrow> string list option \<Rightarrow> compression_plan" where
  "create_plan E P a items query preserve effective_max cache =
     (let max_items = (case effective_max of Some k \<Rightarrow> k | None \<Rightarrow> kc_max_items (pn_config P));
          plan = default_compression_plan\<lparr>pl_strategy := aa_strategy a,
                   pl_constant_fields := (if kc_factor_out_constants (pn_config P) then aa_constant_fields a else [])\<rparr>
      in if aa_strategy a = StrategySkip then plan\<lparr>pl_keep_indices := [0..<length items]\<rparr>
         else plan_smart_sample E P a items plan query preserve max_items cache)"

end
