(* ===== verification/CrushPlannerProps.thy ===== *)
theory CrushPlannerProps
  imports CrushPlanner
begin

text \<open>
  What the planner promises: the rows of a plan are in bounds and in order, their number stays within the
  budget unless the critical rows alone exceed it, and no critical row is lost except to a row with the
  same content. \<open>row_selector\<close> is the contract of the \<open>Constraint\<close> interface.
\<close>

section \<open>The constraint interface\<close>

locale row_selector =
  fixes sel :: "row list \<Rightarrow> string list option \<Rightarrow> nat list"
  assumes sel_bound: "i \<in> set (sel items cache) \<Longrightarrow> i < length items"
begin

lemma sel_filter [simp]: "{i \<in> set (sel items cache). i < length items} = set (sel items cache)"
  by (auto dest: sel_bound)

lemma sel_empty [simp]: "sel [] cache = []"
  using sel_bound [of _ "[]" cache] by (cases "sel [] cache") force+

lemma sel_card: "card (set (sel items cache)) \<le> length items"
proof -
  have "set (sel items cache) \<subseteq> {..<length items}" by (auto dest: sel_bound)
  then show ?thesis using card_mono [of "{..<length items}"] by fastforce
qed

end

interpretation error_rows: row_selector "detect_error_items E" for E
  by unfold_locales (rule error_items_bound)

interpretation outlier_rows: row_selector "\<lambda>items _. detect_structural_outliers items"
  by unfold_locales (rule structural_outliers_bound)

section \<open>Loops over indices\<close>

lemma set_dedup_loop: "set (dedup_loop h seen is) \<subseteq> set is"
  by (induction h seen "is" rule: dedup_loop.induct) auto

lemma dedup_loop_covers:
  "i \<in> set is \<Longrightarrow> h i \<in> set seen \<or> (\<exists>j\<in>set (dedup_loop h seen is). h j = h i)"
  by (induction h seen "is" rule: dedup_loop.induct) auto

lemma dedup_loop_distinct: "distinct (map h (dedup_loop h seen is)) \<and> h ` set (dedup_loop h seen is) \<inter> set seen = {}"
  by (induction h seen "is" rule: dedup_loop.induct) auto

lemma deduplicate_subset: "finite keep \<Longrightarrow> deduplicate_indices E keep items \<subseteq> {i \<in> keep. i < length items}"
  using set_dedup_loop by (fastforce simp: deduplicate_indices_def)

lemma deduplicate_covers:
  "finite keep \<Longrightarrow> i \<in> keep \<Longrightarrow> i < length items \<Longrightarrow>
     \<exists>j\<in>deduplicate_indices E keep items. hash_at E items j = hash_at E items i"
  using dedup_loop_covers [of i "filter (\<lambda>i. i < length items) (sorted_list_of_set keep)" "hash_at E items" "[]"]
  by (auto simp: deduplicate_indices_def)

text \<open>No two indices of the deduplicated set have the same content.\<close>

lemma deduplicate_inj: "inj_on (hash_at E items) (deduplicate_indices E keep items)"
  using dedup_loop_distinct by (auto simp: deduplicate_indices_def distinct_map)

lemma fill_loop_bounds:
  "keep \<subseteq> fill_loop h r cs keep seen \<and> fill_loop h r cs keep seen \<subseteq> keep \<union> set cs"
  by (induction h r cs keep seen rule: fill_loop.induct) auto

lemma fill_loop_card: "finite keep \<Longrightarrow> card (fill_loop h r cs keep seen) \<le> card keep + r"
proof (induction h r cs keep seen rule: fill_loop.induct)
  case (3 h r i cs keep seen)
  then show ?case by (auto simp: card_insert_if split: if_splits intro: le_trans)
qed auto

lemma top_up_bounds: "keep \<subseteq> snd (top_up r is keep) \<and> snd (top_up r is keep) \<subseteq> keep \<union> set is"
  by (induction r "is" keep rule: top_up.induct) auto

lemma top_up_card: "finite keep \<Longrightarrow> card (snd (top_up r is keep)) + fst (top_up r is keep) = card keep + r"
  by (induction r "is" keep rule: top_up.induct) auto

lemma stride_order_bound: "p \<in> set (stride_order step n) \<Longrightarrow> p < n"
  by (auto simp: stride_order_def)

lemma fill_bounds:
  "finite keep \<Longrightarrow> keep \<subseteq> fill_remaining_slots E keep items n m \<and> fill_remaining_slots E keep items n m \<subseteq> keep \<union> {..<n}"
proof -
  let ?c = "filter (\<lambda>i. i \<notin> keep) [0..<n]"
  have "set (map ((!) ?c) (stride_order step (length ?c))) \<subseteq> {..<n}" for step
  proof
    fix x assume "x \<in> set (map ((!) ?c) (stride_order step (length ?c)))"
    then obtain p where p: "p < length ?c" "x = ?c ! p" using stride_order_bound by auto
    have "x \<in> set ?c" unfolding p(2) by (rule nth_mem [OF p(1)])
    then show "x \<in> {..<n}" by simp
  qed
  then have sub: "keep \<union> set (map ((!) ?c) (stride_order step (length ?c))) \<subseteq> keep \<union> {..<n}" for step by blast
  have "keep \<subseteq> fill_loop h r (map ((!) ?c) (stride_order step (length ?c))) keep seen
      \<and> fill_loop h r (map ((!) ?c) (stride_order step (length ?c))) keep seen \<subseteq> keep \<union> {..<n}" for h r step seen
    using fill_loop_bounds [of keep h r "map ((!) ?c) (stride_order step (length ?c))" seen] sub [of step] by blast
  note loop = this
  show ?thesis
  proof (cases "sat_sub m (int (card keep)) = 0 \<or> ?c = []")
    case False
    then have eq: "fill_remaining_slots E keep items n m = fill_loop (hash_at E items) (sat_sub m (int (card keep)))
        (map ((!) ?c) (stride_order (max 1 (length ?c div (sat_sub m (int (card keep)) + 1))) (length ?c))) keep
        (hash_at E items ` {i \<in> keep. i < n})" unfolding fill_remaining_slots_def Let_def by (rule if_not_P)
    show ?thesis unfolding eq by (rule loop)
  next
    case True
    then have "fill_remaining_slots E keep items n m = keep" unfolding fill_remaining_slots_def Let_def by (rule if_P)
    then show ?thesis by simp
  qed
qed

lemma fill_card:
  "finite keep \<Longrightarrow> int (card keep) \<le> m \<Longrightarrow> int (card (fill_remaining_slots E keep items n m)) \<le> m"
proof -
  assume f: "finite keep" and k: "int (card keep) \<le> m"
  have "card (fill_remaining_slots E keep items n m) \<le> card keep + sat_sub m (int (card keep))"
    using fill_loop_card [OF f] by (simp add: fill_remaining_slots_def Let_def)
  then show ?thesis using k by (simp add: sat_sub_def)
qed

section \<open>The budget\<close>

lemma numeric_anomaly_bound: "i \<in> numeric_anomaly_indices cfg items a \<Longrightarrow> i < length items"
  by (auto simp: numeric_anomaly_indices_def field_anomalies_def Let_def split: option.splits if_splits)

lemma critical_bound: "critical_indices E cfg items n a \<subseteq> {..<max n (length items)}"
proof
  fix i assume "i \<in> critical_indices E cfg items n a"
  then have "i < n \<or> i \<in> numeric_anomaly_indices cfg items a" by (simp add: critical_indices_def) blast
  then show "i \<in> {..<max n (length items)}" using numeric_anomaly_bound by (simp add: less_max_iff_disj) blast
qed

lemma critical_finite: "finite (critical_indices E cfg items n a)"
  by (rule finite_subset [OF critical_bound]) simp

text \<open>The set before the budget is enforced.\<close>

definition current_indices :: "crush_env \<Rightarrow> crush_config \<Rightarrow> nat set \<Rightarrow> json list \<Rightarrow> nat \<Rightarrow> int \<Rightarrow> nat set" where
  "current_indices E cfg keep items n m =
     (let deduped = (if kc_dedup_identical cfg then deduplicate_indices E keep items else keep)
      in if int (card deduped) < m \<and> card deduped < n then fill_remaining_slots E deduped items n m else deduped)"

lemma current_bounds:
  assumes "keep \<subseteq> {..<n}" shows "current_indices E cfg keep items n m \<subseteq> {..<n}"
proof -
  have f: "finite keep" using assms finite_subset by blast
  define d where "d = (if kc_dedup_identical cfg then deduplicate_indices E keep items else keep)"
  have "d \<subseteq> {..<n}" using deduplicate_subset [OF f] assms by (auto simp: d_def)
  moreover from this have "finite d" using finite_subset by blast
  ultimately show ?thesis using fill_bounds [of d E items n m]
    unfolding current_indices_def d_def [symmetric] Let_def by auto
qed

lemma current_covers:
  assumes "keep \<subseteq> {..<n}" and "n = length items" and "i \<in> keep"
  shows "\<exists>j\<in>current_indices E cfg keep items n m. hash_at E items j = hash_at E items i"
proof -
  have f: "finite keep" using assms finite_subset by blast
  define d where "d = (if kc_dedup_identical cfg then deduplicate_indices E keep items else keep)"
  have "finite d" using deduplicate_subset [OF f] f by (auto simp: d_def intro: finite_subset)
  then have "d \<subseteq> current_indices E cfg keep items n m"
    using fill_bounds [of d E items n m] unfolding current_indices_def d_def [symmetric] Let_def by auto
  moreover have "\<exists>j\<in>d. hash_at E items j = hash_at E items i"
    using deduplicate_covers [OF f assms(3)] assms by (auto simp: d_def)
  ultimately show ?thesis by blast
qed

lemma prioritize_eq:
  "prioritize_indices E cfg keep items n a m =
     (let current = current_indices E cfg keep items n m
      in if int (card current) \<le> m then current
         else (let critical = critical_indices E cfg items n a;
                   (r1, s1) = top_up (sat_sub m (int (card critical))) [0..<min 3 n] critical;
                   (r2, s2) = top_up r1 [n - 2..<n] s1
               in snd (top_up r2 (sorted_list_of_set current) s2)))"
  by (simp add: prioritize_indices_def current_indices_def Let_def case_prod_unfold)

lemma prioritize_over:
  assumes "keep \<subseteq> {..<n}" and "n = length items" and "\<not> int (card (current_indices E cfg keep items n m)) \<le> m"
  shows "critical_indices E cfg items n a \<subseteq> prioritize_indices E cfg keep items n a m
    \<and> prioritize_indices E cfg keep items n a m \<subseteq> {..<n}
    \<and> int (card (prioritize_indices E cfg keep items n a m)) \<le> max m (int (card (critical_indices E cfg items n a)))"
proof -
  let ?cur = "current_indices E cfg keep items n m" and ?crit = "critical_indices E cfg items n a"
  obtain r1 s1 where t1: "top_up (sat_sub m (int (card ?crit))) [0..<min 3 n] ?crit = (r1, s1)" by fastforce
  obtain r2 s2 where t2: "top_up r1 [n - 2..<n] s1 = (r2, s2)" by fastforce
  let ?res = "snd (top_up r2 (sorted_list_of_set ?cur) s2)"
  have res: "prioritize_indices E cfg keep items n a m = ?res"
    using assms(3) by (simp add: prioritize_eq t1 t2)
  have s1: "?crit \<subseteq> s1" "s1 \<subseteq> ?crit \<union> {0..<min 3 n}"
    using top_up_bounds [of ?crit "sat_sub m (int (card ?crit))" "[0..<min 3 n]"] t1 by auto
  have s2: "s1 \<subseteq> s2" "s2 \<subseteq> s1 \<union> {n - 2..<n}" using top_up_bounds [of s1 r1 "[n - 2..<n]"] t2 by auto
  have curb: "?cur \<subseteq> {..<n}" using current_bounds [OF assms(1)] .
  have s3: "s2 \<subseteq> ?res" "?res \<subseteq> s2 \<union> ?cur"
    using top_up_bounds [of s2 r2 "sorted_list_of_set ?cur"] finite_subset [OF curb] by auto
  have critb: "?crit \<subseteq> {..<n}" using critical_bound [of E cfg items n a] assms(2) by simp
  have sub: "?res \<subseteq> {..<n}" using s3(2) s2(2) s1(2) curb critb by fastforce
  have fin1: "finite s1" using s1(2) critical_finite [of E cfg items n a] by (blast intro: finite_subset)
  then have fin2: "finite s2" using s2(2) by (blast intro: finite_subset)
  have "card s1 + r1 = card ?crit + sat_sub m (int (card ?crit))"
    using top_up_card [OF critical_finite] t1 by (metis fst_conv snd_conv)
  moreover have "card s2 + r2 = card s1 + r1" using top_up_card [OF fin1] t2 by (metis fst_conv snd_conv)
  moreover have "card ?res \<le> card s2 + r2" using top_up_card [OF fin2, of r2 "sorted_list_of_set ?cur"] by simp
  ultimately have "card ?res \<le> card ?crit + sat_sub m (int (card ?crit))" by simp
  then have c: "int (card ?res) \<le> max m (int (card ?crit))" unfolding sat_sub_def by linarith
  have "?crit \<subseteq> ?res" using s1(1) s2(1) s3(1) by (blast del: subsetI intro: subset_trans)
  then show ?thesis unfolding res using sub c by (intro conjI)
qed

lemma prioritize_bounds:
  assumes "keep \<subseteq> {..<n}" and "n = length items"
  shows "prioritize_indices E cfg keep items n a m \<subseteq> {..<n}
    \<and> int (card (prioritize_indices E cfg keep items n a m)) \<le> max m (int (card (critical_indices E cfg items n a)))"
proof (cases "int (card (current_indices E cfg keep items n m)) \<le> m")
  case True
  then have "prioritize_indices E cfg keep items n a m = current_indices E cfg keep items n m" by (simp add: prioritize_eq Let_def)
  then show ?thesis using True current_bounds [OF assms(1)] by auto
qed (use prioritize_over [OF assms] in blast)

text \<open>A critical row that some signal also named is kept, or a row with the same content is.\<close>

lemma prioritize_covers:
  assumes "keep \<subseteq> {..<n}" and "n = length items" and "i \<in> keep" and "i \<in> critical_indices E cfg items n a"
  shows "\<exists>j\<in>prioritize_indices E cfg keep items n a m. hash_at E items j = hash_at E items i"
proof (cases "int (card (current_indices E cfg keep items n m)) \<le> m")
  case True
  then have "prioritize_indices E cfg keep items n a m = current_indices E cfg keep items n m" by (simp add: prioritize_eq Let_def)
  then show ?thesis using current_covers [OF assms(1-3)] by simp
next
  case False
  then show ?thesis using prioritize_over [OF assms(1,2) False, of a] assms(4) by blast
qed

section \<open>Plans\<close>

lemma as_ordered_to_any [simp]: "as_ordered_maps (to_any_slice rows) = rows"
  by (induction rows) (auto simp: as_ordered_maps_def to_any_slice_def split: option.splits)

lemma length_to_any_slice [simp]: "length (to_any_slice rows) = length rows"
  by (simp add: to_any_slice_def)

lemma field_anomalies_bound: "i \<in> set (field_anomalies vt items f) \<Longrightarrow> i < length items"
  by (auto simp: field_anomalies_def Let_def split: option.splits if_splits prod.splits)

lemma signal_rows_bound: "signal_rows E P a items query preserve m cache \<subseteq> {..<length items}"
proof -
  have "set (select_anchors E c items m p query) \<subseteq> {..<length items}" for c p
    using select_anchors_bound by auto
  moreover have "apply_constraints P items cache \<subseteq> {..<length items}" by (auto simp: apply_constraints_def)
  moreover have "set (concat (map (field_anomalies vt items) fs)) \<subseteq> {..<length items}" for vt fs
    using field_anomalies_bound by fastforce
  moreover have "change_point_rows (length items) fs \<subseteq> {..<length items}" for fs
    unfolding change_point_rows_def by blast
  moreover have "scored_rows P items query cache \<subseteq> {..<length items}" by (auto simp: scored_rows_def Let_def)
  then have "apply_query_signals E P items query cache \<subseteq> {..<length items}"
    using query_rows_bound by (auto simp: apply_query_signals_def)
  moreover have "preserve_field_rows E items query preserve \<subseteq> {..<length items}" by (auto simp: preserve_field_rows_def)
  ultimately show ?thesis unfolding signal_rows_def by (simp split: if_split)
qed

lemma plan_keep_indices:
  "aa_strategy a \<noteq> StrategySkip \<Longrightarrow>
     pl_keep_indices (create_plan E P a items query preserve eff cache) =
       sorted_list_of_set (prioritize_indices E (pn_config P)
         (signal_rows E P a items query preserve (case eff of Some k \<Rightarrow> k | None \<Rightarrow> kc_max_items (pn_config P)) cache)
         (to_any_slice items) (length items) (Some a) (case eff of Some k \<Rightarrow> k | None \<Rightarrow> kc_max_items (pn_config P)))"
  by (simp add: create_plan_def plan_smart_sample_def Let_def)

text \<open>A plan keeps everything under the skip verdict. Otherwise its rows are in bounds, in ascending order,
  each once, and no more than the budget or the critical rows, whichever is larger.\<close>

lemma plan_sound:
  fixes E P a items query preserve eff cache
  defines "m \<equiv> (case eff of Some k \<Rightarrow> k | None \<Rightarrow> kc_max_items (pn_config P))"
    and "keep \<equiv> pl_keep_indices (create_plan E P a items query preserve eff cache)"
  shows "sorted_wrt (<) keep \<and> set keep \<subseteq> {..<length items}
    \<and> (aa_strategy a = StrategySkip \<longrightarrow> keep = [0..<length items])
    \<and> (aa_strategy a \<noteq> StrategySkip \<longrightarrow>
         int (length keep) \<le> max m (int (card (critical_indices E (pn_config P) (to_any_slice items) (length items) (Some a)))))"
proof (cases "aa_strategy a = StrategySkip")
  case True
  then show ?thesis by (auto simp: keep_def create_plan_def Let_def)
next
  case False
  let ?p = "prioritize_indices E (pn_config P) (signal_rows E P a items query preserve m cache)
      (to_any_slice items) (length items) (Some a) m"
  have k: "keep = sorted_list_of_set ?p" using plan_keep_indices [OF False] by (simp add: keep_def m_def)
  note b = prioritize_bounds [OF signal_rows_bound [of E P a items query preserve m cache], of "to_any_slice items" E "pn_config P" "Some a" m]
  then have "finite ?p" by (auto intro: finite_subset)
  then show ?thesis using b False by (simp add: k)
qed

text \<open>The rows that every plan keeps: outliers and error rows named by a constraint, and numeric anomalies.\<close>

definition must_keep_row :: "crush_env \<Rightarrow> planner \<Rightarrow> array_analysis \<Rightarrow> row list \<Rightarrow> string list option \<Rightarrow> nat \<Rightarrow> bool" where
  "must_keep_row E P a items cache i \<longleftrightarrow>
     keep_structural_outliers \<in> set (pn_constraints P) \<and> i \<in> set (detect_structural_outliers items)
     \<or> keep_errors E \<in> set (pn_constraints P) \<and> i \<in> set (detect_error_items E items None)
         \<and> i \<in> set (detect_error_items E items cache)
     \<or> i \<in> set (concat (map (field_anomalies (kc_variance_threshold (pn_config P)) items) (aa_field_stats a)))"

lemma must_keep_signal:
  assumes "must_keep_row E P a items cache i"
  shows "i \<in> signal_rows E P a items query preserve m cache
       \<and> i \<in> critical_indices E (pn_config P) (to_any_slice items) (length items) (Some a)"
proof -
  consider (out) "keep_structural_outliers \<in> set (pn_constraints P)" "i \<in> set (detect_structural_outliers items)"
    | (err) "keep_errors E \<in> set (pn_constraints P)" "i \<in> set (detect_error_items E items None)" "i \<in> set (detect_error_items E items cache)"
    | (anom) "i \<in> set (concat (map (field_anomalies (kc_variance_threshold (pn_config P)) items) (aa_field_stats a)))"
    using assms by (auto simp: must_keep_row_def)
  then show ?thesis
  proof cases
    case out
    then have "i \<in> apply_constraints P items cache"
      using outlier_rows.sel_bound [of i items] by (force simp: apply_constraints_def keep_structural_outliers_def)
    then show ?thesis using out outlier_rows.sel_bound [of i items]
      by (simp add: signal_rows_def critical_indices_def)
  next
    case err
    then have "i \<in> apply_constraints P items cache"
      using error_rows.sel_bound [of i E items cache] by (force simp: apply_constraints_def keep_errors_def)
    then show ?thesis using err error_rows.sel_bound [of i E items cache]
      by (simp add: signal_rows_def critical_indices_def)
  next
    case anom
    then show ?thesis by (simp add: signal_rows_def critical_indices_def numeric_anomaly_indices_def)
  qed
qed

lemma plan_keeps_critical:
  assumes "must_keep_row E P a items cache i"
  shows "\<exists>j\<in>set (pl_keep_indices (create_plan E P a items query preserve eff cache)).
           j < length items \<and> hash_at E (to_any_slice items) j = hash_at E (to_any_slice items) i"
proof (cases "aa_strategy a = StrategySkip")
  case True
  have "i < length items" using must_keep_signal [OF assms] signal_rows_bound by blast
  then show ?thesis using True by (auto simp: create_plan_def Let_def)
next
  case False
  let ?m = "case eff of Some k \<Rightarrow> k | None \<Rightarrow> kc_max_items (pn_config P)"
  note s = must_keep_signal [OF assms, of query preserve ?m]
  note b = prioritize_bounds [OF signal_rows_bound [of E P a items query preserve ?m cache], of "to_any_slice items" E "pn_config P" "Some a" ?m]
  then have f: "finite (prioritize_indices E (pn_config P) (signal_rows E P a items query preserve ?m cache)
      (to_any_slice items) (length items) (Some a) ?m)" by (auto intro: finite_subset)
  have "\<exists>j\<in>prioritize_indices E (pn_config P) (signal_rows E P a items query preserve ?m cache)
      (to_any_slice items) (length items) (Some a) ?m. hash_at E (to_any_slice items) j = hash_at E (to_any_slice items) i"
    by (rule prioritize_covers) (use s signal_rows_bound in simp_all)
  then show ?thesis using b f by (auto simp: plan_keep_indices [OF False])
qed

end
