(* ===== verification/CompactFormat.thy ===== *)
theory CompactFormat
  imports Compactor CcrMarker
begin

text \<open>
  \<open>compaction/formatter.go\<close>: a compaction tree as CSV with a schema line, or as a JSON wrapper. The indented
  form of the JSON formatter (\<open>Pretty\<close>) is never asked for and not modelled; the markdown formatter renders
  nothing, as in the source.
\<close>

section \<open>JSON wrapper\<close>

definition json_int :: "nat \<Rightarrow> json" where "json_int n = JNum (utoa n)"

definition schema_to_json :: "field_spec list \<Rightarrow> json" where
  "schema_to_json schema =
     JArr (map (\<lambda>f. JObj ([(''name'', JStr (fd_name f)), (''type'', JStr (fd_type_tag f))]
                         @ (if fd_nullable f then [(''nullable'', JBool True)] else []))) schema)"

function compaction_to_json :: "compaction \<Rightarrow> json" and cell_to_json :: "cell \<Rightarrow> json" where
  "compaction_to_json (Table schema rows n) =
     JObj [(''_compaction'', JStr ''table''), (''_schema'', schema_to_json schema), (''_kept'', json_int (length rows)),
           (''_total'', json_int n), (''_rows'', JArr (map (\<lambda>row. JArr (map cell_to_json row)) rows))]"
| "compaction_to_json (OpaqueRef h n kind) =
     JObj [(''_compaction'', JStr ''ccr''), (''_hash'', JStr h), (''_size'', json_int n),
           (''_kind'', JStr (opaque_kind_string kind))]"
| "compaction_to_json (Untouched v) = v"
| "compaction_to_json (Buckets d bs n) = JNull"
| "cell_to_json (CellScalar v) = v"
| "cell_to_json CellMissing = JNull"
| "cell_to_json (CellNested c) = compaction_to_json c"
| "cell_to_json (CellOpaqueRef h n kind) =
     JObj [(''_ccr'', JStr h), (''_size'', json_int n), (''_kind'', JStr (opaque_kind_string kind))]"
  by pat_completeness auto
termination
proof (relation "measure (case_sum size (size_cell_of size))")
  fix schema :: "field_spec list" and rows :: "cell list list" and n row c
  assume "row \<in> set rows" "c \<in> set row"
  then have "size_cell_of size c \<le> size_list (size_list (size_cell_of size)) rows"
    by (intro size_list_estimation' [of row] size_list_estimation' [of c]) simp_all
  then show "(Inr c, Inl (Table schema rows n)) \<in> measure (case_sum size (size_cell_of size))"
    by simp
qed simp_all

definition json_format :: "compaction \<Rightarrow> string" where
  "json_format c = encode_json (compaction_to_json c)"

section \<open>CSV\<close>

definition needs_csv_quote :: "string \<Rightarrow> bool" where
  "needs_csv_quote s \<longleftrightarrow> list_ex (\<lambda>c. c \<in> {CHR '','', CHR 0x22, NL, CR}) s"

definition csv_quote :: "string \<Rightarrow> string" where
  "csv_quote s = CHR 0x22 # concat (map (\<lambda>c. if c = CHR 0x22 then [c, c] else [c]) s) @ [CHR 0x22]"

definition json_scalar_to_csv :: "json \<Rightarrow> string" where
  "json_scalar_to_csv v =
     (case v of
        JNull \<Rightarrow> []
      | JBool b \<Rightarrow> if b then ''true'' else ''false''
      | JNum m \<Rightarrow> m
      | JStr s \<Rightarrow> if needs_csv_quote s then csv_quote s else s
      | _ \<Rightarrow> csv_quote (encode_json v))"

definition format_ccr_marker :: "string \<Rightarrow> nat \<Rightarrow> opaque_kind \<Rightarrow> string" where
  "format_ccr_marker h n kind = marker_for_cell h (opaque_kind_string kind) (int n)"

fun csv_format_cell :: "cell \<Rightarrow> string" where
  "csv_format_cell CellMissing = []"
| "csv_format_cell (CellScalar v) = json_scalar_to_csv v"
| "csv_format_cell (CellNested c) = csv_quote (json_format c)"
| "csv_format_cell (CellOpaqueRef h n kind) = format_ccr_marker h n kind"

definition declare_field :: "field_spec \<Rightarrow> string" where
  "declare_field f = fd_name f @ '':'' @ fd_type_tag f @ (if fd_nullable f then ''?'' else [])"

definition csv_row :: "cell list \<Rightarrow> string" where
  "csv_row cells = join '','' (map csv_format_cell cells)"

definition format_table :: "bool \<Rightarrow> field_spec list \<Rightarrow> cell list list \<Rightarrow> nat \<Rightarrow> string" where
  "format_table drop_summary schema rows n =
     ''['' @ utoa (length rows) @ '']{'' @ join '','' (map declare_field schema) @ ''}''
     @ (if drop_summary \<and> length rows < n then '' __dropped:'' @ utoa (n - length rows) else [])
     @ [NL] @ concat (map (\<lambda>row. csv_row row @ [NL]) rows)"

fun csv_format :: "bool \<Rightarrow> compaction \<Rightarrow> string" where
  "csv_format drop_summary (Table schema rows n) = format_table drop_summary schema rows n"
| "csv_format drop_summary (OpaqueRef h n kind) = format_ccr_marker h n kind"
| "csv_format drop_summary (Untouched v) = encode_json v"
| "csv_format drop_summary (Buckets d bs n) = []"

section \<open>The formatters\<close>

datatype formatter = CsvSchemaFormatter bool | JsonFormatter | MarkdownKvFormatter bool

fun formatter_name :: "formatter \<Rightarrow> string" where
  "formatter_name (CsvSchemaFormatter d) = ''csv-schema''"
| "formatter_name JsonFormatter = ''json''"
| "formatter_name (MarkdownKvFormatter d) = ''markdown-kv''"

fun format_with :: "formatter \<Rightarrow> compaction \<Rightarrow> string" where
  "format_with (CsvSchemaFormatter d) c = csv_format d c"
| "format_with JsonFormatter c = json_format c"
| "format_with (MarkdownKvFormatter d) c = []"

definition estimate_bytes :: "formatter \<Rightarrow> compaction \<Rightarrow> nat" where
  "estimate_bytes f c = length (format_with f c)"

definition kv_scalar :: "json \<Rightarrow> string" where
  "kv_scalar v = (case v of JStr s \<Rightarrow> s | _ \<Rightarrow> encode_json v)"

text \<open>\<open>FormatFloat(x, 'f', 1, 64)\<close> of a non-negative value.\<close>

definition format_1f :: "rat \<Rightarrow> string" where
  "format_1f x = (let n = nat (rne (x * 10)) in utoa (n div 10) @ ''.'' @ [digit_char (n mod 10)])"

definition humanize_bytes :: "int \<Rightarrow> string" where
  "humanize_bytes n =
     (if n < 1024 then itoa n @ ''B''
      else (let kb = f64 (of_int n / 1024)
            in if kb < 1024 then format_1f kb @ ''KB'' else format_1f (f64 (kb / 1024)) @ ''MB''))"

section \<open>Reading a row back\<close>

text \<open>
  A reader of CSV fields: a quoted field runs to a quote that is not doubled, any other one to the next
  comma.
\<close>

fun csv_fields :: "string \<Rightarrow> string list" and csv_plain :: "string \<Rightarrow> string \<Rightarrow> string list"
  and csv_quoted :: "string \<Rightarrow> string \<Rightarrow> string list" where
  "csv_fields [] = [[]]"
| "csv_fields (c # s) = (if c = CHR 0x22 then csv_quoted [] s else if c = CHR '','' then [] # csv_fields s else csv_plain [c] s)"
| "csv_plain acc [] = [acc]"
| "csv_plain acc (c # s) = (if c = CHR '','' then acc # csv_fields s else csv_plain (acc @ [c]) s)"
| "csv_quoted acc [] = [acc]"
| "csv_quoted acc (c # s) =
     (if c \<noteq> CHR 0x22 then csv_quoted (acc @ [c]) s
      else (case s of d # t \<Rightarrow> if d = CHR 0x22 then csv_quoted (acc @ [d]) t else csv_plain acc s | [] \<Rightarrow> [acc]))"

text \<open>The text a cell stands for, and the cells whose text is one field.\<close>

fun cell_text :: "cell \<Rightarrow> string" where
  "cell_text (CellScalar JNull) = []"
| "cell_text (CellScalar v) = kv_scalar v"
| "cell_text (CellNested c) = json_format c"
| "cell_text CellMissing = []"
| "cell_text (CellOpaqueRef h n kind) = format_ccr_marker h n kind"

fun one_field :: "cell \<Rightarrow> bool" where
  "one_field (CellScalar (JNum m)) = number_ok m"
| "one_field (CellOpaqueRef h n kind) = False"
| "one_field _ = True"

definition plain_field :: "string \<Rightarrow> bool" where "plain_field s \<longleftrightarrow> CHR '','' \<notin> set s \<and> CHR 0x22 \<notin> set s"

definition then_fields :: "string \<Rightarrow> string \<Rightarrow> string list" where
  "then_fields t r = (case r of [] \<Rightarrow> [t] | c # r' \<Rightarrow> t # csv_fields r')"

definition ends_field :: "string \<Rightarrow> bool" where "ends_field r \<longleftrightarrow> r = [] \<or> hd r = CHR '',''"

lemma csv_plain_read: "plain_field s \<Longrightarrow> ends_field r \<Longrightarrow> csv_plain acc (s @ r) = then_fields (acc @ s) r"
proof (induction s arbitrary: acc)
  case Nil
  then show ?case by (cases r) (auto simp: then_fields_def ends_field_def)
qed (auto simp: plain_field_def)

lemma csv_quoted_read:
  "ends_field r \<Longrightarrow> csv_quoted acc (concat (map (\<lambda>c. if c = CHR 0x22 then [c, c] else [c]) s) @ CHR 0x22 # r) = then_fields (acc @ s) r"
proof (induction s arbitrary: acc)
  case Nil
  then show ?case by (cases r) (auto simp: then_fields_def ends_field_def)
qed auto

lemma csv_fields_plain: "plain_field s \<Longrightarrow> ends_field r \<Longrightarrow> csv_fields (s @ r) = then_fields s r"
proof (cases s)
  case Nil
  then show "ends_field r \<Longrightarrow> ?thesis" by (cases r) (auto simp: then_fields_def ends_field_def)
next
  case (Cons c t)
  assume "plain_field s" "ends_field r"
  then show ?thesis using csv_plain_read [of t r "[c]"] Cons by (auto simp: plain_field_def)
qed

lemma csv_fields_quote: "ends_field r \<Longrightarrow> csv_fields (csv_quote s @ r) = then_fields s r"
  using csv_quoted_read [of r "[]" s] by (simp add: csv_quote_def)

lemma take_digits_plain: "c \<in> set (take_digits s) \<Longrightarrow> is_digit c"
  by (auto simp: take_digits_def dest: set_takeWhileD)

text \<open>A number literal has no comma and no quote.\<close>

lemma scan_number_chars:
  assumes "scan_number s = Some m" and "c \<in> set m"
  shows "is_digit c \<or> c \<in> set ''+-.eE''"
proof -
  let ?m = "case s of c # _ \<Rightarrow> if c = CHR ''-'' then [c] else [] | [] \<Rightarrow> []"
  obtain i f e where i: "scan_int (drop (length ?m) s) = Some i" and f: "scan_frac (drop (length i) (drop (length ?m) s)) = Some f"
    and e: "scan_exp (drop (length i + length f) (drop (length ?m) s)) = Some e" and m: "m = ?m @ i @ f @ e"
    using assms(1) by (auto simp: scan_number_def Let_def split: option.splits)
  have ic: "c \<in> set i \<Longrightarrow> is_digit c" using i by (auto simp: scan_int_def dest: take_digits_plain split: list.splits if_splits)
  have fc: "c \<in> set f \<Longrightarrow> is_digit c \<or> c = CHR ''.''"
    using f by (auto simp: scan_frac_def dest: take_digits_plain split: list.splits if_splits)
  have ec: "c \<in> set e \<Longrightarrow> is_digit c \<or> c \<in> set ''+-eE''"
    using e by (auto simp: scan_exp_def Let_def dest: take_digits_plain split: list.splits if_splits)
  have mc: "c \<in> set ?m \<Longrightarrow> c = CHR ''-''" by (auto split: list.splits if_splits)
  show ?thesis using assms(2) ic fc ec mc by (auto simp: m)
qed

lemma number_plain: "number_ok m \<Longrightarrow> plain_field m"
  using scan_number_chars [of m m "CHR '',''"] scan_number_chars [of m m "CHR 0x22"]
  by (auto simp: number_ok_def plain_field_def is_digit_def)

lemma unquoted_plain: "\<not> needs_csv_quote s \<Longrightarrow> plain_field s"
  by (auto simp: needs_csv_quote_def plain_field_def list_ex_iff)

lemma csv_cell_read:
  assumes "one_field c" and "ends_field r"
  shows "csv_fields (csv_format_cell c @ r) = then_fields (cell_text c) r"
proof (cases c)
  case (CellScalar v)
  then show ?thesis
  proof (cases v)
    case (JBool b)
    then show ?thesis using CellScalar csv_fields_plain [OF _ assms(2), of "if b then ''true'' else ''false''"]
      by (auto simp: json_scalar_to_csv_def kv_scalar_def plain_field_def split: if_splits)
  next
    case (JNum m)
    then show ?thesis using CellScalar assms csv_fields_plain [OF number_plain assms(2), of m]
      by (simp add: json_scalar_to_csv_def kv_scalar_def)
  next
    case (JStr s)
    then show ?thesis using CellScalar csv_fields_plain [OF unquoted_plain assms(2), of s] csv_fields_quote [OF assms(2), of s]
      by (simp add: json_scalar_to_csv_def kv_scalar_def)
  qed (use CellScalar csv_fields_plain [OF _ assms(2), of "[]"] csv_fields_quote [OF assms(2)] in
        \<open>simp_all add: json_scalar_to_csv_def kv_scalar_def plain_field_def\<close>)
qed (use csv_fields_plain [OF _ assms(2), of "[]"] csv_fields_quote [OF assms(2)] assms(1) in \<open>simp_all add: plain_field_def\<close>)

lemma ends_join: "ends_field (case cs of [] \<Rightarrow> [] | _ \<Rightarrow> CHR '','' # s)"
  by (simp add: ends_field_def split: list.splits)

text \<open>A row of the rendered table splits into the texts of its cells: a comma or a quote in a string never
  runs into the next column. Opaque cells are the exception.
\<close>

theorem csv_row_roundtrip:
  assumes "cells \<noteq> []" and "\<forall>c\<in>set cells. one_field c"
  shows "csv_fields (csv_row cells) = map cell_text cells"
  using assms
proof (induction cells)
  case (Cons c cells)
  show ?case
  proof (cases cells)
    case Nil
    then show ?thesis using csv_cell_read [of c "[]"] Cons.prems by (simp add: csv_row_def ends_field_def then_fields_def)
  next
    case (Cons d ds)
    then have "csv_row (c # cells) = csv_format_cell c @ CHR '','' # csv_row cells" by (simp add: csv_row_def)
    then show ?thesis using csv_cell_read [of c "CHR '','' # csv_row cells"] Cons.IH Cons.prems Cons
      by (simp add: ends_field_def then_fields_def)
  qed
qed simp

theorem csv_row_roundtrip_witness:
  "csv_fields (csv_row [CellScalar (JStr ''a,b''), CellMissing, CellScalar (JNum ''1'')]) = [''a,b'', [], ''1'']"
proof -
  have "number_ok ''1''" by code_simp
  then show ?thesis by (subst csv_row_roundtrip) (auto simp: kv_scalar_def)
qed

text \<open>The marker of an opaque cell has commas of its own and is written unquoted: its row has two fields more.\<close>

lemma opaque_cell_splits:
  "plain_field h \<Longrightarrow> kind = Base64Blob \<Longrightarrow> csv_fields (csv_row [CellOpaqueRef h n kind]) =
     [''<<ccr:'' @ h, ''base64'', itoa (int n) @ ''>>'']"
proof -
  assume h: "plain_field h" and kind: "kind = Base64Blob"
  have "plain_field (''<<ccr:'' @ h)" using h by (simp add: plain_field_def)
  then have "csv_fields ((''<<ccr:'' @ h) @ CHR '','' # s) = (''<<ccr:'' @ h) # csv_fields s" for s
    using csv_fields_plain [of "''<<ccr:'' @ h" "CHR '','' # s"] by (simp add: ends_field_def then_fields_def)
  moreover have "csv_fields (''base64'' @ CHR '','' # s) = ''base64'' # csv_fields s" for s
    using csv_fields_plain [of "''base64''" "CHR '','' # s"] by (simp add: plain_field_def ends_field_def then_fields_def)
  moreover have "plain_field (itoa (int n) @ ''>>'')" using utoa_digits [of n] by (auto simp: itoa_def plain_field_def is_digit_def list_all_iff dest: bspec [of _ _ "CHR '',''"] bspec [of _ _ "CHR 0x22"])
  then have "csv_fields (itoa (int n) @ ''>>'') = [itoa (int n) @ ''>>'']"
    using csv_fields_plain [of "itoa (int n) @ ''>>''" "[]"] by (simp add: ends_field_def then_fields_def)
  ultimately show ?thesis by (simp add: csv_row_def kind format_ccr_marker_def marker_for_cell_def marker_prefix_def marker_suffix_def)
qed

end
