(* ===== verification/CompactWalker.thy ===== *)
theory CompactWalker
  imports CompactFormat CcrStore
begin

text \<open>
  \<open>compaction/stage.go\<close> and \<open>compaction/walker.go\<close>: the table stage of the crusher, and the document walker
  that replaces bulky leaves of a JSON document. The walker's store is optional (\<open>nil\<close> in the source) and
  is passed through the walk. BLAKE3 is the argument \<open>b3\<close>, SHA-256 the argument \<open>sha\<close>.
\<close>

section \<open>The stage\<close>

record compaction_stage =
  cs_config :: compact_config
  cs_formatter :: formatter

definition csv_schema_stage :: "compact_config \<Rightarrow> compaction_stage" where
  "csv_schema_stage cfg = \<lparr>cs_config = cfg, cs_formatter = CsvSchemaFormatter False\<rparr>"

definition default_csv_schema_stage :: compaction_stage where
  "default_csv_schema_stage = \<lparr>cs_config = default_compact_config, cs_formatter = CsvSchemaFormatter False\<rparr>"

definition default_json_stage :: compaction_stage where
  "default_json_stage = \<lparr>cs_config = default_compact_config, cs_formatter = JsonFormatter\<rparr>"

definition default_markdown_kv_stage :: compaction_stage where
  "default_markdown_kv_stage = \<lparr>cs_config = default_compact_config, cs_formatter = MarkdownKvFormatter False\<rparr>"

definition supported_format_names :: "string list" where
  "supported_format_names = [''csv-schema'', ''json'', ''markdown-kv'']"

definition from_format_name :: "string \<Rightarrow> compaction_stage option" where
  "from_format_name name =
     (if name = ''csv-schema'' then Some default_csv_schema_stage
      else if name = ''json'' then Some default_json_stage
      else if name = ''markdown-kv'' then Some default_markdown_kv_stage
      else None)"

definition run_stage :: "(string \<Rightarrow> string) \<Rightarrow> compaction_stage \<Rightarrow> json list \<Rightarrow> compaction \<times> string" where
  "run_stage sha st items = (let c = compact sha (cs_config st) items in (c, format_with (cs_formatter st) c))"

section \<open>The walker\<close>

record 's document_compactor =
  dc_config :: compact_config
  dc_formatter :: formatter
  dc_store :: "'s store_ops option"

definition emit_opaque_ccr_marker ::
  "(string \<Rightarrow> string) \<Rightarrow> 's store_ops option \<Rightarrow> string \<Rightarrow> opaque_kind \<Rightarrow> 's \<Rightarrow> string \<times> 's" where
  "emit_opaque_ccr_marker b3 ops payload kind st =
     (format_ccr_marker (compute_key b3 payload) (length payload) kind,
      case ops of None \<Rightarrow> st | Some o' \<Rightarrow> st_put o' (compute_key b3 payload) payload st)"

text \<open>A container in a string is walked and written back; \<open>None\<close> of \<open>try_parse_container\<close> leaves a leaf.\<close>

definition walk_leaf :: "(string \<Rightarrow> string) \<Rightarrow> 's document_compactor \<Rightarrow> string \<Rightarrow> 's \<Rightarrow> json \<times> 's" where
  "walk_leaf b3 D t st =
     (case classify_string t (cc_classify (dc_config D)) of
        ClassOpaque kind \<Rightarrow> (case emit_opaque_ccr_marker b3 (dc_store D) t kind st of (m, st') \<Rightarrow> (JStr m, st'))
      | _ \<Rightarrow> (JStr t, st))"

definition written_back :: "string \<Rightarrow> json \<Rightarrow> json" where
  "written_back t v =
     (case v of JStr u \<Rightarrow> v | _ \<Rightarrow> if encode_json v \<noteq> [] then JStr (encode_json v) else JStr t)"

function walk_doc :: "(string \<Rightarrow> string) \<Rightarrow> (string \<Rightarrow> string) \<Rightarrow> 's document_compactor \<Rightarrow> json \<Rightarrow> 's \<Rightarrow> json \<times> 's"
  and walk_list :: "(string \<Rightarrow> string) \<Rightarrow> (string \<Rightarrow> string) \<Rightarrow> 's document_compactor \<Rightarrow> json list \<Rightarrow> 's \<Rightarrow> json list \<times> 's"
  and walk_members ::
    "(string \<Rightarrow> string) \<Rightarrow> (string \<Rightarrow> string) \<Rightarrow> 's document_compactor \<Rightarrow> (string \<times> json) list \<Rightarrow> 's
       \<Rightarrow> (string \<times> json) list \<times> 's" where
  "walk_doc sha b3 D v st =
     (case v of
        JObj ms \<Rightarrow> (case walk_members sha b3 D ms st of (ms', st') \<Rightarrow> (JObj ms', st'))
      | JArr vs \<Rightarrow>
          (case walk_list sha b3 D vs st of
             (inner, st') \<Rightarrow>
               (let c = compact sha (dc_config D) inner
                in (if was_compacted c then JStr (format_with (dc_formatter D) c) else JArr inner, st')))
      | JStr t \<Rightarrow>
          (case try_parse_container t of
             Some p \<Rightarrow> (case walk_doc sha b3 D p st of (w, st') \<Rightarrow> (written_back t w, st'))
           | None \<Rightarrow> walk_leaf b3 D t st)
      | _ \<Rightarrow> (v, st))"
| "walk_list sha b3 D [] st = ([], st)"
| "walk_list sha b3 D (v # vs) st =
     (case walk_doc sha b3 D v st of (w, st1) \<Rightarrow> (case walk_list sha b3 D vs st1 of (ws, st2) \<Rightarrow> (w # ws, st2)))"
| "walk_members sha b3 D [] st = ([], st)"
| "walk_members sha b3 D ((k, v) # ms) st =
     (case walk_doc sha b3 D v st of (w, st1) \<Rightarrow> (case walk_members sha b3 D ms st1 of (ws, st2) \<Rightarrow> ((k, w) # ws, st2)))"
  by pat_completeness auto

lemma weight_pos: "0 < weight v"
  by (cases v) simp_all

termination walk_doc
  by (relation "measure (\<lambda>x. case x of
        Inl (sha, b3, D, v, st) \<Rightarrow> 2 * weight v
      | Inr (Inl (sha, b3, D, vs, st)) \<Rightarrow> 2 * sum_list (map weight vs) + 1
      | Inr (Inr (sha, b3, D, ms, st)) \<Rightarrow> 2 * sum_list (map (\<lambda>(k, v). weight v) ms) + 1)")
     (auto simp: weight_pos dest: try_parse_weight)

declare walk_doc.simps [simp del]

definition compact_document :: "(string \<Rightarrow> string) \<Rightarrow> (string \<Rightarrow> string) \<Rightarrow> json \<Rightarrow> json" where
  "compact_document sha b3 doc =
     fst (walk_doc sha b3 \<lparr>dc_config = default_compact_config, dc_formatter = CsvSchemaFormatter False,
                      dc_store = None\<rparr> doc ())"

section \<open>What the walk does to the store\<close>

text \<open>The names of \<open>SupportedFormatNames\<close> are the ones \<open>FromFormatName\<close> resolves.\<close>

lemma supported_names_exact: "from_format_name name \<noteq> None \<longleftrightarrow> name \<in> set supported_format_names"
  by (simp add: from_format_name_def supported_format_names_def)

lemma format_name_resolves: "from_format_name name = Some st \<Longrightarrow> formatter_name (cs_formatter st) = name"
  by (auto simp: from_format_name_def default_csv_schema_stage_def default_json_stage_def default_markdown_kv_stage_def
           split: if_splits)

text \<open>Payloads put under hashes, and payloads put under their own keys.\<close>

definition put_pairs :: "'s store_ops option \<Rightarrow> (string \<times> string) list \<Rightarrow> 's \<Rightarrow> 's" where
  "put_pairs ops hps st = fold (\<lambda>(h, p) st. case ops of None \<Rightarrow> st | Some o' \<Rightarrow> st_put o' h p st) hps st"

definition put_payloads :: "(string \<Rightarrow> string) \<Rightarrow> 's store_ops option \<Rightarrow> string list \<Rightarrow> 's \<Rightarrow> 's" where
  "put_payloads key ops ps = put_pairs ops (map (\<lambda>p. (key p, p)) ps)"

lemma put_pairs_simps [simp]:
  "put_pairs ops [] st = st"
  "put_pairs ops (hps @ hps') st = put_pairs ops hps' (put_pairs ops hps st)"
  by (simp_all add: put_pairs_def)

lemma put_pairs_Cons: "put_pairs (Some ops) ((h, p) # hps) st = put_pairs (Some ops) hps (st_put ops h p st)"
  by (simp add: put_pairs_def)

lemma put_pairs_one: "put_pairs ops [(h, p)] st = (case ops of None \<Rightarrow> st | Some o' \<Rightarrow> st_put o' h p st)"
  by (simp add: put_pairs_def)

lemma put_payloads_simps [simp]:
  "put_payloads key ops [] st = st"
  "put_payloads key ops (ps @ qs) st = put_payloads key ops qs (put_payloads key ops ps st)"
  by (simp_all add: put_payloads_def)

lemma put_payloads_Cons: "put_payloads key (Some ops) (p # ps) st = put_payloads key (Some ops) ps (st_put ops (key p) p st)"
  by (simp add: put_payloads_def put_pairs_Cons)

lemma put_payloads_single: "put_payloads key ops [p] st = (case ops of None \<Rightarrow> st | Some o' \<Rightarrow> st_put o' (key p) p st)"
  by (simp add: put_payloads_def put_pairs_one)

text \<open>The payloads a walk replaces by markers, in the order it meets them.\<close>

function opaque_leaves :: "classify_config \<Rightarrow> json \<Rightarrow> string list" where
  "opaque_leaves cfg v =
     (case v of
        JObj ms \<Rightarrow> concat (map (\<lambda>(k, v). opaque_leaves cfg v) ms)
      | JArr vs \<Rightarrow> concat (map (opaque_leaves cfg) vs)
      | JStr t \<Rightarrow>
          (case classify_string t cfg of
             ClassStringifiedJson p \<Rightarrow> opaque_leaves cfg p
           | ClassOpaque kind \<Rightarrow> [t]
           | _ \<Rightarrow> [])
      | _ \<Rightarrow> [])"
  by pat_completeness auto

lemma weight_member_in: "(k, v) \<in> set ms \<Longrightarrow> weight v < weight (JObj ms)"
  by (induction ms) auto

termination opaque_leaves
proof (relation "measure (\<lambda>(cfg, v). weight v)", goal_cases)
  case (2 cfg v t p)
  then show ?case using classify_weight [of "JStr t" cfg p] by simp
qed (auto dest: weight_member_in weight_elem)

declare opaque_leaves.simps [simp del]

lemma classify_container: "classify_string t cfg = ClassStringifiedJson p \<longleftrightarrow> try_parse_container t = Some p"
  by (auto simp: classify_string_def split: option.splits if_splits)

text \<open>
  The walked value and the payloads stored do not depend on the store: the payloads are put one after
  the other, each under its own key.
\<close>

lemma walk_puts:
  "\<exists>w. \<forall>ops st. walk_doc sha b3 (D\<lparr>dc_store := ops\<rparr>) v st
     = (w, put_payloads (compute_key b3) ops (opaque_leaves (cc_classify (dc_config D)) v) st)"
  "\<exists>ws. \<forall>ops st. walk_list sha b3 (D\<lparr>dc_store := ops\<rparr>) vs st
     = (ws, put_payloads (compute_key b3) ops (concat (map (opaque_leaves (cc_classify (dc_config D))) vs)) st)"
  "\<exists>ws. \<forall>ops st. walk_members sha b3 (D\<lparr>dc_store := ops\<rparr>) ms st
     = (ws, put_payloads (compute_key b3) ops (concat (map (\<lambda>(k, v). opaque_leaves (cc_classify (dc_config D)) v) ms)) st)"
proof (induction sha b3 D v _ and sha b3 D vs _ and sha b3 D ms _ rule: walk_doc_walk_list_walk_members.induct)
  case (1 sha b3 D v st)
  let ?W = "\<lambda>ops v st. walk_doc sha b3 (D\<lparr>dc_store := ops\<rparr>) v st" and ?cfg = "cc_classify (dc_config D)"
  show ?case
  proof (cases v)
    case (JObj ms)
    then show ?thesis using 1(3) [OF JObj] by (fastforce simp: walk_doc.simps [of _ _ _ "JObj ms"] opaque_leaves.simps [of _ "JObj ms"])
  next
    case (JArr vs)
    then obtain ws where ws: "\<And>ops st. walk_list sha b3 (D\<lparr>dc_store := ops\<rparr>) vs st
        = (ws, put_payloads (compute_key b3) ops (concat (map (opaque_leaves ?cfg) vs)) st)"
      using 1(2) by blast
    let ?c = "compact sha (dc_config D) ws"
    have "\<forall>ops st. ?W ops v st = (if was_compacted ?c then JStr (format_with (dc_formatter D) ?c) else JArr ws,
        put_payloads (compute_key b3) ops (opaque_leaves ?cfg v) st)"
      by (simp add: JArr walk_doc.simps [of _ _ _ "JArr vs"] opaque_leaves.simps [of _ "JArr vs"] ws)
    then show ?thesis by blast
  next
    case (JStr t)
    note leaf = walk_doc.simps [of _ _ _ "JStr t"] walk_leaf_def opaque_leaves.simps [of _ "JStr t"]
    show ?thesis
    proof (cases "try_parse_container t")
      case (Some p)
      then obtain w where "\<And>ops st. ?W ops p st = (w, put_payloads (compute_key b3) ops (opaque_leaves ?cfg p) st)"
        using 1(1) [OF JStr Some] by blast
      moreover have "classify_string t ?cfg = ClassStringifiedJson p" using Some by (simp add: classify_container)
      ultimately have "\<forall>ops st. ?W ops v st = (written_back t w, put_payloads (compute_key b3) ops (opaque_leaves ?cfg v) st)"
        by (simp add: JStr Some leaf)
      then show ?thesis by blast
    next
      case None
      then have c: "classify_string t ?cfg \<noteq> ClassStringifiedJson p" for p by (simp add: classify_container)
      show ?thesis
      proof (cases "\<exists>kind. classify_string t ?cfg = ClassOpaque kind")
        case True
        then obtain kind where "classify_string t ?cfg = ClassOpaque kind" by blast
        then have "\<forall>ops st. ?W ops v st = (JStr (format_ccr_marker (compute_key b3 t) (length t) kind),
            put_payloads (compute_key b3) ops (opaque_leaves ?cfg v) st)"
          by (simp add: JStr leaf None emit_opaque_ccr_marker_def put_payloads_single)
        then show ?thesis by blast
      next
        case False
        then have "\<forall>ops st. ?W ops v st = (v, put_payloads (compute_key b3) ops (opaque_leaves ?cfg v) st)"
          using c by (simp add: JStr leaf None split: cell_class.splits)
        then show ?thesis by blast
      qed
    qed
  qed (simp_all add: walk_doc.simps opaque_leaves.simps)
next
  case (3 sha b3 D v vs st)
  obtain w where w: "\<And>ops st. walk_doc sha b3 (D\<lparr>dc_store := ops\<rparr>) v st
      = (w, put_payloads (compute_key b3) ops (opaque_leaves (cc_classify (dc_config D)) v) st)"
    using 3(1) by blast
  obtain ws where "\<And>ops st. walk_list sha b3 (D\<lparr>dc_store := ops\<rparr>) vs st
      = (ws, put_payloads (compute_key b3) ops (concat (map (opaque_leaves (cc_classify (dc_config D))) vs)) st)"
    using 3(2) [OF prod.collapse] by blast
  then show ?case by (simp add: w)
next
  case (5 sha b3 D k v ms st)
  obtain w where w: "\<And>ops st. walk_doc sha b3 (D\<lparr>dc_store := ops\<rparr>) v st
      = (w, put_payloads (compute_key b3) ops (opaque_leaves (cc_classify (dc_config D)) v) st)"
    using 5(1) by blast
  obtain ws where "\<And>ops st. walk_members sha b3 (D\<lparr>dc_store := ops\<rparr>) ms st
      = (ws, put_payloads (compute_key b3) ops (concat (map (\<lambda>(k, v). opaque_leaves (cc_classify (dc_config D)) v) ms)) st)"
    using 5(2) [OF prod.collapse] by blast
  then show ?case by (simp add: w)
qed simp_all

lemma walk_store:
  "snd (walk_doc sha b3 D v st) = put_payloads (compute_key b3) (dc_store D) (opaque_leaves (cc_classify (dc_config D)) v) st"
proof -
  obtain w where "\<forall>ops st. walk_doc sha b3 (D\<lparr>dc_store := ops\<rparr>) v st
      = (w, put_payloads (compute_key b3) ops (opaque_leaves (cc_classify (dc_config D)) v) st)" using walk_puts(1) by blast
  then have "walk_doc sha b3 (D\<lparr>dc_store := dc_store D\<rparr>) v st
      = (w, put_payloads (compute_key b3) (dc_store D) (opaque_leaves (cc_classify (dc_config D)) v) st)" by blast
  then show ?thesis by simp
qed

lemma walk_value: "fst (walk_doc sha b3 D v st) = fst (walk_doc sha b3 (D\<lparr>dc_store := None\<rparr>) v st')"
proof -
  obtain w where w: "\<And>ops st. walk_doc sha b3 (D\<lparr>dc_store := ops\<rparr>) v st
      = (w, put_payloads (compute_key b3) ops (opaque_leaves (cc_classify (dc_config D)) v) st)" using walk_puts(1) by blast
  have "fst (walk_doc sha b3 (D\<lparr>dc_store := dc_store D\<rparr>) v st) = w" unfolding w by simp
  then show ?thesis by (simp add: w)
qed

section \<open>What the store resolves afterwards\<close>

context ccr_store
begin

lemma put_pairs_inv: "inv st \<Longrightarrow> inv (put_pairs (Some ops) hps st)"
  by (induction hps arbitrary: st) (auto simp: put_pairs_Cons put_inv)

lemma put_payloads_inv: "inv st \<Longrightarrow> inv (put_payloads key (Some ops) ps st)"
  by (simp add: put_payloads_def put_pairs_inv)

text \<open>An entry is unchanged, gone, or one of the payloads under its hash.\<close>

lemma put_pairs_view:
  "inv st \<Longrightarrow> view (put_pairs (Some ops) hps st) h \<in> {view st h, None}
     \<or> (\<exists>p. (h, p) \<in> set hps \<and> view (put_pairs (Some ops) hps st) h = Some p)"
proof (induction hps arbitrary: st)
  case (Cons hp hps)
  obtain h' p where hp: "hp = (h', p)" by fastforce
  let ?st = "st_put ops h' p st"
  have "view ?st h \<in> {view st h, None} \<or> h = h' \<and> view ?st h = Some p"
    using put_view_cases [OF Cons.prems, of h' p h] put_same [OF Cons.prems] by (cases "h = h'") auto
  then show ?case using Cons.IH [OF put_inv [OF Cons.prems], of h' p] by (auto simp: hp put_pairs_Cons)
qed simp

end

context lossless_store
begin

lemma put_payloads_other: "inv st \<Longrightarrow> h \<notin> key ` set ps \<Longrightarrow> view (put_payloads key (Some ops) ps st) h = view st h"
proof (induction ps arbitrary: st)
  case (Cons p ps)
  then show ?case using put_keeps [OF Cons.prems(1), of h "key p" p] put_inv [OF Cons.prems(1), of "key p" p]
    by (simp add: put_payloads_Cons)
qed simp

lemma put_payloads_kept:
  "inv st \<Longrightarrow> p \<in> set ps \<Longrightarrow> inj_on key (set ps) \<Longrightarrow> view (put_payloads key (Some ops) ps st) (key p) = Some p"
proof (induction ps arbitrary: st)
  case (Cons q ps)
  have inv: "inv (st_put ops (key q) q st)" using Cons.prems(1) by (rule put_inv)
  show ?case
  proof (cases "p \<in> set ps")
    case True
    then show ?thesis using Cons.IH [OF inv] Cons.prems(3) by (simp add: put_payloads_Cons inj_on_def)
  next
    case False
    then have "p = q" "key p \<notin> key ` set ps" using Cons.prems(2,3) by (auto simp: inj_on_def)
    then show ?thesis using put_payloads_other [OF inv] put_same [OF Cons.prems(1)] by (simp add: put_payloads_Cons)
  qed
qed simp

end


definition tiny_walker :: "sqlite document_compactor" where
  "tiny_walker = \<lparr>dc_config = default_compact_config\<lparr>cc_classify := default_classify_config\<lparr>cf_opaque_min_bytes := 0\<rparr>\<rparr>,
     dc_formatter = CsvSchemaFormatter False, dc_store = Some sql_ops\<rparr>"

lemma tiny_leaves: "opaque_leaves (cc_classify (dc_config tiny_walker)) (JStr ''ab'') = [''ab'']"
proof -
  have "try_parse_container ''ab'' = None" by code_simp
  moreover have "\<not> looks_like_html ''ab'' 3" by code_simp
  ultimately show ?thesis
    by (simp add: opaque_leaves.simps tiny_walker_def classify_string_def default_classify_config_def looks_like_base64_def)
qed


end
