(* ===== verification/SmartCrusher.thy ===== *)
theory SmartCrusher
  imports CrushPlannerProps CompactWalker Relevance
begin

text \<open>
  \<open>builder.go\<close> and \<open>crusher.go\<close>: the assembled crusher. Its CCR store is optional and is passed through
  every step that may write it. The observers are kept by the builder and never called by the source.
  Deep copies are identities on values. The argument \<open>bias\<close> of the source is handed down and not read.
\<close>

section \<open>The builder\<close>

type_synonym scorer = "string list \<Rightarrow> string \<Rightarrow> rel_score list"

record 's crusher_builder =
  bd_config :: crush_config
  bd_anchors :: "anchor_config option"
  bd_scorer :: "scorer option"
  bd_constraints :: "crush_constraint list"
  bd_observers :: "string list"
  bd_compaction :: "compaction_stage option"
  bd_store :: "'s store_ops option"

record 's smart_crusher =
  sc_config :: crush_config
  sc_anchors :: anchor_config
  sc_scorer :: scorer
  sc_planner :: planner
  sc_constraints :: "crush_constraint list"
  sc_observers :: "string list"
  sc_compaction :: "compaction_stage option"
  sc_store :: "'s store_ops option"

definition new_crusher_builder :: "crush_config \<Rightarrow> 's crusher_builder" where
  "new_crusher_builder cfg =
     \<lparr>bd_config = cfg, bd_anchors = None, bd_scorer = None, bd_constraints = [], bd_observers = [],
      bd_compaction = None, bd_store = None\<rparr>"

definition with_anchor_config :: "anchor_config \<Rightarrow> 's crusher_builder \<Rightarrow> 's crusher_builder" where
  "with_anchor_config cfg b = b\<lparr>bd_anchors := Some cfg\<rparr>"

definition with_scorer :: "scorer \<Rightarrow> 's crusher_builder \<Rightarrow> 's crusher_builder" where
  "with_scorer sc b = b\<lparr>bd_scorer := Some sc\<rparr>"

definition add_constraint :: "crush_constraint \<Rightarrow> 's crusher_builder \<Rightarrow> 's crusher_builder" where
  "add_constraint c b = b\<lparr>bd_constraints := bd_constraints b @ [c]\<rparr>"

definition add_default_oss_constraints :: "crush_env \<Rightarrow> 's crusher_builder \<Rightarrow> 's crusher_builder" where
  "add_default_oss_constraints E b = b\<lparr>bd_constraints := bd_constraints b @ default_oss_constraints E\<rparr>"

definition add_observer :: "string \<Rightarrow> 's crusher_builder \<Rightarrow> 's crusher_builder" where
  "add_observer name b = b\<lparr>bd_observers := bd_observers b @ [name]\<rparr>"

definition with_default_oss_setup :: "crush_env \<Rightarrow> 's crusher_builder \<Rightarrow> 's crusher_builder" where
  "with_default_oss_setup E b =
     add_observer ''tracing'' (add_default_oss_constraints E (with_scorer (hybrid_score_batch (ce_lower E)) b))"

definition with_compaction :: "compaction_stage \<Rightarrow> 's crusher_builder \<Rightarrow> 's crusher_builder" where
  "with_compaction st b = b\<lparr>bd_compaction := Some st\<rparr>"

definition with_default_compaction :: "'s crusher_builder \<Rightarrow> 's crusher_builder" where
  "with_default_compaction b = b\<lparr>bd_compaction := Some default_csv_schema_stage\<rparr>"

definition with_ccr_store :: "'s store_ops \<Rightarrow> 's crusher_builder \<Rightarrow> 's crusher_builder" where
  "with_ccr_store ops b = b\<lparr>bd_store := Some ops\<rparr>"

text \<open>The in-memory store of \<open>FromConfig\<close>; its constructor is registered by the blank import, so the panic is dead.\<close>

definition must_in_memory_store :: "int \<Rightarrow> inmem option" where
  "must_in_memory_store now =
     (case from_config True False \<lparr>bc_kind = InMemory, bc_capacity = 0, bc_ttl_seconds = 0, bc_path = []\<rparr> of
        Inr (UseInMemory cap ttl) \<Rightarrow> Some (new_in_memory cap ttl now)
      | _ \<Rightarrow> None)"

definition with_default_ccr_store :: "inmem crusher_builder \<Rightarrow> inmem crusher_builder" where
  "with_default_ccr_store b = b\<lparr>bd_store := Some mem_ops\<rparr>"

definition from_parts ::
  "crush_config \<Rightarrow> anchor_config \<Rightarrow> scorer \<Rightarrow> crush_constraint list \<Rightarrow> string list \<Rightarrow> compaction_stage option
     \<Rightarrow> 's store_ops option \<Rightarrow> 's smart_crusher" where
  "from_parts cfg anchors scorer constraints observers stage store =
     \<lparr>sc_config = cfg, sc_anchors = anchors, sc_scorer = scorer,
      sc_planner = \<lparr>pn_config = cfg, pn_anchors = anchors, pn_scorer = scorer, pn_constraints = constraints\<rparr>,
      sc_constraints = constraints, sc_observers = observers, sc_compaction = stage, sc_store = store\<rparr>"

definition build_crusher :: "crush_env \<Rightarrow> 's crusher_builder \<Rightarrow> 's smart_crusher" where
  "build_crusher E b =
     from_parts (bd_config b)
       (case bd_anchors b of Some cfg \<Rightarrow> cfg | None \<Rightarrow> default_anchor_config)
       (case bd_scorer b of Some sc \<Rightarrow> sc | None \<Rightarrow> hybrid_score_batch (ce_lower E))
       (bd_constraints b) (bd_observers b) (bd_compaction b) (bd_store b)"

definition new_smart_crusher :: "crush_env \<Rightarrow> crush_config \<Rightarrow> inmem smart_crusher" where
  "new_smart_crusher E cfg =
     build_crusher E (with_default_ccr_store (with_default_compaction (with_default_oss_setup E (new_crusher_builder cfg))))"

definition new_smart_crusher_without_compaction :: "crush_env \<Rightarrow> crush_config \<Rightarrow> inmem smart_crusher" where
  "new_smart_crusher_without_compaction E cfg =
     build_crusher E (with_default_ccr_store (with_default_oss_setup E (new_crusher_builder cfg)))"

lemma must_in_memory_ok: "must_in_memory_store now = Some (new_in_memory default_capacity default_ttl now)"
  by (simp add: must_in_memory_store_def from_config_def)

section \<open>Crushing one array\<close>

record crush_array_result =
  ar_items :: "json list"
  ar_strategy_info :: string
  ar_ccr_hash :: "string option"
  ar_dropped_summary :: string
  ar_compacted :: "string option"
  ar_compaction_kind :: "string option"

definition kept_array :: "json list \<Rightarrow> string \<Rightarrow> crush_array_result" where
  "kept_array items info =
     \<lparr>ar_items = items, ar_strategy_info = info, ar_ccr_hash = None, ar_dropped_summary = [],
      ar_compacted = None, ar_compaction_kind = None\<rparr>"

definition crush_hash :: "crush_env \<Rightarrow> string \<Rightarrow> string" where
  "crush_hash E canonical = hex_encode (take 6 (ce_sha256 E canonical))"

fun compaction_kind_str :: "compaction \<Rightarrow> string" where
  "compaction_kind_str (Table schema rows n) = ''table''"
| "compaction_kind_str (Buckets d bs n) = ''buckets''"
| "compaction_kind_str (OpaqueRef h n kind) = ''opaque''"
| "compaction_kind_str _ = ''table''"

definition estimate_array_bytes :: "string list \<Rightarrow> nat" where
  "estimate_array_bytes ss = sum_list (map length ss) + sat_sub (int (length ss)) 1 + 2"

definition json_equal :: "json \<Rightarrow> json \<Rightarrow> bool" where
  "json_equal a b \<longleftrightarrow> encode_json a = encode_json b"

text \<open>The factor-out strip of one kept item: the members whose value is the recorded constant go.\<close>

fun strip_constants :: "obj \<Rightarrow> obj \<Rightarrow> obj \<times> bool" where
  "strip_constants [] ms = (ms, False)"
| "strip_constants ((k, c) # cs) ms =
     (case map_of ms k of
        Some v \<Rightarrow> if json_equal v c then (case strip_constants cs (AList.delete k ms) of (ms', b) \<Rightarrow> (ms', True))
                  else strip_constants cs ms
      | None \<Rightarrow> strip_constants cs ms)"

fun strip_item :: "obj \<Rightarrow> json \<Rightarrow> json \<times> bool" where
  "strip_item cs (JObj ms) = (case strip_constants cs ms of (ms', b) \<Rightarrow> (JObj ms', b))"
| "strip_item cs v = (v, False)"

definition execute_plan :: "crush_config \<Rightarrow> compression_plan \<Rightarrow> json list \<Rightarrow> json list" where
  "execute_plan cfg plan items =
     (let kept = map ((!) items) (filter (\<lambda>i. i < length items) (sort (pl_keep_indices plan)));
          consts = sort_key fst (pl_constant_fields plan)
      in if kc_factor_out_constants cfg \<and> consts \<noteq> [] \<and> 2 \<le> length kept then
           (let stripped = map (strip_item consts) kept
            in if list_ex snd stripped then JObj [(''_constant_fields'', JObj consts)] # map fst stripped
               else map fst stripped)
         else kept)"

text \<open>Tier 2: the lossless table, when it saves enough bytes.\<close>

definition lossless_attempt :: "crush_env \<Rightarrow> 's smart_crusher \<Rightarrow> json list \<Rightarrow> crush_array_result option" where
  "lossless_attempt E C items =
     (case sc_compaction C of
        None \<Rightarrow> None
      | Some stage \<Rightarrow>
          (case run_stage (ce_sha256 E) stage items of
             (tree, rendered) \<Rightarrow>
               if was_compacted tree then
                 (let input_bytes = estimate_array_bytes (map encode_json items);
                      ratio = (if 0 < input_bytes then f64 (1 - f64 (of_nat (length rendered) / of_nat input_bytes)) else 0)
                  in if kc_min_savings_ratio (sc_config C) \<le> ratio
                     then Some \<lparr>ar_items = items, ar_strategy_info = ''lossless:'' @ compaction_kind_str tree,
                                ar_ccr_hash = None, ar_dropped_summary = [], ar_compacted = Some rendered,
                                ar_compaction_kind = Some (compaction_kind_str tree)\<rparr>
                     else None)
               else None))"

text \<open>Tier 3: rows are dropped; the marker and the stored original stand for them.\<close>

definition lossy_result :: "crush_env \<Rightarrow> 's smart_crusher \<Rightarrow> json list \<Rightarrow> json list \<Rightarrow> string \<Rightarrow> 's \<Rightarrow> crush_array_result \<times> 's" where
  "lossy_result E C items result info st =
     (let dropped = sat_sub (int (length items)) (int (length result)) in
      if 0 < dropped \<and> kc_enable_ccr_marker (sc_config C) then
        (let canonical = encode_json (JArr items); h = crush_hash E canonical
         in (\<lparr>ar_items = result, ar_strategy_info = info, ar_ccr_hash = Some h,
              ar_dropped_summary = marker_for_lossy h (int dropped), ar_compacted = None, ar_compaction_kind = None\<rparr>,
             case sc_store C of None \<Rightarrow> st | Some ops \<Rightarrow> st_put ops h canonical st))
      else (kept_array result info, st))"

definition adaptive_k :: "crush_config \<Rightarrow> nat \<Rightarrow> int" where
  "adaptive_k cfg n = (if 0 < kc_max_items cfg then min (kc_max_items cfg) (int n) else int n)"

definition crush_array :: "crush_env \<Rightarrow> 's smart_crusher \<Rightarrow> json list \<Rightarrow> string \<Rightarrow> 's \<Rightarrow> crush_array_result \<times> 's" where
  "crush_array E C items query st =
     (let n = length items; cfg = sc_config C; k = adaptive_k cfg n in
      if int n \<le> k then (kept_array items ''none:adaptive_at_limit'', st)
      else (case lossless_attempt E C items of
              Some r \<Rightarrow> (r, st)
            | None \<Rightarrow>
                (let rows = as_ordered_maps items; a = analyze_array E cfg rows
                 in if aa_strategy a = StrategySkip
                    then (kept_array items (case aa_crushability a of None \<Rightarrow> [] | Some c \<Rightarrow> ''skip:'' @ ca_reason c), st)
                    else lossy_result E C items
                           (execute_plan cfg (create_plan E (sc_planner C) a rows query [] (Some k) (Some (map encode_json items))) items)
                           (strategy_string (aa_strategy a)) st)))"

section \<open>The walk over the document\<close>

primrec map_state :: "('a \<Rightarrow> 's \<Rightarrow> 'b \<times> 's) \<Rightarrow> 'a list \<Rightarrow> 's \<Rightarrow> 'b list \<times> 's" where
  "map_state f [] st = ([], st)"
| "map_state f (x # xs) st = (case f x st of (y, st1) \<Rightarrow> (case map_state f xs st1 of (ys, st2) \<Rightarrow> (y # ys, st2)))"

definition join_infos :: "string list \<Rightarrow> string" where
  "join_infos infos = join '','' (filter (\<lambda>i. i \<noteq> []) infos)"

definition arrow_info :: "string \<Rightarrow> nat \<Rightarrow> string \<Rightarrow> nat \<Rightarrow> string" where
  "arrow_info info n arrow k = info @ ''('' @ utoa n @ arrow @ utoa k @ '')''"

type_synonym 's value_step = "json \<Rightarrow> 's \<Rightarrow> (json \<times> string) \<times> 's"

definition process_array :: "crush_env \<Rightarrow> 's smart_crusher \<Rightarrow> string \<Rightarrow> 's value_step \<Rightarrow> json list \<Rightarrow> 's \<Rightarrow> (json \<times> string) \<times> 's" where
  "process_array E C query recurse items st =
     (if kc_min_items (sc_config C) \<le> int (length items) \<and> classify_array items = DictArray then
        (case crush_array E C items query st of
           (r, st') \<Rightarrow>
             (case ar_compacted r of
                Some t \<Rightarrow> ((JStr t, arrow_info (ar_strategy_info r) (length items) ''->len='' (length t)), st')
              | None \<Rightarrow>
                  ((JArr (ar_items r @ (if ar_dropped_summary r \<noteq> [] then [JObj [(''_ccr_dropped'', JStr (ar_dropped_summary r))]] else [])),
                    arrow_info (ar_strategy_info r) (length items) ''->'' (length (ar_items r))), st')))
      else
        (case map_state recurse items st of
           (ys, st') \<Rightarrow> ((JArr (map fst ys), join_infos (map snd ys)), st')))"

definition process_object :: "'s value_step \<Rightarrow> obj \<Rightarrow> 's \<Rightarrow> (json \<times> string) \<times> 's" where
  "process_object recurse ms st =
     (case map_state (\<lambda>(k, v) s. case recurse v s of ((w, info), s') \<Rightarrow> ((k, w, info), s')) ms st of
        (ys, st') \<Rightarrow> ((JObj (map (\<lambda>(k, w, info). (k, w)) ys), join_infos (map (\<lambda>(k, w, info). info) ys)), st'))"

definition string_walker :: "'s smart_crusher \<Rightarrow> 's document_compactor" where
  "string_walker C = \<lparr>dc_config = default_compact_config, dc_formatter = CsvSchemaFormatter False, dc_store = sc_store C\<rparr>"

definition process_string :: "crush_env \<Rightarrow> 's smart_crusher \<Rightarrow> 's value_step \<Rightarrow> string \<Rightarrow> 's \<Rightarrow> (json \<times> string) \<times> 's" where
  "process_string E C recurse s st =
     (case try_parse_container s of
        Some p \<Rightarrow>
          (case recurse p st of
             ((v, sub), st') \<Rightarrow>
               ((JStr (case v of JStr t \<Rightarrow> t | _ \<Rightarrow> encode_json v),
                 if sub \<noteq> [] then ''string_json['' @ sub @ '']'' else ''string_json''), st'))
      | None \<Rightarrow>
          (case walk_doc (ce_sha256 E) (ce_blake3 E) (string_walker C) (JStr s) st of
             (w, st') \<Rightarrow> ((case w of JStr t \<Rightarrow> if t \<noteq> s then (JStr t, ''string_ccr'') else (JStr s, []) | _ \<Rightarrow> (JStr s, [])), st')))"

text \<open>\<open>processValue\<close> with the depth that is left.\<close>

primrec process_value :: "crush_env \<Rightarrow> 's smart_crusher \<Rightarrow> string \<Rightarrow> nat \<Rightarrow> 's value_step" where
  "process_value E C query 0 = (\<lambda>v st. ((v, []), st))"
| "process_value E C query (Suc d) = (\<lambda>v st.
     case v of
       JArr vs \<Rightarrow> process_array E C query (process_value E C query d) vs st
     | JObj ms \<Rightarrow> process_object (process_value E C query d) ms st
     | JStr s \<Rightarrow> process_string E C (process_value E C query d) s st
     | _ \<Rightarrow> ((v, []), st))"

definition max_process_depth :: nat where "max_process_depth = 50"

definition smart_crush_content ::
  "crush_env \<Rightarrow> 's smart_crusher \<Rightarrow> string \<Rightarrow> string \<Rightarrow> 's \<Rightarrow> (string \<times> bool \<times> string) \<times> 's" where
  "smart_crush_content E C content query st =
     (case decode_tokens content of
        None \<Rightarrow> ((content, False, []), st)
      | Some parsed \<Rightarrow>
          (case process_value E C query max_process_depth parsed st of
             ((v, info), st') \<Rightarrow> ((encode_json v, encode_json v \<noteq> trim_space content, info), st')))"

text \<open>The \<open>Crusher\<close> interface of the JSON offload.\<close>

definition crush :: "crush_env \<Rightarrow> 's smart_crusher \<Rightarrow> string \<Rightarrow> string \<Rightarrow> rat \<Rightarrow> 's \<Rightarrow> (string \<times> bool) \<times> 's" where
  "crush E C content query bias st =
     (case smart_crush_content E C content query st of ((t, modified, info), st') \<Rightarrow> ((t, modified), st'))"

section \<open>Helpers for tests and retrieval\<close>

definition crusher_ccr_get :: "'s smart_crusher \<Rightarrow> string \<Rightarrow> 's \<Rightarrow> string option \<times> 's" where
  "crusher_ccr_get C h st = (case sc_store C of None \<Rightarrow> (None, st) | Some ops \<Rightarrow> st_get ops h st)"

definition crusher_ccr_len :: "'s smart_crusher \<Rightarrow> 's \<Rightarrow> int" where
  "crusher_ccr_len C st = (case sc_store C of None \<Rightarrow> 0 | Some ops \<Rightarrow> st_len ops st)"

datatype crush_error = ErrDecode | ErrNotArray

definition crush_array_json ::
  "crush_env \<Rightarrow> 's smart_crusher \<Rightarrow> string \<Rightarrow> string \<Rightarrow> 's \<Rightarrow> (crush_error + crush_array_result) \<times> 's" where
  "crush_array_json E C doc query st =
     (case decode_tokens doc of
        None \<Rightarrow> (Inl ErrDecode, st)
      | Some (JArr vs) \<Rightarrow> (case crush_array E C vs query st of (r, st') \<Rightarrow> (Inr r, st'))
      | Some _ \<Rightarrow> (Inl ErrNotArray, st))"

definition compact_document_json :: "crush_env \<Rightarrow> 's smart_crusher \<Rightarrow> string \<Rightarrow> 's \<Rightarrow> (crush_error + string) \<times> 's" where
  "compact_document_json E C doc st =
     (case decode_tokens doc of
        None \<Rightarrow> (Inl ErrDecode, st)
      | Some v \<Rightarrow>
          (case walk_doc (ce_sha256 E) (ce_blake3 E) (string_walker C) v st of
             (w, st') \<Rightarrow> (Inr (case w of JStr t \<Rightarrow> t | _ \<Rightarrow> encode_json w), st')))"

end
