(* ===== verification/SmartCrusherProps.thy ===== *)
theory SmartCrusherProps
  imports SmartCrusher
begin

text \<open>
  What the crusher promises: its output does not depend on its store, rows that it drops are announced by a
  marker that resolves to the array, the rows the planner must keep survive, and a document with nothing to
  compress comes back as it was.
\<close>

section \<open>Steps that only put content under its own key\<close>

definition content_keyed :: "crush_env \<Rightarrow> string \<times> string \<Rightarrow> bool" where
  "content_keyed E = (\<lambda>(h, p). h = compute_key (ce_blake3 E) p \<or> h = crush_hash E p)"

text \<open>
  A step is traced when its result is the same for every store and all it does to the store is a fixed
  sequence of such puts.
\<close>

definition traced :: "crush_env \<Rightarrow> ('s store_ops option \<Rightarrow> 's \<Rightarrow> 'r \<times> 's) \<Rightarrow> bool" where
  "traced E F \<longleftrightarrow> (\<exists>r hps. list_all (content_keyed E) hps \<and> (\<forall>ops st. F ops st = (r, put_pairs ops hps st)))"

lemma tracedI: "list_all (content_keyed E) hps \<Longrightarrow> (\<And>ops st. F ops st = (r, put_pairs ops hps st)) \<Longrightarrow> traced E F"
  by (auto simp: traced_def)

lemma traced_return [intro!]: "traced E (\<lambda>ops st. (r, st))"
  by (rule tracedI [of _ "[]"]) simp_all

lemma traced_bind [intro]:
  assumes "traced E F" and "\<And>r. traced E (G r)"
  shows "traced E (\<lambda>ops st. case F ops st of (r, st') \<Rightarrow> G r ops st')"
proof -
  obtain r hps where F: "list_all (content_keyed E) hps" "\<And>ops st. F ops st = (r, put_pairs ops hps st)"
    using assms(1) by (auto simp: traced_def)
  obtain q hps' where G: "list_all (content_keyed E) hps'" "\<And>ops st. G r ops st = (q, put_pairs ops hps' st)"
    using assms(2) [of r] by (auto simp: traced_def)
  show ?thesis by (rule tracedI [of _ "hps @ hps'" _ q]) (simp_all add: F G)
qed

lemma traced_map:
  assumes "traced E F" and "\<And>ops st. G ops st = (g (fst (F ops st)), snd (F ops st))"
  shows "traced E G"
proof -
  obtain r hps where F: "list_all (content_keyed E) hps" "\<And>ops st. F ops st = (r, put_pairs ops hps st)"
    using assms(1) by (auto simp: traced_def)
  show ?thesis by (rule tracedI [OF F(1)]) (simp add: assms(2) F(2))
qed

lemma traced_map_state:
  assumes "\<And>x. x \<in> set xs \<Longrightarrow> traced E (\<lambda>ops. f ops x)"
  shows "traced E (\<lambda>ops. map_state (f ops) xs)"
  using assms
proof (induction xs)
  case (Cons x xs)
  have rest: "traced E (\<lambda>ops st. case map_state (f ops) xs st of (ys, st2) \<Rightarrow> (y # ys, st2))" for y
    by (rule traced_map [of E "\<lambda>ops. map_state (f ops) xs" _ "\<lambda>ys. y # ys"]) (use Cons in \<open>simp_all add: case_prod_unfold\<close>)
  have "traced E (\<lambda>ops st. case f ops x st of (y, st1) \<Rightarrow> (case map_state (f ops) xs st1 of (ys, st2) \<Rightarrow> (y # ys, st2)))"
    by (rule traced_bind) (use Cons rest in simp_all)
  then show ?case by simp
qed (rule tracedI [of _ "[]" _ "[]"], simp_all)

lemma traced_walk: "traced E (\<lambda>ops. walk_doc sha (ce_blake3 E) (D\<lparr>dc_store := ops\<rparr>) v)"
proof -
  let ?ps = "opaque_leaves (cc_classify (dc_config D)) v"
  obtain w where "\<And>ops st. walk_doc sha (ce_blake3 E) (D\<lparr>dc_store := ops\<rparr>) v st
      = (w, put_payloads (compute_key (ce_blake3 E)) ops ?ps st)" using walk_puts(1) by blast
  then show ?thesis
    by (intro tracedI [of _ "map (\<lambda>p. (compute_key (ce_blake3 E) p, p)) ?ps"])
       (auto simp: put_payloads_def list_all_iff content_keyed_def)
qed

text \<open>The crusher with another store.\<close>

lemma lossless_attempt_store [simp]: "lossless_attempt E (C\<lparr>sc_store := ops\<rparr>) items = lossless_attempt E C items"
  by (cases "sc_compaction C") (simp_all add: lossless_attempt_def Let_def case_prod_unfold)

lemma traced_lossy: "traced E (\<lambda>ops. lossy_result E (C\<lparr>sc_store := ops\<rparr>) items result info)"
proof (cases "0 < sat_sub (int (length items)) (int (length result)) \<and> kc_enable_ccr_marker (sc_config C)")
  case True
  let ?p = "encode_json (JArr items)"
  show ?thesis
    using True by (intro tracedI [of _ "[(crush_hash E ?p, ?p)]"])
      (auto simp: lossy_result_def Let_def content_keyed_def put_pairs_one simp del: encode_json.simps)
next
  case False
  then have "(\<lambda>ops. lossy_result E (C\<lparr>sc_store := ops\<rparr>) items result info) = (\<lambda>ops st. (kept_array result info, st))"
    by (auto simp: lossy_result_def Let_def fun_eq_iff)
  then show ?thesis by (simp add: traced_return)
qed

text \<open>The four ways through the funnel.\<close>

definition crusher_plan :: "crush_env \<Rightarrow> 's smart_crusher \<Rightarrow> json list \<Rightarrow> string \<Rightarrow> compression_plan" where
  "crusher_plan E C items query =
     create_plan E (sc_planner C) (analyze_array E (sc_config C) (as_ordered_maps items)) (as_ordered_maps items) query []
       (Some (adaptive_k (sc_config C) (length items))) (Some (map encode_json items))"

definition planned_rows :: "crush_env \<Rightarrow> 's smart_crusher \<Rightarrow> json list \<Rightarrow> string \<Rightarrow> json list" where
  "planned_rows E C items query = execute_plan (sc_config C) (crusher_plan E C items query) items"

lemma crush_array_cases:
  obtains (limit) "int (length items) \<le> adaptive_k (sc_config C) (length items)"
      "\<And>st. crush_array E C items query st = (kept_array items ''none:adaptive_at_limit'', st)"
    | (lossless) r where "\<not> int (length items) \<le> adaptive_k (sc_config C) (length items)" "lossless_attempt E C items = Some r"
      "\<And>st. crush_array E C items query st = (r, st)"
    | (skip) info where "\<not> int (length items) \<le> adaptive_k (sc_config C) (length items)" "lossless_attempt E C items = None"
      "aa_strategy (analyze_array E (sc_config C) (as_ordered_maps items)) = StrategySkip"
      "info = (case aa_crushability (analyze_array E (sc_config C) (as_ordered_maps items)) of None \<Rightarrow> [] | Some c \<Rightarrow> ''skip:'' @ ca_reason c)"
      "\<And>st. crush_array E C items query st = (kept_array items info, st)"
    | (lossy) "\<not> int (length items) \<le> adaptive_k (sc_config C) (length items)" "lossless_attempt E C items = None"
      "aa_strategy (analyze_array E (sc_config C) (as_ordered_maps items)) \<noteq> StrategySkip"
      "\<And>st. crush_array E C items query st = lossy_result E C items (planned_rows E C items query)
         (strategy_string (aa_strategy (analyze_array E (sc_config C) (as_ordered_maps items)))) st"
proof -
  note d = crush_array_def Let_def planned_rows_def crusher_plan_def
  consider "int (length items) \<le> adaptive_k (sc_config C) (length items)"
    | r where "\<not> int (length items) \<le> adaptive_k (sc_config C) (length items)" "lossless_attempt E C items = Some r"
    | "\<not> int (length items) \<le> adaptive_k (sc_config C) (length items)" "lossless_attempt E C items = None"
      "aa_strategy (analyze_array E (sc_config C) (as_ordered_maps items)) = StrategySkip"
    | "\<not> int (length items) \<le> adaptive_k (sc_config C) (length items)" "lossless_attempt E C items = None"
      "aa_strategy (analyze_array E (sc_config C) (as_ordered_maps items)) \<noteq> StrategySkip" by (cases "lossless_attempt E C items") blast+
  then show ?thesis
  proof cases
    case 1
    then show ?thesis by (intro limit) (simp_all add: d)
  next
    case (2 r)
    then show ?thesis by (intro lossless) (simp_all add: d)
  next
    case 3
    then show ?thesis by (intro skip [OF _ _ _ HOL.refl]) (simp_all add: d)
  next
    case 4
    then show ?thesis by (intro lossy) (simp_all add: d)
  qed
qed

lemma traced_crush_array: "traced E (\<lambda>ops. crush_array E (C\<lparr>sc_store := ops\<rparr>) items query)"
proof (rule crush_array_cases [where E = E and C = C and items = items and query = query], goal_cases limit lossless skip lossy)
  case limit
  then show ?thesis by (intro tracedI [of _ "[]"]) (simp_all add: crush_array_def Let_def)
next
  case (lossless r)
  then show ?thesis by (intro tracedI [of _ "[]"]) (simp_all add: crush_array_def Let_def)
next
  case (skip info)
  then show ?thesis by (intro tracedI [of _ "[]"]) (simp_all add: crush_array_def Let_def)
next
  case lossy
  then have "crush_array E (C\<lparr>sc_store := ops\<rparr>) items query st = lossy_result E (C\<lparr>sc_store := ops\<rparr>) items (planned_rows E C items query)
      (strategy_string (aa_strategy (analyze_array E (sc_config C) (as_ordered_maps items)))) st" for ops st
    by (simp add: crush_array_def Let_def planned_rows_def crusher_plan_def)
  then show ?thesis by (intro traced_map [OF traced_lossy, where g = "\<lambda>r. r"]) simp
qed

lemma traced_process_array:
  assumes "\<And>v. v \<in> set items \<Longrightarrow> traced E (\<lambda>ops. f ops v)"
  shows "traced E (\<lambda>ops. process_array E (C\<lparr>sc_store := ops\<rparr>) query (f ops) items)"
proof (cases "kc_min_items (sc_config C) \<le> int (length items) \<and> classify_array items = DictArray")
  case True
  let ?g = "\<lambda>r. case ar_compacted r of
      Some t \<Rightarrow> (JStr t, arrow_info (ar_strategy_info r) (length items) ''->len='' (length t))
    | None \<Rightarrow> (JArr (ar_items r @ (if ar_dropped_summary r \<noteq> [] then [JObj [(''_ccr_dropped'', JStr (ar_dropped_summary r))]] else [])),
        arrow_info (ar_strategy_info r) (length items) ''->'' (length (ar_items r)))"
  show ?thesis using True
    by (intro traced_map [OF traced_crush_array [of E C items query], where g = ?g])
       (simp add: process_array_def case_prod_unfold split: option.split)
next
  case False
  then show ?thesis
    by (intro traced_map [OF traced_map_state [OF assms], where g = "\<lambda>ys. (JArr (map fst ys), join_infos (map snd ys))"])
       (auto simp: process_array_def case_prod_unfold)
qed

lemma traced_process_object:
  assumes "\<And>k v. (k, v) \<in> set ms \<Longrightarrow> traced E (\<lambda>ops. f ops v)"
  shows "traced E (\<lambda>ops. process_object (f ops) ms)"
proof -
  let ?f = "\<lambda>ops (k, v) s. case f ops v s of ((w, info), s') \<Rightarrow> ((k, w, info), s')"
  have "traced E (\<lambda>ops. ?f ops kv)" if kv: "kv \<in> set ms" for kv
  proof -
    obtain k v where eq: "kv = (k, v)" by fastforce
    have "traced E (\<lambda>ops. f ops v)" using assms kv eq by simp
    then show ?thesis by (rule traced_map [where g = "\<lambda>(w, info). (k, w, info)"]) (simp add: eq case_prod_unfold)
  qed
  from traced_map_state [OF this] have t: "traced E (\<lambda>ops. map_state (?f ops) ms)" .
  let ?g = "\<lambda>ys. (JObj (map (\<lambda>(k, w, info). (k, w)) ys), join_infos (map (\<lambda>(k, w, info). info) ys))"
  have "process_object (f ops) ms st = (?g (fst (map_state (?f ops) ms st)), snd (map_state (?f ops) ms st))" for ops st
    by (cases "map_state (?f ops) ms st") (simp add: process_object_def)
  then show ?thesis by (rule traced_map [OF t])
qed

lemma traced_process_string:
  assumes "\<And>v. traced E (\<lambda>ops. f ops v)"
  shows "traced E (\<lambda>ops. process_string E (C\<lparr>sc_store := ops\<rparr>) (f ops) s)"
proof (cases "try_parse_container s")
  case (Some p)
  let ?g = "\<lambda>(v, sub). (JStr (case v of JStr t \<Rightarrow> t | _ \<Rightarrow> encode_json v),
      if sub \<noteq> [] then ''string_json['' @ sub @ '']'' else ''string_json'')"
  show ?thesis
    by (rule traced_map [OF assms [of p], where g = ?g]) (simp add: process_string_def Some case_prod_unfold)
next
  case None
  have w: "string_walker (C\<lparr>sc_store := ops\<rparr>) = (string_walker C)\<lparr>dc_store := ops\<rparr>" for ops by (simp add: string_walker_def)
  let ?g = "\<lambda>w. case w of JStr t \<Rightarrow> if t \<noteq> s then (JStr t, ''string_ccr'') else (JStr s, []) | _ \<Rightarrow> (JStr s, [])"
  show ?thesis
    by (rule traced_map [OF traced_walk [of E "ce_sha256 E" "string_walker C" "JStr s"], where g = ?g])
       (simp add: process_string_def None w case_prod_unfold)
qed

lemma traced_process_value: "traced E (\<lambda>ops. process_value E (C\<lparr>sc_store := ops\<rparr>) query d v)"
proof (induction d arbitrary: v)
  case (Suc d)
  let ?f = "\<lambda>ops. process_value E (C\<lparr>sc_store := ops\<rparr>) query d"
  show ?case
  proof (cases v)
    case (JArr vs)
    then show ?thesis using traced_process_array [of vs E ?f C query] Suc by simp
  next
    case (JObj ms)
    then show ?thesis using traced_process_object [of ms E ?f] Suc by simp
  next
    case (JStr s)
    then show ?thesis using traced_process_string [of E ?f C s] Suc by simp
  qed (simp_all add: traced_return)
qed (simp add: traced_return)

lemma traced_crush: "traced E (\<lambda>ops. crush E (C\<lparr>sc_store := ops\<rparr>) content query bias)"
proof (cases "decode_tokens content")
  case None
  then show ?thesis by (intro tracedI [of _ "[]" _ "(content, False)"]) (simp_all add: crush_def smart_crush_content_def)
next
  case (Some v)
  show ?thesis
    by (rule traced_map [OF traced_process_value [of E C query max_process_depth v],
          where g = "\<lambda>(w, info). (encode_json w, encode_json w \<noteq> trim_space content)"])
       (simp add: crush_def smart_crush_content_def Some case_prod_unfold)
qed

section \<open>The rows of a crushed array\<close>

lemma sorted_keep_nth:
  "sorted_wrt (<) (js :: nat list) \<Longrightarrow> map ((!) items) (filter (\<lambda>i. i < length items) (sort js)) = map ((!) items) (filter (\<lambda>i. i < length items) js)"
  by (simp add: strict_sorted_iff sorted_sort_id)

lemma plan_indices:
  "sorted_wrt (<) (pl_keep_indices (crusher_plan E C items query))
   \<and> set (pl_keep_indices (crusher_plan E C items query)) \<subseteq> {..<length items}"
  using plan_sound [of E "sc_planner C" "analyze_array E (sc_config C) (as_ordered_maps items)" "as_ordered_maps items" query "[]"
      "Some (adaptive_k (sc_config C) (length items))" "Some (map encode_json items)"]
  by (simp add: crusher_plan_def)

text \<open>Without the constant factoring the kept rows are rows of the array at strictly increasing positions.\<close>

lemma planned_rows_eq:
  assumes "\<not> kc_factor_out_constants (sc_config C)"
  shows "planned_rows E C items query = map ((!) items) (pl_keep_indices (crusher_plan E C items query))"
proof -
  note k = plan_indices [of E C items query]
  have "filter (\<lambda>i. i < length items) (pl_keep_indices (crusher_plan E C items query)) = pl_keep_indices (crusher_plan E C items query)"
    using k by (auto intro: filter_True)
  then show ?thesis using sorted_keep_nth [of "pl_keep_indices (crusher_plan E C items query)" items] k assms
    by (simp add: planned_rows_def execute_plan_def)
qed

lemma strict_full: "sorted_wrt (<) js \<Longrightarrow> set js \<subseteq> {..<n} \<Longrightarrow> length js = n \<Longrightarrow> js = [0..<n]"
proof -
  assume a: "sorted_wrt (<) js" "set js \<subseteq> {..<n}" "length js = n"
  have d: "sorted js" "distinct js" using a(1) by (simp_all add: strict_sorted_iff)
  then have "card (set js) = n" using a(3) by (simp add: distinct_card)
  then have "set js = {..<n}" using a(2) by (intro card_subset_eq) simp_all
  then show ?thesis using d by (intro sorted_distinct_set_unique) (simp_all add: atLeast0LessThan)
qed

lemma lossless_attempt_result:
  "lossless_attempt E C items = Some r \<Longrightarrow> ar_items r = items \<and> ar_dropped_summary r = [] \<and> ar_compacted r \<noteq> None \<and> ar_ccr_hash r = None"
  by (auto simp: lossless_attempt_def Let_def split: option.splits prod.splits if_splits)

lemma kept_array_sel [simp]:
  "ar_items (kept_array items info) = items" "ar_dropped_summary (kept_array items info) = []"
  "ar_compacted (kept_array items info) = None" "ar_ccr_hash (kept_array items info) = None"
  by (simp_all add: kept_array_def)

lemma length_join_elem: "x \<in> set xs \<Longrightarrow> length x \<le> length (join sep xs)"
  by (induction sep xs rule: join.induct) auto

lemma depth_le_encode: "depth v \<le> length (encode_json v)"
proof (induction v)
  case (JArr vs)
  have "depth v \<le> length (join '','' (map encode_json vs))" if "v \<in> set vs" for v
    using JArr [OF that] length_join_elem [of "encode_json v" "map encode_json vs" "'',''"] that by fastforce
  then have "Max (insert 0 (set (map depth vs))) \<le> length (join '','' (map encode_json vs))" by (intro Max.boundedI) auto
  then show ?case by (auto intro: le_SucI)
next
  case (JObj ms)
  let ?m = "\<lambda>(k, v). encode_json_string k @ '':'' @ encode_json v"
  have "depth v \<le> length (join '','' (map ?m ms))" if kv: "(k, v) \<in> set ms" for k v
  proof -
    have "depth v \<le> length (encode_json v)" using JObj kv by (metis snds.intros snd_conv prod_set_simps(2) insertI1)
    also have "\<dots> \<le> length (?m (k, v))" by simp
    also have "\<dots> \<le> length (join '','' (map ?m ms))" using kv by (intro length_join_elem) force
    finally show ?thesis .
  qed
  then have "Max (insert 0 (set (map (\<lambda>(k, v). depth v) ms))) \<le> length (join '','' (map ?m ms))"
    by (intro Max.boundedI) auto
  from le_SucI [OF this] show ?case by simp
qed simp_all

lemma decode_encode: "json_ok v \<Longrightarrow> decode_tokens (encode_json v) = Some v"
  unfolding decode_tokens_def by (rule parse_json_encode) (simp_all add: depth_le_encode)

section \<open>Properties\<close>

text \<open>C31. The crusher is a function of its input: the output is the same whatever its own store holds and whether
  there is one. Its in-memory store stays well formed, and an entry that a crush changes is either gone or a
  payload under its own hash.
\<close>

theorem crusher_store_sound:
  assumes "mem_inv st" and "sc_store C = Some mem_ops" and "crush E C content query bias st = (r, st')"
  shows "fst (crush E (C\<lparr>sc_store := None\<rparr>) content query bias st) = r \<and> mem_inv st'
    \<and> (\<forall>h. mem_view st' h \<in> {mem_view st h, None}
           \<or> (\<exists>p. mem_view st' h = Some p \<and> (h = compute_key (ce_blake3 E) p \<or> h = crush_hash E p)))"
proof -
  obtain q hps where q: "list_all (content_keyed E) hps"
    "\<And>ops st. crush E (C\<lparr>sc_store := ops\<rparr>) content query bias st = (q, put_pairs ops hps st)"
    using traced_crush [of E C content query bias] by (auto simp: traced_def)
  have C: "C\<lparr>sc_store := Some mem_ops\<rparr> = C" using assms(2) by simp
  have r: "q = r" "st' = put_pairs (Some mem_ops) hps st" using q(2) [of "Some mem_ops" st] assms(3) by (simp_all add: C)
  have "mem_inv st'" unfolding r(2) by (rule mem.put_pairs_inv [OF assms(1)])
  moreover have "h = compute_key (ce_blake3 E) p \<or> h = crush_hash E p" if "(h, p) \<in> set hps" for h p
    using q(1) that by (auto simp: list_all_iff content_keyed_def)
  then have "mem_view st' h \<in> {mem_view st h, None}
      \<or> (\<exists>p. mem_view st' h = Some p \<and> (h = compute_key (ce_blake3 E) p \<or> h = crush_hash E p))" for h
    using mem.put_pairs_view [OF assms(1), of hps h] unfolding r(2) by blast
  ultimately show ?thesis using q(2) r(1) by simp
qed

text \<open>C30. No row of an array disappears silently. With markers on and constants not factored out, either all
  rows come back in order, or the rows kept are rows of the array in order, the marker counts the others
  exactly, and its hash resolves in the crusher's store to a text that decodes to the whole array.
\<close>

theorem crush_array_accounts_for_rows:
  assumes "\<not> kc_factor_out_constants (sc_config C)" and "kc_enable_ccr_marker (sc_config C)"
    and "mem_inv st" and "sc_store C = Some mem_ops" and "json_ok (JArr items)"
    and "crush_array E C items query st = (r, st')"
  shows "ar_items r = items \<and> ar_dropped_summary r = [] \<and> st' = st
    \<or> (\<exists>h js p. sorted_wrt (<) js \<and> set js \<subseteq> {..<length items} \<and> ar_items r = map ((!) items) js
         \<and> length js < length items \<and> ar_ccr_hash r = Some h
         \<and> ar_dropped_summary r = marker_for_lossy h (int (length items - length js))
         \<and> fst (mem_get h st') = Some p \<and> decode_tokens p = Some (JArr items))"
proof (rule crush_array_cases [where E = E and C = C and items = items and query = query], goal_cases limit lossless skip lossy)
  case lossy
  let ?js = "pl_keep_indices (crusher_plan E C items query)" and ?p = "encode_json (JArr items)"
  note js = plan_indices [of E C items query] and rows = planned_rows_eq [OF assms(1), of E items query]
  have d: "distinct ?js" using js by (simp add: strict_sorted_iff)
  have le: "length ?js \<le> length items" using js d card_mono [of "{..<length items}" "set ?js"] by (simp add: distinct_card)
  show ?case
  proof (cases "length ?js = length items")
    case True
    then have "?js = [0..<length items]" using strict_full js by blast
    then have "planned_rows E C items query = items" using rows by (simp add: map_nth)
    then show ?thesis using lossy(4) [of st] assms(6) by (simp add: lossy_result_def sat_sub_def)
  next
    case False
    then have drop: "0 < sat_sub (int (length items)) (int (length ?js))"
        "int (sat_sub (int (length items)) (int (length ?js))) = int (length items - length ?js)"
      using le by (simp_all add: sat_sub_def)
    have st': "st' = mem_put (crush_hash E ?p) ?p st" and r: "ar_items r = map ((!) items) ?js" "ar_ccr_hash r = Some (crush_hash E ?p)"
        "ar_dropped_summary r = marker_for_lossy (crush_hash E ?p) (int (length items - length ?js))"
      using lossy(4) [of st] assms(2,4,6) drop rows by (auto simp: lossy_result_def Let_def simp del: encode_json.simps)
    have "mem_view st' (crush_hash E ?p) = Some ?p" using mem.put_same [OF assms(3)] by (simp add: st')
    moreover have "mem_inv st'" using mem.put_inv [OF assms(3)] by (simp add: st')
    ultimately have "fst (mem_get (crush_hash E ?p) st') = Some ?p" using mem.get_view [of st' "crush_hash E ?p"] by simp
    moreover have "decode_tokens ?p = Some (JArr items)" by (rule decode_encode [OF assms(5)])
    ultimately show ?thesis using js r le False by (metis le_neq_implies_less)
  qed
next
  case (lossless r')
  then show ?case using assms(6) lossless_attempt_result by fastforce
qed (use assms(6) in auto)


text \<open>What has nothing to compress: short plain strings, and arrays of objects within the limit.\<close>

fun quiet :: "crush_config \<Rightarrow> json \<Rightarrow> bool" where
  "quiet cfg (JArr vs) =
     (if kc_min_items cfg \<le> int (length vs) \<and> classify_array vs = DictArray
      then kc_max_items cfg \<le> 0 \<or> int (length vs) \<le> kc_max_items cfg
      else (\<forall>v\<in>set vs. quiet cfg v))"
| "quiet cfg (JObj ms) = (\<forall>(k, v)\<in>set ms. quiet cfg v)"
| "quiet cfg (JStr s) = (try_parse_container s = None \<and> length s \<le> 256)"
| "quiet cfg v = True"

lemma crush_array_limit:
  "kc_max_items (sc_config C) \<le> 0 \<or> int (length items) \<le> kc_max_items (sc_config C) \<Longrightarrow>
     crush_array E C items query st = (kept_array items ''none:adaptive_at_limit'', st)"
  by (auto simp: crush_array_def adaptive_k_def Let_def)

lemma map_state_keep:
  assumes "\<And>x. x \<in> set xs \<Longrightarrow> \<exists>info. \<forall>st. f x st = (g x info, st)"
  shows "\<exists>infos. length infos = length xs \<and> (\<forall>st. map_state f xs st = (map2 g xs infos, st))"
  using assms
proof (induction xs)
  case (Cons x xs)
  obtain info where i: "\<forall>st. f x st = (g x info, st)" using Cons.prems by auto
  obtain infos where infos: "length infos = length xs" "\<forall>st. map_state f xs st = (map2 g xs infos, st)"
    using Cons.IH Cons.prems by auto
  have "length (info # infos) = length (x # xs) \<and> (\<forall>st. map_state f (x # xs) st = (map2 g (x # xs) (info # infos), st))"
    using i infos by simp
  then show ?case by blast
qed simp

lemma map2_fst: "length infos = length xs \<Longrightarrow> map2 (\<lambda>x info. x) xs infos = xs"
  by (induction xs infos rule: list_induct2') auto

lemma process_quiet: "quiet (sc_config C) v \<Longrightarrow> \<exists>info. \<forall>st. process_value E C query d v st = ((v, info), st)"
proof (induction d arbitrary: v)
  case (Suc d)
  let ?f = "process_value E C query d"
  show ?case
  proof (cases v)
    case (JArr vs)
    show ?thesis
    proof (cases "kc_min_items (sc_config C) \<le> int (length vs) \<and> classify_array vs = DictArray")
      case True
      then have "crush_array E C vs query st = (kept_array vs ''none:adaptive_at_limit'', st)" for st
        using Suc.prems by (intro crush_array_limit) (simp add: JArr)
      then show ?thesis using True by (simp add: JArr process_array_def)
    next
      case False
      then have "\<exists>info. \<forall>st. ?f x st = ((x, info), st)" if "x \<in> set vs" for x using Suc that by (simp add: JArr False)
      then obtain infos where "length infos = length vs" "\<forall>st. map_state ?f vs st = (map2 (\<lambda>x info. (x, info)) vs infos, st)"
        using map_state_keep [of vs ?f "\<lambda>x info. (x, info)"] by blast
      moreover have "process_array E C query ?f vs st = (case map_state ?f vs st of
          (ys, st') \<Rightarrow> ((JArr (map fst ys), join_infos (map snd ys)), st'))" for st
        unfolding process_array_def by (rule if_not_P [OF False])
      ultimately have "\<forall>st. process_value E C query (Suc d) v st = ((v, join_infos infos), st)" by (simp add: JArr)
      then show ?thesis by blast
    qed
  next
    case (JObj ms)
    let ?g = "\<lambda>(k, v) s. case ?f v s of ((w, info), s') \<Rightarrow> ((k, w, info), s')"
    have "\<exists>info. \<forall>st. ?g x st = ((fst x, snd x, info), st)" if x: "x \<in> set ms" for x
    proof -
      have "quiet (sc_config C) (snd x)" using Suc.prems x by (auto simp: JObj)
      then obtain info where "\<forall>st. ?f (snd x) st = ((snd x, info), st)" using Suc.IH by blast
      then show ?thesis by (auto simp: case_prod_unfold)
    qed
    then obtain infos where i: "length infos = length ms"
        "\<forall>st. map_state ?g ms st = (map2 (\<lambda>x info. (fst x, snd x, info)) ms infos, st)"
      using map_state_keep [of ms ?g "\<lambda>x info. (fst x, snd x, info)"] by blast
    have "map (\<lambda>(k, w, info). (k, w)) (map2 (\<lambda>x info. (fst x, snd x, info)) ms infos) = ms"
      using map2_fst [OF i(1)] by (simp add: case_prod_unfold comp_def)
    then have "\<forall>st. process_value E C query (Suc d) v st = ((v, join_infos (map (\<lambda>(k, w, info). info)
        (map2 (\<lambda>x info. (fst x, snd x, info)) ms infos))), st)" using i(2) by (simp add: JObj process_object_def)
    then show ?thesis by blast
  next
    case (JStr s)
    have "classify_string s (cc_classify (dc_config (string_walker C))) = ClassScalar"
      using Suc.prems by (simp add: JStr classify_string_def string_walker_def default_compact_config_def default_classify_config_def)
    then have "process_value E C query (Suc d) v st = ((v, []), st)" for st
      using Suc.prems by (simp add: JStr process_string_def walk_doc.simps [of _ _ _ "JStr s"] walk_leaf_def)
    then show ?thesis by blast
  qed simp_all
qed simp

text \<open>A document with nothing to compress comes back as it was: the output is its compact encoding, it
  decodes to the same document, nothing is stored, and the result counts as modified only when the input was
  not compact already.
\<close>

theorem crush_quiet_document:
  assumes "decode_tokens content = Some v" and "quiet (sc_config C) v"
  shows "crush E C content query bias st = ((encode_json v, encode_json v \<noteq> trim_space content), st)
    \<and> decode_tokens (encode_json v) = Some v"
proof -
  obtain info where "\<forall>st. process_value E C query max_process_depth v st = ((v, info), st)"
    using process_quiet [OF assms(2)] by blast
  then have "crush E C content query bias st = ((encode_json v, encode_json v \<noteq> trim_space content), st)"
    using assms(1) by (simp add: crush_def smart_crush_content_def)
  moreover have "json_ok v" using assms(1) parse_json_ok by (auto simp: decode_tokens_def)
  ultimately show ?thesis using decode_encode by blast
qed

section \<open>Instances\<close>

definition plain_env :: crush_env where
  "plain_env = \<lparr>ce_lower = (\<lambda>n. n), ce_log2 = (\<lambda>_. 0), ce_map_order = (\<lambda>xs. xs), ce_md5 = (\<lambda>s. s), ce_sha256 = (\<lambda>s. s),
     ce_blake3 = (\<lambda>s. s)\<rparr>"

definition lossy_crusher :: "inmem smart_crusher" where
  "lossy_crusher = new_smart_crusher_without_compaction plain_env default_crush_config"

definition twenty_rows :: "json list" where "twenty_rows = replicate 20 (JObj [(''ok'', JBool True)])"

definition fresh_store :: inmem where "fresh_store = new_in_memory 10 0 0"

lemmas crusher_defs = new_smart_crusher_without_compaction_def new_smart_crusher_def build_crusher_def from_parts_def
  with_default_ccr_store_def with_default_compaction_def with_default_oss_setup_def add_observer_def
  add_default_oss_constraints_def with_scorer_def new_crusher_builder_def

lemma lossy_crusher_sel [simp]:
  "sc_store lossy_crusher = Some mem_ops" "sc_config lossy_crusher = default_crush_config" "sc_compaction lossy_crusher = None"
  "pn_config (sc_planner lossy_crusher) = default_crush_config"
  by (simp_all add: lossy_crusher_def crusher_defs)

lemma fresh_store_inv [simp]: "mem_inv fresh_store"
  by (simp add: fresh_store_def mem_inv_new)

lemma twenty_rows_ok: "json_ok (JArr twenty_rows)" "list_all is_obj twenty_rows"
proof -
  have "valid_utf8 ''ok''" by (subst valid_ascii, simp, subst valid_ascii, simp, simp)
  then show "json_ok (JArr twenty_rows)" by (simp add: twenty_rows_def)
qed (simp add: twenty_rows_def list_all_iff)

lemma no_stage_no_table: "sc_compaction C = None \<Longrightarrow> crush_array E C items query st = (r, st') \<Longrightarrow> ar_compacted r = None"
  by (auto simp: crush_array_def lossless_attempt_def lossy_result_def Let_def split: if_splits)

theorem crusher_store_sound_witness:
  "mem_inv (snd (crush plain_env lossy_crusher ''[null]'' [] 0 fresh_store))"
proof -
  obtain r st' where r: "crush plain_env lossy_crusher ''[null]'' [] 0 fresh_store = (r, st')" by fastforce
  show ?thesis using crusher_store_sound [OF fresh_store_inv lossy_crusher_sel(1) r] r by simp
qed

theorem crush_array_accounts_for_rows_witness:
  "\<exists>r st'. crush_array plain_env lossy_crusher twenty_rows [] fresh_store = (r, st')
     \<and> (ar_items r = twenty_rows
        \<or> (\<exists>h p. ar_ccr_hash r = Some h \<and> fst (mem_get h st') = Some p \<and> decode_tokens p = Some (JArr twenty_rows)))"
proof -
  obtain r st' where r: "crush_array plain_env lossy_crusher twenty_rows [] fresh_store = (r, st')" by fastforce
  have "\<not> kc_factor_out_constants (sc_config lossy_crusher)" "kc_enable_ccr_marker (sc_config lossy_crusher)"
    by (simp_all add: default_crush_config_def)
  from crush_array_accounts_for_rows [OF this fresh_store_inv lossy_crusher_sel(1) twenty_rows_ok(1) r] show ?thesis using r by blast
qed


theorem crush_quiet_document_witness:
  "crush plain_env lossy_crusher ''[null, true]'' [] 0 fresh_store = ((''[null,true]'', True), fresh_store)"
proof -
  have d: "decode_tokens ''[null, true]'' = Some (JArr [JNull, JBool True])" by code_simp
  have q: "quiet (sc_config lossy_crusher) (JArr [JNull, JBool True])" by (simp add: default_crush_config_def)
  have t: "encode_json (JArr [JNull, JBool True]) = ''[null,true]''" by simp
  have ne: "''[null,true]'' \<noteq> trim_space ''[null, true]''" by code_simp
  from crush_quiet_document [OF d q, of plain_env "[]" 0 fresh_store] show ?thesis unfolding t using ne by simp
qed

section \<open>Factored constants hide a dropped row\<close>

text \<open>
  With \<open>FactorOutConstants\<close> the sentinel row counts as a kept row: when one row of three is dropped, no marker
  is emitted and nothing is stored.
\<close>

lemma factored_constants_hide_drop:
  defines "items \<equiv> [JObj [(''a'', JBool True), (''n'', JNum ''1'')], JObj [(''a'', JBool True), (''n'', JNum ''2'')],
                     JObj [(''a'', JBool True), (''n'', JNum ''3'')]]"
    and "plan \<equiv> default_compression_plan\<lparr>pl_keep_indices := [0, 1], pl_constant_fields := [(''a'', JBool True)]\<rparr>"
    and "cfg \<equiv> default_crush_config\<lparr>kc_factor_out_constants := True\<rparr>"
  shows "execute_plan cfg plan items =
      [JObj [(''_constant_fields'', JObj [(''a'', JBool True)])], JObj [(''n'', JNum ''1'')], JObj [(''n'', JNum ''2'')]]
    \<and> lossy_result E C items (execute_plan cfg plan items) info st = (kept_array (execute_plan cfg plan items) info, st)"
proof -
  have e: "execute_plan cfg plan items =
      [JObj [(''_constant_fields'', JObj [(''a'', JBool True)])], JObj [(''n'', JNum ''1'')], JObj [(''n'', JNum ''2'')]]"
    by (simp add: execute_plan_def items_def plan_def cfg_def default_compression_plan_def json_equal_def)
  then show ?thesis by (simp add: lossy_result_def items_def sat_sub_def)
qed

end
