(* ===== verification/ShippedRouter.thy ===== *)
theory ShippedRouter
  imports DefaultRouter SmartCrusherProps
begin

text \<open>
  The wiring of \<open>internal/router/default.go\<close>: the JSON offload of the shipped pipeline is given the smart
  crusher. The crusher keeps a private store between calls; because its output does not depend on it, the
  calls of a process behave as the pure interface \<open>oe_crush\<close>.
\<close>

definition fresh_crusher_store :: inmem where
  "fresh_crusher_store = new_in_memory default_capacity default_ttl 0"

definition crusher_seam :: "crush_env \<Rightarrow> string \<Rightarrow> string \<Rightarrow> rat \<Rightarrow> crush_result" where
  "crusher_seam E content query bias =
     (case fst (crush E (new_smart_crusher E default_crush_config) content query bias fresh_crusher_store) of
        (t, m) \<Rightarrow> \<lparr>cr_compressed = t, cr_was_modified = m\<rparr>)"

definition shipped_env :: "unicode_tables \<Rightarrow> gjson \<Rightarrow> crush_env \<Rightarrow> offload_env" where
  "shipped_env U g E = \<lparr>oe_unicode = U, oe_gjson = g, oe_md5 = ce_md5 E, oe_crush = crusher_seam E\<rparr>"

definition shipped_router :: "unicode_tables \<Rightarrow> gjson \<Rightarrow> crush_env \<Rightarrow> 's router" where
  "shipped_router U g E = default_router (shipped_env U g E)"

text \<open>The calls of a process, the private store threaded through them.\<close>

fun crush_session :: "crush_env \<Rightarrow> 's smart_crusher \<Rightarrow> (string \<times> string \<times> rat) list \<Rightarrow> 's \<Rightarrow> (string \<times> bool) list \<times> 's" where
  "crush_session E C [] st = ([], st)"
| "crush_session E C ((content, query, bias) # calls) st =
     (case crush E C content query bias st of
        (r, st1) \<Rightarrow> (case crush_session E C calls st1 of (rs, st2) \<Rightarrow> (r # rs, st2)))"

lemma crush_store_free: "fst (crush E C content query bias st) = fst (crush E C content query bias st')"
proof -
  obtain q hps where "\<And>ops st. crush E (C\<lparr>sc_store := ops\<rparr>) content query bias st = (q, put_pairs ops hps st)"
    using traced_crush [of E C content query bias] by (auto simp: traced_def)
  from this [of "sc_store C"] show ?thesis by simp
qed

text \<open>C34. The stateful crusher behind the shipped router behaves as a pure function: whatever calls came before
  and whatever its store holds, every call of a process returns what the interface \<open>oe_crush\<close> of the model
  returns for its content and query alone.
\<close>

theorem crusher_refines_seam:
  "map (\<lambda>(t, m). \<lparr>cr_compressed = t, cr_was_modified = m\<rparr>)
     (fst (crush_session E (new_smart_crusher E default_crush_config) calls st))
   = map (\<lambda>(content, query, bias). crusher_seam E content query bias) calls"
proof (induction calls arbitrary: st)
  case (Cons call calls)
  obtain content query bias where call: "call = (content, query, bias)" by (cases call) auto
  show ?case
    using Cons crush_store_free [of E "new_smart_crusher E default_crush_config" content query bias st fresh_crusher_store]
    by (simp add: call crusher_seam_def case_prod_unfold)
qed simp

text \<open>What the shipped router promises about its store is the router theorem at the real crusher.\<close>

lemma shipped_router_keys:
  assumes "\<forall>s. length (ce_md5 E s) = 16" "int (length content) \<le> max_int" "mem_inv st"
    and "shipped_router U g E mem_ops content ctx st = (r, st')" and "key \<in> set (pr_cache_keys r)"
  shows "key \<in> set (hashes_in (pr_output r)) \<and> mem_view st' key = Some (reformatted content)"
  using mem.default_router_keys [of st "shipped_env U g E" content ctx r st' key] assms
  by (simp add: shipped_router_def shipped_env_def)

end
