(* ===== verification/HybridScorer.thy ===== *)
theory HybridScorer
  imports CrushAnchors
begin

text \<open>
  \<open>internal/relevance/hybrid.go\<close> as it is written, with the fused path that the missing embedding scorer makes
  unreachable. \<open>Relevance\<close> has the path that runs; the two agree.
\<close>

record hybrid_scorer =
  hs_base_alpha :: rat
  hs_adaptive :: bool
  hs_embedding_available :: bool

definition embedding_is_available :: bool where "embedding_is_available = False"

definition new_hybrid_scorer :: hybrid_scorer where
  "new_hybrid_scorer = \<lparr>hs_base_alpha = 1/2, hs_adaptive = True, hs_embedding_available = embedding_is_available\<rparr>"

text \<open>Unlike the anchors, a UUID is also found inside a longer word.\<close>

definition relevance_uuid_pattern :: rx where "relevance_uuid_pattern = rx_uuid"

definition clamp64 :: "rat \<Rightarrow> rat \<Rightarrow> rat \<Rightarrow> rat" where
  "clamp64 v lo hi = (if v < lo then lo else if hi < v then hi else v)"

definition compute_alpha :: "(nat \<Rightarrow> nat) \<Rightarrow> hybrid_scorer \<Rightarrow> string \<Rightarrow> rat" where
  "compute_alpha lower h query =
     (if \<not> hs_adaptive h then hs_base_alpha h
      else
        (let low = to_lower lower query; alpha = hs_base_alpha h; ids = length (find_all numeric_id_pattern query);
             a = (if find_all relevance_uuid_pattern query \<noteq> [] then max alpha (f64 (85/100))
                  else if 2 \<le> ids then max alpha (3/4)
                  else if ids = 1 then max alpha (f64 (65/100))
                  else if find_all hostname_pattern low \<noteq> [] \<or> find_all email_pattern low \<noteq> [] then max alpha (f64 (6/10))
                  else alpha)
         in clamp64 a (f64 (3/10)) (f64 (9/10))))"

definition fused_score :: "string \<Rightarrow> rat \<Rightarrow> rel_score \<Rightarrow> rel_score" where
  "fused_score label alpha r =
     new_score (f64 (f64 (alpha * rs_score r) + f64 (f64 (1 - alpha) * 0)))
       (''Hybrid ('' @ [CHR 0xCE, CHR 0xB1] @ ''='' @ format_2f alpha @ ''): BM25='' @ format_2f (rs_score r) @ '', '' @ label @ ''='' @ format_2f 0)
       (rs_matched_terms r)"

definition hybrid_score :: "(nat \<Rightarrow> nat) \<Rightarrow> hybrid_scorer \<Rightarrow> string \<Rightarrow> string \<Rightarrow> rel_score" where
  "hybrid_score lower h item query =
     (let r = bm25_score_item lower new_bm25 item query
      in if \<not> hs_embedding_available h then boost_bm25_only r
         else fused_score ''Semantic'' (compute_alpha lower h query) r)"

definition hybrid_scores :: "(nat \<Rightarrow> nat) \<Rightarrow> hybrid_scorer \<Rightarrow> string list \<Rightarrow> string \<Rightarrow> rel_score list" where
  "hybrid_scores lower h items query =
     (if items = [] then []
      else
        (let rs = bm25_score_batch lower new_bm25 items query
         in if \<not> hs_embedding_available h then map boost_bm25_only rs
            else map (fused_score ''Emb'' (compute_alpha lower h query)) rs))"

text \<open>The scorer that the program builds takes the boosted path.\<close>

lemma hybrid_falls_back:
  "hybrid_score lower new_hybrid_scorer item query = hybrid_score_item lower item query"
  "hybrid_scores lower new_hybrid_scorer items query = hybrid_score_batch lower items query"
  by (simp_all add: hybrid_score_def hybrid_scores_def new_hybrid_scorer_def embedding_is_available_def
      hybrid_score_item_def hybrid_score_batch_def)

text \<open>An adaptive weight stays between its bounds, so the fused score never exceeds the keyword score.\<close>

lemma compute_alpha_range: "hs_adaptive h \<Longrightarrow> f64 (3/10) \<le> compute_alpha lower h query \<and> compute_alpha lower h query \<le> f64 (9/10)"
proof -
  have "f64 (3/10) \<le> f64 (9/10)" by (rule flt_mono) simp_all
  then show "hs_adaptive h \<Longrightarrow> f64 (3/10) \<le> compute_alpha lower h query \<and> compute_alpha lower h query \<le> f64 (9/10)"
    by (simp add: compute_alpha_def clamp64_def Let_def)
qed

end
