(* ===== verification/ReadOutline.thy ===== *)
theory ReadOutline
  imports Offloads
begin

text \<open>
  \<open>internal/offloads/read_outline.go\<close>: the outline of a Go file that a tool has read. The router does not register it.
  The parser is \<open>go/parser\<close>: it is an argument that gives, for a source that parses, the lines of the opening and
  the closing brace of every function with a body, in order.
\<close>

type_synonym body_lines = "string \<Rightarrow> (int \<times> int) list option"

definition elision_marker :: string where
  "elision_marker = ''// ... (body elided by Headroom; Read a specific line range to see it)'' @ [NL]"

definition range_keys :: "string list" where
  "range_keys = [''offset'', ''limit'', ''line_range'', ''start_line'', ''end_line'', ''ranges'']"

definition outline_is_read_tool :: "string \<Rightarrow> bool" where
  "outline_is_read_tool tool_name \<longleftrightarrow>
     tool_name \<in> set [''Read'', ''read_file'', ''view'', ''cat'', ''mcp__filesystem__read_text_file'', ''mcp__fs__read_text_file'']"

definition outline_extensions :: "string list" where
  "outline_extensions = [''.go'', ''.py'', ''.ts'', ''.tsx'', ''.js'', ''.jsx'', ''.rs'', ''.java'', ''.rb'', ''.c'', ''.h'', ''.cpp'', ''.cc'', ''.hpp'']"

definition code_extension :: "(nat \<Rightarrow> nat) \<Rightarrow> string \<Rightarrow> string" where
  "code_extension lower path = (let ext = to_lower lower (file_ext path) in if ext \<in> set outline_extensions then ext else [])"

definition outline_estimate_bloat :: "string \<Rightarrow> rat" where
  "outline_estimate_bloat content =
     (if length content < 512 then 0 else if contains content ''func '' then 1/2 else 0)"

section \<open>Outline\<close>

definition strip_line_number :: "string \<Rightarrow> string" where
  "strip_line_number line =
     (if CHR 0x09 \<in> set line then tl (dropWhile (\<lambda>c. c \<noteq> CHR 0x09) line)
      else dropWhile (\<lambda>c. c = CHR '' '' \<or> c = CHR 0x09 \<or> is_digit c) line)"

definition bare_lines :: "string list \<Rightarrow> string list" where
  "bare_lines ls =
     (if length ls * 4 div 10 \<le> length (filter (\<lambda>l. CHR 0x09 \<in> set l) ls) then map strip_line_number ls else ls)"

text \<open>The bodies with a line strictly between their braces.\<close>

definition elidable :: "(int \<times> int) list \<Rightarrow> (int \<times> int) list" where
  "elidable bodies = filter (\<lambda>(lo, hi). 2 \<le> hi - lo) bodies"

definition dropped_line :: "(int \<times> int) list \<Rightarrow> int \<Rightarrow> bool" where
  "dropped_line bodies i \<longleftrightarrow> list_ex (\<lambda>(lo, hi). lo < i \<and> i < hi) (elidable bodies)"

fun emit_outline :: "(int \<Rightarrow> bool) \<Rightarrow> int \<Rightarrow> string list \<Rightarrow> string" where
  "emit_outline drops i [] = []"
| "emit_outline drops i (l # ls) =
     (if drops i then (if i = 1 \<or> \<not> drops (i - 1) then elision_marker else []) else l @ [NL]) @ emit_outline drops (i + 1) ls"

definition outline_note :: "nat \<Rightarrow> string \<Rightarrow> string" where
  "outline_note n key =
     ''[headroom: '' @ utoa n @ '' function bodies elided. Re-read with offset/limit for a specific body, or retrieve the full file: hash=''
       @ key @ '']'' @ [NL]"

definition outline_go :: "body_lines \<Rightarrow> (string \<Rightarrow> string) \<Rightarrow> string \<Rightarrow> string option" where
  "outline_go parse md5 content =
     (let ls = split_on NL content
      in case parse (join [NL] (bare_lines ls)) of
           None \<Rightarrow> None
         | Some bodies \<Rightarrow>
             if elidable bodies = [] then None
             else Some (emit_outline (dropped_line bodies) 1 ls @ outline_note (length (elidable bodies)) (compute_key_md5 md5 content)))"

definition read_outline :: "offload_env \<Rightarrow> body_lines \<Rightarrow> 's offload_transform" where
  "read_outline E parse =
     \<lparr>of_name = ''read_outline'', of_applies_to = [PlainText, BuildOutput, SearchResults, SourceCode],
      of_estimate_bloat = outline_estimate_bloat,
      of_apply = (\<lambda>ops content ctx st.
        let path = file_path_from_tool_input (oe_gjson E) (cx_tool_input ctx) in
        if \<not> outline_is_read_tool (cx_producing_tool ctx) then (Inl ErrSkipped, st)
        else if path = [] then (Inl ErrSkipped, st)
        else if code_extension (ut_lower (oe_unicode E)) path \<noteq> ''.go'' then (Inl ErrSkipped, st)
        else if list_ex (\<lambda>key. gj_exists (oe_gjson E) (gj_get (oe_gjson E) (cx_tool_input ctx) key)) range_keys then (Inl ErrSkipped, st)
        else if 0 < cx_prior_reads ctx then (Inl ErrSkipped, st)
        else (case outline_go parse (oe_md5 E) content of
                None \<Rightarrow> (Inl ErrSkipped, st)
              | Some outlined \<Rightarrow>
                  (let key = compute_key_md5 (oe_md5 E) content
                   in (Inr (from_lengths (length content) outlined key), st_put ops key content st)))),
      of_confidence = f32 (9/10)\<rparr>"

section \<open>Lemmas\<close>

lemma outline_note_names: "names_key (outline_note n key) key"
  using names_keyI [of "''[headroom: '' @ utoa n @ '' function bodies elided. Re-read with offset/limit for a specific body, or retrieve the full file: ''" key "'']'' @ [NL]"]
  by (simp add: outline_note_def)

lemma outline_names: "outline_go parse md5 content = Some w \<Longrightarrow> names_key w (compute_key_md5 md5 content)"
  by (auto simp: outline_go_def Let_def outline_note_names intro!: names_key_append split: option.splits if_splits)

text \<open>It keeps the contract of the offloads: it skips, or it stores the original under the key that its text names.\<close>

lemma read_outline_stores: "stores_original (oe_md5 E) (read_outline E parse)"
  unfolding stores_original_def read_outline_def Let_def offload_transform.select_convs
  by (intro allI) (auto split: option.splits intro: outline_names)

text \<open>The vetoes: a read of a range and a second read are left alone.\<close>

lemma read_outline_vetoes:
  assumes "0 < cx_prior_reads ctx
    \<or> (\<exists>key\<in>set range_keys. gj_exists (oe_gjson E) (gj_get (oe_gjson E) (cx_tool_input ctx) key))"
  shows "of_apply (read_outline E parse) ops content ctx st = (Inl ErrSkipped, st)"
  using assms by (auto simp: read_outline_def Let_def list_ex_iff)

text \<open>Every line that is not strictly inside an elided body survives with its number, in order: dropping the markers from the
  outline gives those lines.\<close>

lemma emit_outline_keeps:
  "\<exists>pieces. emit_outline drops i ls = concat pieces \<and> length pieces = length ls
    \<and> (\<forall>k<length ls. pieces ! k = (if drops (i + int k) then pieces ! k else ls ! k @ [NL]))
    \<and> (\<forall>k<length ls. drops (i + int k) \<longrightarrow> pieces ! k \<in> {[], elision_marker})"
proof (induction ls arbitrary: i)
  case (Cons l ls)
  obtain pieces where p: "emit_outline drops (i + 1) ls = concat pieces" "length pieces = length ls"
    "\<forall>k<length ls. pieces ! k = (if drops (i + 1 + int k) then pieces ! k else ls ! k @ [NL])"
    "\<forall>k<length ls. drops (i + 1 + int k) \<longrightarrow> pieces ! k \<in> {[], elision_marker}"
    using Cons.IH [of "i + 1"] by blast
  let ?p = "(if drops i then (if i = 1 \<or> \<not> drops (i - 1) then elision_marker else []) else l @ [NL]) # pieces"
  show ?case
  proof (intro exI [of _ ?p] conjI allI impI)
    fix k assume k: "k < length (l # ls)"
    show "?p ! k = (if drops (i + int k) then ?p ! k else (l # ls) ! k @ [NL])"
      using k p(3) by (cases k) (auto simp: add.assoc)
    show "?p ! k \<in> {[], elision_marker}" if "drops (i + int k)"
      using k p(4) that by (cases k) (auto simp: add.assoc)
  qed (use p in simp_all)
qed simp

end
