(* ===== verification/SemCache.thy ===== *)
theory SemCache
  imports CcrStore GoUnicode GoFloat
begin

text \<open>
  \<open>internal/semcache\<close>: a bounded index of request vectors over a CCR store. A \<open>float32\<close> is the rational
  it denotes; the embedder, \<open>math.Sqrt\<close>, \<open>math.Float32bits\<close> and BLAKE3 are arguments, and one
  operation runs at a time. The HTTP embedder behind the interface is not modelled.
\<close>

section \<open>Configuration\<close>

definition default_threshold :: rat where "default_threshold = f32 (97/100)"

definition default_max_entries :: nat where "default_max_entries = 2000"

record sem_config =
  sm_enabled :: bool
  sm_threshold :: rat
  sm_max_entries :: int
  sm_model :: string

definition default_sem_config :: sem_config where
  "default_sem_config = \<lparr>sm_enabled = False, sm_threshold = default_threshold,
     sm_max_entries = int default_max_entries, sm_model = []\<rparr>"

record sem_request =
  rq_text :: string
  rq_has_tool_results :: bool

text \<open>What the cache gets from outside.\<close>

record sem_deps =
  sd_lower :: "nat \<Rightarrow> nat"
  sd_embed :: "string \<Rightarrow> rat list option"
  sd_sqrt :: "rat \<Rightarrow> rat"
  sd_bits :: "rat \<Rightarrow> nat"
  sd_blake3 :: "string \<Rightarrow> string"

section \<open>Similarity\<close>

definition normalize_request :: "(nat \<Rightarrow> nat) \<Rightarrow> string \<Rightarrow> string" where
  "normalize_request lower s = join '' '' (str_fields (to_lower lower s))"

text \<open>The sums are \<open>float64\<close>, every operation rounded.\<close>

fun dot64 :: "rat \<Rightarrow> rat list \<Rightarrow> rat list \<Rightarrow> rat" where
  "dot64 acc (x # xs) (y # ys) = dot64 (f64 (acc + f64 (x * y))) xs ys"
| "dot64 acc xs ys = acc"

definition cosine :: "(rat \<Rightarrow> rat) \<Rightarrow> rat list \<Rightarrow> rat list \<Rightarrow> rat" where
  "cosine sqrt64 a b =
     (if a = [] \<or> length a \<noteq> length b then 0
      else (let dp = dot64 0 a b; na = dot64 0 a a; nb = dot64 0 b b
            in if na = 0 \<or> nb = 0 then 0 else f32 (f64 (dp / f64 (sqrt64 na * sqrt64 nb)))))"

section \<open>The cache\<close>

record sem_entry =
  en_vec :: "rat list"
  en_key :: string

record sem_cache =
  sm_cfg :: sem_config
  sm_index :: "sem_entry list"

definition new_sem_cache :: "sem_config \<Rightarrow> sem_cache" where
  "new_sem_cache cfg =
     (let cfg1 = (if sm_threshold cfg \<le> 0 then cfg\<lparr>sm_threshold := default_threshold\<rparr> else cfg);
          cfg2 = (if sm_max_entries cfg1 \<le> 0 then cfg1\<lparr>sm_max_entries := int default_max_entries\<rparr> else cfg1)
      in \<lparr>sm_cfg = cfg2, sm_index = []\<rparr>)"

definition vector_for :: "sem_deps \<Rightarrow> sem_cache \<Rightarrow> sem_request \<Rightarrow> rat list option" where
  "vector_for D c req =
     (if \<not> sm_enabled (sm_cfg c) \<or> rq_has_tool_results req then None
      else (let norm = normalize_request (sd_lower D) (rq_text req) in
            if norm = [] then None
            else (case sd_embed D norm of None \<Rightarrow> None | Some vec \<Rightarrow> if vec = [] then None else Some vec)))"

definition little_endian :: "nat \<Rightarrow> string" where
  "little_endian n = map (\<lambda>i. char_of (n div 256 ^ i mod 256)) [0..<4]"

definition payload_key :: "sem_deps \<Rightarrow> sem_cache \<Rightarrow> rat list \<Rightarrow> string" where
  "payload_key D c vec =
     compute_key (sd_blake3 D) (sm_model (sm_cfg c) @ [CHR 0x00] @ concat (map (\<lambda>f. little_endian (sd_bits D f)) vec))"

definition better :: "sem_deps \<Rightarrow> rat list \<Rightarrow> sem_entry \<Rightarrow> rat \<times> string \<Rightarrow> rat \<times> string" where
  "better D vec e b = (let s = cosine (sd_sqrt D) vec (en_vec e) in if fst b < s then (s, en_key e) else b)"

definition sem_lookup :: "sem_deps \<Rightarrow> 's store_ops \<Rightarrow> sem_cache \<Rightarrow> sem_request \<Rightarrow> 's \<Rightarrow> string option \<times> 's" where
  "sem_lookup D ops c req st =
     (case vector_for D c req of
        None \<Rightarrow> (None, st)
      | Some vec \<Rightarrow>
          (let (best, best_key) = fold (better D vec) (sm_index c) (0, [])
           in if best < sm_threshold (sm_cfg c) \<or> best_key = [] then (None, st) else st_get ops best_key st))"

definition sem_store :: "sem_deps \<Rightarrow> 's store_ops \<Rightarrow> sem_request \<Rightarrow> string \<Rightarrow> sem_cache \<times> 's \<Rightarrow> sem_cache \<times> 's" where
  "sem_store D ops req response cs =
     (case cs of
        (c, st) \<Rightarrow>
          (case vector_for D c req of
             None \<Rightarrow> (c, st)
           | Some vec \<Rightarrow>
               (let key = payload_key D c vec; index = sm_index c @ [\<lparr>en_vec = vec, en_key = key\<rparr>];
                    over = int (length index) - sm_max_entries (sm_cfg c)
                in (c\<lparr>sm_index := if 0 < over then drop (nat over) index else index\<rparr>, st_put ops key response st))))"

definition sem_len :: "sem_cache \<Rightarrow> nat" where "sem_len c = length (sm_index c)"

section \<open>Lemmas\<close>

text \<open>The scan returns an entry that reaches the score it reports.\<close>

lemma fold_better:
  "fold (better D vec) es b = (best, key) \<Longrightarrow>
     (best, key) = b \<or> (\<exists>e\<in>set es. en_key e = key \<and> cosine (sd_sqrt D) vec (en_vec e) = best)"
  by (induction es arbitrary: b) (auto simp: better_def Let_def split: if_splits)

fun store_all :: "sem_deps \<Rightarrow> 's store_ops \<Rightarrow> (sem_request \<times> string) list \<Rightarrow> sem_cache \<times> 's \<Rightarrow> sem_cache \<times> 's" where
  "store_all D ops [] cs = cs"
| "store_all D ops ((req, response) # hs) cs = store_all D ops hs (sem_store D ops req response cs)"

lemma store_all_snoc: "store_all D ops (hs @ [(q, r)]) cs = sem_store D ops q r (store_all D ops hs cs)"
  by (induction D ops hs cs rule: store_all.induct) auto

lemma threshold_pos: "0 < f32 (97/100)"
proof -
  have "2 powi expo (97/100) \<le> f32 (97/100)" using flt_pos_bounds [of "97/100" 24] by simp
  then show ?thesis by (rule less_le_trans [rotated]) simp
qed

text \<open>What a history of stores leaves: a bounded index whose entries come from stored requests, and a
  store in which every payload key resolves to a response stored under it, if at all.\<close>

definition stored_as :: "sem_deps \<Rightarrow> sem_cache \<Rightarrow> (sem_request \<times> string) list \<Rightarrow> string \<Rightarrow> string \<Rightarrow> bool" where
  "stored_as D c hs key response \<longleftrightarrow>
     (\<exists>q v. (q, response) \<in> set hs \<and> vector_for D c q = Some v \<and> payload_key D c v = key)"

lemma vector_for_cfg: "sm_cfg c = sm_cfg c' \<Longrightarrow> vector_for D c q = vector_for D c' q"
  by (simp add: vector_for_def)

lemma payload_key_cfg: "sm_cfg c = sm_cfg c' \<Longrightarrow> payload_key D c v = payload_key D c' v"
  by (simp add: payload_key_def)

context ccr_store
begin

definition cache_inv :: "sem_deps \<Rightarrow> sem_cache \<Rightarrow> (sem_request \<times> string) list \<Rightarrow> sem_cache \<times> 's \<Rightarrow> bool" where
  "cache_inv D c0 hs cs \<longleftrightarrow>
     sm_cfg (fst cs) = sm_cfg c0 \<and> inv (snd cs) \<and> int (length (sm_index (fst cs))) \<le> sm_max_entries (sm_cfg c0)
   \<and> (\<forall>e\<in>set (sm_index (fst cs)). \<exists>q r. (q, r) \<in> set hs \<and> vector_for D c0 q = Some (en_vec e) \<and> en_key e = payload_key D c0 (en_vec e))
   \<and> (\<forall>e\<in>set (sm_index (fst cs)). \<forall>p. view (snd cs) (en_key e) = Some p \<longrightarrow> stored_as D c0 hs (en_key e) p)"

lemma cache_inv_store:
  assumes c: "cache_inv D c0 hs cs" and max: "0 < sm_max_entries (sm_cfg c0)"
  shows "cache_inv D c0 (hs @ [(q, r)]) (sem_store D ops q r cs)"
proof -
  obtain cc st where cs: "cs = (cc, st)" by fastforce
  have cfg: "sm_cfg cc = sm_cfg c0" and i: "inv st" using c by (auto simp: cache_inv_def cs)
  have known: "\<exists>q' r'. (q', r') \<in> set (hs @ [(q, r)]) \<and> vector_for D c0 q' = Some (en_vec e) \<and> en_key e = payload_key D c0 (en_vec e)"
    if "e \<in> set (sm_index cc)" for e
  proof -
    obtain q' r' where "(q', r') \<in> set hs" "vector_for D c0 q' = Some (en_vec e)" "en_key e = payload_key D c0 (en_vec e)"
      using c \<open>e \<in> set (sm_index cc)\<close> by (auto simp: cache_inv_def cs)
    then show ?thesis by (intro exI [of _ q'] exI [of _ r']) simp
  qed
  have more: "stored_as D c0 hs key p \<Longrightarrow> stored_as D c0 (hs @ [(q, r)]) key p" for key p
    by (auto simp: stored_as_def)
  show ?thesis
  proof (cases "vector_for D c0 q")
    case None
    then have "sem_store D ops q r cs = cs" using vector_for_cfg [OF cfg] by (simp add: sem_store_def cs)
    moreover have "stored_as D c0 (hs @ [(q, r)]) (en_key e) p" if "e \<in> set (sm_index cc)" "view st (en_key e) = Some p" for e p
      using c more that by (auto simp: cache_inv_def cs)
    ultimately show ?thesis using c known by (simp add: cache_inv_def cs)
  next
    case (Some vec)
    define key where "key = payload_key D c0 vec"
    define e0 where "e0 = \<lparr>en_vec = vec, en_key = key\<rparr>"
    define over where "over = int (length (sm_index cc @ [e0])) - sm_max_entries (sm_cfg c0)"
    define index where "index = (if 0 < over then drop (nat over) (sm_index cc @ [e0]) else sm_index cc @ [e0])"
    have step: "sem_store D ops q r cs = (cc\<lparr>sm_index := index\<rparr>, st_put ops key r st)"
      using Some vector_for_cfg [OF cfg, of D q] payload_key_cfg [OF cfg, of D vec]
      by (simp add: sem_store_def cs Let_def key_def index_def over_def e0_def cfg)
    have sub: "set index \<subseteq> insert e0 (set (sm_index cc))"
      using set_drop_subset [of "nat over" "sm_index cc @ [e0]"] by (auto simp: index_def)
    have len: "int (length index) \<le> sm_max_entries (sm_cfg c0)"
      using max by (auto simp: index_def over_def)
    have new: "stored_as D c0 (hs @ [(q, r)]) key r" using Some by (auto simp: stored_as_def key_def)
    have resolves: "stored_as D c0 (hs @ [(q, r)]) (en_key e) p"
      if "e \<in> set index" "view (st_put ops key r st) (en_key e) = Some p" for e p
    proof (cases "en_key e = key")
      case True
      then show ?thesis using that(2) put_same [OF i, of key r] new by simp
    next
      case False
      then have "e \<in> set (sm_index cc)" using that(1) sub by (auto simp: e0_def)
      moreover have "view st (en_key e) = Some p" using put_other [OF i False, of r] that(2) by auto
      ultimately show ?thesis using c more by (auto simp: cache_inv_def cs)
    qed
    have "\<exists>q' r'. (q', r') \<in> set (hs @ [(q, r)]) \<and> vector_for D c0 q' = Some (en_vec e) \<and> en_key e = payload_key D c0 (en_vec e)"
      if "e \<in> set index" for e
    proof (cases "e = e0")
      case True
      then show ?thesis using Some by (auto simp: e0_def key_def)
    next
      case False
      then have "e \<in> set (sm_index cc)" using that sub by blast
      then show ?thesis by (rule known)
    qed
    then show ?thesis using len resolves cfg put_inv [OF i] by (simp add: cache_inv_def step)
  qed
qed

lemma cache_inv_run:
  assumes "inv st" and "0 < sm_max_entries (sm_cfg c0)" and "sm_index c0 = []"
  shows "cache_inv D c0 hs (store_all D ops hs (c0, st))"
proof (induction hs rule: rev_induct)
  case Nil
  then show ?case using assms by (simp add: cache_inv_def)
next
  case (snoc h hs)
  obtain q r where h: "h = (q, r)" by fastforce
  show ?case unfolding h store_all_snoc by (rule cache_inv_store [OF snoc assms(2)])
qed

end

section \<open>Properties\<close>

text \<open>A hit is sound. Whatever was stored before, a lookup that answers does so only when the cache is
  enabled and the request carries no tool results; the answer is a response that was stored for a
  request with the payload key of an indexed vector, and that vector scores at least the threshold
  against the request. The index never outgrows its bound.\<close>

theorem semantic_hit_sound:
  assumes "ccr_store ops sinv view" and "sinv st0" and "c0 = new_sem_cache cfg"
    and "store_all D ops hs (c0, st0) = (c, st)" and "sem_lookup D ops c req st = (Some response, st')"
  shows "sm_enabled cfg \<and> \<not> rq_has_tool_results req \<and> int (sem_len c) \<le> sm_max_entries (sm_cfg c0)
    \<and> (\<exists>vec q r v. vector_for D c0 req = Some vec \<and> (q, r) \<in> set hs \<and> vector_for D c0 q = Some v
         \<and> sm_threshold (sm_cfg c0) \<le> cosine (sd_sqrt D) vec v \<and> stored_as D c0 hs (payload_key D c0 v) response)"
proof -
  have c0: "0 < sm_max_entries (sm_cfg c0)" "0 < sm_threshold (sm_cfg c0)" "sm_index c0 = []" "sm_enabled (sm_cfg c0) = sm_enabled cfg"
    by (auto simp: assms(3) new_sem_cache_def Let_def default_max_entries_def default_threshold_def threshold_pos)
  have inv: "ccr_store.cache_inv sinv view D c0 hs (c, st)"
    using ccr_store.cache_inv_run [OF assms(1,2) c0(1,3), of D hs] assms(4) by simp
  note inv = inv [unfolded ccr_store.cache_inv_def [OF assms(1)]]
  have cfg: "sm_cfg c = sm_cfg c0" using inv by simp
  obtain vec where vec: "vector_for D c req = Some vec"
    using assms(5) by (cases "vector_for D c req") (auto simp: sem_lookup_def)
  obtain best key where b: "fold (better D vec) (sm_index c) (0, []) = (best, key)" by fastforce
  have hit: "sm_threshold (sm_cfg c0) \<le> best" "key \<noteq> []" "st_get ops key st = (Some response, st')"
    using assms(5) vec b cfg by (auto simp: sem_lookup_def split: if_splits)
  then obtain e where e: "e \<in> set (sm_index c)" "en_key e = key" "cosine (sd_sqrt D) vec (en_vec e) = best"
    using fold_better [OF b] c0(2) by auto
  have "view st (en_key e) = Some response" using ccr_store.get_view [OF assms(1)] inv hit(3) e(2) by (metis fst_conv snd_conv)
  then have "stored_as D c0 hs (en_key e) response" using inv e(1) by auto
  moreover obtain q r where "(q, r) \<in> set hs" "vector_for D c0 q = Some (en_vec e)" "en_key e = payload_key D c0 (en_vec e)"
    using inv e(1) by fastforce
  moreover have "sm_enabled cfg \<and> \<not> rq_has_tool_results req" using vec cfg c0(4) by (auto simp: vector_for_def split: if_splits)
  moreover have "vector_for D c0 req = Some vec" using vec vector_for_cfg [OF cfg] by simp
  moreover have "int (sem_len c) \<le> sm_max_entries (sm_cfg c0)" using inv by (simp add: sem_len_def)
  ultimately show ?thesis using hit(1) e(3) by metis
qed

definition sample_sem_deps :: sem_deps where
  "sample_sem_deps = \<lparr>sd_lower = (\<lambda>r. r), sd_embed = (\<lambda>_. Some [1]), sd_sqrt = (\<lambda>x. x), sd_bits = (\<lambda>_. 1065353216),
     sd_blake3 = (\<lambda>_. replicate 32 CHR ''a'')\<rparr>"

definition sample_sem_config :: sem_config where
  "sample_sem_config = default_sem_config\<lparr>sm_enabled := True, sm_threshold := 1/2, sm_max_entries := 1\<rparr>"

definition sample_sem_state :: sqlite where
  "sample_sem_state = \<lparr>sq_rows = Map.empty, sq_ttl = 0, sq_now = 1, sq_up = True\<rparr>"

abbreviation ask :: "string \<Rightarrow> sem_request" where
  "ask t \<equiv> \<lparr>rq_text = t, rq_has_tool_results = False\<rparr>"

theorem semantic_hit_sound_witness:
  "fst (sem_lookup sample_sem_deps sql_ops (fst (store_all sample_sem_deps sql_ops [(ask ''Hi  there'', ''one''), (ask ''hello'', ''two'')]
       (new_sem_cache sample_sem_config, sample_sem_state))) (ask ''hi there'')
     (snd (store_all sample_sem_deps sql_ops [(ask ''Hi  there'', ''one''), (ask ''hello'', ''two'')]
       (new_sem_cache sample_sem_config, sample_sem_state)))) = Some ''two''
   \<and> (\<exists>vec q r v. vector_for sample_sem_deps (new_sem_cache sample_sem_config) (ask ''hi there'') = Some vec
         \<and> (q, r) \<in> set [(ask ''Hi  there'', ''one''), (ask ''hello'', ''two'')]
         \<and> vector_for sample_sem_deps (new_sem_cache sample_sem_config) q = Some v
         \<and> stored_as sample_sem_deps (new_sem_cache sample_sem_config) [(ask ''Hi  there'', ''one''), (ask ''hello'', ''two'')]
               (payload_key sample_sem_deps (new_sem_cache sample_sem_config) v) ''two'')"
proof -
  let ?hs = "[(ask ''Hi  there'', ''one''), (ask ''hello'', ''two'')]"
  let ?cs = "store_all sample_sem_deps sql_ops ?hs (new_sem_cache sample_sem_config, sample_sem_state)"
  have norm: "normalize_request (\<lambda>r. r) ''Hi  there'' = ''hi there''" "normalize_request (\<lambda>r. r) ''hello'' = ''hello''"
    "normalize_request (\<lambda>r. r) ''hi there'' = ''hi there''" by code_simp+
  have cos: "cosine (\<lambda>x. x) [1] [1] = 1" by (simp add: cosine_def)
  have vec: "vector_for sample_sem_deps c (ask t) = Some [1]"
    if "sm_cfg c = sm_cfg (new_sem_cache sample_sem_config)" "t \<in> {''Hi  there'', ''hello'', ''hi there''}" for c t
    using that by (auto simp: vector_for_def sample_sem_deps_def norm new_sem_cache_def sample_sem_config_def)
  define K where "K = compute_key (\<lambda>_. replicate 32 CHR ''a'') []"
  have key: "payload_key sample_sem_deps c v = K" for c v
    by (simp add: payload_key_def sample_sem_deps_def compute_key_def K_def)
  have K: "K \<noteq> []" by (simp add: K_def compute_key_def hex_encode_def)
  have sqrt: "sd_sqrt sample_sem_deps = (\<lambda>x. x)" by (simp add: sample_sem_deps_def)
  let ?conf = "sm_cfg (new_sem_cache sample_sem_config)"
  have conf: "sm_max_entries ?conf = 1" "sm_threshold ?conf = 1/2" by (simp_all add: new_sem_cache_def sample_sem_config_def)
  have one: "sem_store sample_sem_deps sql_ops (ask ''Hi  there'') ''one'' (new_sem_cache sample_sem_config, st)
      = (\<lparr>sm_cfg = ?conf, sm_index = [\<lparr>en_vec = [1], en_key = K\<rparr>]\<rparr>, sql_put K ''one'' st)" for st
    using vec [of "new_sem_cache sample_sem_config" "''Hi  there''"] conf
    by (simp add: sem_store_def key sql_ops_def) (simp add: new_sem_cache_def Let_def)
  have two: "sem_store sample_sem_deps sql_ops (ask ''hello'') ''two'' (\<lparr>sm_cfg = ?conf, sm_index = [e]\<rparr>, st)
      = (\<lparr>sm_cfg = ?conf, sm_index = [\<lparr>en_vec = [1], en_key = K\<rparr>]\<rparr>, sql_put K ''two'' st)" for e st
    using vec [of "\<lparr>sm_cfg = ?conf, sm_index = [e]\<rparr>" "''hello''"] conf by (simp add: sem_store_def key sql_ops_def)
  have cs: "?cs = (\<lparr>sm_cfg = ?conf, sm_index = [\<lparr>en_vec = [1], en_key = K\<rparr>]\<rparr>, sql_put K ''two'' (sql_put K ''one'' sample_sem_state))"
    by (simp only: store_all.simps one two)
  have "fst (sem_lookup sample_sem_deps sql_ops (fst ?cs) (ask ''hi there'') (snd ?cs)) = fst (sql_get K (snd ?cs))"
    using vec [of "fst ?cs" "''hi there''"] K unfolding cs
    by (simp add: sem_lookup_def better_def sqrt cos conf sql_ops_def Let_def)
  moreover have "fst (sql_get K (snd ?cs)) = Some ''two''"
    unfolding cs by (simp add: sql_get_def sql_put_def sample_sem_state_def Let_def)
  ultimately have run: "fst (sem_lookup sample_sem_deps sql_ops (fst ?cs) (ask ''hi there'') (snd ?cs)) = Some ''two''" by simp
  then obtain st' where hit: "sem_lookup sample_sem_deps sql_ops (fst ?cs) (ask ''hi there'') (snd ?cs) = (Some ''two'', st')"
    by (metis prod.collapse)
  have up: "sq_up sample_sem_state" by (simp add: sample_sem_state_def)
  from semantic_hit_sound [OF sql.ccr_store_axioms up HOL.refl prod.collapse [symmetric] hit] run
  show ?thesis by (elim conjE exE) (intro conjI exI, assumption+)
qed

end
