(* ===== verification/Wire.thy ===== *)
theory Wire
  imports GoJsonProps GoFloat64
begin

text \<open>
  How the servers read and write their small JSON messages with \<open>encoding/json\<close>: an object decoded into a
  struct member by member, and a struct encoded in the order of its fields. The documents of the dispatcher
  and the crusher are read by \<open>GoJson\<close>; here the members are not merged, because a struct decoder visits
  every one of them.
\<close>

section \<open>Members of an object\<close>

text \<open>The syntax is that of \<open>parse_members\<close>; what differs is that a repeated key is visited twice.\<close>

fun read_members :: "nat \<Rightarrow> nat \<Rightarrow> string \<Rightarrow> ((string \<times> json) list \<times> string) option" where
  "read_members 0 d s = None"
| "read_members (Suc n) d s =
     (case read_json_string (skip_ws s) of
        None \<Rightarrow> None
      | Some (key, r) \<Rightarrow>
          (case skip_ws r of
             [] \<Rightarrow> None
           | c # t \<Rightarrow>
               if c \<noteq> CHR '':'' then None
               else
                 (case parse_value n d t of
                    None \<Rightarrow> None
                  | Some (v, r2) \<Rightarrow>
                      (case skip_ws r2 of
                         [] \<Rightarrow> None
                       | c2 # t2 \<Rightarrow>
                           if c2 = CHR '','' then map_option (\<lambda>(ms, q). ((key, v) # ms, q)) (read_members n d t2)
                           else if c2 = CHR ''}'' then Some ([(key, v)], t2) else None))))"

text \<open>
  The next value of a text as the members a struct decoder sees, and what follows it. \<open>null\<close> sets nothing;
  any other value that is not an object cannot be stored in a struct.
\<close>

definition read_struct :: "string \<Rightarrow> ((string \<times> json) list \<times> string) option" where
  "read_struct s =
     (case skip_ws s of
        [] \<Rightarrow> None
      | c # t \<Rightarrow>
          if c = CHR ''{'' then
            (if has_prefix (skip_ws t) ''}'' then Some ([], drop 1 (skip_ws t))
             else read_members (2 * length s + 2) (max_nesting - 1) t)
          else if has_prefix (c # t) ''null'' then Some ([], drop 3 t) else None)"

text \<open>\<open>Unmarshal\<close> wants nothing but white space after the value; a \<open>Decoder\<close> stops after it.\<close>

definition unmarshal_struct :: "string \<Rightarrow> (string \<times> json) list option" where
  "unmarshal_struct s =
     (case read_struct s of Some (ms, r) \<Rightarrow> if skip_ws r = [] then Some ms else None | None \<Rightarrow> None)"

definition decode_struct :: "string \<Rightarrow> (string \<times> json) list option" where
  "decode_struct s = map_option fst (read_struct s)"

section \<open>Field names\<close>

text \<open>
  A member is stored in the field whose name it equals up to simple case folding. Besides the ASCII letters,
  the long s (\<open>U+017F\<close>) folds to \<open>s\<close> and the Kelvin sign (\<open>U+212A\<close>) to \<open>k\<close>.
\<close>

fun fold_name :: "string \<Rightarrow> string" where
  "fold_name (a # b # s) =
     (if a = CHR 0xC5 \<and> b = CHR 0xBF then CHR ''s'' # fold_name s
      else if a = CHR 0xE2 \<and> b = CHR 0x84 \<and> has_prefix s [CHR 0xAA] then CHR ''k'' # fold_name (tl s)
      else lower_byte a # fold_name (b # s))"
| "fold_name [a] = [lower_byte a]"
| "fold_name [] = []"

text \<open>
  The members are visited in order; a value of the wrong type is reported at the end, so one of them makes
  the whole decoding fail. \<open>null\<close> leaves a field of any of the types below alone, except that it empties a
  slice.
\<close>

definition decode_fields :: "(string \<Rightarrow> 'v \<Rightarrow> 'r \<Rightarrow> 'r option) \<Rightarrow> (string \<times> 'v) list \<Rightarrow> 'r \<Rightarrow> 'r option" where
  "decode_fields set_field ms r =
     fold (\<lambda>(key, v) acc. case acc of None \<Rightarrow> None | Some r \<Rightarrow> set_field (fold_name key) v r) ms (Some r)"

definition string_field :: "json \<Rightarrow> (string \<Rightarrow> 'r) \<Rightarrow> 'r \<Rightarrow> 'r option" where
  "string_field v put r = (case v of JStr s \<Rightarrow> Some (put s) | JNull \<Rightarrow> Some r | _ \<Rightarrow> None)"

definition bool_field :: "json \<Rightarrow> (bool \<Rightarrow> 'r) \<Rightarrow> 'r \<Rightarrow> 'r option" where
  "bool_field v put r = (case v of JBool b \<Rightarrow> Some (put b) | JNull \<Rightarrow> Some r | _ \<Rightarrow> None)"

definition int_field :: "json \<Rightarrow> (int \<Rightarrow> 'r) \<Rightarrow> 'r \<Rightarrow> 'r option" where
  "int_field v put r = (case v of JNum m \<Rightarrow> map_option put (parse_int64 m) | JNull \<Rightarrow> Some r | _ \<Rightarrow> None)"

fun string_elems :: "json list \<Rightarrow> string list option" where
  "string_elems [] = Some []"
| "string_elems (v # vs) =
     (case v of JStr s \<Rightarrow> map_option ((#) s) (string_elems vs) | JNull \<Rightarrow> map_option ((#) []) (string_elems vs) | _ \<Rightarrow> None)"

definition strings_field :: "json \<Rightarrow> (string list \<Rightarrow> 'r) \<Rightarrow> 'r \<Rightarrow> 'r option" where
  "strings_field v put r =
     (case v of JArr vs \<Rightarrow> map_option put (string_elems vs) | JNull \<Rightarrow> Some (put []) | _ \<Rightarrow> None)"

text \<open>The struct encoder writes the fields in declaration order, an \<open>omitempty\<close> field only when it is set.\<close>

definition int_json :: "int \<Rightarrow> json" where "int_json n = JNum (itoa n)"

definition strings_json :: "string list \<Rightarrow> json" where "strings_json ss = JArr (map JStr ss)"

section \<open>HTML-escaped literals\<close>

lemma html_escape_Nil [simp]: "html_escape [] = []"
  by (simp add: html_escape_def)

lemma html_escape_append: "html_escape (s @ t) = html_escape s @ html_escape t"
  by (simp add: html_escape_def)

definition html_special :: "char set" where "html_special = {CHR ''<'', CHR ''>'', CHR ''&''}"

lemma html_escape_Cons:
  "html_escape (c # s) = (if c \<in> html_special
      then CHR 0x5C # CHR ''u'' # CHR ''0'' # CHR ''0'' # hex_digit (ord c div 16) # hex_digit (ord c mod 16) # html_escape s
      else c # html_escape s)"
  by (auto simp: html_escape_def html_special_def)

lemma html_escape_plain: "set s \<inter> html_special = {} \<Longrightarrow> html_escape s = s"
  by (induction s) (simp_all add: html_escape_Cons)

lemma high_not_special: "\<forall>c\<in>set s. 128 \<le> ord c \<Longrightarrow> html_escape s = s"
  by (rule html_escape_plain) (auto simp: html_special_def)

lemma hex_digit_not_special [simp]: "d < 16 \<Longrightarrow> hex_digit d \<notin> html_special"
  using is_lower_hex_digit [of d] by (auto simp: html_special_def is_lower_hex_def is_digit_def)

lemma esc_ascii_html:
  assumes "ord c < 128" shows "read_chars (html_escape (esc_ascii c) @ s) = adds [c] (read_chars s)"
proof (cases "c \<in> html_special")
  case True
  then have e: "esc_ascii c = [c]" by (auto simp: html_special_def esc_ascii_def)
  have h: "hex4 (CHR ''0'') (CHR ''0'') (hex_digit (ord c div 16)) (hex_digit (ord c mod 16)) = Some (ord c)"
    using True by (auto simp: html_special_def hex4_def hex_val_def hex_digit_def is_digit_def)
  have "encode_rune (ord c) = [c]" using assms by (simp add: encode_rune_def chr_ord)
  moreover have "\<not> is_surrogate (ord c)" using assms by (simp add: is_surrogate_def)
  ultimately show ?thesis using read_u [OF h] True by (simp add: e html_escape_Cons del: read_chars.simps)
next
  case False
  have "set (esc_ascii c) \<inter> html_special = {}"
    using False assms hex_digit_not_special [of "ord c div 16"] hex_digit_not_special [of "ord c mod 16"]
    by (simp add: esc_ascii_def) (simp add: html_special_def)
  then show ?thesis using esc_ascii_read [OF assms] html_escape_plain by metis
qed

lemma read_html_string: "read_chars (html_escape (append_string s) @ CHR 0x22 # t) = Some (to_valid s, t)"
proof (induction s rule: append_string.induct)
  case 1 then show ?case by (simp add: to_valid_def)
next
  case (2 c s)
  let ?r = "fst (decode_rune (c # s))" and ?w = "rune_width (c # s)"
  consider (ascii) "ord c < 128" | (inv) "\<not> ord c < 128" "rune_invalid (c # s)"
    | (sep) "\<not> ord c < 128" "\<not> rune_invalid (c # s)" "?r = 8232 \<or> ?r = 8233"
    | (raw) "\<not> ord c < 128" "\<not> rune_invalid (c # s)" "\<not> (?r = 8232 \<or> ?r = 8233)" by blast
  then show ?case
  proof cases
    case ascii
    then have "to_valid (c # s) = c # to_valid s"
      by (simp add: to_valid_Cons ascii_rune rune_width_def encode_rune_def chr_ord)
    then show ?thesis using ascii 2(1) esc_ascii_html [OF ascii] by (simp add: html_escape_append del: read_chars.simps)
  next
    case inv
    have h: "hex4 (CHR ''f'') (CHR ''f'') (CHR ''f'') (CHR ''d'') = Some rune_error"
      by (simp add: hex4_def hex_val_def is_digit_def rune_error_def)
    have "to_valid (c # s) = encode_rune rune_error @ to_valid s"
      using inv by (simp add: to_valid_Cons rune_invalid_def rune_width_def)
    then show ?thesis using inv 2(2) read_u [OF h]
      by (simp add: html_escape_Cons html_special_def rune_error_def is_surrogate_def del: read_chars.simps)
  next
    case sep
    have p: "html_escape [hex_digit (n mod 16)] = [hex_digit (n mod 16)]" if "n = 8232 \<or> n = 8233" for n
      using that by (simp add: html_escape_Cons)
    have "hex4 (CHR ''2'') (CHR ''0'') (CHR ''2'') (hex_digit (n mod 16)) = Some n" if "n = 8232 \<or> n = 8233" for n
      using that by (auto simp: hex4_def hex_val_def is_digit_def hex_digit_def)
    then have h: "hex4 (CHR ''2'') (CHR ''0'') (CHR ''2'') (hex_digit (?r mod 16)) = Some ?r" using sep(3) by blast
    have e: "html_escape (append_string (c # s)) @ CHR 0x22 # t = CHR 0x5C # CHR ''u'' # CHR ''2'' # CHR ''0'' # CHR ''2''
        # hex_digit (?r mod 16) # html_escape (append_string (drop (?w - 1) s)) @ CHR 0x22 # t"
      using sep p [OF sep(3)] by (simp add: html_escape_Cons html_escape_append html_special_def split: if_splits)
    have "\<not> is_surrogate ?r" using sep(3) by (auto simp: is_surrogate_def)
    then show ?thesis unfolding e using 2(3) [OF sep] by (subst read_u [OF h]) (simp_all add: to_valid_Cons del: read_chars.simps)
  next
    case raw
    have "to_valid (c # s) = take ?w (c # s) @ to_valid (drop (?w - 1) s)"
      using raw(2) encode_rune_decode [of "c # s"] by (simp add: to_valid_Cons)
    moreover have "html_escape (take ?w (c # s)) = take ?w (c # s)"
      using raw(1) multibyte_high [of "c # s"] by (intro high_not_special) auto
    ultimately show ?thesis using raw 2(4) [OF raw] read_rune [of "c # s"]
      by (simp add: html_escape_append del: read_chars.simps)
  qed
qed

section \<open>Reading what was written\<close>

text \<open>A text spells a value when the reader consumes exactly it, whatever may follow a value.\<close>

definition spells :: "string \<Rightarrow> json \<Rightarrow> bool" where
  "spells t v \<longleftrightarrow> (\<forall>n d r. fuel v \<le> n \<longrightarrow> depth v \<le> d \<longrightarrow> ends_value r \<longrightarrow> parse_value n d (t @ r) = Some (v, r))"

definition spells_key :: "string \<Rightarrow> string \<Rightarrow> bool" where
  "spells_key t k \<longleftrightarrow> (\<exists>u. t = CHR 0x22 # u) \<and> (\<forall>r. read_json_string (t @ r) = Some (k, r))"

lemma spells_encode: "json_ok v \<Longrightarrow> spells (encode_json v) v"
  by (simp add: spells_def parse_encode)

lemma spells_string: "spells_key t k \<Longrightarrow> spells t (JStr k)"
proof -
  assume t: "spells_key t k"
  then obtain u where u: "t = CHR 0x22 # u" by (auto simp: spells_key_def)
  have "read_chars (u @ r) = Some (k, r)" for r
    using t by (simp add: spells_key_def u read_json_string_def)
  then have "parse_value (Suc n) d (t @ r) = Some (JStr k, r)" for n d r by (simp add: u)
  then show ?thesis unfolding spells_def by (metis Suc_le_D fuel.simps(6) One_nat_def)
qed

lemma spells_key_encode: "spells_key (encode_json_string s) (to_valid s)"
  by (simp add: spells_key_def encode_json_string_def read_json_string_def read_append_string del: read_chars.simps)

lemma spells_key_html: "spells_key (html_escape (encode_json_string s)) (to_valid s)"
  using read_html_string
  by (simp add: spells_key_def encode_json_string_def read_json_string_def html_escape_append html_escape_Cons html_special_def
      del: read_chars.simps)

text \<open>The members of an object whose keys and values are spelled by the given texts.\<close>

definition member_text :: "string \<times> string \<Rightarrow> string" where
  "member_text m = fst m @ '':'' @ snd m"

lemma read_members_spelled:
  assumes "ms \<noteq> []" and "list_all2 (\<lambda>t m. spells_key (fst t) (fst m) \<and> spells (snd t) (snd m) \<and> depth (snd m) \<le> d) ts ms"
    and "(\<Sum>m\<leftarrow>ms. Suc (fuel (snd m))) \<le> n"
  shows "read_members n d (join '','' (map member_text ts) @ CHR ''}'' # r) = Some (ms, r)"
  using assms
proof (induction ms arbitrary: ts n)
  case (Cons m ms)
  obtain t ts' where ts: "ts = t # ts'" and t: "spells_key (fst t) (fst m)" "spells (snd t) (snd m)" "depth (snd m) \<le> d"
    and rest: "list_all2 (\<lambda>t m. spells_key (fst t) (fst m) \<and> spells (snd t) (snd m) \<and> depth (snd m) \<le> d) ts' ms"
    using Cons.prems(2) by (auto simp: list_all2_Cons2)
  obtain j where n: "n = Suc j" using Cons.prems(3) by (cases n) auto
  have key: "read_json_string (skip_ws (fst t @ q)) = Some (fst m, q)" for q
    using t(1) by (auto simp: spells_key_def)
  have val: "parse_value j d (snd t @ q) = Some (snd m, q)" if "ends_value q" for q
    using t(2,3) Cons.prems(3) that by (simp add: spells_def n)
  show ?case
  proof (cases ms)
    case Nil
    then show ?thesis using rest key val by (simp add: ts n member_text_def)
  next
    case (Cons m' ms')
    then obtain t' ts'' where ts': "ts' = t' # ts''" using rest by (auto simp: list_all2_Cons2)
    have "read_members j d (join '','' (map member_text ts') @ CHR ''}'' # r) = Some (ms, r)"
      using Cons.prems(3) Cons rest by (intro Cons.IH) (simp_all add: n)
    moreover have "member_text t = fst t @ CHR '':'' # snd t" by (simp add: member_text_def)
    ultimately show ?thesis using key val by (simp add: ts ts' n)
  qed
qed simp

text \<open>The text of an object.\<close>

definition object_text :: "(string \<times> string) list \<Rightarrow> string" where
  "object_text ts = CHR ''{'' # join '','' (map member_text ts) @ ''}''"

definition writes :: "(string \<times> string) list \<Rightarrow> (string \<times> json) list \<Rightarrow> bool" where
  "writes ts ms \<longleftrightarrow> list_all2 (\<lambda>t m. spells_key (fst t) (fst m) \<and> spells (snd t) (snd m)
      \<and> depth (snd m) \<le> max_nesting - 1 \<and> fuel (snd m) \<le> 2 * length (snd t)) ts ms"

lemma writes_Cons [simp]:
  "writes ((kt, vt) # ts) ((k, v) # ms) \<longleftrightarrow>
     spells_key kt k \<and> spells vt v \<and> depth v \<le> max_nesting - 1 \<and> fuel v \<le> 2 * length vt \<and> writes ts ms"
  by (simp add: writes_def)

lemma writes_Nil [simp]: "writes [] []"
  by (simp add: writes_def)

lemma writes_append: "writes ts ms \<Longrightarrow> writes ts' ms' \<Longrightarrow> writes (ts @ ts') (ms @ ms')"
  by (simp add: writes_def list_all2_appendI)

lemma join_comma_length: "(\<Sum>t\<leftarrow>ts. Suc (length t)) \<le> Suc (length (join '','' ts))"
  by (induction ts rule: induct_list012) auto

lemma read_struct_object:
  assumes "writes ts ms" shows "read_struct (object_text ts @ r) = Some (ms, r)"
proof (cases "ms = []")
  case True
  then show ?thesis using assms by (simp add: writes_def object_text_def read_struct_def)
next
  case False
  then obtain t ts' m ms' where ts: "ts = t # ts'" and ms: "ms = m # ms'" and t: "spells_key (fst t) (fst m)"
    using assms by (auto simp: writes_def list_all2_Cons2 neq_Nil_conv)
  let ?body = "join '','' (map member_text ts)"
  have bound: "(\<Sum>m\<leftarrow>ms. Suc (fuel (snd m))) \<le> 2 * (\<Sum>t\<leftarrow>map member_text ts. Suc (length t))"
    using assms unfolding writes_def
    by (induction rule: list_all2_induct) (auto simp: member_text_def)
  then have "(\<Sum>m\<leftarrow>ms. Suc (fuel (snd m))) \<le> 2 * length (object_text ts @ r) + 2"
    using join_comma_length [of "map member_text ts"] unfolding object_text_def by simp
  moreover have "list_all2 (\<lambda>t m. spells_key (fst t) (fst m) \<and> spells (snd t) (snd m) \<and> depth (snd m) \<le> max_nesting - 1) ts ms"
    using assms unfolding writes_def by (rule list_all2_mono) blast
  ultimately have "read_members (2 * length (object_text ts @ r) + 2) (max_nesting - 1) (?body @ CHR ''}'' # r) = Some (ms, r)"
    using read_members_spelled False by blast
  moreover have "\<exists>u. ?body = CHR 0x22 # u"
    using t by (cases ts') (auto simp: ts spells_key_def member_text_def)
  ultimately show ?thesis by (auto simp: read_struct_def object_text_def)
qed

lemma decode_struct_object: "writes ts ms \<Longrightarrow> decode_struct (object_text ts @ r) = Some ms"
  by (simp add: decode_struct_def read_struct_object)

lemma unmarshal_struct_object: "writes ts ms \<Longrightarrow> unmarshal_struct (object_text ts) = Some ms"
  using read_struct_object [of ts ms "[]"] by (simp add: unmarshal_struct_def skip_ws_def)

text \<open>Both encoders write an object member by member.\<close>

lemma encode_json_object:
  "encode_json (JObj ms) = object_text (map (\<lambda>(k, v). (encode_json_string k, encode_json v)) ms)"
  by (simp add: object_text_def member_text_def case_prod_unfold comp_def)

lemma html_escape_join: "html_escape (join '','' ts) = join '','' (map html_escape ts)"
  by (induction ts rule: induct_list012) (simp_all add: html_escape_append html_escape_Cons html_special_def)

lemma marshal_json_object:
  "marshal_json (JObj ms) = object_text (map (\<lambda>(k, v). (html_escape (encode_json_string k), marshal_json v)) ms)"
  by (simp add: marshal_json_def object_text_def member_text_def html_escape_append html_escape_Cons html_special_def
      html_escape_join case_prod_unfold comp_def)

section \<open>Leaves\<close>

lemma utoa_scan_int: "scan_int (utoa n) = Some (utoa n)"
proof (cases "n = 0")
  case True
  have "utoa 0 = ''0''" by code_simp
  then show ?thesis by (simp add: True scan_int_def)
next
  case False
  have "hd (utoa n) \<noteq> CHR ''0''" using False
  proof (induction n rule: utoa.induct)
    case (1 n)
    show ?case
    proof (cases "n < 10")
      case True
      then have "ord (digit_char n) \<noteq> 48" using 1(2) by (simp add: ord_digit_char)
      then show ?thesis using True by (subst utoa.simps) auto
    next
      case False
      then show ?thesis using 1(1) by (subst utoa.simps) simp
    qed
  qed
  moreover have "take_digits (utoa n) = utoa n"
    using utoa_digits [of n] by (simp add: take_digits_def list_all_iff)
  moreover have "is_digit (hd (utoa n))" using utoa_digits [of n] by (cases "utoa n") auto
  ultimately show ?thesis by (cases "utoa n") (auto simp: scan_int_def)
qed

lemma utoa_head_digit: "is_digit (hd (utoa n))"
  using utoa_digits [of n] by (cases "utoa n") auto

lemma utoa_not_sign: "hd (utoa n) \<noteq> CHR ''-''" "hd (utoa n) \<noteq> CHR ''+''"
  using utoa_head_digit [of n] by (auto simp: is_digit_def)

lemma number_ok_itoa: "number_ok (itoa n)"
proof -
  have "scan_number (utoa k) = Some (utoa k)" for k
    using utoa_scan_int [of k] utoa_not_sign [of k]
    by (cases "utoa k") (auto simp: scan_number_def scan_frac_def scan_exp_def)
  moreover have "scan_number (CHR ''-'' # utoa k) = Some (CHR ''-'' # utoa k)" for k
    using utoa_scan_int [of k] by (auto simp: scan_number_def scan_frac_def scan_exp_def)
  ultimately show ?thesis by (simp add: number_ok_def itoa_def)
qed

lemma html_escape_itoa [simp]: "html_escape (itoa n) = itoa n"
proof (rule html_escape_plain)
  have "set (utoa k) \<inter> html_special = {}" for k
    using utoa_digits [of k] by (auto simp: list_all_iff html_special_def is_digit_def)
  then show "set (itoa n) \<inter> html_special = {}" by (auto simp: itoa_def html_special_def)
qed

lemma signed_val_utoa: "signed_val (utoa n) = int n"
  using utoa_not_sign [of n] digits_val_utoa [of n] by (cases "utoa n") (auto simp: signed_val_def)

lemma signed_val_itoa: "signed_val (itoa n) = n"
proof (cases "n < 0")
  case True
  then show ?thesis by (simp add: itoa_def signed_val_def)
qed (simp add: itoa_def signed_val_utoa)

lemma parse_int64_itoa: "- (2 ^ 63) \<le> n \<Longrightarrow> n < 2 ^ 63 \<Longrightarrow> parse_int64 (itoa n) = Some n"
proof -
  assume n: "- (2 ^ 63) \<le> n" "n < 2 ^ 63"
  have "\<not> has_prefix (utoa k) ''-'' \<and> \<not> has_prefix (utoa k) ''+''" for k
    using utoa_not_sign [of k] by (cases "utoa k") auto
  then show ?thesis
    using n utoa_digits signed_val_itoa [of n] by (auto simp: parse_int64_def itoa_def Let_def split: if_splits)
qed

lemma spells_int: "spells (itoa n) (JNum (itoa n))"
  using spells_encode [of "JNum (itoa n)"] by (simp add: number_ok_itoa)

lemma spells_bool: "spells (if b then ''true'' else ''false'') (JBool b)"
  using spells_encode [of "JBool b"] by simp

text \<open>An array of strings.\<close>

lemma parse_elems_strings:
  assumes "ks \<noteq> []" and "list_all2 spells_key ts ks" and "2 * length ks \<le> n"
  shows "parse_elems n d acc (join '','' ts @ CHR '']'' # r) = Some (JArr (acc @ map JStr ks), r)"
  using assms
proof (induction ks arbitrary: ts n acc)
  case (Cons k ks)
  obtain t ts' where ts: "ts = t # ts'" and t: "spells_key t k" and rest: "list_all2 spells_key ts' ks"
    using Cons.prems(2) by (auto simp: list_all2_Cons2)
  obtain j where n: "n = Suc j" and j: "1 \<le> j" "2 * length ks \<le> j" using Cons.prems(3) by (cases n) auto
  have val: "parse_value j d (t @ q) = Some (JStr k, q)" if "ends_value q" for q
    using spells_string [OF t] j(1) that by (simp add: spells_def)
  show ?case
  proof (cases ks)
    case Nil
    then show ?thesis using rest val by (simp add: ts n)
  next
    case (Cons k' ks')
    then obtain t' ts'' where ts': "ts' = t' # ts''" using rest by (auto simp: list_all2_Cons2)
    have "parse_elems j d (acc @ [JStr k]) (join '','' ts' @ CHR '']'' # r) = Some (JArr ((acc @ [JStr k]) @ map JStr ks), r)"
      using Cons rest j(2) by (intro Cons.IH) simp_all
    then show ?thesis using val by (simp add: ts ts' n)
  qed
qed simp

definition array_text :: "string list \<Rightarrow> string" where
  "array_text ts = CHR ''['' # join '','' ts @ '']''"

lemma spells_strings:
  assumes "list_all2 spells_key ts ks" shows "spells (array_text ts) (strings_json ks)"
proof -
  have "parse_value n d (array_text ts @ r) = Some (strings_json ks, r)"
    if n: "fuel (strings_json ks) \<le> n" and d: "depth (strings_json ks) \<le> d" for n d r
  proof -
    have f: "fuel (strings_json ks) = Suc (2 * length ks)"
      by (simp add: strings_json_def comp_def sum_list_triv)
    obtain j where j: "n = Suc j" "2 * length ks \<le> j" using n f by (cases n) auto
    obtain e where e: "d = Suc e" using d by (cases d) (auto simp: strings_json_def)
    show ?thesis
    proof (cases "ks = []")
      case True
      then show ?thesis using assms by (simp add: j e array_text_def strings_json_def)
    next
      case False
      then obtain t ts' k ks' where ts: "ts = t # ts'" "spells_key t k"
        using assms by (auto simp: list_all2_Cons2 neq_Nil_conv)
      then obtain u where "join '','' ts = CHR 0x22 # u" by (cases ts') (auto simp: spells_key_def)
      then show ?thesis
        using parse_elems_strings [OF False assms j(2), of e "[]" r]
        by (simp add: j(1) e array_text_def strings_json_def)
    qed
  qed
  then show ?thesis by (simp add: spells_def)
qed

lemma marshal_strings: "marshal_json (strings_json ss) = array_text (map (\<lambda>s. html_escape (encode_json_string s)) ss)"
  by (simp add: marshal_json_def strings_json_def array_text_def html_escape_append html_escape_Cons html_special_def
      html_escape_join comp_def)

section \<open>Struct writers\<close>

text \<open>
  The two ways the servers encode a struct, with and without HTML escaping. What a reader needs of either is that
  a string is spelled and that the members are written one by one.
\<close>

definition written :: "(json \<Rightarrow> string) \<Rightarrow> string \<times> json \<Rightarrow> string \<times> json \<Rightarrow> bool" where
  "written wr m m' \<longleftrightarrow> fst m' = to_valid (fst m) \<and> spells (wr (snd m)) (snd m')
     \<and> depth (snd m') \<le> max_nesting - 1 \<and> fuel (snd m') \<le> 2 * length (wr (snd m))"

locale struct_writer =
  fixes wk :: "string \<Rightarrow> string" and wr :: "json \<Rightarrow> string"
  assumes key: "spells_key (wk s) (to_valid s)"
    and str: "wr (JStr s) = wk s"
    and number: "wr (int_json n) = itoa n"
    and truth: "wr (JBool b) = (if b then ''true'' else ''false'')"
    and strings: "wr (strings_json ss) = array_text (map wk ss)"
    and obj: "wr (JObj ms) = object_text (map (\<lambda>(k, v). (wk k, wr v)) ms)"
begin

lemma key_length: "1 \<le> length (wk s)"
proof -
  obtain u where "wk s = CHR 0x22 # u" using key [of s] by (auto simp: spells_key_def)
  then show ?thesis by simp
qed

lemma strings_length: "length ss \<le> length (join '','' (map wk ss))"
proof (induction ss rule: induct_list012)
  case (3 x y zs)
  then show ?case using key_length [of x] by simp
qed (use key_length in simp_all)

lemma written_leaf:
  "written wr (k, JStr s) (to_valid k, JStr (to_valid s))" "written wr (k, int_json n) (to_valid k, int_json n)"
  "written wr (k, JBool b) (to_valid k, JBool b)"
  "written wr (k, strings_json ss) (to_valid k, strings_json (map to_valid ss))"
proof -
  have "depth (strings_json (map to_valid ss)) \<le> 1"
  proof -
    have z: "insert 0 (set (map depth (map JStr (map to_valid ss)))) = {0}" by auto
    show ?thesis unfolding strings_json_def depth.simps z by simp
  qed
  moreover have "fuel (strings_json (map to_valid ss)) = Suc (2 * length ss)"
    by (simp add: strings_json_def comp_def sum_list_triv)
  moreover have "spells (array_text (map wk ss)) (strings_json (map to_valid ss))"
    by (rule spells_strings) (simp add: list_all2_conv_all_nth key)
  ultimately show "written wr (k, strings_json ss) (to_valid k, strings_json (map to_valid ss))"
    using strings_length [of ss] by (simp add: written_def max_nesting_def strings array_text_def)
  show "written wr (k, JStr s) (to_valid k, JStr (to_valid s))"
    using key_length [of s] spells_string [OF key] by (simp add: written_def str)
  have "1 \<le> length (itoa n)" by (simp add: itoa_def Suc_le_eq)
  then show "written wr (k, int_json n) (to_valid k, int_json n)"
    using spells_int [of n] number [of n] by (simp add: written_def int_json_def)
  show "written wr (k, JBool b) (to_valid k, JBool b)"
    using spells_bool [of b] by (simp add: written_def truth)
qed

lemma writes_members: "list_all2 (written wr) ms ms' \<Longrightarrow> writes (map (\<lambda>(k, v). (wk k, wr v)) ms) ms'"
  by (induction rule: list_all2_induct) (auto simp: written_def key)

lemma read_back: "list_all2 (written wr) ms ms' \<Longrightarrow> unmarshal_struct (wr (JObj ms)) = Some ms'"
  using unmarshal_struct_object [OF writes_members] by (simp add: obj)

lemma read_back_first: "list_all2 (written wr) ms ms' \<Longrightarrow> decode_struct (wr (JObj ms) @ r) = Some ms'"
  using decode_struct_object [OF writes_members] by (simp add: obj)

end

interpretation plain: struct_writer encode_json_string encode_json
  by unfold_locales (simp_all add: spells_key_encode int_json_def strings_json_def array_text_def encode_json_object comp_def
      del: encode_json.simps(6))

interpretation escaped: struct_writer "\<lambda>s. html_escape (encode_json_string s)" marshal_json
proof unfold_locales
  show "marshal_json (JBool b) = (if b then ''true'' else ''false'')" for b
    by (simp add: marshal_json_def html_escape_Cons html_special_def)
  show "marshal_json (JObj ms) = object_text (map (\<lambda>(k, v). (html_escape (encode_json_string k), marshal_json v)) ms)" for ms
    by (rule marshal_json_object)
qed (simp_all add: spells_key_html marshal_strings, simp_all add: marshal_json_def int_json_def)

section \<open>Decoding fields\<close>

definition in_int64 :: "int \<Rightarrow> bool" where "in_int64 n \<longleftrightarrow> - (2 ^ 63) \<le> n \<and> n < 2 ^ 63"

lemma ascii_valid: "list_all (\<lambda>c. ord c < 128) s \<Longrightarrow> to_valid s = s"
proof -
  have "list_all (\<lambda>c. ord c < 128) s \<Longrightarrow> valid_utf8 s"
    by (induction s) (simp, subst valid_ascii, simp_all)
  then show "list_all (\<lambda>c. ord c < 128) s \<Longrightarrow> to_valid s = s" using to_valid_id by blast
qed

lemma fold_name_plain: "list_all (\<lambda>c. ord c < 128 \<and> lower_byte c = c) s \<Longrightarrow> fold_name s = s"
  by (induction s rule: fold_name.induct) auto

declare fold_name.simps [simp del]

lemma to_valid_Nil_iff: "to_valid s = [] \<longleftrightarrow> s = []"
proof (cases s)
  case (Cons c t)
  then show ?thesis by (simp add: to_valid_Cons)
qed (simp add: to_valid_def)

lemma decode_fields_append:
  "decode_fields f (xs @ ys) r = (case decode_fields f xs r of None \<Rightarrow> None | Some r' \<Rightarrow> decode_fields f ys r')"
proof -
  have "fold (\<lambda>(key, v) acc. case acc of None \<Rightarrow> None | Some r \<Rightarrow> f (fold_name key) v r) ms None = None" for ms
    by (induction ms) auto
  then show ?thesis by (simp add: decode_fields_def split: option.splits)
qed

lemma decode_fields_Nil [simp]: "decode_fields f [] r = Some r"
  by (simp add: decode_fields_def)

lemma decode_fields_Cons [simp]:
  "decode_fields f ((k, v) # ms) r = (case f (fold_name k) v r of None \<Rightarrow> None | Some r' \<Rightarrow> decode_fields f ms r')"
  using decode_fields_append [of f "[(k, v)]" ms r] by (simp add: decode_fields_def)

lemma string_field_json [simp]: "string_field (JStr s) put r = Some (put s)"
  by (simp add: string_field_def)

lemma strings_field_json [simp]: "strings_field (strings_json ss) put r = Some (put ss)"
proof -
  have "string_elems (map JStr ss) = Some ss" by (induction ss) auto
  then show ?thesis by (simp add: strings_field_def strings_json_def)
qed

lemma int_field_json [simp]: "in_int64 n \<Longrightarrow> int_field (int_json n) put r = Some (put n)"
  by (simp add: int_field_def int_json_def in_int64_def parse_int64_itoa)

end
