(* ===== verification/SemOptions.thy ===== *)
theory SemOptions
  imports SemCache Wire
begin

text \<open>
  \<open>internal/embed/embed.go\<close> and \<open>internal/semcache/wire.go\<close>: the embedding client of the semantic cache and the cache a
  configuration builds. The HTTP exchange is an argument. Vectors are \<open>float32\<close> values in the range of \<open>GoFloat\<close>.
\<close>

definition default_endpoint :: string where "default_endpoint = ''http://localhost:11434''"
definition default_embed_model :: string where "default_embed_model = ''nomic-embed-text''"
definition default_embed_timeout :: int where "default_embed_timeout = 2 * 1000000000"

record embed_client =
  ec_endpoint :: string
  ec_model :: string
  ec_timeout :: int

definition new_embed_client :: "string \<Rightarrow> string \<Rightarrow> int \<Rightarrow> embed_client" where
  "new_embed_client endpoint model timeout =
     \<lparr>ec_endpoint = (if endpoint = [] then default_endpoint else endpoint),
      ec_model = (if model = [] then default_embed_model else model),
      ec_timeout = (if timeout \<le> 0 then default_embed_timeout else timeout)\<rparr>"

text \<open>An element of the reply; \<open>null\<close> leaves the zero of a new slice.\<close>

definition vector_elem :: "json \<Rightarrow> rat option" where
  "vector_elem v =
     (case v of
        JNum m \<Rightarrow> (let r = f32 (literal_value m) in if \<bar>r\<bar> < 2 ^ 128 then Some r else None)
      | JNull \<Rightarrow> Some 0
      | _ \<Rightarrow> None)"

fun vector_elems :: "json list \<Rightarrow> rat list option" where
  "vector_elems [] = Some []"
| "vector_elems (v # vs) =
     (case vector_elem v of None \<Rightarrow> None | Some x \<Rightarrow> map_option (\<lambda>xs. x # xs) (vector_elems vs))"

definition decode_embedding :: "string \<Rightarrow> rat list option" where
  "decode_embedding body =
     (case decode_struct body of
        None \<Rightarrow> None
      | Some ms \<Rightarrow>
          decode_fields (\<lambda>key v r.
            if key = ''embedding'' then (case v of JArr vs \<Rightarrow> vector_elems vs | JNull \<Rightarrow> Some [] | _ \<Rightarrow> None) else Some r) ms [])"

text \<open>\<open>Embed\<close>: every failure is an error; the cache treats it as a miss.\<close>

definition embed_text :: "(string \<Rightarrow> string \<Rightarrow> (int \<times> string) option) \<Rightarrow> embed_client \<Rightarrow> string \<Rightarrow> rat list option" where
  "embed_text http c prompt =
     (case http (ec_endpoint c @ ''/api/embeddings'') (marshal_json (JObj [(''model'', JStr (ec_model c)), (''prompt'', JStr prompt)])) of
        None \<Rightarrow> None
      | Some (status, body) \<Rightarrow>
          if status \<noteq> 200 then None
          else (case decode_embedding body of None \<Rightarrow> None | Some v \<Rightarrow> if v = [] then None else Some v))"

record sem_options =
  so_enabled :: bool
  so_endpoint :: string
  so_model :: string
  so_threshold :: rat
  so_max_entries :: int
  so_timeout :: int

definition from_options :: "sem_options \<Rightarrow> embed_client \<times> sem_cache" where
  "from_options opts =
     (let model = (if so_model opts = [] then default_embed_model else so_model opts)
      in (new_embed_client (so_endpoint opts) model (so_timeout opts),
          new_sem_cache \<lparr>sm_enabled = so_enabled opts, sm_threshold = so_threshold opts, sm_max_entries = so_max_entries opts,
            sm_model = model\<rparr>))"

text \<open>The client asks for the model that the cache keys its entries by, and the zero options give a disabled cache.\<close>

lemma from_options_model: "from_options opts = (c, cache) \<Longrightarrow> ec_model c = sm_model (sm_cfg cache)"
  by (auto simp: from_options_def new_embed_client_def new_sem_cache_def default_embed_model_def Let_def)

lemma zero_options_disabled:
  "so_enabled opts = False \<Longrightarrow> sm_enabled (sm_cfg (snd (from_options opts))) = False"
  by (simp add: from_options_def new_sem_cache_def Let_def)

text \<open>A failed or empty embedding is a miss: the lookup leaves the store alone.\<close>

lemma embed_failure_misses:
  "sd_embed D = embed_text (\<lambda>_ _. None) c \<Longrightarrow> sem_lookup D ops cache req st = (None, st)"
  by (simp add: sem_lookup_def vector_for_def embed_text_def Let_def)

end
