(* ===== verification/Ledger.thy ===== *)
theory Ledger
  imports Wire
begin

text \<open>
  \<open>internal/ledger/ledger.go\<close>: one JSON line per request. The file is its bytes, \<open>None\<close> when it does not
  exist; the clock and whether the file can be written are inputs.
\<close>

section \<open>Entries\<close>

record ledger_entry =
  le_ts :: string
  le_session :: string
  le_model :: string
  le_messages :: int
  le_bytes_in :: int
  le_bytes_out :: int
  le_tokens_before :: int
  le_tokens_after :: int
  le_reason :: string
  le_mode :: string
  le_strategies :: "string list"
  le_replayed :: int
  le_drift :: "string list"

definition zero_entry :: ledger_entry where
  "zero_entry = \<lparr>le_ts = [], le_session = [], le_model = [], le_messages = 0, le_bytes_in = 0, le_bytes_out = 0,
     le_tokens_before = 0, le_tokens_after = 0, le_reason = [], le_mode = [], le_strategies = [], le_replayed = 0, le_drift = []\<rparr>"

text \<open>The struct as \<open>json.Marshal\<close> writes it; the last four fields are \<open>omitempty\<close>.\<close>

definition entry_members :: "ledger_entry \<Rightarrow> (string \<times> json) list" where
  "entry_members e =
     [(''ts'', JStr (le_ts e)), (''session'', JStr (le_session e)), (''model'', JStr (le_model e)),
      (''messages'', int_json (le_messages e)), (''bytes_in'', int_json (le_bytes_in e)), (''bytes_out'', int_json (le_bytes_out e)),
      (''tokens_before'', int_json (le_tokens_before e)), (''tokens_after'', int_json (le_tokens_after e)),
      (''reason'', JStr (le_reason e))]
     @ (if le_mode e = [] then [] else [(''mode'', JStr (le_mode e))])
     @ (if le_strategies e = [] then [] else [(''strategies'', strings_json (le_strategies e))])
     @ (if le_replayed e = 0 then [] else [(''replayed'', int_json (le_replayed e))])
     @ (if le_drift e = [] then [] else [(''drift'', strings_json (le_drift e))])"

definition entry_line :: "ledger_entry \<Rightarrow> string" where
  "entry_line e = marshal_json (JObj (entry_members e))"

text \<open>What the struct decoder does with one member; a name of no field is skipped.\<close>

definition set_entry_field :: "string \<Rightarrow> json \<Rightarrow> ledger_entry \<Rightarrow> ledger_entry option" where
  "set_entry_field key v e =
     (if key = ''ts'' then string_field v (\<lambda>s. e\<lparr>le_ts := s\<rparr>) e
      else if key = ''session'' then string_field v (\<lambda>s. e\<lparr>le_session := s\<rparr>) e
      else if key = ''model'' then string_field v (\<lambda>s. e\<lparr>le_model := s\<rparr>) e
      else if key = ''messages'' then int_field v (\<lambda>n. e\<lparr>le_messages := n\<rparr>) e
      else if key = ''bytes_in'' then int_field v (\<lambda>n. e\<lparr>le_bytes_in := n\<rparr>) e
      else if key = ''bytes_out'' then int_field v (\<lambda>n. e\<lparr>le_bytes_out := n\<rparr>) e
      else if key = ''tokens_before'' then int_field v (\<lambda>n. e\<lparr>le_tokens_before := n\<rparr>) e
      else if key = ''tokens_after'' then int_field v (\<lambda>n. e\<lparr>le_tokens_after := n\<rparr>) e
      else if key = ''reason'' then string_field v (\<lambda>s. e\<lparr>le_reason := s\<rparr>) e
      else if key = ''mode'' then string_field v (\<lambda>s. e\<lparr>le_mode := s\<rparr>) e
      else if key = ''strategies'' then strings_field v (\<lambda>ss. e\<lparr>le_strategies := ss\<rparr>) e
      else if key = ''replayed'' then int_field v (\<lambda>n. e\<lparr>le_replayed := n\<rparr>) e
      else if key = ''drift'' then strings_field v (\<lambda>ss. e\<lparr>le_drift := ss\<rparr>) e
      else Some e)"

definition parse_entry :: "string \<Rightarrow> ledger_entry option" where
  "parse_entry line =
     (case unmarshal_struct line of None \<Rightarrow> None | Some ms \<Rightarrow> decode_fields set_entry_field ms zero_entry)"

section \<open>The file\<close>

text \<open>\<open>Append\<close>: \<open>now\<close> is the formatted time, and a file that cannot be opened or written is left alone.\<close>

definition ledger_append :: "bool \<Rightarrow> string \<Rightarrow> ledger_entry \<Rightarrow> string option \<Rightarrow> string option" where
  "ledger_append writable now e file =
     (if writable then Some ((case file of None \<Rightarrow> [] | Some b \<Rightarrow> b) @ entry_line (e\<lparr>le_ts := now\<rparr>) @ [NL]) else file)"

text \<open>The loop of \<open>splitLines\<close>; \<open>line\<close> is \<open>b[start:i]\<close>.\<close>

fun split_lines_from :: "string \<Rightarrow> string \<Rightarrow> string list" where
  "split_lines_from line [] = (if line = [] then [] else [line])"
| "split_lines_from line (c # b) =
     (if c = NL then (if line = [] then split_lines_from [] b else line # split_lines_from [] b)
      else split_lines_from (line @ [c]) b)"

definition split_lines :: "string \<Rightarrow> string list" where "split_lines b = split_lines_from [] b"

definition read_ledger :: "string option \<Rightarrow> ledger_entry list" where
  "read_ledger file =
     (case file of
        None \<Rightarrow> []
      | Some b \<Rightarrow> filter (\<lambda>e. le_session e \<noteq> []) (List.map_filter parse_entry (split_lines b)))"

section \<open>Lemmas\<close>

lemma split_lines_from_plain: "NL \<notin> set l \<Longrightarrow> split_lines_from a (l @ b) = split_lines_from (a @ l) b"
  by (induction l arbitrary: a) auto

lemma split_lines_line: "NL \<notin> set l \<Longrightarrow> l \<noteq> [] \<Longrightarrow> split_lines (l @ NL # b) = l # split_lines b"
  by (simp add: split_lines_def split_lines_from_plain)

text \<open>A written line holds no line feed.\<close>

lemma not_hex_NL: "\<not> is_lower_hex NL"
  by (simp add: is_lower_hex_def is_digit_def)

lemma html_escape_no_NL: "NL \<notin> set s \<Longrightarrow> NL \<notin> set (html_escape s)"
proof (induction s)
  case (Cons c s)
  have "ord c div 16 < 16" using ord_less_256 [of c] by linarith
  then have "is_lower_hex (hex_digit (ord c div 16))" "is_lower_hex (hex_digit (ord c mod 16))"
    by (simp_all add: is_lower_hex_digit)
  then have "hex_digit (ord c div 16) \<noteq> NL" "hex_digit (ord c mod 16) \<noteq> NL"
    using not_hex_NL by metis+
  then show ?case using Cons by (simp add: html_escape_Cons)
qed simp

lemma append_string_no_NL: "NL \<notin> set (append_string s)"
proof (induction s rule: append_string.induct)
  case (2 c s)
  have hx: "NL \<noteq> hex_digit d" if "d < 16" for d
    using is_lower_hex_digit [OF that] not_hex_NL by metis
  have esc: "NL \<notin> set (esc_ascii c)" if "ord c < 128"
    using that hx [of "ord c div 16"] hx [of "ord c mod 16"] by (simp add: esc_ascii_def) auto
  have raw: "NL \<notin> set (take (rune_width (c # s)) (c # s))" if "\<not> ord c < 128"
    using multibyte_high [of "c # s" NL] that by auto
  show ?case using 2 esc raw hx by (auto simp del: append_string.simps simp: append_string.simps(2))
qed simp

lemma itoa_no_NL: "NL \<notin> set (itoa n)"
proof -
  have "NL \<notin> set (utoa k)" for k using utoa_digits [of k] by (auto simp: list_all_iff is_digit_def)
  then show ?thesis by (simp add: itoa_def)
qed

lemma join_no_NL: "\<forall>t\<in>set ts. NL \<notin> set t \<Longrightarrow> NL \<notin> set (join '','' ts)"
  by (induction ts rule: induct_list012) auto

lemma string_no_NL: "NL \<notin> set (html_escape (encode_json_string s))"
  by (rule html_escape_no_NL) (simp add: encode_json_string_def append_string_no_NL)

lemma leaf_no_NL [simp]:
  "NL \<notin> set (marshal_json (JStr s))" "NL \<notin> set (marshal_json (int_json n))" "NL \<notin> set (marshal_json (strings_json ss))"
  using join_no_NL [of "map (\<lambda>s. html_escape (encode_json_string s)) ss"] string_no_NL itoa_no_NL
  by (simp_all add: marshal_strings array_text_def) (simp_all add: marshal_json_def int_json_def)

lemma entry_line_no_NL: "NL \<notin> set (entry_line e)"
proof -
  have "\<forall>m\<in>set (entry_members e). NL \<notin> set (marshal_json (snd m))"
    by (simp add: entry_members_def)
  then have "NL \<notin> set (join '','' (map member_text (map (\<lambda>(k, v). (html_escape (encode_json_string k), marshal_json v)) (entry_members e))))"
    using string_no_NL by (intro join_no_NL) (auto simp: member_text_def)
  then show ?thesis by (simp add: entry_line_def marshal_json_object object_text_def)
qed

lemma entry_line_not_Nil: "entry_line e \<noteq> []"
  by (simp add: entry_line_def marshal_json_object object_text_def)

text \<open>Reading a line back.\<close>

text \<open>The strings of an entry as they come back: invalid UTF-8 is replaced.\<close>

definition clean_entry :: "ledger_entry \<Rightarrow> ledger_entry" where
  "clean_entry e = e\<lparr>le_ts := to_valid (le_ts e), le_session := to_valid (le_session e), le_model := to_valid (le_model e),
     le_reason := to_valid (le_reason e), le_mode := to_valid (le_mode e),
     le_strategies := map to_valid (le_strategies e), le_drift := map to_valid (le_drift e)\<rparr>"

definition entry_ok :: "ledger_entry \<Rightarrow> bool" where
  "entry_ok e \<longleftrightarrow> in_int64 (le_messages e) \<and> in_int64 (le_bytes_in e) \<and> in_int64 (le_bytes_out e)
     \<and> in_int64 (le_tokens_before e) \<and> in_int64 (le_tokens_after e) \<and> in_int64 (le_replayed e)"

definition entry_keys :: "string list" where
  "entry_keys = [''ts'', ''session'', ''model'', ''messages'', ''bytes_in'', ''bytes_out'', ''tokens_before'', ''tokens_after'',
     ''reason'', ''mode'', ''strategies'', ''replayed'', ''drift'']"

lemma entry_keys_plain: "k \<in> set entry_keys \<Longrightarrow> fold_name k = k \<and> to_valid k = k"
proof -
  have "list_all (list_all (\<lambda>c. ord c < 128 \<and> lower_byte c = c)) entry_keys"
    by (simp add: entry_keys_def lower_byte_def is_upper_def)
  then show "k \<in> set entry_keys \<Longrightarrow> fold_name k = k \<and> to_valid k = k"
    using fold_name_plain ascii_valid by (fastforce simp: list_all_iff)
qed

lemma set_entry_simps [simp]:
  "set_entry_field ''ts'' v e = string_field v (\<lambda>x. e\<lparr>le_ts := x\<rparr>) e"
  "set_entry_field ''session'' v e = string_field v (\<lambda>x. e\<lparr>le_session := x\<rparr>) e"
  "set_entry_field ''model'' v e = string_field v (\<lambda>x. e\<lparr>le_model := x\<rparr>) e"
  "set_entry_field ''messages'' v e = int_field v (\<lambda>x. e\<lparr>le_messages := x\<rparr>) e"
  "set_entry_field ''bytes_in'' v e = int_field v (\<lambda>x. e\<lparr>le_bytes_in := x\<rparr>) e"
  "set_entry_field ''bytes_out'' v e = int_field v (\<lambda>x. e\<lparr>le_bytes_out := x\<rparr>) e"
  "set_entry_field ''tokens_before'' v e = int_field v (\<lambda>x. e\<lparr>le_tokens_before := x\<rparr>) e"
  "set_entry_field ''tokens_after'' v e = int_field v (\<lambda>x. e\<lparr>le_tokens_after := x\<rparr>) e"
  "set_entry_field ''reason'' v e = string_field v (\<lambda>x. e\<lparr>le_reason := x\<rparr>) e"
  "set_entry_field ''mode'' v e = string_field v (\<lambda>x. e\<lparr>le_mode := x\<rparr>) e"
  "set_entry_field ''strategies'' v e = strings_field v (\<lambda>x. e\<lparr>le_strategies := x\<rparr>) e"
  "set_entry_field ''replayed'' v e = int_field v (\<lambda>x. e\<lparr>le_replayed := x\<rparr>) e"
  "set_entry_field ''drift'' v e = strings_field v (\<lambda>x. e\<lparr>le_drift := x\<rparr>) e"
  by (simp_all add: set_entry_field_def)

lemma entry_names [simp]:
  "fold_name ''ts'' = ''ts''"
  "fold_name ''session'' = ''session''"
  "fold_name ''model'' = ''model''"
  "fold_name ''messages'' = ''messages''"
  "fold_name ''bytes_in'' = ''bytes_in''"
  "fold_name ''bytes_out'' = ''bytes_out''"
  "fold_name ''tokens_before'' = ''tokens_before''"
  "fold_name ''tokens_after'' = ''tokens_after''"
  "fold_name ''reason'' = ''reason''"
  "fold_name ''mode'' = ''mode''"
  "fold_name ''strategies'' = ''strategies''"
  "fold_name ''replayed'' = ''replayed''"
  "fold_name ''drift'' = ''drift''"
  by (rule entry_keys_plain [THEN conjunct1], simp add: entry_keys_def)+

text \<open>The mandatory members set the first nine fields; an absent member leaves the zero value.\<close>

lemma decode_base:
  assumes "entry_ok e"
  shows "decode_fields set_entry_field (entry_members (e\<lparr>le_mode := [], le_strategies := [], le_replayed := 0, le_drift := []\<rparr>)) zero_entry
    = Some (e\<lparr>le_mode := [], le_strategies := [], le_replayed := 0, le_drift := []\<rparr>)"
  using assms by (cases e) (simp add: entry_ok_def entry_members_def zero_entry_def)

lemma decode_optional:
  "decode_fields f (if b then [] else [(k, v)]) r = (if b then Some r else f (fold_name k) v r)"
  by (simp split: option.splits)

lemma entry_members_split:
  "entry_members e = entry_members (e\<lparr>le_mode := [], le_strategies := [], le_replayed := 0, le_drift := []\<rparr>)
     @ (if le_mode e = [] then [] else [(''mode'', JStr (le_mode e))])
     @ (if le_strategies e = [] then [] else [(''strategies'', strings_json (le_strategies e))])
     @ (if le_replayed e = 0 then [] else [(''replayed'', int_json (le_replayed e))])
     @ (if le_drift e = [] then [] else [(''drift'', strings_json (le_drift e))])"
  by (simp add: entry_members_def)

lemma decode_entry_members:
  assumes "entry_ok e" shows "decode_fields set_entry_field (entry_members e) zero_entry = Some e"
proof -
  have "in_int64 (le_replayed e)" using assms by (simp add: entry_ok_def)
  then show ?thesis
    unfolding entry_members_split [of e] decode_fields_append decode_base [OF assms] option.case decode_optional
    by (cases e) simp
qed

lemma entry_members_written: "list_all2 (written marshal_json) (entry_members e) (entry_members (clean_entry e))"
proof -
  have keys: "to_valid k = k" if "k \<in> set entry_keys" for k using entry_keys_plain that by blast
  have w: "written marshal_json (k, JStr s) (k, JStr (to_valid s))" "written marshal_json (k, int_json n) (k, int_json n)"
    "written marshal_json (k, strings_json ss) (k, strings_json (map to_valid ss))" if "k \<in> set entry_keys" for k s n ss
    using escaped.written_leaf [of k] keys [OF that] by metis+
  show ?thesis
    unfolding entry_members_def clean_entry_def
    by (intro list_all2_appendI) (auto simp: to_valid_Nil_iff entry_keys_def intro!: w)
qed

lemma parse_entry_line: "entry_ok e \<Longrightarrow> parse_entry (entry_line e) = Some (clean_entry e)"
proof -
  assume "entry_ok e"
  then have "entry_ok (clean_entry e)" by (simp add: entry_ok_def clean_entry_def)
  then show ?thesis
    using escaped.read_back [OF entry_members_written [of e]] decode_entry_members
    by (simp add: parse_entry_def entry_line_def)
qed

text \<open>The appends of a process, in order: the time of each and its entry.\<close>

definition append_all :: "(string \<times> ledger_entry) list \<Rightarrow> string option \<Rightarrow> string option" where
  "append_all es file = fold (\<lambda>(now, e). ledger_append True now e) es file"

definition stamped :: "string \<times> ledger_entry \<Rightarrow> ledger_entry" where
  "stamped te = (snd te)\<lparr>le_ts := fst te\<rparr>"

lemma append_all_bytes:
  "append_all es (Some b) = Some (b @ concat (map (\<lambda>te. entry_line (stamped te) @ [NL]) es))"
  by (induction es arbitrary: b) (auto simp: append_all_def ledger_append_def stamped_def)

lemma append_all_None: "append_all es None = (if es = [] then None else append_all es (Some []))"
  by (cases es) (auto simp: append_all_def ledger_append_def)

lemma read_lines:
  "split_lines (concat (map (\<lambda>te. entry_line (stamped te) @ [NL]) es)) = map (\<lambda>te. entry_line (stamped te)) es"
  by (induction es) (simp_all add: split_lines_line entry_line_no_NL entry_line_not_Nil, simp add: split_lines_def)

section \<open>Properties\<close>

text \<open>C35. What the proxy appends is what the report reads: the entries come back in order with the time each
  was stamped, one per append, and a string comes back with its invalid UTF-8 replaced. The entries name a
  session and their counts fit an \<open>int64\<close>.\<close>

theorem ledger_roundtrip:
  assumes "\<forall>te\<in>set es. entry_ok (snd te) \<and> le_session (snd te) \<noteq> []"
  shows "read_ledger (append_all es None) = map (\<lambda>te. clean_entry (stamped te)) es"
proof -
  have parsed: "List.map_filter parse_entry (map (\<lambda>te. entry_line (stamped te)) es) = map (\<lambda>te. clean_entry (stamped te)) es"
    using assms
  proof (induction es)
    case (Cons te es)
    then have "entry_ok (stamped te)" by (simp add: stamped_def entry_ok_def)
    then show ?case using Cons by (simp add: parse_entry_line)
  qed simp
  have "filter (\<lambda>e. le_session e \<noteq> []) (map (\<lambda>te. clean_entry (stamped te)) es) = map (\<lambda>te. clean_entry (stamped te)) es"
    using assms by (intro filter_True) (simp add: clean_entry_def stamped_def to_valid_Nil_iff)
  then show ?thesis
    by (simp add: append_all_None append_all_bytes read_ledger_def read_lines parsed)
qed

theorem ledger_roundtrip_witness:
  "map le_bytes_out (read_ledger (append_all [(''t1'', zero_entry\<lparr>le_session := ''s'', le_bytes_out := 7\<rparr>)] None)) = [7]"
  using ledger_roundtrip [of "[(''t1'', zero_entry\<lparr>le_session := ''s'', le_bytes_out := 7\<rparr>)]"]
  by (simp add: entry_ok_def in_int64_def zero_entry_def clean_entry_def stamped_def)

end
