(* ===== verification/Tokenizer.thy ===== *)
theory Tokenizer
  imports CompressBlock GoFloat64
begin

text \<open>
  \<open>internal/tokenizer\<close>: the rune estimator, and the registry that prefers tiktoken for the OpenAI families.
  Loading a tiktoken encoding and counting with it are third-party: a function from the name of an encoding
  to its counter, which is \<open>None\<close> when the vocabulary does not load.
\<close>

section \<open>Model\<close>

datatype token_backend = BackendTiktoken | BackendHuggingFace | BackendEstimation

record token_counter =
  tc_count_text :: tokenizer
  tc_backend :: token_backend

definition default_chars_per_token :: rat where "default_chars_per_token = 4"

text \<open>\<open>EstimatingCounter.CountText\<close>; the arithmetic is \<open>float64\<close>.\<close>

definition estimate_count :: "rat \<Rightarrow> tokenizer" where
  "estimate_count chars_per_token s =
     (let cpt = (if chars_per_token \<le> 0 then default_chars_per_token else chars_per_token);
          n = trunc (f64 (f64 (f64 (of_nat (rune_count s)) / cpt) + 1/2))
      in if n < 1 then 1 else n)"

definition estimating_counter :: "rat \<Rightarrow> token_counter" where
  "estimating_counter cpt = \<lparr>tc_count_text = estimate_count cpt, tc_backend = BackendEstimation\<rparr>"

definition open_ai_encoding :: "string \<Rightarrow> string" where
  "open_ai_encoding model =
     (if has_prefix model ''gpt-4o'' \<or> has_prefix model ''o1'' \<or> has_prefix model ''o3'' then ''o200k_base''
      else if has_prefix model ''gpt-4'' \<or> has_prefix model ''gpt-3.5'' then ''cl100k_base''
      else [])"

definition new_tiktoken :: "(string \<Rightarrow> (string \<Rightarrow> nat) option) \<Rightarrow> string \<Rightarrow> token_counter option" where
  "new_tiktoken get_encoding encoding =
     map_option (\<lambda>encode_len. \<lparr>tc_count_text = \<lambda>s. int (encode_len s), tc_backend = BackendTiktoken\<rparr>) (get_encoding encoding)"

definition get_tokenizer :: "(string \<Rightarrow> string) \<Rightarrow> (string \<Rightarrow> (string \<Rightarrow> nat) option) \<Rightarrow> string \<Rightarrow> token_counter" where
  "get_tokenizer lower get_encoding model =
     (let enc = open_ai_encoding (lower model)
      in if enc = [] then estimating_counter default_chars_per_token
         else (case new_tiktoken get_encoding enc of
                 Some t \<Rightarrow> t
               | None \<Rightarrow> estimating_counter default_chars_per_token))"

section \<open>Lemmas\<close>

lemma estimate_count_pos: "1 \<le> estimate_count cpt s"
  by (simp add: estimate_count_def Let_def)

lemma get_tokenizer_nonneg: "0 \<le> tc_count_text (get_tokenizer lower get_encoding model) s"
  using estimate_count_pos [of default_chars_per_token s]
  by (auto simp: get_tokenizer_def new_tiktoken_def estimating_counter_def Let_def split: option.splits)

end
