(* ===== verification/Settings.thy ===== *)
theory Settings
  imports CcrStore GoFloat64 GoUnicode
begin

text \<open>
  The resolved configuration: \<open>internal/config/config.go\<close> (store, model, proxy address),
  \<open>internal/proxy/config.go\<close> (the proxy) and \<open>internal/paths/paths.go\<close> (where the files live). The process
  environment, the home directory, the joining of paths and the parser of URLs are a record of what the host
  answers. Durations are nanoseconds in an \<open>int64\<close>.
\<close>

section \<open>The host\<close>

record host_env =
  he_getenv :: "string \<Rightarrow> string"
  he_user_home :: "string option"
  he_join :: "string \<Rightarrow> string \<Rightarrow> string"
  he_parse_url :: "string \<Rightarrow> (string \<times> string) option"

text \<open>\<open>paths.Home\<close> and \<open>CCRDBPath\<close>.\<close>

definition headroom_home :: "host_env \<Rightarrow> string option" where
  "headroom_home H =
     (if he_getenv H ''HEADROOM_HOME'' \<noteq> [] then Some (he_getenv H ''HEADROOM_HOME'')
      else map_option (\<lambda>home. he_join H home ''.headroom'') (he_user_home H))"

definition ccr_db_path :: "host_env \<Rightarrow> string option" where
  "ccr_db_path H = map_option (\<lambda>h. he_join H h ''ccr.db'') (headroom_home H)"

section \<open>Fields\<close>

datatype settings_error =
    BadBackend string
  | NoDefaultPath
  | NotInteger string string
  | NotPositive string int
  | NegativeValue string int
  | NotAURL string
  | NeedsScheme string
  | NoHost string
  | UpstreamRequired

text \<open>Flag, then environment, then default; an empty value counts as unset.\<close>

definition pick :: "host_env \<Rightarrow> string \<Rightarrow> string \<Rightarrow> string \<Rightarrow> string" where
  "pick H flag key def =
     (if flag \<noteq> [] then flag else if he_getenv H key \<noteq> [] then he_getenv H key else def)"

definition positive_int :: "host_env \<Rightarrow> string \<Rightarrow> int \<Rightarrow> settings_error + int" where
  "positive_int H key def =
     (let v = he_getenv H key
      in if v = [] then Inr def
         else (case parse_int64 v of
                 None \<Rightarrow> Inl (NotInteger key v)
               | Some n \<Rightarrow> if n \<le> 0 then Inl (NotPositive key n) else Inr n))"

definition non_negative_int64 :: "host_env \<Rightarrow> string \<Rightarrow> int \<Rightarrow> settings_error + int" where
  "non_negative_int64 H key def =
     (let v = he_getenv H key
      in if v = [] then Inr def
         else (case parse_int64 v of
                 None \<Rightarrow> Inl (NotInteger key v)
               | Some n \<Rightarrow> if n < 0 then Inl (NegativeValue key n) else Inr n))"

text \<open>The three checks on an address, \<open>None\<close> when it passes.\<close>

definition url_error :: "host_env \<Rightarrow> string \<Rightarrow> settings_error option" where
  "url_error H url =
     (case he_parse_url H url of
        None \<Rightarrow> Some (NotAURL url)
      | Some (scheme, host) \<Rightarrow>
          if scheme \<noteq> ''http'' \<and> scheme \<noteq> ''https'' then Some (NeedsScheme url)
          else if host = [] then Some (NoHost url) else None)"

definition nanos :: "int \<Rightarrow> int" where "nanos seconds = int64 (seconds * 1000000000)"

section \<open>The runtime configuration\<close>

record settings =
  se_ccr_backend :: string
  se_ccr_path :: string
  se_ccr_ttl :: int
  se_ccr_capacity :: int
  se_proxy_url :: string
  se_model :: string

record overrides =
  ov_ccr_backend :: string
  ov_ccr_path :: string
  ov_proxy_url :: string
  ov_model :: string

definition default_backend :: string where "default_backend = ''sqlite''"
definition default_ttl_seconds :: int where "default_ttl_seconds = 3600"
definition default_proxy_url :: string where "default_proxy_url = ''http://127.0.0.1:8787''"
definition default_model :: string where "default_model = ''claude''"

text \<open>The path of the store: empty for the memory back end.\<close>

definition resolve_path :: "host_env \<Rightarrow> overrides \<Rightarrow> string \<Rightarrow> settings_error + string" where
  "resolve_path H ov backend =
     (if backend = ''sqlite'' then
        (let p = pick H (ov_ccr_path ov) ''HEADROOM_CCR_PATH'' []
         in if p = [] then (case ccr_db_path H of None \<Rightarrow> Inl NoDefaultPath | Some d \<Rightarrow> Inr d) else Inr p)
      else Inr [])"

definition load_settings :: "host_env \<Rightarrow> overrides \<Rightarrow> settings_error + settings" where
  "load_settings H ov =
     (let backend = pick H (ov_ccr_backend ov) ''HEADROOM_CCR_BACKEND'' default_backend
      in if backend \<noteq> ''sqlite'' \<and> backend \<noteq> ''memory'' then Inl (BadBackend backend)
         else (case resolve_path H ov backend of Inl e \<Rightarrow> Inl e | Inr path \<Rightarrow>
           (case positive_int H ''HEADROOM_CCR_TTL_SECONDS'' default_ttl_seconds of Inl e \<Rightarrow> Inl e | Inr ttl \<Rightarrow>
             (case positive_int H ''HEADROOM_CCR_CAPACITY'' default_capacity of Inl e \<Rightarrow> Inl e | Inr capacity \<Rightarrow>
               (let url = pick H (ov_proxy_url ov) ''HEADROOM_PROXY_URL'' default_proxy_url
                in case url_error H url of
                     Some e \<Rightarrow> Inl e
                   | None \<Rightarrow> Inr \<lparr>se_ccr_backend = backend, se_ccr_path = path, se_ccr_ttl = nanos ttl,
                       se_ccr_capacity = capacity, se_proxy_url = url,
                       se_model = pick H (ov_model ov) ''HEADROOM_MODEL'' default_model\<rparr>)))))"

definition from_env :: "host_env \<Rightarrow> settings_error + settings" where
  "from_env H = load_settings H \<lparr>ov_ccr_backend = [], ov_ccr_path = [], ov_proxy_url = [], ov_model = []\<rparr>"

text \<open>\<open>BackendConfig\<close>: the lifetime in whole seconds, as a \<open>uint64\<close>. Go's division truncates.\<close>

definition backend_config_of :: "settings \<Rightarrow> backend_config" where
  "backend_config_of c =
     \<lparr>bc_kind = (if se_ccr_backend c = ''memory'' then InMemory else SQLite),
      bc_capacity = se_ccr_capacity c,
      bc_ttl_seconds = nat ((if 0 \<le> se_ccr_ttl c then se_ccr_ttl c div 1000000000 else - ((- se_ccr_ttl c) div 1000000000)) mod 2 ^ 64),
      bc_path = se_ccr_path c\<rparr>"

section \<open>The proxy\<close>

definition default_listen :: string where "default_listen = ''0.0.0.0:8787''"
definition default_max_body_bytes :: int where "default_max_body_bytes = 32 * 2 ^ 20"
definition default_timeout_seconds :: int where "default_timeout_seconds = 600"
definition default_dial_timeout :: int where "default_dial_timeout = 10 * 1000000000"

record proxy_settings =
  px_upstream :: string
  px_listen :: string
  px_max_body_bytes :: int
  px_request_timeout :: int
  px_dial_timeout :: int
  px_compress :: bool
  px_replay :: bool
  px_image_fit :: bool

record proxy_overrides =
  po_upstream :: string
  po_listen :: string

definition off_values :: "string list" where
  "off_values = [''disabled'', ''off'', ''false'', ''0'', ''no'']"

definition on_values :: "string list" where
  "on_values = [''enabled'', ''on'', ''true'', ''1'', ''yes'']"

text \<open>A switch as it is compared: trimmed and lowercased. \<open>lower\<close> is \<open>unicode.ToLower\<close> on runes from 128.\<close>

definition switch_value :: "(nat \<Rightarrow> nat) \<Rightarrow> host_env \<Rightarrow> string \<Rightarrow> string" where
  "switch_value lower H key = to_lower lower (trim_space (he_getenv H key))"

definition trim_slashes :: "string \<Rightarrow> string" where
  "trim_slashes s = rev (dropWhile (\<lambda>c. c = CHR ''/'') (rev s))"

definition load_proxy_settings :: "(nat \<Rightarrow> nat) \<Rightarrow> host_env \<Rightarrow> proxy_overrides \<Rightarrow> settings_error + proxy_settings" where
  "load_proxy_settings lower H ov =
     (let up0 = pick H (po_upstream ov) ''HEADROOM_PROXY_UPSTREAM'' []; up = trim_slashes up0
      in if up0 = [] then Inl UpstreamRequired
         else (case url_error H up of Some e \<Rightarrow> Inl e | None \<Rightarrow>
           (case non_negative_int64 H ''HEADROOM_PROXY_MAX_BODY_BYTES'' default_max_body_bytes of Inl e \<Rightarrow> Inl e | Inr max_body \<Rightarrow>
             (case positive_int H ''HEADROOM_PROXY_TIMEOUT_SECONDS'' default_timeout_seconds of Inl e \<Rightarrow> Inl e | Inr secs \<Rightarrow>
               Inr \<lparr>px_upstream = up, px_listen = pick H (po_listen ov) ''HEADROOM_PROXY_LISTEN'' default_listen,
                 px_max_body_bytes = max_body, px_request_timeout = nanos secs, px_dial_timeout = default_dial_timeout,
                 px_compress = (switch_value lower H ''HEADROOM_PROXY_COMPRESS'' \<notin> set off_values),
                 px_replay = (switch_value lower H ''HEADROOM_PROXY_REPLAY'' \<notin> set off_values),
                 px_image_fit = (switch_value lower H ''HEADROOM_PROXY_IMAGE_FIT'' \<in> set on_values)\<rparr>))))"

section \<open>Lemmas\<close>

lemma positive_int_pos: "positive_int H key def = Inr n \<Longrightarrow> 0 < def \<Longrightarrow> 0 < n"
  by (auto simp: positive_int_def Let_def split: if_splits option.splits)

lemma url_error_None: "url_error H url = None \<longleftrightarrow>
    (\<exists>scheme host. he_parse_url H url = Some (scheme, host) \<and> scheme \<in> {''http'', ''https''} \<and> host \<noteq> [])"
  by (auto simp: url_error_def split: option.splits if_splits)

lemma int64_id: "- (2 ^ 63) \<le> n \<Longrightarrow> n < 2 ^ 63 \<Longrightarrow> int64 n = n"
  by (simp add: int64_def)

text \<open>A configured lifetime of up to \<open>9223372036\<close> seconds survives the conversions.\<close>

lemma load_settings_cases:
  assumes "load_settings H ov = Inr c"
  obtains backend path ttl capacity url where "backend = pick H (ov_ccr_backend ov) ''HEADROOM_CCR_BACKEND'' default_backend"
    "backend = ''sqlite'' \<or> backend = ''memory''" "resolve_path H ov backend = Inr path"
    "positive_int H ''HEADROOM_CCR_TTL_SECONDS'' default_ttl_seconds = Inr ttl"
    "positive_int H ''HEADROOM_CCR_CAPACITY'' default_capacity = Inr capacity"
    "url = pick H (ov_proxy_url ov) ''HEADROOM_PROXY_URL'' default_proxy_url" "url_error H url = None"
    "c = \<lparr>se_ccr_backend = backend, se_ccr_path = path, se_ccr_ttl = nanos ttl, se_ccr_capacity = capacity,
          se_proxy_url = url, se_model = pick H (ov_model ov) ''HEADROOM_MODEL'' default_model\<rparr>"
  using assms by (simp add: load_settings_def Let_def split: if_splits sum.splits option.splits)


text \<open>A host with an empty environment.\<close>

definition bare_host :: host_env where
  "bare_host = \<lparr>he_getenv = \<lambda>_. [], he_user_home = Some ''/home/u'', he_join = \<lambda>a b. a @ ''/'' @ b,
     he_parse_url = \<lambda>_. Some (''http'', ''127.0.0.1:8787'')\<rparr>"


text \<open>One second more wraps the duration around: the configuration is accepted and its lifetime is negative.\<close>

lemma ttl_overflow: "nanos 9223372037 < 0"
  by (simp add: nanos_def int64_def)

end
