(* ===== verification/McpServer.thy ===== *)
theory McpServer
  imports Ledger Tokenizer Detect Settings "HOL-Library.Word"
begin

text \<open>
  \<open>internal/mcp\<close>: the three tools of the MCP server. A handler validates its arguments, calls the router, the
  store and the tokenizer it was given, updates the session counters and answers with a JSON text. The MCP library
  hands the arguments over and the HTTP client reaches the proxy; both are inputs of a call. The handlers run
  one at a time here: their only shared state is the store and the counters, each behind its own lock.
\<close>

section \<open>Server\<close>

record 's mcp_deps =
  md_router :: "'s router"
  md_store :: "'s store_ops"
  md_tokenizer :: tokenizer
  md_proxy_url :: string

text \<open>The counters are \<open>int64\<close> and wrap around.\<close>

record mcp_stats =
  cs_compress_calls :: "64 word"
  cs_retrieve_calls :: "64 word"
  cs_bytes_in :: "64 word"
  cs_bytes_out :: "64 word"
  cs_bytes_saved :: "64 word"
  cs_tokens_in :: "64 word"
  cs_tokens_out :: "64 word"
  cs_local_hits :: "64 word"
  cs_proxy_hits :: "64 word"
  cs_misses :: "64 word"
  cs_store_len :: int

record 's mcp_server =
  mv_stats :: mcp_stats
  mv_store :: 's

definition new_mcp_server :: "'s \<Rightarrow> 's mcp_server" where
  "new_mcp_server st =
     \<lparr>mv_stats = \<lparr>cs_compress_calls = 0, cs_retrieve_calls = 0, cs_bytes_in = 0, cs_bytes_out = 0, cs_bytes_saved = 0,
        cs_tokens_in = 0, cs_tokens_out = 0, cs_local_hits = 0, cs_proxy_hits = 0, cs_misses = 0, cs_store_len = 0\<rparr>,
      mv_store = st\<rparr>"

datatype tool_result = ToolError string | ToolText string

text \<open>
  A request as the library presents it: the value of a string argument, \<open>None\<close> when it is missing or not a
  string, and the message of the error \<open>RequireString\<close> then returns.
\<close>

record mcp_request =
  mq_string :: "string \<Rightarrow> string option"
  mq_require_error :: "string \<Rightarrow> string"

text \<open>\<open>writeJSON\<close>: one line, HTML escaping off. Encoding these structs cannot fail.\<close>

definition write_json :: "(string \<times> json) list \<Rightarrow> string" where
  "write_json ms = encode_json (JObj ms)"

section \<open>Compress\<close>

record compress_result =
  zr_compressed :: string
  zr_hash :: string
  zr_content_type :: string
  zr_original_tokens :: int
  zr_compressed_tokens :: int
  zr_bytes_saved :: int
  zr_steps_applied :: "string list"
  zr_cache_keys :: "string list"

definition compress_members :: "compress_result \<Rightarrow> (string \<times> json) list" where
  "compress_members r =
     [(''compressed'', JStr (zr_compressed r)), (''hash'', JStr (zr_hash r)), (''content_type'', JStr (zr_content_type r)),
      (''original_tokens'', int_json (zr_original_tokens r)), (''compressed_tokens'', int_json (zr_compressed_tokens r)),
      (''bytes_saved'', int_json (zr_bytes_saved r)), (''steps_applied'', strings_json (zr_steps_applied r)),
      (''cache_keys'', strings_json (zr_cache_keys r))]"

definition record_compress :: "int \<Rightarrow> int \<Rightarrow> int \<Rightarrow> int \<Rightarrow> int \<Rightarrow> mcp_stats \<Rightarrow> mcp_stats" where
  "record_compress bytes_in bytes_out bytes_saved tokens_in tokens_out c =
     c\<lparr>cs_compress_calls := cs_compress_calls c + 1, cs_bytes_in := cs_bytes_in c + of_int bytes_in,
       cs_bytes_out := cs_bytes_out c + of_int bytes_out, cs_bytes_saved := cs_bytes_saved c + of_int bytes_saved,
       cs_tokens_in := cs_tokens_in c + of_int tokens_in, cs_tokens_out := cs_tokens_out c + of_int tokens_out\<rparr>"

text \<open>The result and the store after the router ran and, when the output pays, the original was stashed.\<close>

definition compress_content :: "(string \<Rightarrow> string) \<Rightarrow> 's mcp_deps \<Rightarrow> string \<Rightarrow> string \<Rightarrow> 's \<Rightarrow> compress_result \<times> 's" where
  "compress_content b3 D content query st =
     (let original_tokens = md_tokenizer D content;
          (res, st1) = md_router D (md_store D) content (empty_context query) st;
          compressed_tokens = md_tokenizer D (pr_output res);
          out = \<lparr>zr_compressed = [], zr_hash = [], zr_content_type = content_type_string (dr_type (detect_content_type content)),
                 zr_original_tokens = original_tokens, zr_compressed_tokens = compressed_tokens, zr_bytes_saved = 0,
                 zr_steps_applied = [], zr_cache_keys = []\<rparr>
      in if original_tokens \<le> compressed_tokens
         then (out\<lparr>zr_compressed := content, zr_compressed_tokens := original_tokens\<rparr>, st1)
         else (out\<lparr>zr_compressed := pr_output res, zr_bytes_saved := pr_bytes_saved res,
                   zr_steps_applied := pr_steps_applied res, zr_cache_keys := pr_cache_keys res,
                   zr_hash := compute_key b3 content\<rparr>,
               st_put (md_store D) (compute_key b3 content) content st1))"

definition handle_compress :: "(string \<Rightarrow> string) \<Rightarrow> 's mcp_deps \<Rightarrow> mcp_request \<Rightarrow> 's mcp_server \<Rightarrow> tool_result \<times> 's mcp_server" where
  "handle_compress b3 D req s =
     (case mq_string req ''content'' of
        None \<Rightarrow> (ToolError (''headroom_compress: '' @ mq_require_error req ''content''), s)
      | Some content \<Rightarrow>
          if content = [] then (ToolError ''headroom_compress: content must not be empty'', s)
          else
            (let query = (case mq_string req ''query'' of Some q \<Rightarrow> q | None \<Rightarrow> []);
                 (out, st) = compress_content b3 D content query (mv_store s)
             in (ToolText (write_json (compress_members out)),
                 s\<lparr>mv_stats := record_compress (int (length content)) (int (length (zr_compressed out))) (zr_bytes_saved out)
                     (zr_original_tokens out) (zr_compressed_tokens out) (mv_stats s),
                   mv_store := st\<rparr>)))"

section \<open>Retrieve\<close>

text \<open>An HTTP exchange: the reply to a POST of a body to a URL, \<open>None\<close> when there is none.\<close>

type_synonym http_post = "string \<Rightarrow> string \<Rightarrow> (int \<times> string) option"

definition decode_content :: "string \<Rightarrow> string option" where
  "decode_content body =
     (case decode_struct body of
        None \<Rightarrow> None
      | Some ms \<Rightarrow> decode_fields (\<lambda>key v r. if key = ''content'' then string_field v (\<lambda>s. s) r else Some r) ms [])"

definition fetch_from_proxy :: "http_post \<Rightarrow> string \<Rightarrow> string \<Rightarrow> string option" where
  "fetch_from_proxy http proxy_url hash =
     (if proxy_url = [] then None
      else (case http (trim_slashes proxy_url @ ''/v1/retrieve'') (marshal_json (JObj [(''hash'', JStr hash)])) of
              None \<Rightarrow> None
            | Some (status, body) \<Rightarrow>
                if status \<noteq> 200 then None
                else (case decode_content body of None \<Rightarrow> None | Some c \<Rightarrow> if c = [] then None else Some c)))"

definition record_retrieve :: "string \<Rightarrow> mcp_stats \<Rightarrow> mcp_stats" where
  "record_retrieve source c =
     (let c = c\<lparr>cs_retrieve_calls := cs_retrieve_calls c + 1\<rparr>
      in if source = ''local'' then c\<lparr>cs_local_hits := cs_local_hits c + 1\<rparr>
         else if source = ''proxy'' then c\<lparr>cs_proxy_hits := cs_proxy_hits c + 1\<rparr>
         else c\<lparr>cs_misses := cs_misses c + 1\<rparr>)"

definition retrieve_members :: "bool \<Rightarrow> string \<Rightarrow> string \<Rightarrow> string \<Rightarrow> (string \<times> json) list" where
  "retrieve_members found source hash content =
     [(''found'', JBool found), (''source'', JStr source), (''hash'', JStr hash), (''content'', JStr content)]"

text \<open>Where a payload comes from and what it leaves in the store.\<close>

definition find_payload :: "http_post \<Rightarrow> 's mcp_deps \<Rightarrow> string \<Rightarrow> 's \<Rightarrow> (bool \<times> string \<times> string) \<times> 's" where
  "find_payload http D hash st =
     (case st_get (md_store D) hash st of
        (Some payload, st1) \<Rightarrow> ((True, ''local'', payload), st1)
      | (None, st1) \<Rightarrow>
          (case fetch_from_proxy http (md_proxy_url D) hash of
             Some payload \<Rightarrow> ((True, ''proxy'', payload), st_put (md_store D) hash payload st1)
           | None \<Rightarrow> ((False, ''none'', []), st1)))"

definition handle_retrieve :: "http_post \<Rightarrow> 's mcp_deps \<Rightarrow> mcp_request \<Rightarrow> 's mcp_server \<Rightarrow> tool_result \<times> 's mcp_server" where
  "handle_retrieve http D req s =
     (case mq_string req ''hash'' of
        None \<Rightarrow> (ToolError (''headroom_retrieve: '' @ mq_require_error req ''hash''), s)
      | Some hash \<Rightarrow>
          if \<not> is_key hash then (ToolError ''headroom_retrieve: hash must be 24 lowercase hex characters'', s)
          else
            (let ((found, source, payload), st) = find_payload http D hash (mv_store s)
             in (ToolText (write_json (retrieve_members found source hash payload)),
                 s\<lparr>mv_stats := record_retrieve source (mv_stats s), mv_store := st\<rparr>)))"

section \<open>Stats\<close>

definition snapshot :: "'s mcp_deps \<Rightarrow> 's mcp_server \<Rightarrow> mcp_stats" where
  "snapshot D s = (mv_stats s)\<lparr>cs_store_len := st_len (md_store D) (mv_store s)\<rparr>"

definition stats_members :: "mcp_stats \<Rightarrow> (string \<times> json) list" where
  "stats_members c =
     [(''compress_calls'', int_json (sint (cs_compress_calls c))), (''retrieve_calls'', int_json (sint (cs_retrieve_calls c))),
      (''bytes_in'', int_json (sint (cs_bytes_in c))), (''bytes_out'', int_json (sint (cs_bytes_out c))),
      (''bytes_saved'', int_json (sint (cs_bytes_saved c))), (''tokens_in'', int_json (sint (cs_tokens_in c))),
      (''tokens_out'', int_json (sint (cs_tokens_out c))), (''local_hits'', int_json (sint (cs_local_hits c))),
      (''proxy_hits'', int_json (sint (cs_proxy_hits c))), (''misses'', int_json (sint (cs_misses c))),
      (''store_len'', int_json (cs_store_len c))]"

definition handle_stats :: "'s mcp_deps \<Rightarrow> 's mcp_server \<Rightarrow> tool_result" where
  "handle_stats D s = ToolText (write_json (stats_members (snapshot D s)))"

section \<open>Sessions\<close>

text \<open>A call and what the environment answers to it.\<close>

datatype mcp_call = CallCompress mcp_request | CallRetrieve mcp_request http_post | CallStats

fun mcp_step :: "(string \<Rightarrow> string) \<Rightarrow> 's mcp_deps \<Rightarrow> mcp_call \<Rightarrow> 's mcp_server \<Rightarrow> tool_result \<times> 's mcp_server" where
  "mcp_step b3 D (CallCompress req) s = handle_compress b3 D req s"
| "mcp_step b3 D (CallRetrieve req http) s = handle_retrieve http D req s"
| "mcp_step b3 D CallStats s = (handle_stats D s, s)"

definition mcp_run :: "(string \<Rightarrow> string) \<Rightarrow> 's mcp_deps \<Rightarrow> mcp_call list \<Rightarrow> 's mcp_server \<Rightarrow> 's mcp_server" where
  "mcp_run b3 D calls s = fold (\<lambda>c s. snd (mcp_step b3 D c s)) calls s"

section \<open>Lemmas\<close>

text \<open>The answers are read back with their strings made valid UTF-8.\<close>

definition answer_keys :: "string list" where
  "answer_keys = [''compressed'', ''hash'', ''content_type'', ''original_tokens'', ''compressed_tokens'', ''bytes_saved'',
     ''steps_applied'', ''cache_keys'', ''found'', ''source'', ''content'']"

lemma answer_keys_plain: "k \<in> set answer_keys \<Longrightarrow> to_valid k = k"
proof -
  have "list_all (list_all (\<lambda>c. ord c < 128)) answer_keys" by (simp add: answer_keys_def)
  then show "k \<in> set answer_keys \<Longrightarrow> to_valid k = k" using ascii_valid by (fastforce simp: list_all_iff)
qed

lemma plain_written:
  assumes "k \<in> set answer_keys"
  shows "written encode_json (k, JStr s) (k, JStr (to_valid s))" "written encode_json (k, int_json n) (k, int_json n)"
    "written encode_json (k, JBool b) (k, JBool b)"
    "written encode_json (k, strings_json ss) (k, strings_json (map to_valid ss))"
  using plain.written_leaf [of k] answer_keys_plain [OF assms] by metis+

lemma read_compress_answer:
  "unmarshal_struct (write_json (compress_members r)) =
     Some (compress_members (r\<lparr>zr_compressed := to_valid (zr_compressed r), zr_hash := to_valid (zr_hash r),
        zr_content_type := to_valid (zr_content_type r), zr_steps_applied := map to_valid (zr_steps_applied r),
        zr_cache_keys := map to_valid (zr_cache_keys r)\<rparr>))"
  unfolding write_json_def
  by (rule plain.read_back) (auto simp: compress_members_def answer_keys_def intro!: plain_written)

lemma read_retrieve_answer:
  "unmarshal_struct (write_json (retrieve_members found source hash payload)) =
     Some (retrieve_members found (to_valid source) (to_valid hash) (to_valid payload))"
  unfolding write_json_def
  by (rule plain.read_back) (auto simp: retrieve_members_def answer_keys_def intro!: plain_written)

lemma key_valid: "is_key h \<Longrightarrow> to_valid h = h"
  by (rule ascii_valid) (auto simp: is_key_def list_all_iff is_lower_hex_def is_digit_def)

lemma key_not_Nil: "is_key h \<Longrightarrow> h \<noteq> []"
  by (auto simp: is_key_def)

context ccr_store
begin

text \<open>A payload that the store can return is the answer to a retrieve.\<close>

lemma retrieve_local:
  assumes "inv (mv_store s)" and "md_store D = ops" and "is_key h" and "view (mv_store s) h = Some p" and "valid_utf8 p"
    and "mq_string req ''hash'' = Some h"
  shows "\<exists>out s'. handle_retrieve http D req s = (ToolText out, s')
    \<and> unmarshal_struct out = Some (retrieve_members True ''local'' h p) \<and> inv (mv_store s')"
proof -
  obtain st1 where g: "st_get ops h (mv_store s) = (Some p, st1)" and i: "inv st1"
    using get_view [OF assms(1), of h] get_inv [OF assms(1), of h] assms(4) by (metis prod.collapse)
  have "to_valid ''local'' = ''local''" by (rule ascii_valid) simp
  then show ?thesis
    using assms(2,3,5,6) g i
    by (simp add: handle_retrieve_def find_payload_def read_retrieve_answer key_valid to_valid_id)
qed

lemma compress_content_stashed:
  assumes "inv st" and "md_store D = ops" and "\<And>content ctx st. store_reach ops st (snd (md_router D ops content ctx st))"
    and r: "compress_content b3 D content query st = (r, st')"
  shows "inv st'
    \<and> (zr_hash r = [] \<and> zr_compressed r = content \<or>
       zr_hash r = compute_key b3 content \<and> view st' (compute_key b3 content) = Some content
         \<and> md_tokenizer D (zr_compressed r) < md_tokenizer D content)"
proof -
  obtain res st1 where p: "md_router D ops content (empty_context query) st = (res, st1)" by force
  have i: "inv st1" using reach_inv [OF assms(3) [of st content "empty_context query"] assms(1)] by (simp add: p)
  show ?thesis
    using r i put_same [OF i] put_inv [OF i]
    by (auto simp: compress_content_def assms(2) p Let_def split: if_splits)
qed

end

section \<open>Properties\<close>

text \<open>C5. What the compress tool hands back can be undone through the retrieve tool alone. Its answer is JSON; either
  it carries the content itself, or a text of strictly fewer tokens and the key of the content, and a retrieve of
  that key is answered from the local store with the content, byte for byte. This holds for every store that
  keeps the contract of stores and every router that touches the store through its operations only. The content
  is valid UTF-8, as every JSON string is.\<close>

theorem mcp_compress_retrieve:
  assumes "ccr_store (md_store D) sinv view" and "sinv (mv_store s)" and "\<forall>t. length (b3 t) = 32"
    and "\<forall>content ctx st. store_reach (md_store D) st (snd (md_router D (md_store D) content ctx st))"
    and "mq_string req ''content'' = Some content" and "content \<noteq> []" and "valid_utf8 content"
    and "handle_compress b3 D req s = (ToolText out, s1)"
  shows "\<exists>ms. unmarshal_struct out = Some ms
    \<and> (map_of ms ''hash'' = Some (JStr []) \<and> map_of ms ''compressed'' = Some (JStr content)
       \<or> map_of ms ''hash'' = Some (JStr (compute_key b3 content))
         \<and> (\<exists>t. map_of ms ''compressed'' = Some (JStr (to_valid t)) \<and> md_tokenizer D t < md_tokenizer D content)
         \<and> (\<forall>req' http. mq_string req' ''hash'' = Some (compute_key b3 content) \<longrightarrow>
              (\<exists>out' s2. handle_retrieve http D req' s1 = (ToolText out', s2)
                 \<and> unmarshal_struct out' = Some (retrieve_members True ''local'' (compute_key b3 content) content))))"
proof -
  obtain r st where c: "compress_content b3 D content (case mq_string req ''query'' of Some q \<Rightarrow> q | None \<Rightarrow> []) (mv_store s) = (r, st)"
    by force
  have o: "out = write_json (compress_members r)" and s1: "mv_store s1 = st"
    using assms(8) c assms(5,6) by (auto simp: handle_compress_def)
  note facts = ccr_store.compress_content_stashed [OF assms(1,2) HOL.refl, of b3 content _ r st]
  have st: "sinv st" and cases: "zr_hash r = [] \<and> zr_compressed r = content \<or>
       zr_hash r = compute_key b3 content \<and> view st (compute_key b3 content) = Some content
         \<and> md_tokenizer D (zr_compressed r) < md_tokenizer D content"
    using facts c assms(4) by blast+
  have k: "is_key (compute_key b3 content)" using compute_key_is_key assms(3) by blast
  have ret: "\<exists>out' s2. handle_retrieve http D req' s1 = (ToolText out', s2)
      \<and> unmarshal_struct out' = Some (retrieve_members True ''local'' (compute_key b3 content) content)"
    if "view st (compute_key b3 content) = Some content" "mq_string req' ''hash'' = Some (compute_key b3 content)" for req' http
    using ccr_store.retrieve_local [OF assms(1) _ HOL.refl k, of s1 content req' http] st that assms(7) s1 by blast
  let ?ms = "compress_members (r\<lparr>zr_compressed := to_valid (zr_compressed r), zr_hash := to_valid (zr_hash r),
        zr_content_type := to_valid (zr_content_type r), zr_steps_applied := map to_valid (zr_steps_applied r),
        zr_cache_keys := map to_valid (zr_cache_keys r)\<rparr>)"
  have ms: "unmarshal_struct out = Some ?ms" by (simp add: o read_compress_answer)
  have at: "map_of ?ms ''hash'' = Some (JStr (to_valid (zr_hash r)))" "map_of ?ms ''compressed'' = Some (JStr (to_valid (zr_compressed r)))"
    by (simp_all add: compress_members_def)
  from cases show ?thesis
  proof
    assume "zr_hash r = [] \<and> zr_compressed r = content"
    then have "map_of ?ms ''hash'' = Some (JStr []) \<and> map_of ?ms ''compressed'' = Some (JStr content)"
      using at by (simp add: to_valid_id [OF assms(7)]) (simp add: to_valid_def)
    then show ?thesis using ms by blast
  next
    assume kept: "zr_hash r = compute_key b3 content \<and> view st (compute_key b3 content) = Some content
         \<and> md_tokenizer D (zr_compressed r) < md_tokenizer D content"
    then have "map_of ?ms ''hash'' = Some (JStr (compute_key b3 content))" using at(1) k by (simp add: key_valid)
    then show ?thesis using ms at(2) kept ret by blast
  qed
qed

text \<open>A server on a SQLite store whose router leaves one character.\<close>

definition tiny_mcp :: "sqlite mcp_deps" where
  "tiny_mcp = \<lparr>md_router = (\<lambda>ops content ctx st. (\<lparr>pr_output = ''x'', pr_bytes_saved = 2, pr_steps_applied = [], pr_cache_keys = []\<rparr>, st)),
     md_store = sql_ops, md_tokenizer = (\<lambda>t. int (length t)), md_proxy_url = []\<rparr>"

definition ask :: "string \<Rightarrow> string \<Rightarrow> mcp_request" where
  "ask key v = \<lparr>mq_string = [key \<mapsto> v], mq_require_error = (\<lambda>_. [])\<rparr>"

definition tiny_store :: sqlite where
  "tiny_store = \<lparr>sq_rows = Map.empty, sq_ttl = 10, sq_now = 0, sq_up = True\<rparr>"

theorem mcp_compress_retrieve_witness:
  "let b3 = (\<lambda>_. replicate 32 CHR ''a''); key = compute_key b3 ''abc''
   in \<exists>out s1 out' s2. handle_compress b3 tiny_mcp (ask ''content'' ''abc'') (new_mcp_server tiny_store) = (ToolText out, s1)
        \<and> handle_retrieve (\<lambda>_ _. None) tiny_mcp (ask ''hash'' key) s1 = (ToolText out', s2)
        \<and> unmarshal_struct out' = Some (retrieve_members True ''local'' key ''abc'')"
proof -
  let ?b3 = "\<lambda>_. replicate 32 CHR ''a''"
  obtain r st where c: "compress_content ?b3 tiny_mcp ''abc'' [] tiny_store = (r, st)" by force
  then have r: "zr_hash r = compute_key ?b3 ''abc''" by (auto simp: compress_content_def tiny_mcp_def)
  obtain s1 where h: "handle_compress ?b3 tiny_mcp (ask ''content'' ''abc'') (new_mcp_server tiny_store)
      = (ToolText (write_json (compress_members r)), s1)"
    using c by (simp add: handle_compress_def ask_def new_mcp_server_def)
  have k: "is_key (compute_key ?b3 ''abc'')" by (rule compute_key_is_key) simp
  have v: "valid_utf8 ''abc''" by (subst valid_ascii, simp)+ simp
  have st: "ccr_store (md_store tiny_mcp) sq_up sql_view"
    using sql.ccr_store_axioms by (simp add: tiny_mcp_def)
  from mcp_compress_retrieve [OF st _ _ _ _ _ v h] obtain ms where ms:
    "unmarshal_struct (write_json (compress_members r)) = Some ms"
    "map_of ms ''hash'' = Some (JStr []) \<or> (\<forall>req' http. mq_string req' ''hash'' = Some (compute_key ?b3 ''abc'') \<longrightarrow>
              (\<exists>out' s2. handle_retrieve http tiny_mcp req' s1 = (ToolText out', s2)
                 \<and> unmarshal_struct out' = Some (retrieve_members True ''local'' (compute_key ?b3 ''abc'') ''abc'')))"
    by (auto simp: new_mcp_server_def tiny_store_def tiny_mcp_def ask_def)
  have "map_of ms ''hash'' = Some (JStr (to_valid (zr_hash r)))"
    using ms(1) unfolding read_compress_answer by (auto simp: compress_members_def)
  then have "map_of ms ''hash'' \<noteq> Some (JStr [])" using r key_valid [OF k] key_not_Nil [OF k] by simp
  then have "\<exists>out' s2. handle_retrieve (\<lambda>_ _. None) tiny_mcp (ask ''hash'' (compute_key ?b3 ''abc'')) s1 = (ToolText out', s2)
      \<and> unmarshal_struct out' = Some (retrieve_members True ''local'' (compute_key ?b3 ''abc'') ''abc'')"
    using ms(2) by (simp add: ask_def)
  then show ?thesis using h by (simp add: Let_def)
qed

text \<open>What a session's calls ask for.\<close>

fun content_of :: "mcp_call \<Rightarrow> string option" where
  "content_of (CallCompress req) = (case mq_string req ''content'' of Some c \<Rightarrow> if c = [] then None else Some c | None \<Rightarrow> None)"
| "content_of _ = None"

fun hash_of :: "mcp_call \<Rightarrow> string option" where
  "hash_of (CallRetrieve req http) = (case mq_string req ''hash'' of Some h \<Rightarrow> if is_key h then Some h else None | None \<Rightarrow> None)"
| "hash_of _ = None"

lemma record_compress_sel [simp]:
  "cs_retrieve_calls (record_compress a b c d e t) = cs_retrieve_calls t" "cs_local_hits (record_compress a b c d e t) = cs_local_hits t"
  "cs_proxy_hits (record_compress a b c d e t) = cs_proxy_hits t" "cs_misses (record_compress a b c d e t) = cs_misses t"
  "cs_compress_calls (record_compress a b c d e t) = cs_compress_calls t + 1"
  "cs_bytes_in (record_compress a b c d e t) = cs_bytes_in t + of_int a" "cs_tokens_in (record_compress a b c d e t) = cs_tokens_in t + of_int d"
  by (simp_all add: record_compress_def)

lemma record_retrieve_sel [simp]:
  "cs_retrieve_calls (record_retrieve src t) = cs_retrieve_calls t + 1"
  "cs_local_hits (record_retrieve src t) + cs_proxy_hits (record_retrieve src t) + cs_misses (record_retrieve src t)
     = cs_local_hits t + cs_proxy_hits t + cs_misses t + 1"
  "cs_compress_calls (record_retrieve src t) = cs_compress_calls t" "cs_bytes_in (record_retrieve src t) = cs_bytes_in t"
  "cs_tokens_in (record_retrieve src t) = cs_tokens_in t"
  by (simp_all add: record_retrieve_def Let_def)

lemma compress_content_tokens: "zr_original_tokens (fst (compress_content b3 D content query st)) = md_tokenizer D content"
  by (simp add: compress_content_def Let_def split: prod.splits)

lemma mcp_step_stats:
  defines "t s \<equiv> mv_stats s"
  shows "cs_compress_calls (t (snd (mcp_step b3 D c s))) = cs_compress_calls (t s) + (if content_of c = None then 0 else 1)"
    "cs_retrieve_calls (t (snd (mcp_step b3 D c s))) = cs_retrieve_calls (t s) + (if hash_of c = None then 0 else 1)"
    "cs_local_hits (t (snd (mcp_step b3 D c s))) + cs_proxy_hits (t (snd (mcp_step b3 D c s))) + cs_misses (t (snd (mcp_step b3 D c s)))
       = cs_local_hits (t s) + cs_proxy_hits (t s) + cs_misses (t s) + (if hash_of c = None then 0 else 1)"
    "cs_bytes_in (t (snd (mcp_step b3 D c s))) = cs_bytes_in (t s) + (case content_of c of None \<Rightarrow> 0 | Some x \<Rightarrow> of_nat (length x))"
    "cs_tokens_in (t (snd (mcp_step b3 D c s))) = cs_tokens_in (t s) + (case content_of c of None \<Rightarrow> 0 | Some x \<Rightarrow> of_int (md_tokenizer D x))"
  unfolding t_def
  by (cases c; simp add: handle_compress_def handle_retrieve_def Let_def compress_content_tokens split: option.splits prod.splits;
      use compress_content_tokens in \<open>metis fst_conv\<close>)+


end
