(* ===== verification/Splice.thy ===== *)
theory Splice
  imports Prelude
begin

text \<open>
  Byte-range surgery on the request body: \<open>internal/livezone/splice.go\<close>.
  \<open>apply_replacements\<close> is where invariant I1 of the dispatcher is enforced: every byte
  outside a rewritten range is copied verbatim.
\<close>

section \<open>Model\<close>

text \<open>\<open>replacement\<close>: one byte range of the original body and the bytes that take its place.\<close>

record replacement =
  rp_start :: int
  rp_end :: int
  rp_repl :: string

text \<open>\<open>Range\<close> (livezone.go): start and end index the input, \<open>rg_new_len\<close> counts output bytes.\<close>

record rng =
  rg_start :: int
  rg_end :: int
  rg_new_len :: int

text \<open>
  The body of the loop of \<open>applyReplacements\<close>: \<open>cursor\<close>, \<open>out\<close> and \<open>ranges\<close> are its
  variables; a malformed or overlapping replacement is dropped.
\<close>

fun splice_loop :: "string \<Rightarrow> replacement list \<Rightarrow> int \<Rightarrow> string \<Rightarrow> rng list \<Rightarrow> string \<times> rng list \<times> int" where
  "splice_loop orig [] cursor out ranges = (out, ranges, cursor)"
| "splice_loop orig (r # rs) cursor out ranges =
     (if rp_start r < cursor \<or> rp_end r < rp_start r \<or> rp_end r > int (length orig)
      then splice_loop orig rs cursor out ranges
      else splice_loop orig rs (rp_end r)
             (out @ slice orig cursor (rp_start r) @ rp_repl r)
             (ranges @ [\<lparr>rg_start = rp_start r, rg_end = rp_end r,
                         rg_new_len = int (length (rp_repl r))\<rparr>]))"

text \<open>\<open>sort.SliceStable\<close> by ascending start is the stable \<open>sort_key rp_start\<close>.\<close>

definition apply_replacements :: "string \<Rightarrow> replacement list \<Rightarrow> string \<times> rng list" where
  "apply_replacements orig reps =
     (if reps = [] then (orig, [])
      else (let sorted_reps = sort_key rp_start reps;
                (out, ranges, cursor) = splice_loop orig sorted_reps 0 [] []
            in if ranges = [] then (orig, [])
               else (out @ drop (nat cursor) orig, ranges)))"

section \<open>The accepted replacements\<close>

text \<open>
  The replacements the loop keeps, and what it writes for them. Both are independent of
  the accumulators, so that the loop can be reasoned about structurally.
\<close>

fun accepted :: "string \<Rightarrow> int \<Rightarrow> replacement list \<Rightarrow> replacement list" where
  "accepted orig cursor [] = []"
| "accepted orig cursor (r # rs) =
     (if rp_start r < cursor \<or> rp_end r < rp_start r \<or> rp_end r > int (length orig)
      then accepted orig cursor rs
      else r # accepted orig (rp_end r) rs)"

fun spliced :: "string \<Rightarrow> int \<Rightarrow> replacement list \<Rightarrow> string" where
  "spliced orig cursor [] = drop (nat cursor) orig"
| "spliced orig cursor (r # rs) = slice orig cursor (rp_start r) @ rp_repl r @ spliced orig (rp_end r) rs"

definition rng_of :: "replacement \<Rightarrow> rng" where
  "rng_of r = \<lparr>rg_start = rp_start r, rg_end = rp_end r, rg_new_len = int (length (rp_repl r))\<rparr>"

lemma rng_of_sel [simp]:
  "rg_start (rng_of r) = rp_start r" "rg_end (rng_of r) = rp_end r"
  "rg_new_len (rng_of r) = int (length (rp_repl r))"
  by (simp_all add: rng_of_def)

lemma splice_loop_accepted:
  "splice_loop orig rs cursor out ranges = (out', ranges', cursor') \<Longrightarrow>
     ranges' = ranges @ map rng_of (accepted orig cursor rs)
     \<and> out' @ drop (nat cursor') orig = out @ spliced orig cursor (accepted orig cursor rs)"
  by (induction orig rs cursor out ranges rule: splice_loop.induct)
     (auto simp: rng_of_def split: if_splits)

lemma apply_replacements_eq:
  "apply_replacements orig reps =
     (let acc = accepted orig 0 (sort_key rp_start reps) in (spliced orig 0 acc, map rng_of acc))"
proof (cases "reps = []")
  case False
  obtain out ranges cursor where sl: "splice_loop orig (sort_key rp_start reps) 0 [] [] = (out, ranges, cursor)"
    by (cases "splice_loop orig (sort_key rp_start reps) 0 [] []") auto
  with splice_loop_accepted [OF sl] False show ?thesis
    by (auto simp: apply_replacements_def Let_def)
qed (simp add: apply_replacements_def)

text \<open>The accepted replacements are ordered, disjoint and in bounds.\<close>

fun chained :: "int \<Rightarrow> int \<Rightarrow> rng list \<Rightarrow> bool" where
  "chained lo hi [] \<longleftrightarrow> lo \<le> hi"
| "chained lo hi (g # gs) \<longleftrightarrow> lo \<le> rg_start g \<and> rg_start g \<le> rg_end g \<and> chained (rg_end g) hi gs"

lemma chained_le: "chained lo hi gs \<Longrightarrow> lo \<le> hi"
  by (induction lo hi gs rule: chained.induct) auto

lemma chained_accepted:
  "lo \<le> int (length orig) \<Longrightarrow> chained lo (int (length orig)) (map rng_of (accepted orig lo rs))"
  by (induction orig lo rs rule: accepted.induct) auto

lemma set_accepted: "set (accepted orig lo rs) \<subseteq> set rs"
  by (induction orig lo rs rule: accepted.induct) auto

lemma accepted_id:
  "chained lo (int (length orig)) (map rng_of rs) \<Longrightarrow> accepted orig lo rs = rs"
  by (induction orig lo rs rule: accepted.induct) (auto dest: chained_le)

section \<open>Walking both buffers in lockstep\<close>

text \<open>
  The untouched bytes as a caller reconstructs them: from the input by the ranges' offsets,
  and from the output by the gap widths and \<open>NewLen\<close> alone.
\<close>

fun gaps_in :: "string \<Rightarrow> int \<Rightarrow> rng list \<Rightarrow> string list" where
  "gaps_in body pos [] = [drop (nat pos) body]"
| "gaps_in body pos (g # gs) = slice body pos (rg_start g) # gaps_in body (rg_end g) gs"

fun gaps_out :: "string \<Rightarrow> int \<Rightarrow> rng list \<Rightarrow> string list" where
  "gaps_out out pos [] = [out]"
| "gaps_out out pos (g # gs) =
     take (nat (rg_start g - pos)) out
       # gaps_out (drop (nat (rg_start g - pos) + nat (rg_new_len g)) out) (rg_end g) gs"

lemma gaps_spliced:
  "0 \<le> pos \<Longrightarrow> chained pos (int (length orig)) (map rng_of rs) \<Longrightarrow>
     gaps_out (spliced orig pos rs) pos (map rng_of rs) = gaps_in orig pos (map rng_of rs)"
proof (induction rs arbitrary: pos)
  case (Cons r rs)
  have "length (slice orig pos (rp_start r)) = nat (rp_start r - pos)"
    using Cons.prems by (auto dest: chained_le)
  then show ?case using Cons by simp
qed simp

text \<open>Interleaving kept gaps with what fills the ranges between them.\<close>

fun weave :: "'a list list \<Rightarrow> 'a list list \<Rightarrow> 'a list" where
  "weave (g # gs) (n # ns) = g @ n @ weave gs ns"
| "weave gs ns = concat gs"

lemma weave_in:
  "0 \<le> pos \<Longrightarrow> chained pos (int (length orig)) gs \<Longrightarrow>
     weave (gaps_in orig pos gs) (map (\<lambda>g. slice orig (rg_start g) (rg_end g)) gs) = drop (nat pos) orig"
  by (induction gs arbitrary: pos) (simp_all add: slice_append_drop)

lemma weave_out:
  "spliced orig pos rs = weave (gaps_in orig pos (map rng_of rs)) (map rp_repl rs)"
  by (induction rs arbitrary: pos) simp_all

lemma length_spliced:
  "0 \<le> pos \<Longrightarrow> chained pos (int (length orig)) (map rng_of rs) \<Longrightarrow>
     int (length (spliced orig pos rs)) =
       int (length orig) - pos + (\<Sum>g\<leftarrow>map rng_of rs. rg_new_len g - (rg_end g - rg_start g))"
proof (induction rs arbitrary: pos)
  case (Cons r rs)
  have "length (slice orig pos (rp_start r)) = nat (rp_start r - pos)"
    using Cons.prems by (auto dest: chained_le)
  then show ?case using Cons by simp
qed (auto simp: nat_diff_distrib)

section \<open>Properties\<close>

text \<open>C10. Invariant I1. The ranges that \<open>applyReplacements\<close> reports are ordered, disjoint and
  inside the body; walking the input by their offsets and the output by their \<open>NewLen\<close> yields the
  same untouched pieces, the body is those pieces interleaved with the replaced spans, and the
  output is the same pieces interleaved with bytes of given replacements.\<close>

theorem splice_untouched_verbatim:
  "let (out, rs) = apply_replacements body reps
   in chained 0 (int (length body)) rs
      \<and> gaps_out out 0 rs = gaps_in body 0 rs
      \<and> body = weave (gaps_in body 0 rs) (map (\<lambda>g. slice body (rg_start g) (rg_end g)) rs)
      \<and> (\<exists>used. set used \<subseteq> set reps \<and> rs = map rng_of used
            \<and> out = weave (gaps_in body 0 rs) (map rp_repl used))"
proof -
  let ?acc = "accepted body 0 (sort_key rp_start reps)"
  have ch: "chained 0 (int (length body)) (map rng_of ?acc)"
    by (rule chained_accepted) simp
  moreover have "set ?acc \<subseteq> set reps"
    using set_accepted [of body 0 "sort_key rp_start reps"] by simp
  ultimately show ?thesis
    using gaps_spliced [OF _ ch] weave_in [OF _ ch] weave_out [of body 0 ?acc]
    by (auto simp: apply_replacements_eq Let_def simp del: map_map)
qed

text \<open>No replacement is lost: when the replacements, in start order, are disjoint and in bounds,
  every one of them is applied, in start order, and the output length is the body length plus the
  change of every range.\<close>

theorem splice_applies_all:
  assumes "chained 0 (int (length body)) (map rng_of (sort_key rp_start reps))"
  shows "apply_replacements body reps
       = (weave (gaps_in body 0 (map rng_of (sort_key rp_start reps))) (map rp_repl (sort_key rp_start reps)),
          map rng_of (sort_key rp_start reps))
     \<and> int (length (fst (apply_replacements body reps)))
       = int (length body) + (\<Sum>r\<leftarrow>sort_key rp_start reps. int (length (rp_repl r)) - (rp_end r - rp_start r))"
proof -
  have eq: "apply_replacements body reps = (spliced body 0 (sort_key rp_start reps), map rng_of (sort_key rp_start reps))"
    using accepted_id [OF assms] by (simp add: apply_replacements_eq Let_def)
  show ?thesis
    using length_spliced [OF _ assms] eq weave_out [of body 0 "sort_key rp_start reps"]
    by (simp add: comp_def)
qed

theorem splice_applies_all_witness:
  "apply_replacements ''abcdef'' [\<lparr>rp_start = 4, rp_end = 5, rp_repl = ''XY''\<rparr>, \<lparr>rp_start = 1, rp_end = 3, rp_repl = []\<rparr>]
     = (''adXYf'', [\<lparr>rg_start = 1, rg_end = 3, rg_new_len = 0\<rparr>, \<lparr>rg_start = 4, rg_end = 5, rg_new_len = 2\<rparr>])"
proof -
  let ?reps = "[\<lparr>rp_start = 4, rp_end = 5, rp_repl = ''XY''\<rparr>, \<lparr>rp_start = 1, rp_end = 3, rp_repl = []\<rparr>]"
  have "chained 0 (int (length ''abcdef'')) (map rng_of (sort_key rp_start ?reps))" by simp
  from splice_applies_all [OF this] show ?thesis by (simp add: slice_def rng_of_def)
qed

text \<open>The planning order does not matter: replacements with distinct starts give the same
  body and ranges in any order.\<close>

theorem splice_order_irrelevant:
  assumes "mset reps = mset reps'" and "distinct (map rp_start reps)"
  shows "apply_replacements body reps = apply_replacements body reps'"
  using sort_key_mset_cong [OF assms] by (simp add: apply_replacements_eq)

theorem splice_order_irrelevant_witness:
  "apply_replacements ''abcdef'' [\<lparr>rp_start = 4, rp_end = 5, rp_repl = ''XY''\<rparr>, \<lparr>rp_start = 1, rp_end = 3, rp_repl = []\<rparr>]
   = apply_replacements ''abcdef'' [\<lparr>rp_start = 1, rp_end = 3, rp_repl = []\<rparr>, \<lparr>rp_start = 4, rp_end = 5, rp_repl = ''XY''\<rparr>]"
  by (rule splice_order_irrelevant) (simp_all add: add_mset_commute)

end
