(* ===== verification/Plan.thy ===== *)
theory Plan
  imports ToolPairs Splice
begin

text \<open>
  \<open>internal/livezone/plan.go\<close>: which message is the live zone, and one slot for every block of a
  message that the dispatcher recognises.
\<close>

section \<open>Slots\<close>

definition block_byte_threshold :: nat where
  "block_byte_threshold = 512"

definition live_hot_zone_types :: "string list" where
  "live_hot_zone_types = [''tool_use'', ''thinking'', ''redacted_thinking'', ''compaction'']"

definition is_hot_zone :: "string \<Rightarrow> bool" where
  "is_hot_zone block_type \<longleftrightarrow> block_type \<in> set live_hot_zone_types"

datatype slot_kind =
    SlotCompressible
  | SlotStringContent
  | SlotHotZone
  | SlotBelowThreshold
  | SlotImage
  | SlotUnreachable

record plan_slot =
  ps_block_index :: nat
  ps_kind :: slot_kind
  ps_block_type :: string
  ps_text :: string
  ps_start :: int
  ps_end :: int
  ps_tool_use_id :: string
  ps_content_index :: int

text \<open>A slot with no position: the zero value of the Go struct for the fields not named.\<close>

definition bare_slot :: "nat \<Rightarrow> slot_kind \<Rightarrow> string \<Rightarrow> string \<Rightarrow> int \<Rightarrow> plan_slot" where
  "bare_slot block_index kind block_type tool_use_id content_index =
     \<lparr>ps_block_index = block_index, ps_kind = kind, ps_block_type = block_type, ps_text = [],
      ps_start = 0, ps_end = 0, ps_tool_use_id = tool_use_id, ps_content_index = content_index\<rparr>"

definition string_slot :: "gres \<Rightarrow> (int \<times> int \<times> string) option" where
  "string_slot r =
     (if g_type r \<noteq> GString \<or> g_index r \<le> 0 then None
      else Some (g_index r, g_index r + int (length (g_raw r)), g_str r))"

definition classify :: "nat \<Rightarrow> string \<Rightarrow> int \<Rightarrow> int \<Rightarrow> string \<Rightarrow> slot_kind \<Rightarrow> plan_slot" where
  "classify block_index block_type start end text base =
     \<lparr>ps_block_index = block_index,
      ps_kind = (if length text < block_byte_threshold then SlotBelowThreshold else base),
      ps_block_type = block_type, ps_text = text, ps_start = start, ps_end = end,
      ps_tool_use_id = [], ps_content_index = -1\<rparr>"

section \<open>The live zone\<close>

fun latest_user :: "gjson \<Rightarrow> gres list \<Rightarrow> int \<Rightarrow> nat \<Rightarrow> nat option" where
  "latest_user G arr floor 0 = None"
| "latest_user G arr floor (Suc i) =
     (if int i < floor then None
      else if gj_string G (gj_sub G (arr ! i) ''role'') = ''user'' then Some i
      else latest_user G arr floor i)"

definition find_latest_user_message :: "gjson \<Rightarrow> string \<Rightarrow> int \<Rightarrow> nat option" where
  "find_latest_user_message G body floor =
     (let messages = gj_get G body ''messages''
      in if \<not> gj_is_array G messages then None
         else (let arr = gj_array G messages in latest_user G arr floor (length arr)))"

section \<open>Planning one message\<close>

text \<open>One element of the structured content of a tool result.\<close>

definition plan_elem :: "gjson \<Rightarrow> string \<Rightarrow> nat \<Rightarrow> nat \<Rightarrow> string \<Rightarrow> nat \<Rightarrow> gres \<Rightarrow> plan_slot" where
  "plan_elem G body msg_idx i tool_use_id j elem =
     (let elem_type = gj_string G (gj_sub G elem ''type'');
          unreachable = bare_slot i SlotUnreachable elem_type tool_use_id (int j);
          locate = (\<lambda>field. case string_slot (gj_get G body (path_nested msg_idx i j field)) of
              None \<Rightarrow> unreachable
            | Some (start, end, text) \<Rightarrow>
                (classify i elem_type start end text
                   (if elem_type = ''image'' then SlotImage else SlotCompressible))
                \<lparr>ps_tool_use_id := tool_use_id, ps_content_index := int j\<rparr>)
      in if gj_exists G (gj_sub G elem ''cache_control'') \<or> is_hot_zone elem_type
         then bare_slot i SlotHotZone elem_type tool_use_id (int j)
         else if elem_type = ''text'' then locate ''text''
         else if elem_type = ''image'' then locate ''source.data''
         else unreachable)"

fun plan_elems :: "gjson \<Rightarrow> string \<Rightarrow> nat \<Rightarrow> nat \<Rightarrow> string \<Rightarrow> nat \<Rightarrow> gres list \<Rightarrow> plan_slot list" where
  "plan_elems G body msg_idx i tool_use_id j [] = []"
| "plan_elems G body msg_idx i tool_use_id j (elem # elems) =
     plan_elem G body msg_idx i tool_use_id j elem # plan_elems G body msg_idx i tool_use_id (Suc j) elems"

text \<open>A block whose compressible text is the string at \<open>field\<close>.\<close>

definition plan_field :: "gjson \<Rightarrow> string \<Rightarrow> nat \<Rightarrow> nat \<Rightarrow> gres \<Rightarrow> string \<Rightarrow> string \<Rightarrow> plan_slot" where
  "plan_field G body msg_idx i block block_type field =
     (case string_slot (gj_get G body (path_block msg_idx i field)) of
        None \<Rightarrow> bare_slot i SlotUnreachable block_type [] (-1)
      | Some (start, end, text) \<Rightarrow>
          (let slot = classify i block_type start end text
                        (if block_type = ''image'' then SlotImage else SlotCompressible)
           in if block_type = ''tool_result''
              then slot \<lparr>ps_tool_use_id := gj_string G (gj_sub G block ''tool_use_id'')\<rparr> else slot))"

definition plan_block :: "gjson \<Rightarrow> string \<Rightarrow> nat \<Rightarrow> nat \<Rightarrow> gres \<Rightarrow> plan_slot list" where
  "plan_block G body msg_idx i block =
     (let block_type = gj_string G (gj_sub G block ''type'')
      in if is_hot_zone block_type then [bare_slot i SlotHotZone block_type [] (-1)]
         else if block_type = ''text'' then [plan_field G body msg_idx i block block_type ''text'']
         else if block_type = ''image'' then [plan_field G body msg_idx i block block_type ''source.data'']
         else if block_type = ''tool_result'' then
           (let inner = gj_get G body (path_block msg_idx i ''content'')
            in if gj_is_array G inner
               then plan_elems G body msg_idx i (gj_string G (gj_sub G block ''tool_use_id'')) 0 (gj_array G inner)
               else [plan_field G body msg_idx i block block_type ''content''])
         else [bare_slot i SlotUnreachable block_type [] (-1)])"

fun plan_loop :: "gjson \<Rightarrow> string \<Rightarrow> nat \<Rightarrow> nat \<Rightarrow> gres list \<Rightarrow> plan_slot list" where
  "plan_loop G body msg_idx i [] = []"
| "plan_loop G body msg_idx i (block # blocks) =
     plan_block G body msg_idx i block @ plan_loop G body msg_idx (Suc i) blocks"

definition plan_blocks :: "gjson \<Rightarrow> string \<Rightarrow> nat \<Rightarrow> plan_slot list" where
  "plan_blocks G body msg_idx =
     (let content = gj_get G body (path_content msg_idx)
      in if g_type content = GString then
           (case string_slot content of
              None \<Rightarrow> []
            | Some (start, end, text) \<Rightarrow> [classify 0 '''' start end text SlotStringContent])
         else if \<not> gj_is_array G content then []
         else plan_loop G body msg_idx 0 (gj_array G content))"

section \<open>Lemmas\<close>

lemma string_slot_Some:
  "string_slot r = Some (s, e, t) \<longleftrightarrow>
     g_type r = GString \<and> 0 < g_index r \<and> s = g_index r \<and> e = g_index r + int (length (g_raw r)) \<and> t = g_str r"
  by (auto simp: string_slot_def)

lemma latest_user_Max:
  "latest_user G arr floor n =
     (let S = {i. i < n \<and> floor \<le> int i \<and> gj_string G (gj_sub G (arr ! i) ''role'') = ''user''}
      in if S = {} then None else Some (Max S))"
proof (induction n)
  case (Suc n)
  let ?P = "\<lambda>i. floor \<le> int i \<and> gj_string G (gj_sub G (arr ! i) ''role'') = ''user''"
  have split: "{i. i < Suc n \<and> ?P i} = {i. i < n \<and> ?P i} \<union> (if ?P n then {n} else {})"
    by (auto simp: less_Suc_eq)
  consider "int n < floor" | "?P n" | "floor \<le> int n" "\<not> ?P n" by linarith
  then show ?case
  proof cases
    case 1
    then have "{i. i < Suc n \<and> ?P i} = {}" by auto
    then show ?thesis using 1 by (simp add: Let_def)
  next
    case 2
    then have "Max {i. i < Suc n \<and> ?P i} = n" by (intro Max_eqI) auto
    moreover have "{i. i < Suc n \<and> ?P i} \<noteq> {}" using 2 by auto
    ultimately show ?thesis using 2 by (simp only: Let_def latest_user.simps) simp
  next
    case 3
    then show ?thesis using Suc unfolding split by (simp add: Let_def)
  qed
qed simp

lemma find_latest_floor:
  "find_latest_user_message G body floor = Some m \<Longrightarrow> floor \<le> int m"
proof -
  have "latest_user G arr floor n = Some m \<Longrightarrow> floor \<le> int m" for arr n
    by (induction n) (auto split: if_splits)
  then show "find_latest_user_message G body floor = Some m \<Longrightarrow> floor \<le> int m"
    by (auto simp: find_latest_user_message_def Let_def split: if_splits)
qed

text \<open>A slot that the dispatcher may rewrite.\<close>

definition live_kind :: "slot_kind \<Rightarrow> bool" where
  "live_kind k \<longleftrightarrow> k = SlotCompressible \<or> k = SlotStringContent \<or> k = SlotImage"

text \<open>
  A rewritable slot comes from a JSON string that gjson located in the body: its range is that
  of the raw value, its text the decoded value, of at least the threshold's length.
\<close>

definition located :: "gjson \<Rightarrow> string \<Rightarrow> nat \<Rightarrow> plan_slot \<Rightarrow> bool" where
  "located G body msg_idx s \<longleftrightarrow>
     (\<exists>path r. has_prefix path (path_content msg_idx) \<and> r = gj_get G body path \<and> g_type r = GString \<and> 0 < g_index r
        \<and> ps_start s = g_index r \<and> ps_end s = g_index r + int (length (g_raw r)) \<and> ps_text s = g_str r
        \<and> block_byte_threshold \<le> length (ps_text s) \<and> \<not> is_hot_zone (ps_block_type s))"

lemma path_prefix [simp]:
  "has_prefix (path_content m) (path_content m)"
  "has_prefix (path_block m i f) (path_content m)"
  "has_prefix (path_nested m i j f) (path_content m)"
  by (simp_all add: path_block_def path_nested_def has_prefix_iff)

lemma bare_slot_kind [simp]: "ps_kind (bare_slot i k b t c) = k"
  by (simp add: bare_slot_def)

lemma located_update [simp]:
  "located G body m (s\<lparr>ps_tool_use_id := tu\<rparr>) = located G body m s"
  "located G body m (s\<lparr>ps_content_index := c\<rparr>) = located G body m s"
  by (simp_all add: located_def)

lemma located_classify:
  assumes "string_slot (gj_get G body path) = Some (st, en, text)" and "has_prefix path (path_content m)"
    and "live_kind (ps_kind (classify i b st en text base))" and "\<not> is_hot_zone b"
  shows "located G body m (classify i b st en text base)"
  unfolding located_def using assms
  by (intro exI [of _ path] exI [of _ "gj_get G body path"])
     (auto simp: string_slot_Some classify_def live_kind_def split: if_splits)

lemma not_live_bare [simp]: "\<not> live_kind SlotHotZone" "\<not> live_kind SlotUnreachable" "\<not> live_kind SlotBelowThreshold"
  by (simp_all add: live_kind_def)

lemma plan_elem_located:
  "live_kind (ps_kind (plan_elem G body m i tu j e)) \<Longrightarrow> located G body m (plan_elem G body m i tu j e)"
  by (auto simp: plan_elem_def Let_def split: if_splits option.splits intro!: located_classify)

lemma plan_elems_located:
  "s \<in> set (plan_elems G body m i tu j es) \<Longrightarrow> live_kind (ps_kind s) \<Longrightarrow> located G body m s"
  by (induction G body m i tu j es rule: plan_elems.induct) (auto intro: plan_elem_located)

lemma plan_field_located:
  "live_kind (ps_kind (plan_field G body m i block b field)) \<Longrightarrow> \<not> is_hot_zone b
     \<Longrightarrow> located G body m (plan_field G body m i block b field)"
  by (auto simp: plan_field_def Let_def split: if_splits option.splits intro!: located_classify)

lemma plan_block_located:
  "s \<in> set (plan_block G body m i block) \<Longrightarrow> live_kind (ps_kind s) \<Longrightarrow> located G body m s"
  by (auto simp: plan_block_def Let_def split: if_splits
        intro: plan_field_located plan_elems_located)

lemma plan_loop_located:
  "s \<in> set (plan_loop G body m i blocks) \<Longrightarrow> live_kind (ps_kind s) \<Longrightarrow> located G body m s"
  by (induction G body m i blocks rule: plan_loop.induct) (auto intro: plan_block_located)

lemma plan_blocks_located:
  "s \<in> set (plan_blocks G body m) \<Longrightarrow> live_kind (ps_kind s) \<Longrightarrow> located G body m s"
  by (auto simp: plan_blocks_def Let_def is_hot_zone_def live_hot_zone_types_def split: if_splits option.splits
        intro: plan_loop_located intro!: located_classify)

section \<open>Properties\<close>

text \<open>The live zone is the user message with the greatest index at or above the frozen floor, and
  there is none exactly when no such message exists.\<close>

theorem latest_user_message_exact:
  "find_latest_user_message G body floor =
     (let msgs = gj_array G (gj_get G body ''messages'');
          S = {i. i < length msgs \<and> floor \<le> int i \<and> gj_string G (gj_sub G (msgs ! i) ''role'') = ''user''}
      in if gj_is_array G (gj_get G body ''messages'') \<and> S \<noteq> {} then Some (Max S) else None)"
  by (simp add: find_latest_user_message_def latest_user_Max Let_def)

text \<open>C18. A slot the dispatcher may rewrite brackets, inside the body and past its first byte, the raw
  text of a JSON string of the planned message; its decoded text reaches the threshold and its block
  type is not a hot-zone one. Needs gjson's documented meaning of \<open>Result.Index\<close>.\<close>

theorem plan_slots_in_body:
  assumes "index_exact G body" and "s \<in> set (plan_blocks G body m)" and "live_kind (ps_kind s)"
  shows "0 < ps_start s \<and> ps_start s \<le> ps_end s \<and> ps_end s \<le> int (length body)
    \<and> \<not> is_hot_zone (ps_block_type s) \<and> 512 \<le> length (ps_text s)
    \<and> (\<exists>path. has_prefix path (path_content m) \<and> g_type (gj_get G body path) = GString
          \<and> ps_text s = g_str (gj_get G body path)
          \<and> slice body (ps_start s) (ps_end s) = g_raw (gj_get G body path))"
proof -
  from plan_blocks_located [OF assms(2,3)]
  obtain path where p: "has_prefix path (path_content m)" "g_type (gj_get G body path) = GString"
    "0 < g_index (gj_get G body path)" "ps_start s = g_index (gj_get G body path)"
    "ps_end s = g_index (gj_get G body path) + int (length (g_raw (gj_get G body path)))"
    "ps_text s = g_str (gj_get G body path)" "512 \<le> length (ps_text s)" "\<not> is_hot_zone (ps_block_type s)"
    by (auto simp: located_def block_byte_threshold_def)
  then have pre: "has_prefix (drop (nat (ps_start s)) body) (g_raw (gj_get G body path))"
    and le: "ps_start s \<le> int (length body)"
    using assms(1) by (auto simp: index_exact_def Let_def)
  then have "slice body (ps_start s) (ps_end s) = g_raw (gj_get G body path)"
    using p by (simp add: slice_def has_prefix_take nat_add_distrib)
  moreover have "length (g_raw (gj_get G body path)) \<le> length body - nat (ps_start s)"
    using has_prefix_length [OF pre] by simp
  ultimately show ?thesis using p le by auto
qed

text \<open>A body whose only message is a long string.\<close>

definition long_text :: string where
  "long_text = replicate 600 CHR ''a''"

definition long_raw :: string where
  "long_raw = CHR 0x22 # long_text @ [CHR 0x22]"

definition long_body :: string where
  "long_body = ''['' @ long_raw @ '']''"

definition long_gjson :: gjson where
  "long_gjson = table_gjson [(''messages.0.content'', \<lparr>g_type = GString, g_raw = long_raw, g_str = long_text, g_index = 1\<rparr>)] [] []"

theorem plan_slots_in_body_witness:
  "\<exists>s. plan_blocks long_gjson long_body 0 = [s] \<and> live_kind (ps_kind s)
     \<and> slice long_body (ps_start s) (ps_end s) = long_raw"
proof -
  let ?s = "\<lparr>ps_block_index = 0, ps_kind = SlotStringContent, ps_block_type = [], ps_text = long_text,
      ps_start = 1, ps_end = 603, ps_tool_use_id = [], ps_content_index = -1\<rparr>"
  have ex: "index_exact long_gjson long_body"
    unfolding long_gjson_def by (rule index_exact_table) (simp add: long_body_def has_prefix_iff)
  have path: "path_content 0 = ''messages.0.content''" by code_simp
  have pl: "plan_blocks long_gjson long_body 0 = [?s]"
    by (simp add: plan_blocks_def path long_gjson_def table_defs string_slot_def classify_def
        block_byte_threshold_def long_text_def long_raw_def Let_def)
  have "0 < ps_start ?s \<and> ps_start ?s \<le> ps_end ?s \<and> ps_end ?s \<le> int (length long_body)
    \<and> \<not> is_hot_zone (ps_block_type ?s) \<and> 512 \<le> length (ps_text ?s)
    \<and> (\<exists>path. has_prefix path (path_content 0) \<and> g_type (gj_get long_gjson long_body path) = GString
          \<and> ps_text ?s = g_str (gj_get long_gjson long_body path)
          \<and> slice long_body (ps_start ?s) (ps_end ?s) = g_raw (gj_get long_gjson long_body path))"
    using plan_slots_in_body [OF ex, of ?s 0] by (simp add: pl live_kind_def)
  then obtain path where "g_type (gj_get long_gjson long_body path) = GString"
     "slice long_body (ps_start ?s) (ps_end ?s) = g_raw (gj_get long_gjson long_body path)" by blast
  then have "slice long_body (ps_start ?s) (ps_end ?s) = long_raw"
    by (auto simp: long_gjson_def table_defs split: if_splits)
  with pl show ?thesis by (auto simp: live_kind_def)
qed

end
