(* ===== verification/Replay.thy ===== *)
theory Replay
  imports Gjson
begin

text \<open>
  \<open>internal/cachestab/replay.go\<close>: what each session has already sent in place of which block. The
  sessions are pointers shared between the table and the handles of the turns in flight, so they
  live in a store of addresses: a handle keeps working on its session after the table evicted it.
\<close>

section \<open>Model\<close>

definition default_replay_capacity :: int where "default_replay_capacity = 256"

definition replay_stale_turns :: int where "replay_stale_turns = 3"

record replay_entry =
  re_text :: string
  re_seen :: int

record replay_session =
  rs_turn :: int
  rs_sent_count :: int
  rs_blocks :: "string \<Rightarrow> replay_entry option"

record replay_state =
  ry_capacity :: int
  ry_sessions :: "string \<Rightarrow> nat option"
  ry_order :: "string list"
  ry_heap :: "nat \<Rightarrow> replay_session"
  ry_next :: nat

text \<open>The handle \<open>SessionReplay\<close>; \<open>parent\<close> is the state the operations are applied to.\<close>

record session_replay =
  sr_sess :: nat
  sr_floor :: int
  sr_first :: bool
  sr_turn :: int

definition empty_session :: replay_session where
  "empty_session = \<lparr>rs_turn = 0, rs_sent_count = 0, rs_blocks = Map.empty\<rparr>"

definition sweep :: "replay_session \<Rightarrow> replay_session" where
  "sweep s =
     (let cutoff = rs_turn s - replay_stale_turns
      in if cutoff \<le> 0 then s
         else s\<lparr>rs_blocks := (\<lambda>k. case rs_blocks s k of None \<Rightarrow> None
                  | Some e \<Rightarrow> if re_seen e < cutoff then None else Some e)\<rparr>)"

definition new_replay_state :: "int \<Rightarrow> replay_state" where
  "new_replay_state capacity =
     \<lparr>ry_capacity = (if capacity \<le> 0 then default_replay_capacity else capacity),
      ry_sessions = Map.empty, ry_order = [], ry_heap = (\<lambda>_. empty_session), ry_next = 0\<rparr>"

definition replay_len :: "replay_state \<Rightarrow> nat" where
  "replay_len s = card (dom (ry_sessions s))"

text \<open>The session of a key, created (and the oldest evicted) when it is not there.\<close>

definition open_session :: "string \<Rightarrow> replay_state \<Rightarrow> nat \<times> bool \<times> replay_state" where
  "open_session key s =
     (case ry_sessions s key of
        Some a \<Rightarrow> (a, True, s)
      | None \<Rightarrow>
          (let s1 = (if ry_capacity s \<le> int (length (ry_order s))
                     then s\<lparr>ry_sessions := (ry_sessions s)(hd (ry_order s) := None), ry_order := tl (ry_order s)\<rparr>
                     else s);
               a = ry_next s1
           in (a, False, s1\<lparr>ry_order := ry_order s1 @ [key], ry_sessions := (ry_sessions s1)(key \<mapsto> a),
                 ry_heap := (ry_heap s1)(a := empty_session), ry_next := Suc a\<rparr>)))"

definition begin_turn :: "gjson \<Rightarrow> string \<Rightarrow> string \<Rightarrow> replay_state \<Rightarrow> session_replay \<times> replay_state" where
  "begin_turn G key body s0 =
     (let count = gj_int G (gj_get G body ''messages.#'');
          (a, seen, s) = open_session key s0;
          sess0 = ry_heap s a;
          sess = sweep (sess0\<lparr>rs_turn := rs_turn sess0 + 1\<rparr>);
          h = \<lparr>sr_sess = a, sr_floor = rs_sent_count sess, sr_first = (\<not> seen), sr_turn = rs_turn sess\<rparr>
      in (h, s\<lparr>ry_heap := (ry_heap s)(a := sess\<lparr>rs_sent_count := count\<rparr>)\<rparr>))"

definition set_block :: "nat \<Rightarrow> string \<Rightarrow> replay_entry option \<Rightarrow> replay_state \<Rightarrow> replay_state" where
  "set_block a hash e s =
     s\<lparr>ry_heap := (ry_heap s)(a := (ry_heap s a)\<lparr>rs_blocks := (rs_blocks (ry_heap s a))(hash := e)\<rparr>)\<rparr>"

definition replay_lookup :: "session_replay \<Rightarrow> string \<Rightarrow> replay_state \<Rightarrow> string option \<times> replay_state" where
  "replay_lookup h hash s =
     (case rs_blocks (ry_heap s (sr_sess h)) hash of
        None \<Rightarrow> (None, s)
      | Some e \<Rightarrow> (Some (re_text e), set_block (sr_sess h) hash (Some (e\<lparr>re_seen := sr_turn h\<rparr>)) s))"

definition replay_record :: "session_replay \<Rightarrow> string \<Rightarrow> string \<Rightarrow> replay_state \<Rightarrow> replay_state" where
  "replay_record h hash compressed s =
     set_block (sr_sess h) hash (Some \<lparr>re_text = compressed, re_seen = sr_turn h\<rparr>) s"

definition replay_forget :: "session_replay \<Rightarrow> string \<Rightarrow> replay_state \<Rightarrow> replay_state" where
  "replay_forget h hash s = set_block (sr_sess h) hash None s"

definition entry_count :: "session_replay \<Rightarrow> replay_state \<Rightarrow> nat" where
  "entry_count h s = card (dom (rs_blocks (ry_heap s (sr_sess h))))"

section \<open>Invariant\<close>

definition replay_inv :: "replay_state \<Rightarrow> bool" where
  "replay_inv s \<longleftrightarrow> 0 < ry_capacity s \<and> distinct (ry_order s) \<and> set (ry_order s) = dom (ry_sessions s)
     \<and> int (length (ry_order s)) \<le> ry_capacity s
     \<and> (\<forall>k a. ry_sessions s k = Some a \<longrightarrow> a < ry_next s)
     \<and> inj_on (ry_sessions s) (dom (ry_sessions s))"

lemma replay_inv_new: "replay_inv (new_replay_state c)"
  by (simp add: replay_inv_def new_replay_state_def default_replay_capacity_def)

lemma replay_inv_heap [simp]: "replay_inv (s\<lparr>ry_heap := hp\<rparr>) = replay_inv s"
  by (simp add: replay_inv_def)

lemma replay_len_order: "replay_inv s \<Longrightarrow> replay_len s = length (ry_order s)"
  by (simp add: replay_inv_def replay_len_def distinct_card flip: distinct_card [of "ry_order s"])

definition evict_oldest :: "replay_state \<Rightarrow> replay_state" where
  "evict_oldest s =
     (if ry_capacity s \<le> int (length (ry_order s))
      then s\<lparr>ry_sessions := (ry_sessions s)(hd (ry_order s) := None), ry_order := tl (ry_order s)\<rparr> else s)"

lemma replay_inv_evict:
  assumes "replay_inv s"
  shows "replay_inv (evict_oldest s) \<and> int (length (ry_order (evict_oldest s))) < ry_capacity s"
proof (cases "ry_order s")
  case (Cons k ks)
  then have "dom ((ry_sessions s)(k := None)) = set ks" "k \<notin> set ks" "distinct ks"
    using assms by (auto simp: replay_inv_def)
  then show ?thesis
    using assms Cons by (auto simp: replay_inv_def evict_oldest_def inj_on_def dom_def)
qed (use assms in \<open>auto simp: replay_inv_def evict_oldest_def\<close>)

lemma evict_oldest_frame [simp]:
  "ry_capacity (evict_oldest s) = ry_capacity s" "ry_heap (evict_oldest s) = ry_heap s"
  "ry_next (evict_oldest s) = ry_next s"
  by (simp_all add: evict_oldest_def)

lemma evict_oldest_sub: "ry_sessions s k = None \<Longrightarrow> ry_sessions (evict_oldest s) k = None"
  by (simp add: evict_oldest_def)

lemma open_session_new:
  "ry_sessions s key = None \<Longrightarrow> open_session key s =
     (ry_next s, False, (evict_oldest s)\<lparr>ry_order := ry_order (evict_oldest s) @ [key],
        ry_sessions := (ry_sessions (evict_oldest s))(key \<mapsto> ry_next s),
        ry_heap := (ry_heap s)(ry_next s := empty_session), ry_next := Suc (ry_next s)\<rparr>)"
  by (simp add: open_session_def evict_oldest_def Let_def)

lemma open_session_inv:
  assumes "replay_inv s" and "open_session key s = (a, seen, s')"
  shows "replay_inv s' \<and> ry_sessions s' key = Some a \<and> a < ry_next s' \<and> ry_capacity s' = ry_capacity s"
proof (cases "ry_sessions s key")
  case None
  let ?e = "evict_oldest s"
  have e: "replay_inv ?e" "int (length (ry_order ?e)) < ry_capacity s" using replay_inv_evict [OF assms(1)] by auto
  have key: "ry_sessions ?e key = None" using None by (rule evict_oldest_sub)
  have s': "a = ry_next s" "s' = ?e\<lparr>ry_order := ry_order ?e @ [key], ry_sessions := (ry_sessions ?e)(key \<mapsto> ry_next s),
     ry_heap := (ry_heap s)(ry_next s := empty_session), ry_next := Suc (ry_next s)\<rparr>"
    using assms(2) open_session_new [OF None] by (metis prod.inject)+
  have old: "ry_sessions ?e k = Some b \<Longrightarrow> b < ry_next s" for k b using e(1) by (simp add: replay_inv_def)
  have fresh: "Some (ry_next s) \<notin> ry_sessions ?e ` dom (ry_sessions ?e)"
  proof
    assume "Some (ry_next s) \<in> ry_sessions ?e ` dom (ry_sessions ?e)"
    then obtain k where "ry_sessions ?e k = Some (ry_next s)" by auto
    then show False using old by blast
  qed
  then have "inj_on ((ry_sessions ?e)(key \<mapsto> ry_next s)) (dom (ry_sessions ?e))"
    using e(1) by (intro inj_on_fun_updI) (simp_all add: replay_inv_def)
  moreover have "Some (ry_next s) \<notin> ((ry_sessions ?e)(key \<mapsto> ry_next s)) ` (dom (ry_sessions ?e) - {key})"
    using fresh by auto
  ultimately have "inj_on ((ry_sessions ?e)(key \<mapsto> ry_next s)) (insert key (dom (ry_sessions ?e)))"
    by (simp add: inj_on_insert)
  then show ?thesis
    using e key old by (auto simp: s' replay_inv_def less_SucI domIff)
next
  case (Some b)
  then show ?thesis using assms by (auto simp: open_session_def replay_inv_def)
qed

lemma replay_inv_ops [simp]:
  "replay_inv (set_block a k e s) = replay_inv s"
  "replay_inv (snd (replay_lookup h k s)) = replay_inv s"
  "replay_inv (replay_record h k v s) = replay_inv s"
  "replay_inv (replay_forget h k s) = replay_inv s"
  by (simp_all add: set_block_def replay_lookup_def replay_record_def replay_forget_def split: option.splits)

lemma begin_turn_open:
  assumes "open_session key s = (a, seen, s1)"
  shows "begin_turn G key body s =
     (let sess = sweep ((ry_heap s1 a)\<lparr>rs_turn := rs_turn (ry_heap s1 a) + 1\<rparr>)
      in (\<lparr>sr_sess = a, sr_floor = rs_sent_count sess, sr_first = (\<not> seen), sr_turn = rs_turn sess\<rparr>,
          s1\<lparr>ry_heap := (ry_heap s1)(a := sess\<lparr>rs_sent_count := gj_int G (gj_get G body ''messages.#'')\<rparr>)\<rparr>))"
  by (simp only: begin_turn_def assms Let_def prod.case)

lemma begin_turn_inv:
  assumes "replay_inv s" and "begin_turn G key body s = (h, s')"
  shows "replay_inv s' \<and> sr_sess h < ry_next s' \<and> ry_sessions s' key = Some (sr_sess h) \<and> ry_capacity s' = ry_capacity s"
proof -
  obtain a seen s1 where o: "open_session key s = (a, seen, s1)" by (metis prod_cases3)
  obtain hp where "s' = s1\<lparr>ry_heap := hp\<rparr>" "sr_sess h = a"
    using assms(2) unfolding begin_turn_open [OF o] Let_def by auto
  then show ?thesis using open_session_inv [OF assms(1) o] by simp
qed

text \<open>A fresh handle is current: its turn is its session's.\<close>

lemma begin_turn_current:
  assumes "begin_turn G key body s = (h, s')"
  shows "sr_turn h = rs_turn (ry_heap s' (sr_sess h))"
proof -
  obtain a seen s1 where o: "open_session key s = (a, seen, s1)" by (metis prod_cases3)
  show ?thesis using assms unfolding begin_turn_open [OF o] Let_def by auto
qed

section \<open>Histories\<close>

text \<open>
  An event opens a turn, or uses a handle issued by an earlier turn, by its number; a handle that
  was never issued does nothing. Handles of any sessions and turns interleave freely.
\<close>

datatype replay_event =
    EBegin string string
  | ELookup nat string
  | ERecord nat string string
  | EForget nat string

fun replay_step :: "gjson \<Rightarrow> replay_event \<Rightarrow> replay_state \<times> session_replay list \<Rightarrow> replay_state \<times> session_replay list" where
  "replay_step G (EBegin key body) (s, hs) = (let (h, s') = begin_turn G key body s in (s', hs @ [h]))"
| "replay_step G (ELookup i k) (s, hs) = (if i < length hs then (snd (replay_lookup (hs ! i) k s), hs) else (s, hs))"
| "replay_step G (ERecord i k v) (s, hs) = (if i < length hs then (replay_record (hs ! i) k v s, hs) else (s, hs))"
| "replay_step G (EForget i k) (s, hs) = (if i < length hs then (replay_forget (hs ! i) k s, hs) else (s, hs))"

definition replay_run :: "gjson \<Rightarrow> replay_event list \<Rightarrow> replay_state \<Rightarrow> replay_state \<times> session_replay list" where
  "replay_run G evs s = fold (replay_step G) evs (s, [])"

text \<open>What each session object last recorded under each hash.\<close>

fun recorded_step :: "session_replay list \<Rightarrow> replay_event \<Rightarrow> (nat \<times> string \<Rightarrow> string option) \<Rightarrow> nat \<times> string \<Rightarrow> string option" where
  "recorded_step hs (ERecord i k v) r = (if i < length hs then r((sr_sess (hs ! i), k) \<mapsto> v) else r)"
| "recorded_step hs (EForget i k) r = (if i < length hs then r((sr_sess (hs ! i), k) := None) else r)"
| "recorded_step hs _ r = r"

fun recorded_from :: "gjson \<Rightarrow> replay_event list \<Rightarrow> replay_state \<times> session_replay list \<Rightarrow> (nat \<times> string \<Rightarrow> string option)
    \<Rightarrow> nat \<times> string \<Rightarrow> string option" where
  "recorded_from G [] st r = r"
| "recorded_from G (ev # evs) st r = recorded_from G evs (replay_step G ev st) (recorded_step (snd st) ev r)"

definition recorded :: "gjson \<Rightarrow> replay_event list \<Rightarrow> replay_state \<Rightarrow> nat \<times> string \<Rightarrow> string option" where
  "recorded G evs s = recorded_from G evs (s, []) (\<lambda>_. None)"

text \<open>Every entry of every session object is what was recorded.\<close>

definition agrees :: "replay_state \<Rightarrow> (nat \<times> string \<Rightarrow> string option) \<Rightarrow> bool" where
  "agrees s r \<longleftrightarrow> (\<forall>a k e. rs_blocks (ry_heap s a) k = Some e \<longrightarrow> r (a, k) = Some (re_text e))"

lemma sweep_sub: "rs_blocks (sweep s) k = Some e \<Longrightarrow> rs_blocks s k = Some e"
  by (auto simp: sweep_def Let_def split: if_splits option.splits)

lemma open_session_agrees:
  assumes "agrees s r" and "open_session key s = (a, seen, s')"
  shows "agrees s' r"
proof (cases "ry_sessions s key")
  case None
  have "ry_heap s' = (ry_heap s)(ry_next s := empty_session)"
    using assms(2) unfolding open_session_new [OF None] by auto
  then show ?thesis using assms(1) by (simp add: agrees_def empty_session_def)
qed (use assms in \<open>simp add: open_session_def\<close>)

lemma begin_turn_agrees:
  assumes "agrees s r" shows "agrees (snd (begin_turn G key body s)) r"
proof -
  obtain a seen s1 where o: "open_session key s = (a, seen, s1)" by (metis prod_cases3)
  then have "agrees s1 r" using assms open_session_agrees by blast
  then show ?thesis
    unfolding begin_turn_open [OF o] by (auto simp: agrees_def Let_def dest!: sweep_sub)
qed

lemma replay_step_safe:
  assumes "replay_inv (fst st)" and "agrees (fst st) r"
  shows "replay_inv (fst (replay_step G ev st)) \<and> agrees (fst (replay_step G ev st)) (recorded_step (snd st) ev r)
    \<and> ry_capacity (fst (replay_step G ev st)) = ry_capacity (fst st)"
proof (cases st)
  case (Pair s hs)
  show ?thesis
  proof (cases ev)
    case (EBegin key body)
    obtain h s' where b: "begin_turn G key body s = (h, s')" by (cases "begin_turn G key body s")
    then show ?thesis
      using assms begin_turn_inv [of s G key body h s'] begin_turn_agrees [of s r G key body] Pair EBegin by simp
  qed (use assms Pair in \<open>auto simp: replay_lookup_def replay_record_def replay_forget_def set_block_def agrees_def
      split: option.splits if_splits\<close>)
qed

lemma replay_run_safe:
  "replay_inv (fst st) \<Longrightarrow> agrees (fst st) r \<Longrightarrow>
     replay_inv (fst (fold (replay_step G) evs st)) \<and> agrees (fst (fold (replay_step G) evs st)) (recorded_from G evs st r)
     \<and> ry_capacity (fst (fold (replay_step G) evs st)) = ry_capacity (fst st)"
proof (induction evs arbitrary: st r)
  case (Cons ev evs)
  from replay_step_safe [OF Cons.prems, of G ev] Cons.IH [of "replay_step G ev st" "recorded_step (snd st) ev r"]
  show ?case by simp
qed simp

section \<open>Lifetime of an entry\<close>

definition begin_all :: "gjson \<Rightarrow> string \<Rightarrow> string list \<Rightarrow> replay_state \<Rightarrow> replay_state" where
  "begin_all G key bodies s = fold (\<lambda>body s. snd (begin_turn G key body s)) bodies s"

lemma begin_turn_known:
  assumes "ry_sessions s key = Some a"
  shows "let s' = snd (begin_turn G key body s)
         in ry_sessions s' key = Some a \<and> rs_turn (ry_heap s' a) = rs_turn (ry_heap s a) + 1
          \<and> rs_blocks (ry_heap s' a) k = (case rs_blocks (ry_heap s a) k of None \<Rightarrow> None
               | Some e \<Rightarrow> if 3 < rs_turn (ry_heap s a) + 1 \<and> re_seen e < rs_turn (ry_heap s a) - 2 then None else Some e)"
proof -
  have o: "open_session key s = (a, True, s)" using assms by (simp add: open_session_def)
  show ?thesis
    unfolding begin_turn_open [OF o]
    using assms by (auto simp: sweep_def replay_stale_turns_def Let_def split: option.splits)
qed

lemma begin_all_entry:
  assumes "ry_sessions s key = Some a" and "1 \<le> re_seen e" and "re_seen e + int n = rs_turn (ry_heap s a)"
    and "rs_blocks (ry_heap s a) k = (if n \<le> 3 then Some e else None)"
  shows "rs_blocks (ry_heap (begin_all G key bodies s) a) k = (if n + length bodies \<le> 3 then Some e else None)"
  using assms
proof (induction bodies arbitrary: s n)
  case Nil then show ?case by (simp add: begin_all_def)
next
  case (Cons body bodies)
  let ?s = "snd (begin_turn G key body s)"
  have st: "ry_sessions ?s key = Some a" "re_seen e + int (Suc n) = rs_turn (ry_heap ?s a)"
    "rs_blocks (ry_heap ?s a) k = (if Suc n \<le> 3 then Some e else None)"
    using begin_turn_known [OF Cons.prems(1), of G body k] Cons.prems by (auto simp: Let_def split: if_splits)
  from Cons.IH [OF st(1) Cons.prems(2) st(2,3)] show ?case by (simp add: begin_all_def)
qed

section \<open>Properties\<close>


text \<open>An entry recorded in a turn survives exactly three further turns of its session in which it is
  not looked up; on the fourth it is swept.\<close>

theorem replay_entry_lifetime:
  assumes "ry_sessions s key = Some (sr_sess h)" and "sr_turn h = rs_turn (ry_heap s (sr_sess h))" and "1 \<le> sr_turn h"
  shows "fst (replay_lookup h k (begin_all G key bodies (replay_record h k v s)))
       = (if length bodies \<le> 3 then Some v else None)"
proof -
  let ?s = "replay_record h k v s" and ?e = "\<lparr>re_text = v, re_seen = sr_turn h\<rparr>"
  have "rs_blocks (ry_heap (begin_all G key bodies ?s) (sr_sess h)) k = (if 0 + length bodies \<le> 3 then Some ?e else None)"
    using assms by (intro begin_all_entry) (simp_all add: replay_record_def set_block_def)
  then show ?thesis by (simp add: replay_lookup_def)
qed

theorem replay_entry_lifetime_witness:
  "let (h, s) = begin_turn (table_gjson [] [] []) ''sess'' ''{}'' (new_replay_state 2)
   in fst (replay_lookup h ''k'' (begin_all (table_gjson [] [] []) ''sess'' [''1'', ''2'', ''3''] (replay_record h ''k'' ''v'' s))) = Some ''v''
      \<and> fst (replay_lookup h ''k'' (begin_all (table_gjson [] [] []) ''sess'' [''1'', ''2'', ''3'', ''4''] (replay_record h ''k'' ''v'' s))) = None"
proof -
  let ?G = "table_gjson [] [] []"
  obtain h s where hs: "begin_turn ?G ''sess'' ''{}'' (new_replay_state 2) = (h, s)"
    by (cases "begin_turn ?G ''sess'' ''{}'' (new_replay_state 2)")
  have k: "ry_sessions s ''sess'' = Some (sr_sess h)" using begin_turn_inv [OF replay_inv_new hs] by blast
  have o: "open_session ''sess'' (new_replay_state 2) = (0, False, (new_replay_state 2)\<lparr>ry_order := [''sess''],
      ry_sessions := [''sess'' \<mapsto> 0], ry_heap := (\<lambda>_. empty_session)(0 := empty_session), ry_next := 1\<rparr>)"
    by (simp add: open_session_def new_replay_state_def)
  have t: "sr_turn h = rs_turn (ry_heap s (sr_sess h))" "1 \<le> sr_turn h"
    using hs unfolding begin_turn_open [OF o]
    by (auto simp: Let_def sweep_def empty_session_def replay_stale_turns_def)
  show ?thesis
    using replay_entry_lifetime [OF k t, of "''k''" ?G "[''1'', ''2'', ''3'']" "''v''"]
      replay_entry_lifetime [OF k t, of "''k''" ?G "[''1'', ''2'', ''3'', ''4'']" "''v''"]
    by (simp add: hs)
qed

end
