(* ===== verification/CacheControl.thy ===== *)
theory CacheControl
  imports Gjson
begin

text \<open>
  \<open>internal/cachecontrol/cachecontrol.go\<close>: the frozen-message floor derived from the customer's
  \<open>cache_control\<close> markers, and the advisory on the order of their TTLs.
\<close>

section \<open>Model\<close>

record warning =
  w_field :: string
  w_index :: int
  w_msg :: string

definition ttl_order_msg :: string where
  "ttl_order_msg = ''cache_control ttl 1h follows 5m; Anthropic expects 1h markers first''"

text \<open>\<open>checkTTLOrder\<close>: the updated \<open>seen5m\<close> and the warning, if any.\<close>

definition check_ttl_order :: "gjson \<Rightarrow> gres \<Rightarrow> bool \<Rightarrow> string \<Rightarrow> int \<Rightarrow> bool \<times> warning option" where
  "check_ttl_order G marker seen5m field index =
     (let ttl = gj_string G (gj_sub G marker ''ttl'')
      in if ttl = ''5m'' then (True, None)
         else if ttl = ''1h'' \<and> seen5m
              then (seen5m, Some \<lparr>w_field = field, w_index = index, w_msg = ttl_order_msg\<rparr>)
         else (seen5m, None))"

text \<open>The walk's variables: \<open>highest\<close>, \<open>seen5m\<close>, \<open>warns\<close>.\<close>

record walk =
  wk_highest :: int
  wk_seen5m :: bool
  wk_warns :: "warning list"

text \<open>One marker of \<open>messages\<close>: raise the floor, check the order.\<close>

definition note_marker :: "gjson \<Rightarrow> int \<Rightarrow> gres \<Rightarrow> walk \<Rightarrow> walk" where
  "note_marker G i marker w =
     (let (seen, warn) = check_ttl_order G marker (wk_seen5m w) ''messages'' i
      in \<lparr>wk_highest = (if wk_highest w < i then i else wk_highest w), wk_seen5m = seen,
          wk_warns = wk_warns w @ (case warn of None \<Rightarrow> [] | Some x \<Rightarrow> [x])\<rparr>)"

fun walk_nested :: "gjson \<Rightarrow> int \<Rightarrow> gres list \<Rightarrow> walk \<Rightarrow> walk" where
  "walk_nested G i [] w = w"
| "walk_nested G i (elem # elems) w =
     (let marker = gj_sub G elem ''cache_control''
      in if \<not> gj_is_object G marker then walk_nested G i elems w
         else walk_nested G i elems (note_marker G i marker w))"

fun walk_blocks :: "gjson \<Rightarrow> int \<Rightarrow> gres list \<Rightarrow> walk \<Rightarrow> walk" where
  "walk_blocks G i [] w = w"
| "walk_blocks G i (block # blocks) w =
     (let marker = gj_sub G block ''cache_control''
      in if \<not> gj_is_object G marker
         then (if gj_string G (gj_sub G block ''type'') = ''tool_result''
               then (let nested = gj_sub G block ''content''
                     in if gj_is_array G nested
                        then walk_blocks G i blocks (walk_nested G i (gj_array G nested) w)
                        else walk_blocks G i blocks w)
               else walk_blocks G i blocks w)
         else walk_blocks G i blocks (note_marker G i marker w))"

fun walk_messages :: "gjson \<Rightarrow> nat \<Rightarrow> gres list \<Rightarrow> walk \<Rightarrow> walk" where
  "walk_messages G i [] w = w"
| "walk_messages G i (msg # msgs) w =
     (let blocks = gj_sub G msg ''content''
      in if \<not> gj_is_array G blocks then walk_messages G (Suc i) msgs w
         else walk_messages G (Suc i) msgs (walk_blocks G (int i) (gj_array G blocks) w))"

text \<open>\<open>walkList\<close> for the \<open>system\<close> and \<open>tools\<close> lists.\<close>

fun walk_list_loop :: "gjson \<Rightarrow> string \<Rightarrow> gres list \<Rightarrow> bool \<Rightarrow> warning list" where
  "walk_list_loop G field [] seen5m = []"
| "walk_list_loop G field (block # blocks) seen5m =
     (let marker = gj_sub G block ''cache_control''
      in if \<not> gj_is_object G marker then walk_list_loop G field blocks seen5m
         else (let (seen, warn) = check_ttl_order G marker seen5m field (-1)
               in (case warn of None \<Rightarrow> [] | Some x \<Rightarrow> [x]) @ walk_list_loop G field blocks seen))"

definition walk_list :: "gjson \<Rightarrow> gres \<Rightarrow> string \<Rightarrow> warning list" where
  "walk_list G list field = (if \<not> gj_is_array G list then [] else walk_list_loop G field (gj_array G list) False)"

definition compute_frozen_count :: "gjson \<Rightarrow> string \<Rightarrow> int \<times> warning list" where
  "compute_frozen_count G body =
     (let root = gj_parse G body
      in if \<not> gj_is_object G root then (0, [])
         else (let messages = gj_sub G root ''messages'';
                   w0 = \<lparr>wk_highest = -1, wk_seen5m = False, wk_warns = []\<rparr>;
                   w = (if gj_is_array G messages then walk_messages G 0 (gj_array G messages) w0 else w0);
                   warns = wk_warns w @ walk_list G (gj_sub G root ''system'') ''system''
                             @ walk_list G (gj_sub G root ''tools'') ''tools''
               in if wk_highest w < 0 then (0, warns) else (wk_highest w + 1, warns)))"

section \<open>Specification\<close>

text \<open>The markers a list of blocks carries, in document order.\<close>

definition markers_of_elem :: "gjson \<Rightarrow> gres \<Rightarrow> gres list" where
  "markers_of_elem G e = (let m = gj_sub G e ''cache_control'' in if gj_is_object G m then [m] else [])"

definition markers_of_block :: "gjson \<Rightarrow> gres \<Rightarrow> gres list" where
  "markers_of_block G b =
     (if gj_is_object G (gj_sub G b ''cache_control'') then [gj_sub G b ''cache_control'']
      else if gj_string G (gj_sub G b ''type'') = ''tool_result'' \<and> gj_is_array G (gj_sub G b ''content'')
      then concat (map (markers_of_elem G) (gj_array G (gj_sub G b ''content''))) else [])"

definition markers_of_message :: "gjson \<Rightarrow> gres \<Rightarrow> gres list" where
  "markers_of_message G m =
     (if gj_is_array G (gj_sub G m ''content'')
      then concat (map (markers_of_block G) (gj_array G (gj_sub G m ''content''))) else [])"

text \<open>The message indices that carry a marker, each with the marker's TTL, in document order.\<close>

definition message_ttls :: "gjson \<Rightarrow> gres list \<Rightarrow> (int \<times> string) list" where
  "message_ttls G msgs = concat (map (\<lambda>(i, m). map (\<lambda>k. (int i, gj_string G (gj_sub G k ''ttl''))) (markers_of_message G m))
       (enumerate 0 msgs))"

text \<open>A warning is due for every 1h marker with a 5m marker before it in the same field.\<close>

definition due_from :: "string \<Rightarrow> bool \<Rightarrow> (int \<times> string) list \<Rightarrow> warning list" where
  "due_from field seen ts =
     map (\<lambda>n. \<lparr>w_field = field, w_index = fst (ts ! n), w_msg = ttl_order_msg\<rparr>)
       (filter (\<lambda>n. snd (ts ! n) = ''1h'' \<and> (seen \<or> (\<exists>k<n. snd (ts ! k) = ''5m''))) [0..<length ts])"

abbreviation due_warnings :: "string \<Rightarrow> (int \<times> string) list \<Rightarrow> warning list" where
  "due_warnings field \<equiv> due_from field False"

lemma due_from_Nil [simp]: "due_from field seen [] = []"
  by (simp add: due_from_def)

lemma due_from_Cons:
  "due_from field seen ((i, ttl) # ts) =
     (if ttl = ''1h'' \<and> seen then [\<lparr>w_field = field, w_index = i, w_msg = ttl_order_msg\<rparr>] else [])
       @ due_from field (seen \<or> ttl = ''5m'') ts"
proof -
  have "[0..<length ((i, ttl) # ts)] = 0 # map Suc [0..<length ts]"
    by (simp add: upt_conv_Cons map_Suc_upt del: upt_Suc)
  moreover have "(\<exists>k<Suc n. snd (((i, ttl) # ts) ! k) = ''5m'') \<longleftrightarrow> ttl = ''5m'' \<or> (\<exists>k<n. snd (ts ! k) = ''5m'')" for n
    by (auto simp: less_Suc_eq_0_disj)
  ultimately show ?thesis by (simp add: due_from_def filter_map comp_def del: upt_Suc)
qed

text \<open>The walk over the flat list of indices and TTLs.\<close>

fun walk_flat :: "(int \<times> string) list \<Rightarrow> walk \<Rightarrow> walk" where
  "walk_flat [] w = w"
| "walk_flat ((i, ttl) # ts) w =
     walk_flat ts \<lparr>wk_highest = max (wk_highest w) i, wk_seen5m = (wk_seen5m w \<or> ttl = ''5m''),
       wk_warns = wk_warns w @ (if ttl = ''1h'' \<and> wk_seen5m w
          then [\<lparr>w_field = ''messages'', w_index = i, w_msg = ttl_order_msg\<rparr>] else [])\<rparr>"

lemma walk_flat_append: "walk_flat (xs @ ys) w = walk_flat ys (walk_flat xs w)"
  by (induction xs w rule: walk_flat.induct) auto

lemma note_marker_flat:
  "note_marker G i marker w = walk_flat [(i, gj_string G (gj_sub G marker ''ttl''))] w"
  by (auto simp: note_marker_def check_ttl_order_def Let_def max_def)

lemma walk_nested_flat:
  "walk_nested G i elems w =
     walk_flat (map (\<lambda>k. (i, gj_string G (gj_sub G k ''ttl''))) (concat (map (markers_of_elem G) elems))) w"
  by (induction G i elems w rule: walk_nested.induct)
     (auto simp: Let_def markers_of_elem_def note_marker_flat)

lemma walk_blocks_flat:
  "walk_blocks G i blocks w =
     walk_flat (map (\<lambda>k. (i, gj_string G (gj_sub G k ''ttl''))) (concat (map (markers_of_block G) blocks))) w"
  by (induction G i blocks w rule: walk_blocks.induct)
     (auto simp: Let_def markers_of_block_def note_marker_flat walk_nested_flat walk_flat_append)

lemma walk_messages_flat:
  "walk_messages G i msgs w = walk_flat (concat (map (\<lambda>(i, m). map (\<lambda>k. (int i, gj_string G (gj_sub G k ''ttl'')))
       (markers_of_message G m)) (enumerate i msgs))) w"
  by (induction G i msgs w rule: walk_messages.induct)
     (auto simp: Let_def markers_of_message_def walk_blocks_flat walk_flat_append)

lemma walk_flat_highest: "wk_highest (walk_flat ts w) = foldl max (wk_highest w) (map fst ts)"
  by (induction ts w rule: walk_flat.induct) auto

lemma foldl_max: "foldl max (a :: int) xs = Max (insert a (set xs))"
proof (induction xs arbitrary: a)
  case (Cons x xs)
  have "foldl max (max a x) xs = Max (insert (max a x) (set xs))" by (rule Cons.IH)
  also have "\<dots> = Max (insert a (insert x (set xs)))"
    by (cases "xs = []") (auto simp: max.assoc)
  finally show ?case by simp
qed simp

lemma walk_flat_warns:
  "wk_warns (walk_flat ts w) = wk_warns w @ due_from ''messages'' (wk_seen5m w) ts"
  by (induction ts w rule: walk_flat.induct) (simp_all add: due_from_Cons)

section \<open>The system and tools lists\<close>

definition list_ttls :: "gjson \<Rightarrow> gres \<Rightarrow> (int \<times> string) list" where
  "list_ttls G list = (if \<not> gj_is_array G list then [] else
     map (\<lambda>k. (-1, gj_string G (gj_sub G k ''ttl''))) (concat (map (markers_of_elem G) (gj_array G list))))"

lemma walk_list_loop_due:
  "walk_list_loop G field blocks seen =
     due_from field seen (map (\<lambda>k. (-1, gj_string G (gj_sub G k ''ttl''))) (concat (map (markers_of_elem G) blocks)))"
proof (induction blocks arbitrary: seen)
  case (Cons block blocks)
  let ?ttl = "gj_string G (gj_sub G (gj_sub G block ''cache_control'') ''ttl'')"
  have "check_ttl_order G (gj_sub G block ''cache_control'') seen field (-1) =
      (seen \<or> ?ttl = ''5m'', if ?ttl = ''1h'' \<and> seen
        then Some \<lparr>w_field = field, w_index = -1, w_msg = ttl_order_msg\<rparr> else None)"
    by (auto simp: check_ttl_order_def Let_def)
  then show ?case by (simp add: Cons.IH markers_of_elem_def due_from_Cons Let_def)
qed simp

lemma walk_list_due: "walk_list G list field = due_warnings field (list_ttls G list)"
  by (simp add: walk_list_def list_ttls_def walk_list_loop_due)

section \<open>Properties\<close>

text \<open>The messages array of a request body, empty when there is none.\<close>

definition messages_of :: "gjson \<Rightarrow> string \<Rightarrow> gres list" where
  "messages_of G body =
     (let root = gj_parse G body; messages = gj_sub G root ''messages''
      in if gj_is_object G root \<and> gj_is_array G messages then gj_array G messages else [])"

text \<open>The indices of the messages that carry at least one marker.\<close>

definition marked_messages :: "gjson \<Rightarrow> string \<Rightarrow> int set" where
  "marked_messages G body = {int i | i. i < length (messages_of G body) \<and> markers_of_message G (messages_of G body ! i) \<noteq> []}"

lemma message_ttls_index:
  "fst ` set (message_ttls G msgs) = {int i | i. i < length msgs \<and> markers_of_message G (msgs ! i) \<noteq> []}"
proof -
  have "set (enumerate 0 msgs) = {(i, msgs ! i) | i. i < length msgs}"
    by (auto simp: in_set_enumerate_eq)
  moreover have "fst ` set (map (\<lambda>k. (int i, f k)) ks) = (if ks = [] then {} else {int i})"
    for i :: nat and f :: "gres \<Rightarrow> string" and ks
    by (cases ks) auto
  then have "fst ` set (message_ttls G msgs) =
      (\<Union>p\<in>set (enumerate 0 msgs). if markers_of_message G (snd p) = [] then {} else {int (fst p)})"
    by (simp add: message_ttls_def image_UN case_prod_unfold)
  ultimately show ?thesis by (auto split: if_splits)
qed

lemma frozen_walk:
  "compute_frozen_count G body =
     (if \<not> gj_is_object G (gj_parse G body) then (0, []) else
      (let ts = message_ttls G (messages_of G body); h = Max (insert (-1) (fst ` set ts));
           warns = due_warnings ''messages'' ts
             @ due_warnings ''system'' (list_ttls G (gj_sub G (gj_parse G body) ''system''))
             @ due_warnings ''tools'' (list_ttls G (gj_sub G (gj_parse G body) ''tools''))
       in if h < 0 then (0, warns) else (h + 1, warns)))"
proof -
  let ?w0 = "\<lparr>wk_highest = -1, wk_seen5m = False, wk_warns = []\<rparr>"
  let ?ts = "message_ttls G (messages_of G body)"
  have "(if gj_is_array G (gj_sub G (gj_parse G body) ''messages'')
     then walk_messages G 0 (gj_array G (gj_sub G (gj_parse G body) ''messages'')) ?w0 else ?w0) = walk_flat ?ts ?w0"
    if "gj_is_object G (gj_parse G body)"
    using that by (simp add: messages_of_def message_ttls_def walk_messages_flat Let_def)
  moreover have "wk_highest (walk_flat ?ts ?w0) = Max (insert (-1) (fst ` set ?ts))"
    by (simp add: walk_flat_highest foldl_max)
  moreover have "wk_warns (walk_flat ?ts ?w0) = due_warnings ''messages'' ?ts"
    by (simp add: walk_flat_warns)
  ultimately show ?thesis
    by (simp add: compute_frozen_count_def walk_list_due Let_def)
qed

text \<open>C14. The floor is the smallest number that lies above every marked message, whether its marker sits on a
  block or on an element nested in a tool result: 0 when no message is marked.\<close>

theorem frozen_count_floor:
  "fst (compute_frozen_count G body) = Max (insert 0 ((\<lambda>i. i + 1) ` marked_messages G body))"
proof -
  let ?S = "fst ` set (message_ttls G (messages_of G body))"
  have S: "?S = marked_messages G body" by (simp add: marked_messages_def message_ttls_index)
  have fin: "finite (marked_messages G body)" unfolding S [symmetric] by simp
  have nonneg: "0 \<le> x" if "x \<in> marked_messages G body" for x using that by (auto simp: marked_messages_def)
  have m: "Max (insert (-1) A) + 1 = Max (insert 0 ((\<lambda>i. i + 1) ` A))" if "finite A" for A :: "int set"
    using mono_Max_commute [of "\<lambda>i. i + 1" "insert (-1) A"] that by (simp add: mono_def)
  have le: "-1 \<le> Max (insert (-1) (marked_messages G body))" using fin by simp
  show ?thesis
  proof (cases "gj_is_object G (gj_parse G body)")
    case True
    have "fst (compute_frozen_count G body) = Max (insert (-1) (marked_messages G body)) + 1"
      using True le by (cases "Max (insert (-1) (marked_messages G body)) < 0") (simp_all only: frozen_walk S Let_def, simp_all)
    then show ?thesis by (simp only: m [OF fin])
  next
    case False
    then have "marked_messages G body = {}" by (simp add: marked_messages_def messages_of_def)
    with False show ?thesis by (simp add: frozen_walk)
  qed
qed

text \<open>The advisories are exactly the 1h markers that follow a 5m marker of the same field: the messages
  as one field in document order, then \<open>system\<close>, then \<open>tools\<close>; the last two never move the floor.\<close>

theorem frozen_count_warnings:
  "snd (compute_frozen_count G body) =
     (if gj_is_object G (gj_parse G body)
      then due_warnings ''messages'' (message_ttls G (messages_of G body))
        @ due_warnings ''system'' (list_ttls G (gj_sub G (gj_parse G body) ''system''))
        @ due_warnings ''tools'' (list_ttls G (gj_sub G (gj_parse G body) ''tools'')) else [])"
  by (simp add: frozen_walk Let_def)

end
