(* ===== verification/ImageFit.thy ===== *)
theory ImageFit
  imports GoFloat CcrMarker "HOL-Library.Word"
begin

text \<open>
  \<open>internal/livezone/image.go\<close>: the visual token formula, the largest size that fits the vision
  tier, the box downsampler, and the gates of \<open>fitImage\<close>. The PNG and JPEG codecs of
  \<open>image\<close> are parameters; base64 is modelled.
\<close>

section \<open>Sizes\<close>

definition count_image_tokens :: "int \<Rightarrow> int \<Rightarrow> int" where
  "count_image_tokens width height = \<lceil>f64 (of_int width / 28)\<rceil> * \<lceil>f64 (of_int height / 28)\<rceil>"

definition fits :: "int \<Rightarrow> int \<Rightarrow> int \<times> int \<Rightarrow> bool" where
  "fits max_edge max_tokens wh \<longleftrightarrow>
     fst wh \<le> max_edge \<and> snd wh \<le> max_edge \<and> count_image_tokens (fst wh) (snd wh) \<le> max_tokens"

definition landscape_size :: "rat \<Rightarrow> int \<Rightarrow> int \<times> int" where
  "landscape_size aspect mid = (mid, rne (f64 (of_int mid / aspect)))"

definition portrait_size :: "rat \<Rightarrow> int \<Rightarrow> int \<times> int" where
  "portrait_size aspect mid = (rne (f64 (of_int mid * aspect)), mid)"

text \<open>The two binary searches: \<open>target\<close> is the best size so far.\<close>

function search_edge :: "(int \<Rightarrow> int \<times> int) \<Rightarrow> int \<Rightarrow> int \<Rightarrow> int \<Rightarrow> int \<Rightarrow> int \<times> int \<Rightarrow> int \<times> int" where
  "search_edge size_at max_edge max_tokens low high target =
     (if low \<le> high then
        (let mid = (low + high) div 2
         in if fits max_edge max_tokens (size_at mid)
            then search_edge size_at max_edge max_tokens (mid + 1) high (size_at mid)
            else search_edge size_at max_edge max_tokens low (mid - 1) target)
      else target)"
  by pat_completeness auto
termination
  by (relation "measure (\<lambda>(_, _, _, low, high, _). nat (high - low + 1))") auto

declare search_edge.simps [simp del]

definition resized_size :: "int \<Rightarrow> int \<Rightarrow> int \<Rightarrow> int \<Rightarrow> int \<times> int" where
  "resized_size width height max_edge max_tokens =
     (if width \<le> max_edge \<and> height \<le> max_edge \<and> count_image_tokens width height \<le> max_tokens
      then (width, height)
      else (let aspect = f64 (of_int width / of_int height)
            in if height < width
               then search_edge (landscape_size aspect) max_edge max_tokens 1 max_edge (0, 0)
               else search_edge (portrait_size aspect) max_edge max_tokens 1 max_edge (0, 0)))"

section \<open>Downsampling\<close>

text \<open>An image: its bounds and \<open>At(x, y).RGBA()\<close>, premultiplied 16-bit channels.\<close>

record pixel = px_r :: nat  px_g :: nat  px_b :: nat  px_a :: nat

record image =
  im_min_x :: int
  im_min_y :: int
  im_dx :: int
  im_dy :: int
  im_at :: "int \<Rightarrow> int \<Rightarrow> pixel"

text \<open>The pixels of one box, in the order of the two inner loops.\<close>

definition box_pixels :: "image \<Rightarrow> int \<Rightarrow> int \<Rightarrow> int \<Rightarrow> int \<Rightarrow> pixel list" where
  "box_pixels src x0 x1 y0 y1 =
     concat (map (\<lambda>sy. map (\<lambda>sx. im_at src (sx + im_min_x src) (sy + im_min_y src)) [x0..x1 - 1]) [y0..y1 - 1])"

definition u64 :: "nat \<Rightarrow> nat" where "u64 n = n mod 2 ^ 64"

definition sum_channel :: "(pixel \<Rightarrow> nat) \<Rightarrow> pixel list \<Rightarrow> nat" where
  "sum_channel ch ps = foldl (\<lambda>s p. u64 (s + ch p)) 0 ps"

text \<open>Un-premultiply one channel: clamped to 255.\<close>

definition unpremultiply :: "nat \<Rightarrow> nat \<Rightarrow> nat \<Rightarrow> nat" where
  "unpremultiply acc cnt avg_a = min (u64 (acc * 65535) div cnt div avg_a div 256) 255"

text \<open>One destination pixel (8-bit, not premultiplied); an empty box leaves the zero value.\<close>

definition box_average :: "pixel list \<Rightarrow> pixel" where
  "box_average ps =
     (let count = length ps
      in if 0 < count then
           (let avg_a = sum_channel px_a ps div count mod 65536;
                ch = (\<lambda>c. if 0 < avg_a then unpremultiply (sum_channel c ps) count avg_a mod 256 else 0)
            in \<lparr>px_r = ch px_r, px_g = ch px_g, px_b = ch px_b, px_a = avg_a div 256 mod 256\<rparr>)
         else \<lparr>px_r = 0, px_g = 0, px_b = 0, px_a = 0\<rparr>)"

definition box_bounds :: "int \<Rightarrow> int \<Rightarrow> int \<Rightarrow> int \<times> int" where
  "box_bounds d src_len dst_len = ((d * src_len) div dst_len, ((d + 1) * src_len) div dst_len)"

definition box_downsample :: "image \<Rightarrow> int \<Rightarrow> int \<Rightarrow> pixel list list" where
  "box_downsample src dw dh =
     map (\<lambda>dy. map (\<lambda>dx.
         let (x0, x1) = box_bounds dx (im_dx src) dw; (y0, y1) = box_bounds dy (im_dy src) dh
         in box_average (box_pixels src x0 x1 y0 y1)) [0..dw - 1]) [0..dh - 1]"

section \<open>Base64\<close>

text \<open>\<open>base64.StdEncoding\<close>: padded, line breaks ignored when decoding.\<close>

definition b64_alphabet :: string where
  "b64_alphabet = ''ABCDEFGHIJKLMNOPQRSTUVWXYZabcdefghijklmnopqrstuvwxyz0123456789+/''"

definition b64_char :: "nat \<Rightarrow> char" where "b64_char v = b64_alphabet ! v"

definition b64_val :: "char \<Rightarrow> nat option" where
  "b64_val c = (if is_upper c then Some (ord c - 65)
     else if is_lower c then Some (ord c - 71)
     else if is_digit c then Some (ord c + 4)
     else if c = CHR ''+'' then Some 62 else if c = CHR ''/'' then Some 63 else None)"

fun b64_encode :: "string \<Rightarrow> string" where
  "b64_encode [] = []"
| "b64_encode [a] = [b64_char (ord a div 4), b64_char (ord a mod 4 * 16), CHR ''='', CHR ''='']"
| "b64_encode [a, b] = [b64_char (ord a div 4), b64_char (ord a mod 4 * 16 + ord b div 16), b64_char (ord b mod 16 * 4), CHR ''='']"
| "b64_encode (a # b # c # s) =
     b64_char (ord a div 4) # b64_char (ord a mod 4 * 16 + ord b div 16)
       # b64_char (ord b mod 16 * 4 + ord c div 64) # b64_char (ord c mod 64) # b64_encode s"

fun b64_quanta :: "string \<Rightarrow> string option" where
  "b64_quanta [] = Some []"
| "b64_quanta (p # q # r # t # s) =
     (case (b64_val p, b64_val q) of
        (Some w, Some x) \<Rightarrow>
          (if r = CHR ''='' \<and> t = CHR ''='' \<and> s = [] then Some [char_of (w * 4 + x div 16)]
           else (case b64_val r of
                   None \<Rightarrow> None
                 | Some y \<Rightarrow>
                     if t = CHR ''='' \<and> s = [] then Some [char_of (w * 4 + x div 16), char_of (x mod 16 * 16 + y div 4)]
                     else (case b64_val t of
                             None \<Rightarrow> None
                           | Some z \<Rightarrow> map_option (\<lambda>u. char_of (w * 4 + x div 16) # char_of (x mod 16 * 16 + y div 4)
                                 # char_of (y mod 4 * 64 + z) # u) (b64_quanta s))))
      | _ \<Rightarrow> None)"
| "b64_quanta _ = None"

definition b64_decode :: "string \<Rightarrow> string option" where
  "b64_decode s = b64_quanta (filter (\<lambda>c. c \<noteq> CR \<and> c \<noteq> NL) s)"

section \<open>Fitting\<close>

text \<open>The image codecs: \<open>DecodeConfig\<close> (width, height, format), \<open>Decode\<close>, and the two encoders.\<close>

record image_codec =
  ic_config :: "string \<Rightarrow> (int \<times> int \<times> string) option"
  ic_decode :: "string \<Rightarrow> image option"
  ic_encode_png :: "pixel list list \<Rightarrow> string option"
  ic_encode_jpeg :: "pixel list list \<Rightarrow> string option"

definition fit_image :: "image_codec \<Rightarrow> string \<Rightarrow> string \<Rightarrow> (string \<times> int \<times> int) option" where
  "fit_image C b64 media_type =
     (if media_type \<noteq> ''image/png'' \<and> media_type \<noteq> ''image/jpeg'' then None
      else case b64_decode b64 of
        None \<Rightarrow> None
      | Some raw \<Rightarrow>
        (case ic_config C raw of
           None \<Rightarrow> None
         | Some (width, height, format) \<Rightarrow>
             if (format = ''png'' \<and> media_type \<noteq> ''image/png'') \<or> (format = ''jpeg'' \<and> media_type \<noteq> ''image/jpeg'') then None
             else if 100000000 < sint (word_of_int (width * height) :: 64 word) then None
             else
               (let (tw, th) = resized_size width height 1568 1568
                in if tw < 1 \<or> th < 1 then None
                   else if tw = width \<and> th = height then None
                   else
                     (let (hi_w, hi_h) = resized_size width height 2576 4784;
                          before = count_image_tokens hi_w hi_h;
                          after = count_image_tokens tw th
                      in if before \<le> after then None
                         else (case ic_decode C raw of
                                 None \<Rightarrow> None
                               | Some src \<Rightarrow>
                                   (let dst = box_downsample src tw th
                                    in case (if format = ''png'' then ic_encode_png C dst else ic_encode_jpeg C dst) of
                                         None \<Rightarrow> None
                                       | Some buf \<Rightarrow>
                                           (let new_b64 = b64_encode buf
                                            in if length b64 \<le> length new_b64 then None
                                               else Some (new_b64, before, after))))))))"

definition image_replay_key :: "(string \<Rightarrow> string) \<Rightarrow> string \<Rightarrow> string \<Rightarrow> string" where
  "image_replay_key blake3 media_type b64 =
     compute_key blake3 (''hr-image'' @ [CHR 0x00] @ media_type @ [CHR 0x00] @ b64)"

definition visual_tokens_from_base64 :: "image_codec \<Rightarrow> string \<Rightarrow> int" where
  "visual_tokens_from_base64 C b64 =
     (case b64_decode b64 of
        None \<Rightarrow> 0
      | Some raw \<Rightarrow>
          (case ic_config C raw of
             None \<Rightarrow> 0
           | Some (width, height, format) \<Rightarrow>
               (let (w, h) = resized_size width height 2576 4784 in count_image_tokens w h)))"

section \<open>Lemmas\<close>

lemma edge_nonneg: "0 \<le> w \<Longrightarrow> 0 \<le> \<lceil>f64 (of_int w / 28)\<rceil>"
  using flt_nonneg [of 53 "of_int w / 28"] by (simp add: order_less_le_trans [of "-1" 0])

lemma tokens_mono:
  "0 \<le> w \<Longrightarrow> w \<le> w' \<Longrightarrow> 0 \<le> h \<Longrightarrow> h \<le> h' \<Longrightarrow> count_image_tokens w h \<le> count_image_tokens w' h'"
  unfolding count_image_tokens_def
  by (intro mult_mono ceiling_mono flt_mono edge_nonneg) (auto intro!: divide_right_mono)

lemma rne_f64_mono: "x \<le> y \<Longrightarrow> rne (f64 x) \<le> rne (f64 y)"
  by (intro rne_mono flt_mono) auto

lemma rne_f64_nonneg: "0 \<le> x \<Longrightarrow> 0 \<le> rne (f64 x)"
  by (intro rne_ge) (simp add: flt_nonneg)

definition mono_size :: "(int \<Rightarrow> int \<times> int) \<Rightarrow> bool" where
  "mono_size f \<longleftrightarrow> (\<forall>m n. 0 \<le> m \<longrightarrow> m \<le> n \<longrightarrow> 0 \<le> fst (f m) \<and> 0 \<le> snd (f m) \<and> fst (f m) \<le> fst (f n) \<and> snd (f m) \<le> snd (f n))"

lemma landscape_mono: "0 \<le> a \<Longrightarrow> mono_size (landscape_size a)"
  by (auto simp: mono_size_def landscape_size_def intro!: rne_f64_mono rne_f64_nonneg divide_right_mono)

lemma portrait_mono: "0 \<le> a \<Longrightarrow> mono_size (portrait_size a)"
  by (auto simp: mono_size_def portrait_size_def intro!: rne_f64_mono rne_f64_nonneg mult_right_mono)

lemma fits_mono:
  "mono_size f \<Longrightarrow> 0 \<le> m \<Longrightarrow> m \<le> n \<Longrightarrow> fits me mt (f n) \<Longrightarrow> fits me mt (f m)"
  using tokens_mono [of "fst (f m)" "fst (f n)" "snd (f m)" "snd (f n)"]
  unfolding fits_def mono_size_def by (meson order_trans)

text \<open>Binary search: the size of the largest edge that fits, the initial target when none does.\<close>

lemma search_edge_largest:
  assumes "mono_size f" and "1 \<le> low"
  shows "search_edge f me mt low high target =
     (let S = {m. low \<le> m \<and> m \<le> high \<and> fits me mt (f m)} in if S = {} then target else f (Max S))"
  using assms
proof (induction f me mt low high target rule: search_edge.induct)
  case (1 f me mt low high target)
  let ?S = "\<lambda>lo hi. {m. lo \<le> m \<and> m \<le> hi \<and> fits me mt (f m)}"
  let ?mid = "(low + high) div 2"
  show ?case
  proof (cases "low \<le> high")
    case False
    then have "?S low high = {}" by auto
    then show ?thesis using False by (simp add: search_edge.simps Let_def)
  next
    case True
    then have mid: "low \<le> ?mid" "?mid \<le> high" by auto
    show ?thesis
    proof (cases "fits me mt (f ?mid)")
      case fit: True
      have "search_edge f me mt low high target = search_edge f me mt (?mid + 1) high (f ?mid)"
        using True fit by (subst search_edge.simps) (simp add: Let_def)
      also have "\<dots> = (let S = ?S (?mid + 1) high in if S = {} then f ?mid else f (Max S))"
        using 1(1) True fit mid "1.prems" by simp
      also have "\<dots> = f (Max (?S low high))"
      proof (cases "?S (?mid + 1) high = {}")
        case True
        then have "Max (?S low high) = ?mid"
          using fit mid by (intro Max_eqI) (force intro: finite_subset [of _ "{low..high}"])+
        then show ?thesis using True by (simp add: Let_def)
      next
        case False
        have fin: "finite (?S lo hi)" for lo hi by (rule finite_subset [of _ "{lo..hi}"]) auto
        have m: "Max (?S (?mid + 1) high) \<in> ?S (?mid + 1) high" using Max_in [OF fin False] .
        have "Max (?S low high) = Max (?S (?mid + 1) high)"
        proof (rule Max_eqI [OF fin])
          show "Max (?S (?mid + 1) high) \<in> ?S low high" using m mid by auto
          fix y assume y: "y \<in> ?S low high"
          show "y \<le> Max (?S (?mid + 1) high)"
          proof (cases "?mid + 1 \<le> y")
            case True then show ?thesis using y by (intro Max_ge [OF fin]) auto
          next
            case False then show ?thesis using m by auto
          qed
        qed
        then show ?thesis using False by (simp only: Let_def if_False)
      qed
      also have "?S low high \<noteq> {}" using fit mid by auto
      ultimately show ?thesis by (simp only: Let_def if_False)
    next
      case nofit: False
      have "search_edge f me mt low high target = search_edge f me mt low (?mid - 1) target"
        using True nofit by (subst search_edge.simps) (simp add: Let_def)
      also have "\<dots> = (let S = ?S low (?mid - 1) in if S = {} then target else f (Max S))"
        using 1(2) True nofit "1.prems" by simp
      also have "?S low (?mid - 1) = ?S low high"
      proof -
        have "m \<le> ?mid - 1" if "m \<in> ?S low high" for m
        proof (rule ccontr)
          assume "\<not> m \<le> ?mid - 1"
          then have "fits me mt (f ?mid)"
            using fits_mono [OF "1.prems"(1), of ?mid m me mt] that mid "1.prems" by auto
          with nofit show False by simp
        qed
        then show ?thesis using mid by force
      qed
      finally show ?thesis .
    qed
  qed
qed

text \<open>The number of patches along an edge: the float division rounds to the exact ceiling.\<close>

lemma flt_dyadic:
  assumes "0 < x" and "x = of_int j * 2 powi (- k)" and "expo x \<le> 52 - k"
  shows "f64 x = x"
proof (rule flt_exact [OF assms(1)])
  have "(2::rat) ^ nat (52 - k - expo x) = 2 powi (52 - k - expo x)"
    using assms(3) by (simp add: power_int_def)
  then have "of_int (j * 2 ^ nat (52 - k - expo x)) * 2 powi (expo x - (53 - 1))
      = of_int j * (2 powi (52 - k - expo x) * (2::rat) powi (expo x - 52))" by simp
  also have "\<dots> = x" unfolding assms(2) by (simp flip: power_int_add)
  finally show "x = of_int (j * 2 ^ nat (52 - k - expo x)) * 2 powi (expo x - (53 - 1))" ..
qed

lemma edge_patches:
  assumes "0 \<le> w" and "w < 2 ^ 40"
  shows "\<lceil>f64 (of_int w / 28)\<rceil> = (w + 27) div 28"
proof -
  define q where "q = w div 28"
  define r where "r = w mod 28"
  have w: "w = 28 * q + r" "0 \<le> r" "r < 28" "0 \<le> q" "q < 2 ^ 40"
    using assms by (simp_all add: q_def r_def)
  have exact: "f64 (of_int n) = of_int n" if "0 \<le> n" "n < 2 ^ 41" for n :: int
    using flt_nat [of 53 "nat n"] that by (simp add: zless_nat_eq_int_zless)
  show ?thesis
  proof (cases "r = 0")
    case True
    then have "(of_int w :: rat) / 28 = of_int q" using w by simp
    moreover have "(w + 27) div 28 = q" using True w by simp
    ultimately show ?thesis using exact [of q] w by simp
  next
    case False
    let ?x = "of_int w / 28 :: rat" and ?y = "of_int (32 * q + 1) * 2 powi (- 5) :: rat"
    have up: "f64 ?x \<le> of_int (q + 1)"
    proof -
      have "?x \<le> of_int (q + 1)" using w by simp
      then have "f64 ?x \<le> f64 (of_int (q + 1))" by (rule flt_mono [rotated]) simp
      also have "\<dots> = of_int (q + 1)" using w by (intro exact) auto
      finally show ?thesis .
    qed
    have y: "?y = of_int q + 1 / 32" by (simp add: power_int_minus field_simps)
    have "0 < ?y" using w y by simp
    moreover have "expo ?y \<le> 52 - 5"
    proof (rule ccontr)
      assume "\<not> expo ?y \<le> 52 - 5"
      then have "(2::rat) powi 48 \<le> 2 powi expo ?y" by (intro power_int_increasing) auto
      also have "\<dots> \<le> ?y" using expo_bounds [OF \<open>0 < ?y\<close>] by blast
      also have "?y < of_int (2 ^ 40) + 1" unfolding y using w(5) by linarith
      finally show False by (simp add: power_int_def)
    qed
    ultimately have "f64 ?y = ?y" by (intro flt_dyadic [OF _ refl])
    moreover have "?y \<le> ?x"
    proof -
      have "1 \<le> r" using False w by simp
      then have "(1::rat) \<le> of_int r" by simp
      then show ?thesis unfolding y w(1) by simp
    qed
    then have "f64 ?y \<le> f64 ?x" by (rule flt_mono [rotated]) simp
    ultimately have "of_int q < f64 ?x" using y by simp
    then have "\<lceil>f64 ?x\<rceil> = q + 1" using up by (simp add: ceiling_eq_iff)
    moreover have "(w + 27) div 28 = q + 1" using False w by simp
    ultimately show ?thesis by simp
  qed
qed

section \<open>Base64 round trip\<close>

lemma b64_val_char: "v < 64 \<Longrightarrow> b64_val (b64_char v) = Some v \<and> b64_char v \<noteq> CHR ''='' \<and> b64_char v \<noteq> CR \<and> b64_char v \<noteq> NL"
proof -
  have "\<forall>v\<in>set [0..<64]. b64_val (b64_char v) = Some v \<and> b64_char v \<noteq> CHR ''='' \<and> b64_char v \<noteq> CR \<and> b64_char v \<noteq> NL"
    by code_simp
  then show "v < 64 \<Longrightarrow> ?thesis" by simp
qed

lemma ord_parts [simp]:
  "ord b div 16 < 16" "ord b div 64 < 4" "ord b div 4 < 64" "ord b div 16 div 16 = 0" "ord b div 64 div 4 = 0"
  "ord b div 16 mod 16 = ord b div 16" "ord b div 64 mod 4 = ord b div 64"
proof -
  show "ord b div 16 < 16" "ord b div 64 < 4" "ord b div 4 < 64"
    using ord_less_256 [of b] by (simp_all add: less_mult_imp_div_less)
  then show "ord b div 16 div 16 = 0" "ord b div 64 div 4 = 0"
    "ord b div 16 mod 16 = ord b div 16" "ord b div 64 mod 4 = ord b div 64"
    by (simp_all only: div_less mod_less)
qed

lemma b64_parts:
  "ord a mod 4 * 16 + ord b div 16 < 64" "ord a mod 4 * 16 < 64"
  "ord b mod 16 * 4 + ord c div 64 < 64" "ord b mod 16 * 4 < 64" "ord c mod 64 < 64"
proof -
  have "ord a mod 4 \<le> 3" "ord b mod 16 \<le> 15" "ord c mod 64 < 64" by simp_all
  moreover have "ord b div 16 < 16" "ord c div 64 < 4" by (rule ord_parts)+
  ultimately show "ord a mod 4 * 16 + ord b div 16 < 64" "ord a mod 4 * 16 < 64"
    "ord b mod 16 * 4 + ord c div 64 < 64" "ord b mod 16 * 4 < 64" "ord c mod 64 < 64" by linarith+
qed

lemma b64_quanta_encode: "b64_quanta (b64_encode s) = Some s"
  by (induction s rule: b64_encode.induct) (simp_all add: b64_val_char b64_parts)

lemma b64_encode_clean: "filter (\<lambda>c. c \<noteq> CR \<and> c \<noteq> NL) (b64_encode s) = b64_encode s"
  by (induction s rule: b64_encode.induct) (auto simp: b64_val_char b64_parts)

lemma b64_roundtrip: "b64_decode (b64_encode s) = Some s"
  by (simp add: b64_decode_def b64_encode_clean b64_quanta_encode)

section \<open>Boxes\<close>

lemma upto_snoc: "a \<le> b \<Longrightarrow> b \<le> c \<Longrightarrow> [a..b - 1] @ [b..c - 1] = [a..c - (1::int)]"
  using upto_split1 [of a "b" "c - 1"] by (cases "b \<le> c - 1") auto

lemma boxes_cover:
  assumes "0 < dw" and "0 \<le> sw"
  shows "concat (map (\<lambda>d. case box_bounds d sw dw of (a, b) \<Rightarrow> [a..b - 1]) [0..int n - 1]) = [0..(int n * sw) div dw - 1]"
proof (induction n)
  case (Suc n)
  have "[0..int (Suc n) - 1] = [0..int n - 1] @ [int n]" using upto_rec2 [of 0 "int n"] by simp
  moreover have "[0..(int n * sw) div dw - 1] @ [(int n * sw) div dw..((int n + 1) * sw) div dw - 1]
      = [0..((int n + 1) * sw) div dw - 1]"
    using assms by (intro upto_snoc) (auto intro!: zdiv_mono1 simp: pos_imp_zdiv_nonneg_iff distrib_right)
  ultimately show ?case using Suc by (simp add: box_bounds_def add.commute)
qed simp

section \<open>The resized size\<close>

lemma resized_size_Max:
  assumes "0 < w" "0 < h"
  shows "resized_size w h max_edge max_tokens =
     (let aspect = f64 (of_int w / of_int h);
          size_at = (if h < w then landscape_size aspect else portrait_size aspect);
          S = {m. 1 \<le> m \<and> m \<le> max_edge \<and> fits max_edge max_tokens (size_at m)}
      in if fits max_edge max_tokens (w, h) then (w, h) else if S = {} then (0, 0) else size_at (Max S))"
proof -
  let ?a = "f64 (of_int w / of_int h)"
  have a: "0 \<le> ?a" using assms by (intro flt_nonneg) auto
  have fit: "w \<le> max_edge \<and> h \<le> max_edge \<and> count_image_tokens w h \<le> max_tokens \<longleftrightarrow> fits max_edge max_tokens (w, h)"
    by (simp add: fits_def)
  note L = search_edge_largest [OF landscape_mono [OF a] order_refl]
    and P = search_edge_largest [OF portrait_mono [OF a] order_refl]
  show ?thesis
    by (cases "fits max_edge max_tokens (w, h)"; cases "h < w")
       (simp_all only: resized_size_def fit Let_def L P if_True if_False)
qed

lemma fits_at_max:
  assumes "0 < w" "0 < h" "\<not> fits me mt (w, h)" "1 \<le> me" "fits me mt (size_at me)"
    and "size_at = (if h < w then landscape_size (f64 (of_int w / of_int h)) else portrait_size (f64 (of_int w / of_int h)))"
  shows "resized_size w h me mt = size_at me"
proof -
  have "Max {m. 1 \<le> m \<and> m \<le> me \<and> fits me mt (size_at m)} = me"
    using assms(4,5) by (intro Max_eqI) (auto intro: finite_subset [of _ "{1..me}"])
  moreover have "{m. 1 \<le> m \<and> m \<le> me \<and> fits me mt (size_at m)} \<noteq> {}" using assms(4,5) by auto
  ultimately show ?thesis
    using assms(3) resized_size_Max [OF assms(1,2), of me mt] by (simp only: Let_def assms(6) if_False)
qed

section \<open>Properties\<close>

text \<open>The token count of an image is the number of 28 by 28 patches that cover it: the float
  division and \<open>Ceil\<close> never lose or add a patch.\<close>

theorem image_tokens_exact:
  assumes "0 \<le> w" "w < 2 ^ 40" "0 \<le> h" "h < 2 ^ 40"
  shows "count_image_tokens w h = ((w + 27) div 28) * ((h + 27) div 28)"
  using assms by (simp add: count_image_tokens_def edge_patches)

theorem image_tokens_exact_witness: "count_image_tokens 1092 1093 = 39 * 40"
  using image_tokens_exact [of 1092 1093] by simp

text \<open>An image that does not fit its tier is resized to the largest size that does: the one with the
  largest long edge among all edges from 1 to the maximum; only when no edge fits is it \<open>(0, 0)\<close>.\<close>

theorem resized_size_largest:
  assumes "0 < w" "0 < h"
  shows "resized_size w h max_edge max_tokens =
     (let aspect = f64 (of_int w / of_int h);
          size_at = (if h < w then landscape_size aspect else portrait_size aspect);
          S = {m. 1 \<le> m \<and> m \<le> max_edge \<and> fits max_edge max_tokens (size_at m)}
      in if fits max_edge max_tokens (w, h) then (w, h) else if S = {} then (0, 0) else size_at (Max S))"
  using assms by (rule resized_size_Max)

theorem resized_size_largest_witness:
  "resized_size 2000 1000 1568 1568 \<noteq> (2000, 1000) \<and> fits 1568 1568 (resized_size 2000 1000 1568 1568)"
proof -
  have no: "\<not> fits 1568 1568 (2000, 1000)" by (simp add: fits_def)
  have less: "(1000::int) < 2000" by simp
  let ?f = "landscape_size (f64 (of_int 2000 / of_int 1000))"
  let ?S = "{m. 1 \<le> m \<and> m \<le> 1568 \<and> fits 1568 1568 (?f m)}"
  have e: "resized_size 2000 1000 1568 1568 = (if ?S = {} then (0, 0) else ?f (Max ?S))"
    using resized_size_largest [of 2000 1000 1568 1568, unfolded Let_def] no less
    by (simp only: zero_less_numeral if_True if_False simp_thms)
  have z: "fits 1568 1568 (0, 0)" by (simp add: fits_def count_image_tokens_def)
  have "fits 1568 1568 (resized_size 2000 1000 1568 1568)"
  proof (cases "?S = {}")
    case False
    have "finite ?S" by (rule finite_subset [of _ "{1..1568}"]) auto
    then have "Max ?S \<in> ?S" using False by (rule Max_in)
    then have "fits 1568 1568 (?f (Max ?S))" by blast
    then show ?thesis using e False by (simp only: if_False)
  qed (simp only: e z if_True simp_thms)
  with no show ?thesis by auto
qed

text \<open>The boxes of the downsampler partition the source: along each axis they cover every source
  pixel exactly once, in order, whatever the two lengths.\<close>

theorem downsample_partition:
  assumes "0 < dst_len" and "0 \<le> src_len"
  shows "concat (map (\<lambda>d. case box_bounds d src_len dst_len of (a, b) \<Rightarrow> [a..b - 1]) [0..dst_len - 1]) = [0..src_len - 1]"
  using boxes_cover [OF assms, of "nat dst_len"] assms by simp

theorem downsample_partition_witness:
  "concat (map (\<lambda>d. case box_bounds d 10 3 of (a, b) \<Rightarrow> [a..b - 1]) [0..2]) = [0..9]"
  using downsample_partition [of 3 10] by simp

text \<open>A fitted image strictly reduces both the visual tokens and the bytes on the wire, its payload
  decodes to what the encoder wrote, and its size is within the standard tier.\<close>

theorem fit_image_gates:
  assumes "fit_image C b64 media_type = Some (new_b64, before, after)"
  shows "after < before \<and> length new_b64 < length b64
    \<and> (media_type = ''image/png'' \<or> media_type = ''image/jpeg'')
    \<and> (\<exists>raw width height format tw th src buf.
         b64_decode b64 = Some raw \<and> ic_config C raw = Some (width, height, format) \<and> ic_decode C raw = Some src
         \<and> (tw, th) = resized_size width height 1568 1568 \<and> 1 \<le> tw \<and> 1 \<le> th \<and> after = count_image_tokens tw th
         \<and> (if format = ''png'' then ic_encode_png C else ic_encode_jpeg C) (box_downsample src tw th) = Some buf
         \<and> b64_decode new_b64 = Some buf)"
proof -
  from assms show ?thesis
    unfolding fit_image_def Let_def
    by (auto split: if_splits option.splits prod.splits simp: b64_roundtrip) (metis not_le)+
qed

definition sample_codec :: image_codec where
  "sample_codec = \<lparr>ic_config = (\<lambda>_. Some (2000, 1000, ''png'')),
     ic_decode = (\<lambda>_. Some \<lparr>im_min_x = 0, im_min_y = 0, im_dx = 2000, im_dy = 1000,
        im_at = (\<lambda>_ _. \<lparr>px_r = 0, px_g = 0, px_b = 0, px_a = 65535\<rparr>)\<rparr>),
     ic_encode_png = (\<lambda>_. Some ''P''), ic_encode_jpeg = (\<lambda>_. None)\<rparr>"

theorem fit_image_gates_witness:
  "\<exists>after. fit_image sample_codec ''AAAAAAAA'' ''image/png'' = Some (b64_encode ''P'', 2592, after) \<and> after < 2592"
proof -
  have f2: "f64 2 = 2" "f64 784 = 784" using flt_nat [of 53 2] flt_nat [of 53 784] by simp_all
  have sz: "landscape_size (f64 (of_int 2000 / of_int 1000)) 1568 = (1568, 784)"
    using rne_of_int [of 784] by (simp add: landscape_size_def f2)
  have tok: "count_image_tokens 1568 784 = 1568" "count_image_tokens 2000 1000 = 2592"
    using edge_patches [of 1568] edge_patches [of 784] edge_patches [of 2000] edge_patches [of 1000]
    by (simp_all add: count_image_tokens_def)
  have r1: "resized_size 2000 1000 1568 1568 = (1568, 784)"
    using fits_at_max [of 2000 1000 1568 1568, OF _ _ _ _ _ refl] sz tok by (simp add: fits_def)
  have r2: "resized_size 2000 1000 2576 4784 = (2000, 1000)" by (simp add: resized_size_def tok)
  have raw: "b64_decode ''AAAAAAAA'' = Some (replicate 6 CHR 0x00)" by code_simp
  have fit: "fit_image sample_codec ''AAAAAAAA'' ''image/png'' = Some (b64_encode ''P'', 2592, 1568)"
    by (simp add: fit_image_def raw sample_codec_def r1 r2 tok)
  then show ?thesis using fit_image_gates [OF fit] by simp
qed

end
