(* ===== verification/Dispatch.thy ===== *)
theory Dispatch
  imports Plan CompressBlock Replay CacheControl ImageFit JsonString
begin

text \<open>
  \<open>internal/livezone/replay.go\<close> and \<open>Dispatch\<close> of \<open>livezone.go\<close>: the replay pass over the whole
  conversation, the fresh pass over the latest user message, and the splice.
\<close>

section \<open>State of a dispatch\<close>

datatype reason = ReasonOK | ReasonNotJSON | ReasonNoMessages | ReasonNoLiveZone | ReasonNoCandidates | ReasonAllRejected

record block_outcome =
  bo_message_index :: nat
  bo_index :: nat
  bo_block_type :: string
  bo_action :: string
  bo_strategy :: string
  bo_tokens_before :: int
  bo_tokens_after :: int
  bo_cache_key :: string
  bo_content_index :: int

record dispatch_result =
  dr_body :: string
  dr_applied :: bool
  dr_reason :: reason
  dr_frozen_count :: int
  dr_rewritten :: "rng list"
  dr_blocks :: "block_outcome list"
  dr_tokens_before :: int
  dr_tokens_after :: int

text \<open>\<open>Options\<close>; a nil tokenizer selects the default one, a nil store, router or replay is \<open>None\<close>.\<close>

record 's dispatch_options =
  op_router :: "'s staging router option"
  op_store :: "'s store_ops option"
  op_tokenizer :: tokenizer
  op_frozen_count :: int
  op_query :: string
  op_replay :: "session_replay option"
  op_image_fit :: bool

text \<open>The code that is not part of the program: JSON reader, image codecs, digests.\<close>

record deps =
  dp_gjson :: gjson
  dp_codec :: image_codec
  dp_digests :: digests

text \<open>The variables of the two passes, with the store and the replay state they act on.\<close>

record 's pass =
  pa_reps :: "replacement list"
  pa_outcomes :: "block_outcome list"
  pa_before :: int
  pa_after :: int
  pa_candidate :: bool
  pa_store :: 's
  pa_replay :: replay_state

definition outcome :: "nat \<Rightarrow> plan_slot \<Rightarrow> string \<Rightarrow> block_outcome" where
  "outcome msg_idx s action =
     \<lparr>bo_message_index = msg_idx, bo_index = ps_block_index s, bo_block_type = ps_block_type s, bo_action = action,
      bo_strategy = [], bo_tokens_before = 0, bo_tokens_after = 0, bo_cache_key = [],
      bo_content_index = ps_content_index s\<rparr>"

definition replace_slot :: "plan_slot \<Rightarrow> string \<Rightarrow> replacement" where
  "replace_slot s text = \<lparr>rp_start = ps_start s, rp_end = ps_end s, rp_repl = encode_json_string text\<rparr>"

definition media_type_of :: "gjson \<Rightarrow> string \<Rightarrow> nat \<Rightarrow> plan_slot \<Rightarrow> string" where
  "media_type_of G body msg_idx s =
     gj_string G (gj_get G body
       (if 0 \<le> ps_content_index s
        then path_nested msg_idx (ps_block_index s) (nat (ps_content_index s)) ''source.media_type''
        else path_block msg_idx (ps_block_index s) ''source.media_type''))"

section \<open>The replay pass\<close>

definition replay_hash :: "deps \<Rightarrow> string \<Rightarrow> nat \<Rightarrow> plan_slot \<Rightarrow> string" where
  "replay_hash E body msg_idx s =
     (if ps_kind s = SlotImage
      then image_replay_key (dg_blake3 (dp_digests E)) (media_type_of (dp_gjson E) body msg_idx s) (ps_text s)
      else compute_key (dg_blake3 (dp_digests E)) (ps_text s))"

text \<open>The store refresh of a replayed text: the canonical entry, and the MD5 one if the text names it.\<close>

definition refresh_store :: "digests \<Rightarrow> 's store_ops \<Rightarrow> string \<Rightarrow> string \<Rightarrow> string \<Rightarrow> 's \<Rightarrow> 's" where
  "refresh_store D ops hash text compressed st =
     (let st1 = st_put ops hash text st; md5 = compute_key_md5 (dg_md5 D) text
      in if contains compressed md5 then st_put ops md5 text st1 else st1)"

definition replay_slot :: "deps \<Rightarrow> 's dispatch_options \<Rightarrow> session_replay \<Rightarrow> string \<Rightarrow> nat \<Rightarrow> plan_slot \<Rightarrow> 's pass \<Rightarrow> 's pass" where
  "replay_slot E opts h body msg_idx s p =
     (if ps_kind s \<noteq> SlotCompressible \<and> ps_kind s \<noteq> SlotStringContent \<and> ps_kind s \<noteq> SlotImage then p
      else
        (let hash = replay_hash E body msg_idx s;
             (hit, rs) = replay_lookup h hash (pa_replay p);
             p1 = p\<lparr>pa_replay := rs\<rparr>
         in case hit of
              None \<Rightarrow> p1
            | Some compressed \<Rightarrow>
                (let (ok, st) =
                       (if ps_kind s = SlotImage then (True, pa_store p1)
                        else case op_store opts of
                               None \<Rightarrow> (True, pa_store p1)
                             | Some ops \<Rightarrow>
                                 store_resolves ops hash (ps_text s) compressed
                                   (refresh_store (dp_digests E) ops hash (ps_text s) compressed (pa_store p1)));
                     p2 = p1\<lparr>pa_store := st\<rparr>
                 in if \<not> ok
                    then p2\<lparr>pa_replay := replay_forget h hash (pa_replay p2),
                            pa_outcomes := pa_outcomes p2
                              @ [(outcome msg_idx s ''store_unresolvable'')\<lparr>bo_cache_key := hash\<rparr>]\<rparr>
                    else
                      (let b = (if ps_kind s = SlotImage then visual_tokens_from_base64 (dp_codec E) (ps_text s)
                                else op_tokenizer opts (ps_text s));
                           a = (if ps_kind s = SlotImage then visual_tokens_from_base64 (dp_codec E) compressed
                                else op_tokenizer opts compressed)
                       in p2\<lparr>pa_reps := pa_reps p2 @ [replace_slot s compressed],
                             pa_outcomes := pa_outcomes p2 @ [(outcome msg_idx s ''replayed'')
                               \<lparr>bo_tokens_before := b, bo_tokens_after := a, bo_cache_key := hash\<rparr>],
                             pa_before := pa_before p2 + b, pa_after := pa_after p2 + a\<rparr>))))"

fun replay_messages :: "deps \<Rightarrow> 's dispatch_options \<Rightarrow> session_replay \<Rightarrow> string \<Rightarrow> nat \<Rightarrow> gres list \<Rightarrow> 's pass \<Rightarrow> 's pass" where
  "replay_messages E opts h body i [] p = p"
| "replay_messages E opts h body i (msg # msgs) p =
     replay_messages E opts h body (Suc i) msgs
       (fold (replay_slot E opts h body i) (plan_blocks (dp_gjson E) body i) p)"

definition replay_all :: "deps \<Rightarrow> 's dispatch_options \<Rightarrow> string \<Rightarrow> 's pass \<Rightarrow> 's pass" where
  "replay_all E opts body p =
     (case op_replay opts of
        None \<Rightarrow> p
      | Some h \<Rightarrow>
          (let G = dp_gjson E
           in replay_messages E opts h body 0 (gj_array G (gj_sub G (gj_parse G body) ''messages'')) p))"

section \<open>The fresh pass\<close>

definition record_replay :: "'s dispatch_options \<Rightarrow> string \<Rightarrow> string \<Rightarrow> 's pass \<Rightarrow> 's pass" where
  "record_replay opts hash text p =
     (case op_replay opts of None \<Rightarrow> p | Some h \<Rightarrow> p\<lparr>pa_replay := replay_record h hash text (pa_replay p)\<rparr>)"

definition add_outcome :: "block_outcome \<Rightarrow> 's pass \<Rightarrow> 's pass" where
  "add_outcome bo p = p\<lparr>pa_outcomes := pa_outcomes p @ [bo]\<rparr>"

definition fresh_image :: "deps \<Rightarrow> 's dispatch_options \<Rightarrow> string \<Rightarrow> nat \<Rightarrow> plan_slot \<Rightarrow> 's pass \<Rightarrow> 's pass" where
  "fresh_image E opts body msg_idx s p =
     (if \<not> op_image_fit opts then add_outcome (outcome msg_idx s ''image_declined'') p
      else
        (let media_type = media_type_of (dp_gjson E) body msg_idx s
         in case fit_image (dp_codec E) (ps_text s) media_type of
              None \<Rightarrow> add_outcome (outcome msg_idx s ''image_declined'') p
            | Some (new_b64, before, after) \<Rightarrow>
                (let p1 = add_outcome ((outcome msg_idx s ''image_resized'')
                             \<lparr>bo_tokens_before := before, bo_tokens_after := after\<rparr>) p;
                     p2 = record_replay opts
                            (image_replay_key (dg_blake3 (dp_digests E)) media_type (ps_text s)) new_b64 p1
                 in p2\<lparr>pa_reps := pa_reps p2 @ [replace_slot s new_b64],
                       pa_before := pa_before p2 + before, pa_after := pa_after p2 + after\<rparr>)))"

definition outcome_of :: "nat \<Rightarrow> plan_slot \<Rightarrow> block_result \<Rightarrow> block_outcome" where
  "outcome_of msg_idx s br =
     \<lparr>bo_message_index = msg_idx, bo_index = ps_block_index s, bo_block_type = ps_block_type s,
      bo_action = br_action br, bo_strategy = br_strategy br, bo_tokens_before = br_tokens_before br,
      bo_tokens_after = br_tokens_after br, bo_cache_key = br_cache_key br, bo_content_index = ps_content_index s\<rparr>"

definition fresh_text :: "deps \<Rightarrow> 's dispatch_options \<Rightarrow> tool_index \<Rightarrow> nat \<Rightarrow> plan_slot \<Rightarrow> 's pass \<Rightarrow> 's pass" where
  "fresh_text E opts tools msg_idx s p =
     (let (br, st) = compress_block (dp_digests E) (ps_text s)
                       (block_context (dp_gjson E) (op_query opts) tools (ps_tool_use_id s))
                       (op_router opts) (op_store opts) (op_tokenizer opts) (pa_store p);
          p1 = p\<lparr>pa_store := st, pa_candidate := (pa_candidate p \<or> br_action br = ''rejected_tokens'')\<rparr>
      in if \<not> br_accepted br then add_outcome (outcome_of msg_idx s br) p1
         else
           (let (ok, p2) =
                  (case op_store opts of
                     None \<Rightarrow> (True, add_outcome (outcome_of msg_idx s br) p1)
                   | Some ops \<Rightarrow>
                       if br_cache_key br = [] then (True, add_outcome (outcome_of msg_idx s br) p1)
                       else
                         (let (ok, st2) = store_resolves ops (br_cache_key br) (ps_text s) (br_replacement br)
                                            (st_put ops (br_cache_key br) (ps_text s) (pa_store p1))
                          in if \<not> ok
                             then (False, add_outcome ((outcome_of msg_idx s br)\<lparr>bo_action := ''store_unresolvable''\<rparr>)
                                            (p1\<lparr>pa_store := st2\<rparr>))
                             else (True, record_replay opts (br_cache_key br) (br_replacement br)
                                           (add_outcome (outcome_of msg_idx s br) (p1\<lparr>pa_store := st2\<rparr>)))))
            in if \<not> ok then p2
               else p2\<lparr>pa_reps := pa_reps p2 @ [replace_slot s (br_replacement br)],
                       pa_before := pa_before p2 + br_tokens_before br,
                       pa_after := pa_after p2 + br_tokens_after br\<rparr>))"

text \<open>One slot of the fresh pass; \<open>claimed\<close> are the starts the replay pass has taken.\<close>

definition fresh_slot :: "deps \<Rightarrow> 's dispatch_options \<Rightarrow> string \<Rightarrow> tool_index \<Rightarrow> int set \<Rightarrow> nat \<Rightarrow> plan_slot \<Rightarrow> 's pass \<Rightarrow> 's pass" where
  "fresh_slot E opts body tools claimed msg_idx s p =
     (if ps_start s \<in> claimed then p
      else (case ps_kind s of
              SlotHotZone \<Rightarrow> add_outcome (outcome msg_idx s ''hot_zone'') p
            | SlotBelowThreshold \<Rightarrow> add_outcome (outcome msg_idx s ''below_threshold'') p
            | SlotUnreachable \<Rightarrow> add_outcome (outcome msg_idx s ''unreachable'') p
            | SlotImage \<Rightarrow> fresh_image E opts body msg_idx s p
            | SlotCompressible \<Rightarrow> fresh_text E opts tools msg_idx s p
            | SlotStringContent \<Rightarrow> fresh_text E opts tools msg_idx s p))"

section \<open>Dispatch\<close>

definition passthrough :: "string \<Rightarrow> reason \<Rightarrow> int \<Rightarrow> dispatch_result" where
  "passthrough body why frozen =
     \<lparr>dr_body = body, dr_applied = False, dr_reason = why, dr_frozen_count = frozen, dr_rewritten = [],
      dr_blocks = [], dr_tokens_before = 0, dr_tokens_after = 0\<rparr>"

definition frozen_floor :: "deps \<Rightarrow> 's dispatch_options \<Rightarrow> string \<Rightarrow> int" where
  "frozen_floor E opts body =
     (if op_frozen_count opts < 0 then fst (compute_frozen_count (dp_gjson E) body) else op_frozen_count opts)"

definition start_pass :: "'s \<Rightarrow> replay_state \<Rightarrow> 's pass" where
  "start_pass st rs = \<lparr>pa_reps = [], pa_outcomes = [], pa_before = 0, pa_after = 0, pa_candidate = False,
     pa_store = st, pa_replay = rs\<rparr>"

text \<open>The two passes, up to the splice.\<close>

definition dispatch_passes :: "deps \<Rightarrow> 's dispatch_options \<Rightarrow> string \<Rightarrow> 's \<Rightarrow> replay_state
    \<Rightarrow> nat option \<times> plan_slot list \<times> 's pass" where
  "dispatch_passes E opts body st rs =
     (let G = dp_gjson E;
          frozen = frozen_floor E opts body;
          tools = index_tools G body;
          p1 = replay_all E opts body (start_pass st rs);
          claimed = set (map rp_start (pa_reps p1));
          live = find_latest_user_message G body frozen;
          slots = (case live of None \<Rightarrow> [] | Some msg_idx \<Rightarrow> plan_blocks G body msg_idx);
          p2 = fold (fresh_slot E opts body tools claimed (case live of None \<Rightarrow> 0 | Some i \<Rightarrow> i)) slots p1
      in (live, slots, p2))"

definition dispatch :: "deps \<Rightarrow> 's dispatch_options \<Rightarrow> string \<Rightarrow> 's \<Rightarrow> replay_state \<Rightarrow> dispatch_result \<times> 's \<times> replay_state" where
  "dispatch E opts body st rs =
     (let G = dp_gjson E; root = gj_parse G body
      in if \<not> gj_valid G body then (passthrough body ReasonNotJSON 0, st, rs)
         else if \<not> gj_is_object G root then (passthrough body ReasonNotJSON 0, st, rs)
         else if \<not> gj_is_array G (gj_sub G root ''messages'') then (passthrough body ReasonNoMessages 0, st, rs)
         else
           (let frozen = frozen_floor E opts body;
                (live, slots, p) = dispatch_passes E opts body st rs;
                result =
                  (if pa_reps p = [] then
                     (if live = None then passthrough body ReasonNoLiveZone frozen
                      else if slots = [] then passthrough body ReasonNoCandidates frozen
                      else (passthrough body (if pa_candidate p then ReasonAllRejected else ReasonNoCandidates) frozen)
                             \<lparr>dr_blocks := pa_outcomes p\<rparr>)
                   else
                     (let (out, ranges) = apply_replacements body (pa_reps p)
                      in \<lparr>dr_body = out, dr_applied = True, dr_reason = ReasonOK, dr_frozen_count = frozen,
                          dr_rewritten = ranges, dr_blocks = pa_outcomes p,
                          dr_tokens_before = pa_before p, dr_tokens_after = pa_after p\<rparr>))
            in (result, pa_store p, pa_replay p)))"

end
