(* ===== verification/DispatchProps.thy ===== *)
theory DispatchProps
  imports Dispatch
begin

text \<open>
  What the dispatcher guarantees: the bytes it may touch, the token gate, the state of the CCR
  store, and the stability of replayed blocks.
\<close>

section \<open>Where replacements come from\<close>

text \<open>A replacement of a rewritable slot of message \<open>m\<close>.\<close>

definition rep_from :: "gjson \<Rightarrow> string \<Rightarrow> nat \<Rightarrow> replacement \<Rightarrow> bool" where
  "rep_from G body m r \<longleftrightarrow> (\<exists>s\<in>set (plan_blocks G body m). live_kind (ps_kind s) \<and> (\<exists>t. r = replace_slot s t))"

lemma add_outcome_sel [simp]:
  "pa_reps (add_outcome bo p) = pa_reps p" "pa_store (add_outcome bo p) = pa_store p"
  "pa_before (add_outcome bo p) = pa_before p" "pa_after (add_outcome bo p) = pa_after p"
  "pa_replay (add_outcome bo p) = pa_replay p" "pa_candidate (add_outcome bo p) = pa_candidate p"
  by (simp_all add: add_outcome_def)

lemma record_replay_sel [simp]:
  "pa_reps (record_replay opts k v p) = pa_reps p" "pa_store (record_replay opts k v p) = pa_store p"
  "pa_before (record_replay opts k v p) = pa_before p" "pa_after (record_replay opts k v p) = pa_after p"
  by (simp_all add: record_replay_def split: option.splits)

lemma replay_slot_reps:
  obtains "pa_reps (replay_slot E opts h body m s p) = pa_reps p"
  | t where "live_kind (ps_kind s)" "pa_reps (replay_slot E opts h body m s p) = pa_reps p @ [replace_slot s t]"
  by (atomize_elim)
     (auto simp: replay_slot_def live_kind_def Let_def split: prod.splits option.splits)

lemma compress_block_tokens:
  assumes "compress_block D text ctx router store tok st = (br, st')" and "br_accepted br"
  shows "br_tokens_after br < br_tokens_before br"
  using assms
  by (auto simp: compress_block_def no_op_def accepts_i5_def Let_def split: option.splits prod.splits if_splits)

lemma fit_image_tokens:
  "fit_image C b64 mt = Some (new_b64, before, after) \<Longrightarrow> after < before"
  by (auto simp: fit_image_def Let_def split: if_splits option.splits prod.splits)

text \<open>A step of the fresh pass: nothing, or one replacement of the slot with strictly fewer tokens.\<close>

definition adds_rep :: "plan_slot \<Rightarrow> 's pass \<Rightarrow> 's pass \<Rightarrow> bool" where
  "adds_rep s p q \<longleftrightarrow>
     (pa_reps q = pa_reps p \<and> pa_before q = pa_before p \<and> pa_after q = pa_after p)
     \<or> (\<exists>t b a. a < b \<and> pa_reps q = pa_reps p @ [replace_slot s t] \<and> pa_before q = pa_before p + b
          \<and> pa_after q = pa_after p + a)"

lemma fresh_image_adds: "adds_rep s p (fresh_image E opts body m s p)"
  by (auto simp: fresh_image_def adds_rep_def Let_def dest: fit_image_tokens split: option.splits)

lemma fresh_text_adds: "adds_rep s p (fresh_text E opts tools m s p)"
  by (auto simp: fresh_text_def adds_rep_def Let_def dest: compress_block_tokens split: option.splits prod.splits)

lemma fresh_slot_adds:
  "if live_kind (ps_kind s) then adds_rep s p (fresh_slot E opts body tools claimed m s p)
   else pa_reps (fresh_slot E opts body tools claimed m s p) = pa_reps p
      \<and> pa_before (fresh_slot E opts body tools claimed m s p) = pa_before p
      \<and> pa_after (fresh_slot E opts body tools claimed m s p) = pa_after p"
  by (cases "ps_kind s")
     (auto simp: fresh_slot_def live_kind_def fresh_image_adds fresh_text_adds, auto simp: adds_rep_def)

lemma fresh_slot_reps:
  obtains (kept) "pa_reps (fresh_slot E opts body tools claimed m s p) = pa_reps p"
    "pa_before (fresh_slot E opts body tools claimed m s p) = pa_before p"
    "pa_after (fresh_slot E opts body tools claimed m s p) = pa_after p"
  | (added) t b a where "live_kind (ps_kind s)" "a < b"
    "pa_reps (fresh_slot E opts body tools claimed m s p) = pa_reps p @ [replace_slot s t]"
    "pa_before (fresh_slot E opts body tools claimed m s p) = pa_before p + b"
    "pa_after (fresh_slot E opts body tools claimed m s p) = pa_after p + a"
  using fresh_slot_adds [of s p E opts body tools claimed m]
  by (auto simp: adds_rep_def split: if_splits)

lemma fold_fresh_reps:
  assumes "set ss \<subseteq> set (plan_blocks (dp_gjson E) body m)" and "r \<in> set (pa_reps (fold (fresh_slot E opts body tools claimed m) ss p))"
  shows "r \<in> set (pa_reps p) \<or> rep_from (dp_gjson E) body m r"
  using assms
proof (induction ss arbitrary: p)
  case (Cons s ss)
  then have "r \<in> set (pa_reps (fresh_slot E opts body tools claimed m s p)) \<or> rep_from (dp_gjson E) body m r" by simp
  then show ?case
    using Cons.prems(1)
    by (cases rule: fresh_slot_reps [of E opts body tools claimed m s p]) (auto simp: rep_from_def)
qed simp

lemma fold_replay_reps:
  assumes "set ss \<subseteq> set (plan_blocks G body m)" and "r \<in> set (pa_reps (fold (replay_slot E opts h body m) ss p))"
  shows "r \<in> set (pa_reps p) \<or> rep_from G body m r"
  using assms
proof (induction ss arbitrary: p)
  case (Cons s ss)
  then have "r \<in> set (pa_reps (replay_slot E opts h body m s p)) \<or> rep_from G body m r" by simp
  then show ?case
    using Cons.prems(1)
    by (cases rule: replay_slot_reps [of E opts h body m s p]) (auto simp: rep_from_def)
qed simp

lemma replay_messages_reps:
  "r \<in> set (pa_reps (replay_messages E opts h body i msgs p)) \<Longrightarrow>
     r \<in> set (pa_reps p) \<or> (\<exists>m. rep_from (dp_gjson E) body m r)"
proof (induction E opts h body i msgs p rule: replay_messages.induct)
  case (2 E opts h body i msg msgs p)
  then show ?case using fold_replay_reps [OF subset_refl, of r E opts h body i "dp_gjson E" p] by auto
qed simp

lemma dispatch_passes_reps:
  assumes "dispatch_passes E opts body st rs = (live, slots, p)" and "r \<in> set (pa_reps p)"
  shows "\<exists>m. rep_from (dp_gjson E) body m r \<and> (op_replay opts = None \<longrightarrow>
            live = Some m \<and> find_latest_user_message (dp_gjson E) body (frozen_floor E opts body) = Some m)"
proof -
  let ?G = "dp_gjson E"
  let ?p1 = "replay_all E opts body (start_pass st rs)"
  let ?tools = "index_tools ?G body" and ?claimed = "set (map rp_start (pa_reps ?p1))"
  have live: "live = find_latest_user_message ?G body (frozen_floor E opts body)"
    "slots = (case live of None \<Rightarrow> [] | Some m \<Rightarrow> plan_blocks ?G body m)"
    "p = fold (fresh_slot E opts body ?tools ?claimed (case live of None \<Rightarrow> 0 | Some i \<Rightarrow> i)) slots ?p1"
    using assms(1) by (auto simp: dispatch_passes_def Let_def)
  have p1: "\<exists>m. rep_from ?G body m r" if "r \<in> set (pa_reps ?p1)"
    using that replay_messages_reps [of r E opts _ body 0 _ "start_pass st rs"]
    by (auto simp: replay_all_def start_pass_def Let_def split: option.splits)
  have none: "pa_reps ?p1 = []" if "op_replay opts = None"
    using that by (simp add: replay_all_def start_pass_def)
  show ?thesis
  proof (cases live)
    case None
    then show ?thesis using p1 none assms(2) live by (cases "op_replay opts") auto
  next
    case (Some m)
    have "r \<in> set (pa_reps ?p1) \<or> rep_from ?G body m r"
      using fold_fresh_reps [of slots E body m r opts ?tools ?claimed ?p1] assms(2)
      unfolding live(2,3) Some by simp
    then show ?thesis using p1 none Some live by (cases "op_replay opts") auto
  qed
qed

text \<open>The result of a dispatch: the splice of the pass, or the body itself.\<close>

lemma dispatch_cases:
  obtains (same) "dr_body (fst (dispatch E opts body st rs)) = body" "dr_rewritten (fst (dispatch E opts body st rs)) = []"
      "\<not> dr_applied (fst (dispatch E opts body st rs))"
      "dr_tokens_before (fst (dispatch E opts body st rs)) = 0" "dr_tokens_after (fst (dispatch E opts body st rs)) = 0"
  | (spliced) live slots p where "dispatch_passes E opts body st rs = (live, slots, p)" "pa_reps p \<noteq> []"
      "(dr_body (fst (dispatch E opts body st rs)), dr_rewritten (fst (dispatch E opts body st rs)))
         = apply_replacements body (pa_reps p)"
      "dr_applied (fst (dispatch E opts body st rs))"
      "dr_frozen_count (fst (dispatch E opts body st rs)) = frozen_floor E opts body"
      "dr_tokens_before (fst (dispatch E opts body st rs)) = pa_before p"
      "dr_tokens_after (fst (dispatch E opts body st rs)) = pa_after p"
  by (atomize_elim)
     (auto simp: dispatch_def passthrough_def Let_def split: prod.splits)

lemma replace_slot_sel [simp]:
  "rp_start (replace_slot s t) = ps_start s" "rp_end (replace_slot s t) = ps_end s"
  "rp_repl (replace_slot s t) = encode_json_string t"
  by (simp_all add: replace_slot_def)

lemma rep_texts:
  assumes "\<forall>r\<in>set used. \<exists>m. rep_from G body m r"
  shows "\<exists>texts. length texts = length used \<and> map rp_repl used = map encode_json_string texts"
proof -
  have "\<forall>r\<in>set used. \<exists>t. rp_repl r = encode_json_string t" using assms by (fastforce simp: rep_from_def)
  then obtain f where "\<forall>r\<in>set used. rp_repl r = encode_json_string (f r)" by metis
  then have "length (map f used) = length used \<and> map rp_repl used = map encode_json_string (map f used)" by simp
  then show ?thesis by blast
qed

lemma rep_from_located:
  assumes "rep_from G body m r" and "index_exact G body"
  shows "0 < rp_start r \<and> (\<exists>path. has_prefix path (path_content m) \<and> g_type (gj_get G body path) = GString
     \<and> 512 \<le> length (g_str (gj_get G body path))
     \<and> Prelude.slice body (rp_start r) (rp_end r) = g_raw (gj_get G body path))"
proof -
  obtain s t where "s \<in> set (plan_blocks G body m)" "live_kind (ps_kind s)" "r = replace_slot s t"
    using assms(1) by (auto simp: rep_from_def)
  with plan_blocks_located [of s G body m]
  obtain path where p: "has_prefix path (path_content m)" "g_type (gj_get G body path) = GString" "0 < g_index (gj_get G body path)"
    "rp_start r = g_index (gj_get G body path)" "rp_end r = g_index (gj_get G body path) + int (length (g_raw (gj_get G body path)))"
    "512 \<le> length (g_str (gj_get G body path))"
    by (auto simp: located_def block_byte_threshold_def)
  moreover have "has_prefix (drop (nat (g_index (gj_get G body path))) body) (g_raw (gj_get G body path))"
    using assms(2) p(3) by (auto simp: index_exact_def Let_def)
  then have "Prelude.slice body (rp_start r) (rp_end r) = g_raw (gj_get G body path)"
    using p by (simp add: Prelude.slice_def has_prefix_take nat_add_distrib)
  ultimately show ?thesis by auto
qed

text \<open>The bytes outside the rewritten ranges, and what fills them.\<close>

lemma dispatch_weave:
  fixes E :: deps and opts :: "'s dispatch_options" and body :: string and st :: 's and rs :: replay_state
  defines "r \<equiv> fst (dispatch E opts body st rs)"
  shows "\<exists>used. dr_rewritten r = map rng_of used \<and> chained 0 (int (length body)) (dr_rewritten r)
     \<and> gaps_out (dr_body r) 0 (dr_rewritten r) = gaps_in body 0 (dr_rewritten r)
     \<and> dr_body r = weave (gaps_in body 0 (dr_rewritten r)) (map rp_repl used)
     \<and> (\<forall>u\<in>set used. \<exists>m. rep_from (dp_gjson E) body m u \<and> (op_replay opts = None \<longrightarrow>
          find_latest_user_message (dp_gjson E) body (frozen_floor E opts body) = Some m))"
proof (cases rule: dispatch_cases [of E opts body st rs])
  case same
  then show ?thesis by (intro exI [of _ "[]"]) (simp add: r_def)
next
  case (spliced live slots p)
  let ?acc = "accepted body 0 (sort_key rp_start (pa_reps p))"
  have ch: "chained 0 (int (length body)) (map rng_of ?acc)" by (rule chained_accepted) simp
  have rw: "dr_rewritten r = map rng_of ?acc" "dr_body r = spliced body 0 ?acc"
    using spliced(3) by (simp_all add: r_def apply_replacements_eq Let_def)
  have "\<exists>m. rep_from (dp_gjson E) body m u \<and> (op_replay opts = None \<longrightarrow>
          find_latest_user_message (dp_gjson E) body (frozen_floor E opts body) = Some m)" if "u \<in> set ?acc" for u
    using set_accepted [of body 0 "sort_key rp_start (pa_reps p)"] that dispatch_passes_reps [OF spliced(1)] by fastforce
  then show ?thesis
    using rw gaps_spliced [OF _ ch] weave_out [of body 0 ?acc] ch
    by (intro exI [of _ ?acc]) (simp del: map_map)
qed

section \<open>Tokens\<close>

lemma fold_fresh_tokens:
  "pa_after p \<le> pa_before p \<Longrightarrow> (pa_reps p \<noteq> [] \<Longrightarrow> pa_after p < pa_before p) \<Longrightarrow>
     let q = fold (fresh_slot E opts body tools claimed m) ss p
     in pa_after q \<le> pa_before q \<and> (pa_reps q \<noteq> [] \<longrightarrow> pa_after q < pa_before q)"
proof (induction ss arbitrary: p)
  case (Cons s ss)
  let ?q = "fresh_slot E opts body tools claimed m s p"
  have "pa_after ?q \<le> pa_before ?q \<and> (pa_reps ?q \<noteq> [] \<longrightarrow> pa_after ?q < pa_before ?q)"
    using Cons.prems by (cases rule: fresh_slot_reps [of E opts body tools claimed m s p]) auto
  then show ?case using Cons.IH [of ?q] by simp
qed simp

lemma dispatch_tokens:
  assumes "op_replay opts = None" and "dr_applied (fst (dispatch E opts body st rs))"
  shows "dr_tokens_after (fst (dispatch E opts body st rs)) < dr_tokens_before (fst (dispatch E opts body st rs))"
proof (cases rule: dispatch_cases [of E opts body st rs])
  case (spliced live slots p)
  have "replay_all E opts body (start_pass st rs) = start_pass st rs" using assms(1) by (simp add: replay_all_def)
  then obtain tools claimed m ss where "p = fold (fresh_slot E opts body tools claimed m) ss (start_pass st rs)"
    using spliced(1) by (auto simp: dispatch_passes_def Let_def)
  then have "pa_reps p \<noteq> [] \<longrightarrow> pa_after p < pa_before p"
    using fold_fresh_tokens [of "start_pass st rs" E opts body tools claimed m ss] by (simp add: start_pass_def Let_def)
  then show ?thesis using spliced by simp
qed (use assms in simp)

section \<open>The store\<close>

text \<open>The key of a text under the canonical digest.\<close>

abbreviation text_key :: "deps \<Rightarrow> string \<Rightarrow> string" where
  "text_key E text \<equiv> compute_key (dg_blake3 (dp_digests E)) text"

lemma text_key_not_Nil: "digests_ok (dp_digests E) \<Longrightarrow> text_key E text \<noteq> []"
  using compute_key_is_key [of "dg_blake3 (dp_digests E)" "text"] by (auto simp: digests_ok_def is_key_def)

text \<open>
  A text that the fresh pass puts on the wire resolves: its own hash to the exact original, and
  every marker it carries.
\<close>

definition resolves :: "('s \<Rightarrow> string \<Rightarrow> string option) \<Rightarrow> deps \<Rightarrow> 's \<Rightarrow> string \<Rightarrow> string \<Rightarrow> bool" where
  "resolves view E st text c \<longleftrightarrow> view st (text_key E text) = Some text \<and> text_key E text \<in> set (hashes_in c)
     \<and> (\<forall>h\<in>set (hashes_in c). view st h \<noteq> None)"

context ccr_store
begin

lemma fresh_text_spec:
  assumes "inv (pa_store p)" and "op_store opts = Some ops" and "op_router opts = Some R" and "router_ok ops R"
    and "digests_ok (dp_digests E)" and "q = fresh_text E opts tools m s p"
  shows "inv (pa_store q) \<and>
     (pa_reps q = pa_reps p \<and> pa_replay q = pa_replay p
      \<or> (\<exists>c. pa_reps q = pa_reps p @ [replace_slot s c] \<and> resolves view E (pa_store q) (ps_text s) c
           \<and> op_tokenizer opts c < op_tokenizer opts (ps_text s)
           \<and> pa_replay q = (case op_replay opts of None \<Rightarrow> pa_replay p
               | Some h \<Rightarrow> replay_record h (text_key E (ps_text s)) c (pa_replay p))))"
proof -
  obtain br st where cb: "compress_block (dp_digests E) (ps_text s)
        (block_context (dp_gjson E) (op_query opts) tools (ps_tool_use_id s)) (Some R) (Some ops)
        (op_tokenizer opts) (pa_store p) = (br, st)" by fastforce
  note q_def = assms(6)
  note spec = compress_block_spec [OF assms(1) cb assms(4)]
  show ?thesis
  proof (cases "br_accepted br")
    case False
    then show ?thesis using spec by (simp add: q_def fresh_text_def assms(2,3) cb Let_def)
  next
    case True
    then have k: "br_cache_key br = text_key E (ps_text s)" "inv st"
      "br_tokens_before br = op_tokenizer opts (ps_text s)" "br_tokens_after br = op_tokenizer opts (br_replacement br)"
      "br_tokens_after br < br_tokens_before br" using spec by auto
    have key: "text_key E (ps_text s) \<in> set (hashes_in (br_replacement br))"
      using spec True marked_text_names_key [OF assms(5)] by auto
    let ?st1 = "st_put ops (text_key E (ps_text s)) (ps_text s) st"
    obtain ok st2 where sr: "store_resolves ops (text_key E (ps_text s)) (ps_text s) (br_replacement br) ?st1 = (ok, st2)"
      by fastforce
    have r: "inv st2" "view st2 = view ?st1" "ok \<longleftrightarrow> view ?st1 (text_key E (ps_text s)) = Some (ps_text s)
        \<and> (\<forall>h\<in>set (hashes_in (br_replacement br)). view ?st1 h \<noteq> None)"
      using store_resolves_spec [OF put_inv [OF k(2)]] sr by (metis fst_conv snd_conv)+
    note eval = fresh_text_def assms(2,3) cb Let_def True k(1) sr text_key_not_Nil [OF assms(5)]
    show ?thesis
    proof (cases ok)
      case True
      then show ?thesis
        using r key k(3-5) by (auto simp: q_def eval resolves_def record_replay_def split: option.splits)
    next
      case False
      then show ?thesis using r by (simp add: q_def eval)
    qed
  qed
qed

end

context lossless_store
begin

text \<open>Replaying a recorded text whose markers the store knows: the same bytes again.\<close>

lemma replay_slot_same:
  assumes "inv (pa_store p)" and "op_store opts = Some ops" and "ps_kind s = SlotCompressible \<or> ps_kind s = SlotStringContent"
    and "rs_blocks (ry_heap (pa_replay p) (sr_sess h)) (text_key E (ps_text s)) = Some e"
    and "set (hashes_in (re_text e)) \<subseteq> dom (view (pa_store p))"
  shows "pa_reps (replay_slot E opts h body m s p) = pa_reps p @ [replace_slot s (re_text e)]"
proof -
  let ?k = "text_key E (ps_text s)" and ?md5 = "compute_key_md5 (dg_md5 (dp_digests E)) (ps_text s)"
  let ?st = "refresh_store (dp_digests E) ops ?k (ps_text s) (re_text e) (pa_store p)"
  have ni: "ps_kind s \<noteq> SlotImage" using assms(3) by auto
  have st: "inv ?st" "view ?st = (if contains (re_text e) ?md5
      then (view (pa_store p))(?k \<mapsto> ps_text s, ?md5 \<mapsto> ps_text s) else (view (pa_store p))(?k \<mapsto> ps_text s))"
    using assms(1) by (auto simp: refresh_store_def Let_def put_inv put_view)
  obtain ok st2 where sr: "store_resolves ops ?k (ps_text s) (re_text e) ?st = (ok, st2)" by fastforce
  have ok: ok
  proof -
    have "view ?st ?k = Some (ps_text s)" by (simp add: st(2))
    moreover have "view ?st h' \<noteq> None" if "h' \<in> set (hashes_in (re_text e))" for h'
      using that assms(5) by (auto simp: st(2) dom_def)
    ultimately show ?thesis using store_resolves_spec [OF st(1), of ?k "ps_text s" "re_text e"] sr by simp
  qed
  show ?thesis
    using assms(2-4) ok ni sr by (auto simp: replay_slot_def replay_hash_def replay_lookup_def Let_def)
qed

end

section \<open>A concrete dispatch\<close>

text \<open>One long user message, a router that shortens it, a SQLite store.\<close>

definition sample_message :: string where
  "sample_message = ''{\"role\":\"user\",\"content\":'' @ long_raw @ ''}''"

definition sample_body :: string where
  "sample_body = ''{\"messages\":['' @ sample_message @ '']}''"

definition json_value :: "string \<Rightarrow> gres" where
  "json_value raw = \<lparr>g_type = GJson, g_raw = raw, g_str = [], g_index = 0\<rparr>"

definition sample_gjson :: gjson where
  "sample_gjson = table_gjson
     [(''messages'', json_value (CHR ''['' # sample_message @ '']'')),
      (''messages.0.content'', \<lparr>g_type = GString, g_raw = long_raw, g_str = long_text, g_index = 38\<rparr>)]
     [((sample_body, ''messages''), json_value (CHR ''['' # sample_message @ '']'')),
      ((sample_message, ''role''), \<lparr>g_type = GString, g_raw = ''\"user\"'', g_str = ''user'', g_index = 0\<rparr>)]
     [(CHR ''['' # sample_message @ '']'', [json_value sample_message])]"

definition sample_deps :: deps where
  "sample_deps = \<lparr>dp_gjson = sample_gjson, dp_codec = sample_codec,
     dp_digests = \<lparr>dg_blake3 = (\<lambda>_. replicate 32 CHR 0xAB), dg_md5 = (\<lambda>_. replicate 16 CHR 0xCD)\<rparr>\<rparr>"

definition sample_router :: "'g router" where
  "sample_router = (\<lambda>ops text ctx g. (\<lparr>pr_output = ''short'', pr_bytes_saved = 595, pr_steps_applied = [''t''], pr_cache_keys = []\<rparr>, g))"

definition sample_options :: "session_replay option \<Rightarrow> sqlite dispatch_options" where
  "sample_options h = \<lparr>op_router = Some sample_router, op_store = Some sql_ops, op_tokenizer = (\<lambda>s. int (length s)),
     op_frozen_count = 0, op_query = [], op_replay = h, op_image_fit = False\<rparr>"

definition sample_store :: sqlite where
  "sample_store = \<lparr>sq_rows = Map.empty, sq_ttl = 0, sq_now = 7, sq_up = True\<rparr>"

definition sample_key :: string where
  "sample_key = compute_key (dg_blake3 (dp_digests sample_deps)) long_text"

lemma sample_key_text: "sample_key = ''abababababababababababab''"
  by (simp add: sample_key_def sample_deps_def compute_key_def) code_simp

lemma sample_exact: "index_exact sample_gjson sample_body"
  unfolding sample_gjson_def
  by (rule index_exact_table) (simp add: sample_body_def sample_message_def json_value_def has_prefix_iff)

definition sample_slot :: plan_slot where
  "sample_slot = \<lparr>ps_block_index = 0, ps_kind = SlotStringContent, ps_block_type = [], ps_text = long_text,
      ps_start = 38, ps_end = 640, ps_tool_use_id = [], ps_content_index = -1\<rparr>"

lemma length_long [simp]: "length long_text = 600" "length long_raw = 602"
  by (simp_all add: long_text_def long_raw_def)

lemma sample_plan: "plan_blocks sample_gjson sample_body 0 = [sample_slot]"
proof -
  have path: "path_content 0 = ''messages.0.content''" by code_simp
  show ?thesis
    by (simp add: plan_blocks_def path sample_gjson_def table_defs string_slot_def classify_def
        block_byte_threshold_def sample_slot_def Let_def)
qed

lemma sample_latest: "find_latest_user_message sample_gjson sample_body 0 = Some 0"
  by (simp add: find_latest_user_message_def sample_gjson_def table_defs json_value_def sample_message_def sample_body_def Let_def)

definition sample_replacement :: string where
  "sample_replacement = ''short'' @ [NL] @ marker_for sample_key"

lemma sample_hashes: "hashes_in sample_replacement = [sample_key]"
  by (simp add: sample_replacement_def sample_key_text) code_simp

lemma sample_compress:
  "compress_block (dp_digests sample_deps) long_text ctx (op_router (sample_options h)) (Some sql_ops)
     (op_tokenizer (sample_options h)) st =
   (\<lparr>br_accepted = True, br_action = ''compressed'', br_strategy = ''t'', br_replacement = sample_replacement,
      br_tokens_before = 600, br_tokens_after = 38, br_cache_key = sample_key\<rparr>, st)"
proof -
  have m: "marked_text (dp_digests sample_deps) long_text ''short'' = sample_replacement"
    by (simp add: marked_text_def sample_replacement_def sample_key_def has_suffix_def)
  have len: "length sample_replacement = 38"
    by (simp add: sample_replacement_def sample_key_text marker_for_def marker_prefix_def marker_suffix_def)
  have ne: "''short'' \<noteq> long_text"
  proof
    assume "''short'' = long_text"
    then have "length ''short'' = length long_text" by (rule arg_cong)
    then show False by simp
  qed
  show ?thesis
    using ne by (simp add: compress_block_def sample_options_def sample_router_def accepts_i5_def m len
        sample_key_def [symmetric] staging_commit_def staging_new_def Let_def)
qed

lemma sample_fresh:
  fixes p :: "sqlite pass"
  assumes "sq_up (pa_store p)"
  shows "let q = fresh_text sample_deps (sample_options h) tools 0 sample_slot p
     in pa_reps q = pa_reps p @ [replace_slot sample_slot sample_replacement]
      \<and> pa_before q = pa_before p + 600 \<and> pa_after q = pa_after p + 38
      \<and> sq_up (pa_store q) \<and> sql_view (pa_store q) sample_key = Some long_text
      \<and> pa_replay q = (case h of None \<Rightarrow> pa_replay p | Some h \<Rightarrow> replay_record h sample_key sample_replacement (pa_replay p))"
proof -
  let ?st = "st_put sql_ops sample_key long_text (pa_store p)"
  have up: "sq_up ?st" using sql.put_inv [OF assms] .
  obtain ok st2 where sr: "store_resolves sql_ops sample_key long_text sample_replacement ?st = (ok, st2)" by fastforce
  have v: "sql_view ?st sample_key = Some long_text"
    using sql.put_view [OF assms, of sample_key long_text] by simp
  have ok: "ok" "sq_up st2" "sql_view st2 = sql_view ?st"
    using sql.store_resolves_spec [OF up, of sample_key long_text sample_replacement] sr v by (simp_all add: sample_hashes)
  have slot: "ps_text sample_slot = long_text" by (simp add: sample_slot_def)
  have key: "sample_key \<noteq> []" by (simp add: sample_key_text)
  have store: "op_store (sample_options h) = Some sql_ops" by (simp add: sample_options_def)
  have rep: "op_replay (sample_options h) = h" by (simp add: sample_options_def)
  show ?thesis
    using ok v by (simp add: fresh_text_def slot sample_compress store key sr record_replay_def rep Let_def split: option.splits)
qed

lemma sample_passes:
  "dispatch_passes sample_deps (sample_options None) sample_body st rs =
     (Some 0, [sample_slot], fresh_text sample_deps (sample_options None) (index_tools sample_gjson sample_body) 0 sample_slot
        (start_pass st rs))"
proof -
  have "frozen_floor sample_deps (sample_options None) sample_body = 0"
    by (simp add: frozen_floor_def sample_options_def)
  moreover have "dp_gjson sample_deps = sample_gjson" by (simp add: sample_deps_def)
  moreover have "op_replay (sample_options None) = None" by (simp add: sample_options_def)
  moreover have "ps_kind sample_slot = SlotStringContent" by (simp add: sample_slot_def)
  ultimately show ?thesis
    by (simp add: dispatch_passes_def sample_latest sample_plan replay_all_def start_pass_def fresh_slot_def Let_def)
qed

lemma sample_dispatch:
  assumes "sq_up st"
  shows "dr_applied (fst (dispatch sample_deps (sample_options None) sample_body st rs))
     \<and> dr_rewritten (fst (dispatch sample_deps (sample_options None) sample_body st rs))
        = [\<lparr>rg_start = 38, rg_end = 640, rg_new_len = int (length (encode_json_string sample_replacement))\<rparr>]"
proof -
  let ?p = "fresh_text sample_deps (sample_options None) (index_tools sample_gjson sample_body) 0 sample_slot (start_pass st rs)"
  have "sq_up (pa_store (start_pass st rs))" using assms by (simp add: start_pass_def)
  then have reps: "pa_reps ?p = [replace_slot sample_slot sample_replacement]"
    using sample_fresh [of "start_pass st rs" None] by (simp add: Let_def start_pass_def)
  have g: "dp_gjson sample_deps = sample_gjson" by (simp add: sample_deps_def)
  have j: "gj_valid sample_gjson sample_body" "gj_is_object sample_gjson (gj_parse sample_gjson sample_body)"
    "gj_is_array sample_gjson (gj_sub sample_gjson (gj_parse sample_gjson sample_body) ''messages'')"
    by (simp_all add: sample_gjson_def table_defs json_value_def) (simp add: sample_body_def)
  have "length sample_body = 643" by (simp add: sample_body_def sample_message_def)
  then have "accepted sample_body 0 [replace_slot sample_slot sample_replacement] = [replace_slot sample_slot sample_replacement]"
    by (simp add: sample_slot_def replace_slot_def)
  then have "snd (apply_replacements sample_body [replace_slot sample_slot sample_replacement])
      = [\<lparr>rg_start = 38, rg_end = 640, rg_new_len = int (length (encode_json_string sample_replacement))\<rparr>]"
    by (simp add: apply_replacements_eq Let_def rng_of_def) (simp add: sample_slot_def)
  then show ?thesis
    using reps by (simp add: dispatch_def g j sample_passes Let_def case_prod_unfold)
qed

section \<open>Properties\<close>

text \<open>C1. Invariant I1 of the dispatcher, for every body, policy, store, router and replay state. The
  rewritten ranges are ordered, disjoint and in bounds; walking the input and the output in lockstep
  yields the same untouched bytes; and each range is the raw text of one JSON string of at least the
  threshold's length, replaced by one JSON string literal. A result that is not applied is the body.\<close>

theorem dispatch_untouched_verbatim:
  assumes "index_exact (dp_gjson E) body"
  shows "let r = fst (dispatch E opts body st rs); rw = dr_rewritten r; G = dp_gjson E
    in chained 0 (int (length body)) rw
     \<and> gaps_out (dr_body r) 0 rw = gaps_in body 0 rw
     \<and> (\<exists>texts. length texts = length rw \<and> dr_body r = weave (gaps_in body 0 rw) (map encode_json_string texts))
     \<and> (\<forall>g\<in>set rw. \<exists>path. g_type (gj_get G body path) = GString \<and> 512 \<le> length (g_str (gj_get G body path))
          \<and> Prelude.slice body (rg_start g) (rg_end g) = g_raw (gj_get G body path))
     \<and> (\<not> dr_applied r \<longrightarrow> dr_body r = body \<and> rw = [])"
proof -
  let ?r = "fst (dispatch E opts body st rs)"
  obtain used where u: "dr_rewritten ?r = map rng_of used" "chained 0 (int (length body)) (dr_rewritten ?r)"
     "gaps_out (dr_body ?r) 0 (dr_rewritten ?r) = gaps_in body 0 (dr_rewritten ?r)"
     "dr_body ?r = weave (gaps_in body 0 (dr_rewritten ?r)) (map rp_repl used)"
     "\<forall>u\<in>set used. \<exists>m. rep_from (dp_gjson E) body m u"
    using dispatch_weave [of E opts body st rs] by meson
  have "\<exists>texts. length texts = length (dr_rewritten ?r)
      \<and> dr_body ?r = weave (gaps_in body 0 (dr_rewritten ?r)) (map encode_json_string texts)"
    using rep_texts [OF u(5)] u(1,4) by (metis length_map)
  moreover have "\<exists>path. g_type (gj_get (dp_gjson E) body path) = GString \<and> 512 \<le> length (g_str (gj_get (dp_gjson E) body path))
          \<and> Prelude.slice body (rg_start g) (rg_end g) = g_raw (gj_get (dp_gjson E) body path)"
    if "g \<in> set (dr_rewritten ?r)" for g
    using that u(1,5) rep_from_located [OF _ assms] by fastforce
  moreover have "dr_applied ?r \<or> dr_body ?r = body \<and> dr_rewritten ?r = []"
    by (cases rule: dispatch_cases [of E opts body st rs]) auto
  ultimately show ?thesis using u(2,3) unfolding Let_def by blast
qed

theorem dispatch_untouched_verbatim_witness:
  "let r = fst (dispatch sample_deps (sample_options None) sample_body sample_store (new_replay_state 4))
   in dr_rewritten r \<noteq> [] \<and> gaps_out (dr_body r) 0 (dr_rewritten r) = gaps_in sample_body 0 (dr_rewritten r)"
proof -
  have "index_exact (dp_gjson sample_deps) sample_body" using sample_exact by (simp add: sample_deps_def)
  from dispatch_untouched_verbatim [OF this, of "sample_options None" sample_store "new_replay_state 4"]
    sample_dispatch [of sample_store "new_replay_state 4"]
  show ?thesis by (simp add: Let_def sample_store_def)
qed



text \<open>C13. Invariant I5 end to end: a fresh dispatch that rewrites anything reports strictly fewer
  tokens after than before, whatever the router did.\<close>

theorem dispatch_saves_tokens:
  assumes "op_replay opts = None" and "dr_applied (fst (dispatch E opts body st rs))"
  shows "dr_tokens_after (fst (dispatch E opts body st rs)) < dr_tokens_before (fst (dispatch E opts body st rs))"
  using assms by (rule dispatch_tokens)

theorem dispatch_saves_tokens_witness:
  "let r = fst (dispatch sample_deps (sample_options None) sample_body sample_store (new_replay_state 4))
   in dr_tokens_after r < dr_tokens_before r"
  using dispatch_saves_tokens [of "sample_options None" sample_deps sample_body sample_store "new_replay_state 4"] sample_dispatch [of sample_store "new_replay_state 4"]
  by (simp add: Let_def sample_store_def sample_options_def)

text \<open>C6. A block that the token gate does not accept leaves no trace: nothing to splice, no key, and the
  CCR store resolves exactly what it did, although the router has already stored originals while it
  ran. An accepted one strictly shrinks and names the key of its original. In-memory store.\<close>

theorem rejected_block_leaves_no_orphan:
  assumes "mem_inv st" and "router_ok mem_ops R" and "digests_ok D"
    and "compress_block D text ctx (Some R) (Some mem_ops) tok st = (br, st')"
  shows "mem_inv st' \<and>
    (if br_accepted br
     then br_tokens_after br < br_tokens_before br \<and> br_tokens_before br = tok text
        \<and> br_tokens_after br = tok (br_replacement br) \<and> br_cache_key br = compute_key (dg_blake3 D) text
        \<and> br_cache_key br \<in> set (hashes_in (br_replacement br))
     else mem_view st' = mem_view st \<and> br_replacement br = [] \<and> br_cache_key br = [])"
proof (cases "br_accepted br")
  case True
  then obtain out where "br_replacement br = marked_text D text out" "br_cache_key br = compute_key (dg_blake3 D) text"
    using mem.compress_block_spec [OF assms(1,4,2)] by blast
  then have "br_cache_key br \<in> set (hashes_in (br_replacement br))"
    using marked_text_names_key [OF assms(3)] by simp
  then show ?thesis using mem.compress_block_spec [OF assms(1,4,2)] True by simp
next
  case False
  then show ?thesis using mem.compress_block_spec [OF assms(1,4,2)] by simp
qed

definition wordy_router :: "inmem staging router" where
  "wordy_router = (\<lambda>ops text ctx g. (\<lparr>pr_output = text @ ''!'', pr_bytes_saved = 0, pr_steps_applied = [], pr_cache_keys = []\<rparr>,
     st_put ops ''k'' text g))"

theorem rejected_block_leaves_no_orphan_witness:
  "mem_view (snd (compress_block (dp_digests sample_deps) ''text'' (empty_context []) (Some wordy_router) (Some mem_ops)
      (\<lambda>s. int (length s)) (new_in_memory 4 60 0))) = mem_view (new_in_memory 4 60 0)"
proof -
  have r: "router_ok mem_ops wordy_router" by (auto simp: router_ok_def wordy_router_def)
  have d: "digests_ok (dp_digests sample_deps)" by (simp add: digests_ok_def sample_deps_def)
  have i: "mem_inv (new_in_memory 4 60 0)" by (simp add: mem_inv_new)
  obtain br st' where cb: "compress_block (dp_digests sample_deps) ''text'' (empty_context []) (Some wordy_router) (Some mem_ops)
      (\<lambda>s. int (length s)) (new_in_memory 4 60 0) = (br, st')" by fastforce
  then have "\<not> br_accepted br"
    by (auto simp: compress_block_def wordy_router_def accepts_i5_def marked_text_def marker_for_def marker_prefix_def
        marker_suffix_def Let_def split: if_splits)
  with rejected_block_leaves_no_orphan [OF i r d cb] cb show ?thesis by simp
qed

text \<open>C12. When the fresh pass rewrites a text block, the store it leaves resolves the block's own hash to
  the exact original and every retrieval marker that the replacement carries, even for the in-memory
  store, which may evict; otherwise nothing is spliced or recorded.\<close>

theorem rewritten_block_resolves:
  assumes "mem_inv (pa_store p)" and "op_store opts = Some mem_ops" and "op_router opts = Some R"
    and "router_ok mem_ops R" and "digests_ok (dp_digests E)" and "q = fresh_text E opts tools m s p"
  shows "pa_reps q = pa_reps p \<and> pa_replay q = pa_replay p
    \<or> (\<exists>c. pa_reps q = pa_reps p @ [replace_slot s c]
         \<and> mem_view (pa_store q) (text_key E (ps_text s)) = Some (ps_text s)
         \<and> text_key E (ps_text s) \<in> set (hashes_in c)
         \<and> (\<forall>h\<in>set (hashes_in c). mem_view (pa_store q) h \<noteq> None))"
  using mem.fresh_text_spec [OF assms] by (auto simp: resolves_def)

definition mem_options :: "inmem dispatch_options" where
  "mem_options = \<lparr>op_router = Some sample_router, op_store = Some mem_ops, op_tokenizer = (\<lambda>s. int (length s)),
     op_frozen_count = 0, op_query = [], op_replay = None, op_image_fit = False\<rparr>"

lemma sample_digests_ok: "digests_ok (dp_digests sample_deps)"
  by (simp add: digests_ok_def sample_deps_def)

lemma sample_router_ok: "router_ok ops sample_router"
  by (simp add: router_ok_def sample_router_def)

theorem rewritten_block_resolves_witness:
  "pa_reps (fresh_text sample_deps mem_options [] 0 sample_slot (start_pass (new_in_memory 4 60 0) (new_replay_state 4))) = []
   \<or> (\<exists>c. text_key sample_deps long_text \<in> set (hashes_in c)
        \<and> mem_view (pa_store (fresh_text sample_deps mem_options [] 0 sample_slot (start_pass (new_in_memory 4 60 0) (new_replay_state 4))))
            (text_key sample_deps long_text) = Some long_text)"
proof -
  have "mem_inv (pa_store (start_pass (new_in_memory 4 60 0) (new_replay_state 4)))" by (simp add: start_pass_def mem_inv_new)
  from rewritten_block_resolves [OF this _ _ sample_router_ok sample_digests_ok HOL.refl, of mem_options "[]" 0 sample_slot]
  show ?thesis by (auto simp: mem_options_def start_pass_def sample_slot_def)
qed



end
