(* ===== verification/Drift.thy ===== *)
theory Drift
  imports GoJson Gjson
begin

text \<open>
  \<open>internal/cachestab/drift.go\<close> and \<open>session.go\<close>: fingerprints of the settled prefix of a request and
  the bounded table that compares them turn by turn. SHA-256 is an argument; so is \<open>num\<close>, the text
  of a JSON number after a round trip through \<open>float64\<close> (\<open>None\<close> when it is out of range).
\<close>

section \<open>Decoding to raw messages\<close>

text \<open>\<open>Unmarshal\<close> into \<open>map[string]json.RawMessage\<close> and \<open>[]json.RawMessage\<close>: the text is checked as a
  whole, then every member keeps the exact text of its value.\<close>

definition raw_value :: "string \<Rightarrow> (string \<times> string) option" where
  "raw_value s =
     (let t = skip_ws s in
      map_option (\<lambda>(v, r). (take (length t - length r) t, r)) (parse_value (2 * length t + 2) max_nesting t))"

fun raw_members :: "nat \<Rightarrow> (string \<times> string) list \<Rightarrow> string \<Rightarrow> (string \<times> string) list option" where
  "raw_members 0 acc s = None"
| "raw_members (Suc n) acc s =
     (case read_json_string (skip_ws s) of
        None \<Rightarrow> None
      | Some (key, r) \<Rightarrow>
          (case raw_value (drop 1 (skip_ws r)) of
             None \<Rightarrow> None
           | Some (raw, r2) \<Rightarrow>
               if has_prefix (skip_ws r2) '','' then raw_members n (AList.update key raw acc) (drop 1 (skip_ws r2))
               else Some (AList.update key raw acc)))"

fun raw_elems :: "nat \<Rightarrow> string list \<Rightarrow> string \<Rightarrow> string list option" where
  "raw_elems 0 acc s = None"
| "raw_elems (Suc n) acc s =
     (case raw_value s of
        None \<Rightarrow> None
      | Some (raw, r) \<Rightarrow>
          if has_prefix (skip_ws r) '','' then raw_elems n (acc @ [raw]) (drop 1 (skip_ws r)) else Some (acc @ [raw]))"

definition unmarshal_raw_map :: "string \<Rightarrow> (string \<times> string) list option" where
  "unmarshal_raw_map body =
     (case parse_json max_nesting body of
        Some JNull \<Rightarrow> Some []
      | Some (JObj ms) \<Rightarrow> if ms = [] then Some [] else raw_members (length body) [] (drop 1 (skip_ws body))
      | _ \<Rightarrow> None)"

definition unmarshal_raw_list :: "string \<Rightarrow> string list option" where
  "unmarshal_raw_list body =
     (case parse_json max_nesting body of
        Some JNull \<Rightarrow> Some []
      | Some (JArr vs) \<Rightarrow> if vs = [] then Some [] else raw_elems (length body) [] (drop 1 (skip_ws body))
      | _ \<Rightarrow> None)"

section \<open>Canonical form\<close>

definition opaque_payload_keys :: "string list" where
  "opaque_payload_keys = [''input'', ''arguments'', ''json'', ''input_schema'']"

fun strip_cache_control :: "json \<Rightarrow> bool \<Rightarrow> json" where
  "strip_cache_control (JObj ms) in_opaque =
     JObj (concat (map (\<lambda>(k, sub). if \<not> in_opaque \<and> k = ''cache_control'' then []
                          else [(k, strip_cache_control sub (in_opaque \<or> k \<in> set opaque_payload_keys))]) ms))"
| "strip_cache_control (JArr vs) in_opaque = JArr (map (\<lambda>v. strip_cache_control v in_opaque) vs)"
| "strip_cache_control v in_opaque = v"

text \<open>\<open>json.Marshal\<close> of a decoded value: sorted keys, \<open>float64\<close> numbers, and strings with \<open><\<close>, \<open>>\<close> and \<open>&\<close>
  escaped. \<open>None\<close> is the decoder's error for a number out of range.\<close>

fun numbers_ok :: "(string \<Rightarrow> string option) \<Rightarrow> json \<Rightarrow> bool" where
  "numbers_ok num (JNum m) = (num m \<noteq> None)"
| "numbers_ok num (JArr vs) = list_all (numbers_ok num) vs"
| "numbers_ok num (JObj ms) = list_all (\<lambda>(k, v). numbers_ok num v) ms"
| "numbers_ok num v = True"

fun marshal_any :: "(string \<Rightarrow> string option) \<Rightarrow> json \<Rightarrow> string" where
  "marshal_any num JNull = ''null''"
| "marshal_any num (JBool b) = (if b then ''true'' else ''false'')"
| "marshal_any num (JNum m) = the (num m)"
| "marshal_any num (JStr s) = html_escape (encode_json_string s)"
| "marshal_any num (JArr vs) = CHR ''['' # join '','' (map (marshal_any num) vs) @ '']''"
| "marshal_any num (JObj ms) =
     CHR ''{'' # join '','' (map snd (sort_key fst
       (map (\<lambda>(k, v). (k, html_escape (encode_json_string k) @ '':'' @ marshal_any num v)) ms))) @ ''}''"

definition canonical :: "(string \<Rightarrow> string option) \<Rightarrow> string \<Rightarrow> string option" where
  "canonical num raw =
     (case parse_json max_nesting raw of
        None \<Rightarrow> None
      | Some v \<Rightarrow> if numbers_ok num v then Some (marshal_any num (strip_cache_control v False)) else None)"

definition hash_canonical :: "(string \<Rightarrow> string) \<Rightarrow> (string \<Rightarrow> string option) \<Rightarrow> string \<Rightarrow> string" where
  "hash_canonical sha num raw =
     (if raw = [] then sha ''null''
      else (case canonical num raw of None \<Rightarrow> sha raw | Some c \<Rightarrow> sha c))"

section \<open>Fingerprints\<close>

definition early_messages_window :: nat where "early_messages_window = 3"

record structural_hash =
  sh_system :: string
  sh_tools :: string
  sh_early_messages :: "string option list"

definition conversation_messages :: "string \<Rightarrow> string list" where
  "conversation_messages raw =
     (if raw = [] then [] else (case unmarshal_raw_list raw of None \<Rightarrow> [] | Some ms \<Rightarrow> ms))"

text \<open>The missing member of a Go map is the empty message.\<close>

definition member_raw :: "(string \<times> string) list \<Rightarrow> string \<Rightarrow> string" where
  "member_raw ms k = (case map_of ms k of None \<Rightarrow> [] | Some raw \<Rightarrow> raw)"

definition compute_structural_hash :: "(string \<Rightarrow> string) \<Rightarrow> (string \<Rightarrow> string option) \<Rightarrow> string \<Rightarrow> structural_hash" where
  "compute_structural_hash sha num body =
     (case unmarshal_raw_map body of
        None \<Rightarrow> \<lparr>sh_system = sha [], sh_tools = sha [], sh_early_messages = replicate early_messages_window None\<rparr>
      | Some ms \<Rightarrow>
          (let msgs = take early_messages_window (conversation_messages (member_raw ms ''messages''))
           in \<lparr>sh_system = hash_canonical sha num (member_raw ms ''system''),
               sh_tools = hash_canonical sha num (member_raw ms ''tools''),
               sh_early_messages = map (\<lambda>m. Some (hash_canonical sha num m)) msgs
                 @ replicate (early_messages_window - length msgs) None\<rparr>))"

fun early_window_drifted :: "string option list \<Rightarrow> string option list \<Rightarrow> bool" where
  "early_window_drifted (None # ps) (c # cs) = early_window_drifted ps cs"
| "early_window_drifted (Some p # ps) (None # cs) = True"
| "early_window_drifted (Some p # ps) (Some c # cs) = (p \<noteq> c \<or> early_window_drifted ps cs)"
| "early_window_drifted ps cs = False"

definition drifted :: "structural_hash \<Rightarrow> structural_hash \<Rightarrow> string list" where
  "drifted prev now =
     (if sh_system prev \<noteq> sh_system now then [''system''] else [])
     @ (if sh_tools prev \<noteq> sh_tools now then [''tools''] else [])
     @ (if early_window_drifted (sh_early_messages prev) (sh_early_messages now) then [''early_messages''] else [])"

section \<open>The table of sessions\<close>

definition default_drift_capacity :: nat where "default_drift_capacity = 1024"

record observation =
  ob_first_request :: bool
  ob_dims :: "string list"
  ob_session_digest :: string

definition observation_drifted :: "observation \<Rightarrow> bool" where
  "observation_drifted ob \<longleftrightarrow> \<not> ob_first_request ob \<and> ob_dims ob \<noteq> []"

record drift_state =
  ds_capacity :: nat
  ds_seen :: "string \<rightharpoonup> structural_hash"
  ds_order :: "string list"

definition new_drift_state :: "int \<Rightarrow> drift_state" where
  "new_drift_state capacity =
     \<lparr>ds_capacity = (if capacity \<le> 0 then default_drift_capacity else nat capacity), ds_seen = Map.empty, ds_order = []\<rparr>"

definition short_digest :: "(string \<Rightarrow> string) \<Rightarrow> string \<Rightarrow> string" where
  "short_digest sha v = take 16 (hex_encode (sha v))"

definition admit :: "string \<Rightarrow> drift_state \<Rightarrow> drift_state" where
  "admit key s =
     (let s' = (if ds_capacity s \<le> length (ds_order s)
                then s\<lparr>ds_seen := (ds_seen s)(hd (ds_order s) := None), ds_order := tl (ds_order s)\<rparr> else s)
      in s'\<lparr>ds_order := ds_order s' @ [key]\<rparr>)"

definition observe :: "(string \<Rightarrow> string) \<Rightarrow> string \<Rightarrow> structural_hash \<Rightarrow> drift_state \<Rightarrow> observation \<times> drift_state" where
  "observe sha key now s =
     (let ob = \<lparr>ob_first_request = False, ob_dims = [], ob_session_digest = short_digest sha key\<rparr> in
      case ds_seen s key of
        None \<Rightarrow> (let s' = admit key s in (ob\<lparr>ob_first_request := True\<rparr>, s'\<lparr>ds_seen := (ds_seen s')(key \<mapsto> now)\<rparr>))
      | Some prev \<Rightarrow> (ob\<lparr>ob_dims := drifted prev now\<rparr>, s\<lparr>ds_seen := (ds_seen s)(key \<mapsto> now)\<rparr>))"

definition drift_len :: "drift_state \<Rightarrow> nat" where "drift_len s = card (dom (ds_seen s))"

section \<open>Session keys\<close>

type_synonym http_header = "string \<rightharpoonup> string list"

text \<open>\<open>Header.Get\<close> of a canonical name: the first value, or the empty string.\<close>

definition header_get :: "http_header \<Rightarrow> string \<Rightarrow> string" where
  "header_get h name = (case h name of Some (v # vs) \<Rightarrow> v | _ \<Rightarrow> [])"

definition declared_session_key :: "(string \<Rightarrow> string) \<Rightarrow> http_header \<Rightarrow> string option" where
  "declared_session_key sha h =
     (if header_get h ''X-Headroom-Session-Id'' \<noteq> []
      then Some (''session:'' @ short_digest sha (header_get h ''X-Headroom-Session-Id''))
      else if header_get h ''X-Claude-Code-Session-Id'' \<noteq> []
      then Some (''claude:'' @ short_digest sha (header_get h ''X-Claude-Code-Session-Id''))
      else None)"

definition conversation_discriminator ::
  "gjson \<Rightarrow> (string \<Rightarrow> string) \<Rightarrow> (string \<Rightarrow> string option) \<Rightarrow> string \<Rightarrow> string" where
  "conversation_discriminator G sha num body =
     (let first = gj_get G body ''messages.0'' in
      if \<not> gj_exists G first then ''-''
      else (case canonical num (g_raw first) of
              None \<Rightarrow> ''-''
            | Some c \<Rightarrow> take 16 (hex_encode (sha (gj_string G (gj_get G body ''model'') @ [CHR 0x00] @ c)))))"

definition session_key ::
  "gjson \<Rightarrow> (string \<Rightarrow> string) \<Rightarrow> (string \<Rightarrow> string option) \<Rightarrow> http_header \<Rightarrow> string \<Rightarrow> string \<Rightarrow> string" where
  "session_key G sha num h remote_addr body =
     (case declared_session_key sha h of
        Some k \<Rightarrow> k
      | None \<Rightarrow>
          (let conv = conversation_discriminator G sha num body; auth = header_get h ''Authorization'';
               key = header_get h ''X-Api-Key'' in
           if auth \<noteq> [] then ''auth:'' @ short_digest sha auth @ '':'' @ conv
           else if key \<noteq> [] then ''apikey:'' @ short_digest sha key @ '':'' @ conv
           else ''addr:'' @ short_digest sha (remote_addr @ [CHR 0x00] @ header_get h ''User-Agent'') @ '':'' @ conv))"

definition claude_session_digest :: "(string \<Rightarrow> string) \<Rightarrow> string \<Rightarrow> string" where
  "claude_session_digest sha sid = short_digest sha (''claude:'' @ short_digest sha sid)"

section \<open>Lemmas\<close>

definition drift_inv :: "drift_state \<Rightarrow> bool" where
  "drift_inv s \<longleftrightarrow> 0 < ds_capacity s \<and> distinct (ds_order s) \<and> set (ds_order s) = dom (ds_seen s)
     \<and> length (ds_order s) \<le> ds_capacity s"

lemma drift_inv_new: "drift_inv (new_drift_state c)"
  by (auto simp: drift_inv_def new_drift_state_def default_drift_capacity_def)

lemma drift_inv_observe:
  assumes "drift_inv s" and "observe sha key now s = (ob, s')"
  shows "drift_inv s' \<and> ds_capacity s' = ds_capacity s"
proof (cases "ds_seen s key")
  case None
  have k: "key \<notin> set (ds_order s)" using assms(1) None by (auto simp: drift_inv_def)
  show ?thesis
  proof (cases "ds_capacity s \<le> length (ds_order s)")
    case True
    then obtain x xs where o': "ds_order s = x # xs" using assms(1) by (cases "ds_order s") (auto simp: drift_inv_def)
    have mem: "a = x \<or> a \<in> set xs" if "ds_seen s a = Some y" for a y
      using assms(1) that o' by (auto simp: drift_inv_def)
    show ?thesis using assms None True k o' mem
      by (auto simp: observe_def admit_def Let_def drift_inv_def split: if_splits)
  next
    case False
    then show ?thesis using assms None k by (auto simp: observe_def admit_def Let_def drift_inv_def)
  qed
next
  case (Some prev)
  then show ?thesis using assms by (auto simp: observe_def Let_def drift_inv_def split: if_splits)
qed

text \<open>A run of observations, and the last fingerprint of a session in it.\<close>

fun observe_all :: "(string \<Rightarrow> string) \<Rightarrow> (string \<times> structural_hash) list \<Rightarrow> drift_state \<Rightarrow> drift_state" where
  "observe_all sha [] s = s"
| "observe_all sha ((key, now) # hs) s = observe_all sha hs (snd (observe sha key now s))"

definition last_seen :: "(string \<times> structural_hash) list \<Rightarrow> string \<Rightarrow> structural_hash option" where
  "last_seen hs = map_of (rev hs)"

lemma observe_all_snoc: "observe_all sha (hs @ [(k, h)]) s = snd (observe sha k h (observe_all sha hs s))"
  by (induction sha hs s rule: observe_all.induct) auto

lemma last_seen_snoc: "last_seen (hs @ [(k, h)]) = (last_seen hs)(k \<mapsto> h)"
  by (simp add: last_seen_def)

lemma observe_sub:
  assumes "ds_seen (snd (observe sha k h s)) k' = Some x"
  shows "if k' = k then x = h else ds_seen s k' = Some x"
  using assms by (auto simp: observe_def admit_def Let_def split: option.splits if_splits)

lemma drift_run:
  "drift_inv (observe_all sha hs (new_drift_state c)) \<and> ds_capacity (observe_all sha hs (new_drift_state c)) = ds_capacity (new_drift_state c)
   \<and> (\<forall>k x. ds_seen (observe_all sha hs (new_drift_state c)) k = Some x \<longrightarrow> last_seen hs k = Some x)"
proof (induction hs rule: rev_induct)
  case Nil
  then show ?case using drift_inv_new by (simp add: new_drift_state_def)
next
  case (snoc kh hs)
  obtain k h where kh: "kh = (k, h)" by fastforce
  let ?s = "observe_all sha hs (new_drift_state c)"
  obtain ob s' where ob: "observe sha k h ?s = (ob, s')" by fastforce
  have "drift_inv s' \<and> ds_capacity s' = ds_capacity (new_drift_state c)" using drift_inv_observe [OF _ ob] snoc by simp
  moreover have "last_seen (hs @ [kh]) k' = Some x" if "ds_seen s' k' = Some x" for k' x
    using observe_sub [of sha k h ?s k' x] that snoc ob unfolding kh last_seen_snoc by (auto split: if_splits)
  ultimately show ?case unfolding kh observe_all_snoc ob by simp
qed

text \<open>No session is forgotten while no more have been seen than the table holds.\<close>

lemma drift_complete:
  "card (fst ` set hs) \<le> ds_capacity (new_drift_state c) \<Longrightarrow>
   dom (ds_seen (observe_all sha hs (new_drift_state c))) = fst ` set hs"
proof (induction hs rule: rev_induct)
  case Nil
  then show ?case by (simp add: new_drift_state_def)
next
  case (snoc kh hs)
  obtain k h where kh: "kh = (k, h)" by fastforce
  let ?s = "observe_all sha hs (new_drift_state c)"
  have "card (fst ` set hs) \<le> card (fst ` set (hs @ [kh]))" by (rule card_mono) auto
  then have dom: "dom (ds_seen ?s) = fst ` set hs" using snoc by simp
  have inv: "drift_inv ?s" "ds_capacity ?s = ds_capacity (new_drift_state c)" using drift_run [of sha hs c] by auto
  have len: "length (ds_order ?s) = card (fst ` set hs)" using inv(1) dom distinct_card unfolding drift_inv_def by metis
  have "dom (ds_seen (snd (observe sha k h ?s))) = insert k (dom (ds_seen ?s))"
  proof (cases "ds_seen ?s k")
    case None
    then have "k \<notin> fst ` set hs" using dom by blast
    then have "length (ds_order ?s) < ds_capacity ?s" using snoc.prems len inv(2) by (simp add: kh)
    then show ?thesis using None by (auto simp: observe_def admit_def Let_def)
  qed (auto simp: observe_def Let_def)
  then show ?case unfolding kh observe_all_snoc dom by auto
qed

lemma early_window_drifted_iff:
  "length ps = length cs \<Longrightarrow> early_window_drifted ps cs \<longleftrightarrow> (\<exists>i<length ps. ps ! i \<noteq> None \<and> cs ! i \<noteq> ps ! i)"
proof (induction ps cs rule: early_window_drifted.induct)
  case (1 ps c cs)
  then show ?case by (auto simp: less_Suc_eq_0_disj)
next
  case (3 p ps c cs)
  then show ?case by (auto simp: less_Suc_eq_0_disj)
qed (auto simp: less_Suc_eq_0_disj)

section \<open>Properties\<close>

text \<open>Over any history of observations the drift table is bounded by its capacity, and the next observation
  of a session is exact: either it reports a first request, or it compares with the fingerprint
  this session had last. While no more sessions than the capacity have been seen, a first request
  is reported only for a new session. The early-message axis drifts only when a slot that was
  filled changed or vanished, so a conversation that grows never drifts on it.\<close>

theorem drift_history_exact:
  assumes "s = observe_all sha hs (new_drift_state c)" and "observe sha k now s = (ob, s')"
    and "length (sh_early_messages now) = early_messages_window"
    and "\<forall>(j, h)\<in>set hs. length (sh_early_messages h) = early_messages_window"
  shows "drift_len s \<le> ds_capacity s \<and> drift_len s' \<le> ds_capacity s
    \<and> (if ob_first_request ob then ob_dims ob = []
       else \<exists>prev. last_seen hs k = Some prev \<and> ob_dims ob = drifted prev now
         \<and> (''early_messages'' \<in> set (ob_dims ob) \<longleftrightarrow>
              (\<exists>i<early_messages_window. sh_early_messages prev ! i \<noteq> None
                 \<and> sh_early_messages now ! i \<noteq> sh_early_messages prev ! i)))
    \<and> (card (fst ` set hs) \<le> ds_capacity s \<longrightarrow> (ob_first_request ob \<longleftrightarrow> k \<notin> fst ` set hs))"
proof -
  have run: "drift_inv s" "ds_capacity s = ds_capacity (new_drift_state c)" "\<And>j x. ds_seen s j = Some x \<Longrightarrow> last_seen hs j = Some x"
    using drift_run [of sha hs c] assms(1) by auto
  have inv': "drift_inv s' \<and> ds_capacity s' = ds_capacity s" using drift_inv_observe [OF run(1) assms(2)] .
  have bound: "drift_len t \<le> ds_capacity t" if "drift_inv t" for t
    using that distinct_card [of "ds_order t"] unfolding drift_inv_def drift_len_def by metis
  have first: "ob_first_request ob \<longleftrightarrow> ds_seen s k = None"
    using assms(2) by (auto simp: observe_def Let_def split: option.splits)
  have exact: "if ob_first_request ob then ob_dims ob = []
      else \<exists>prev. last_seen hs k = Some prev \<and> ob_dims ob = drifted prev now
         \<and> (''early_messages'' \<in> set (ob_dims ob) \<longleftrightarrow>
              (\<exists>i<early_messages_window. sh_early_messages prev ! i \<noteq> None
                 \<and> sh_early_messages now ! i \<noteq> sh_early_messages prev ! i))"
  proof (cases "ds_seen s k")
    case None
    then show ?thesis using assms(2) by (auto simp: observe_def Let_def)
  next
    case (Some prev)
    then have last: "last_seen hs k = Some prev" by (rule run(3))
    then have "(k, prev) \<in> set hs" unfolding last_seen_def using map_of_SomeD by fastforce
    then have "length (sh_early_messages prev) = length (sh_early_messages now)" using assms(3,4) by auto
    moreover have ob: "\<not> ob_first_request ob" "ob_dims ob = drifted prev now"
      using Some assms(2) by (auto simp: observe_def Let_def)
    ultimately have "''early_messages'' \<in> set (ob_dims ob) \<longleftrightarrow> (\<exists>i<early_messages_window. sh_early_messages prev ! i \<noteq> None
        \<and> sh_early_messages now ! i \<noteq> sh_early_messages prev ! i)"
      using early_window_drifted_iff [of "sh_early_messages prev" "sh_early_messages now"] assms(3) by (simp add: drifted_def)
    then show ?thesis using last ob by auto
  qed
  have "dom (ds_seen s) = fst ` set hs" if "card (fst ` set hs) \<le> ds_capacity s"
    using drift_complete [of hs c sha] that run(2) assms(1) by simp
  then have "card (fst ` set hs) \<le> ds_capacity s \<longrightarrow> (ob_first_request ob \<longleftrightarrow> k \<notin> fst ` set hs)" using first by blast
  then show ?thesis using exact bound [OF run(1)] bound [of s'] inv' by auto
qed

definition sample_print :: "string \<Rightarrow> string option \<Rightarrow> structural_hash" where
  "sample_print sys second = \<lparr>sh_system = sys, sh_tools = ''t'', sh_early_messages = [Some ''m1'', second, None]\<rparr>"

theorem drift_history_exact_witness:
  "\<exists>prev. last_seen [(''a'', sample_print ''s'' None), (''b'', sample_print ''u'' None)] ''a'' = Some prev
     \<and> ob_dims (fst (observe id ''a'' (sample_print ''x'' (Some ''m2''))
          (observe_all id [(''a'', sample_print ''s'' None), (''b'', sample_print ''u'' None)] (new_drift_state 2)))) = [''system'']
     \<and> drifted prev (sample_print ''x'' (Some ''m2'')) = [''system'']"
proof -
  let ?hs = "[(''a'', sample_print ''s'' None), (''b'', sample_print ''u'' None)]" and ?now = "sample_print ''x'' (Some ''m2'')"
  let ?s = "observe_all id ?hs (new_drift_state 2)"
  have run: "observe id ''a'' ?now ?s = (fst (observe id ''a'' ?now ?s), snd (observe id ''a'' ?now ?s))" by simp
  have ob: "\<not> ob_first_request (fst (observe id ''a'' ?now ?s))" "ob_dims (fst (observe id ''a'' ?now ?s)) = [''system'']"
    by (simp_all add: observe_def admit_def new_drift_state_def sample_print_def drifted_def Let_def)
  have "\<forall>(j, h)\<in>set ?hs. length (sh_early_messages h) = early_messages_window"
    "length (sh_early_messages ?now) = early_messages_window"
    by (simp_all add: sample_print_def early_messages_window_def)
  from drift_history_exact [OF HOL.refl run this(2,1)] ob show ?thesis by auto
qed

end
