(* ===== verification/Volatile.thy ===== *)
theory Volatile
  imports Gjson GoUnicode
begin

text \<open>
  \<open>internal/cachestab/volatile.go\<close>: a scan of a request body for content that changes on every request.
  The walk goes through gjson values, hence the bound on its depth: a nested value is shorter than
  the value that holds it, so the length of the text is enough (\<open>scan_depth_enough\<close>).
\<close>

section \<open>Findings\<close>

definition max_findings :: nat where "max_findings = 10"

definition sample_bytes :: nat where "sample_bytes = 80"

definition id_field_needles :: "string list" where
  "id_field_needles = [''request_id'', ''trace_id'', ''session_id'', ''correlation_id'']"

datatype volatile_kind = KindTimestamp | KindUUID | KindIDField

record finding =
  fi_kind :: volatile_kind
  fi_location :: string
  fi_sample :: string

text \<open>A continuation byte does not start a rune; the ellipsis is three bytes.\<close>

definition is_rune_start :: "char \<Rightarrow> bool" where
  "is_rune_start b \<longleftrightarrow> \<not> (128 \<le> ord b \<and> ord b < 192)"

fun rune_cut :: "string \<Rightarrow> nat \<Rightarrow> nat" where
  "rune_cut s 0 = 0"
| "rune_cut s (Suc n) = (if is_rune_start (s ! Suc n) then Suc n else rune_cut s n)"

definition truncate :: "string \<Rightarrow> string" where
  "truncate s =
     (if length s \<le> sample_bytes then s
      else take (rune_cut s sample_bytes) s @ [CHR 0xE2, CHR 0x80, CHR 0xA6])"

section \<open>Strings\<close>

definition all_digits :: "string \<Rightarrow> bool" where "all_digits b = list_all is_digit b"

definition window :: "string \<Rightarrow> nat \<Rightarrow> nat \<Rightarrow> string" where
  "window w a b = take (b - a) (drop a w)"

definition looks_like_iso8601 :: "string \<Rightarrow> bool" where
  "looks_like_iso8601 w \<longleftrightarrow> 19 \<le> length w
     \<and> all_digits (window w 0 4) \<and> w ! 4 = CHR ''-'' \<and> all_digits (window w 5 7) \<and> w ! 7 = CHR ''-''
     \<and> all_digits (window w 8 10) \<and> (w ! 10 = CHR ''T'' \<or> w ! 10 = CHR ''t'' \<or> w ! 10 = CHR '' '')
     \<and> all_digits (window w 11 13) \<and> w ! 13 = CHR '':'' \<and> all_digits (window w 14 16) \<and> w ! 16 = CHR '':''
     \<and> all_digits (window w 17 19)"

definition is_hex_byte :: "char \<Rightarrow> bool" where
  "is_hex_byte c \<longleftrightarrow> is_digit c \<or> 97 \<le> ord c \<and> ord c \<le> 102 \<or> 65 \<le> ord c \<and> ord c \<le> 70"

definition looks_like_uuid_v4 :: "string \<Rightarrow> bool" where
  "looks_like_uuid_v4 w \<longleftrightarrow> 36 \<le> length w
     \<and> list_all (\<lambda>i. w ! i = CHR ''-'') [8, 13, 18, 23] \<and> w ! 14 = CHR ''4''
     \<and> w ! 19 \<in> {CHR ''8'', CHR ''9'', CHR ''a'', CHR ''b'', CHR ''A'', CHR ''B''}
     \<and> list_all (\<lambda>i. i \<in> {8, 13, 18, 23} \<or> is_hex_byte (w ! i)) [0..<36]"

text \<open>One pass over the bytes; \<open>out\<close> is the list of findings so far.\<close>

function scan_string :: "string \<Rightarrow> string \<Rightarrow> finding list \<Rightarrow> finding list" where
  "scan_string s location out =
     (if s = [] \<or> max_findings \<le> length out then out
      else if 19 \<le> length s \<and> looks_like_iso8601 (take 19 s)
      then scan_string (drop 19 s) location (out @ [\<lparr>fi_kind = KindTimestamp, fi_location = location, fi_sample = truncate (take 19 s)\<rparr>])
      else if 36 \<le> length s \<and> looks_like_uuid_v4 (take 36 s)
      then scan_string (drop 36 s) location (out @ [\<lparr>fi_kind = KindUUID, fi_location = location, fi_sample = truncate (take 36 s)\<rparr>])
      else scan_string (tl s) location out)"
  by pat_completeness auto

termination
  by (relation "measure (\<lambda>(s, l, out). length s)") auto

declare scan_string.simps [simp del]

section \<open>The walk\<close>

definition is_id_named_key :: "(nat \<Rightarrow> nat) \<Rightarrow> string \<Rightarrow> bool" where
  "is_id_named_key lower key = list_ex (contains (to_lower lower key)) id_field_needles"

definition is_empty_value :: "gjson \<Rightarrow> gres \<Rightarrow> bool" where
  "is_empty_value G v =
     (if g_type v = GNull \<or> \<not> gj_exists G v then True
      else if g_type v = GString then gj_string G v = []
      else if gj_is_array G v then gj_array G v = []
      else if gj_is_object G v then gj_for_each G v = []
      else False)"

definition sample_of :: "gjson \<Rightarrow> gres \<Rightarrow> string" where
  "sample_of G v = (if g_type v = GString then gj_string G v else g_raw v)"

definition index_location :: "string \<Rightarrow> nat \<Rightarrow> string" where
  "index_location location i = location @ ''['' @ utoa i @ '']''"

text \<open>A member whose key is named like an identifier and whose value is not empty.\<close>

definition note_id :: "gjson \<Rightarrow> (nat \<Rightarrow> nat) \<Rightarrow> string \<Rightarrow> gres \<Rightarrow> string \<Rightarrow> finding list \<Rightarrow> finding list" where
  "note_id G lower k sub here out =
     (if is_id_named_key lower k \<and> \<not> is_empty_value G sub
      then out @ [\<lparr>fi_kind = KindIDField, fi_location = here, fi_sample = truncate (sample_of G sub)\<rparr>] else out)"

text \<open>\<open>n\<close> is the depth left. Items and members are visited in order until the list is full.\<close>

fun scan_recursive :: "gjson \<Rightarrow> (nat \<Rightarrow> nat) \<Rightarrow> nat \<Rightarrow> gres \<Rightarrow> string \<Rightarrow> finding list \<Rightarrow> finding list"
  and scan_items :: "gjson \<Rightarrow> (nat \<Rightarrow> nat) \<Rightarrow> nat \<Rightarrow> gres list \<Rightarrow> nat \<Rightarrow> string \<Rightarrow> finding list \<Rightarrow> finding list"
  and scan_members :: "gjson \<Rightarrow> (nat \<Rightarrow> nat) \<Rightarrow> nat \<Rightarrow> (gres \<times> gres) list \<Rightarrow> string \<Rightarrow> finding list \<Rightarrow> finding list" where
  "scan_recursive G lower 0 v location out = out"
| "scan_recursive G lower (Suc n) v location out =
     (if max_findings \<le> length out \<or> \<not> gj_exists G v then out
      else if g_type v = GString then scan_string (gj_string G v) location out
      else if gj_is_array G v then scan_items G lower n (gj_array G v) 0 location out
      else if gj_is_object G v then scan_members G lower n (gj_for_each G v) location out
      else out)"
| "scan_items G lower n [] i location out = out"
| "scan_items G lower n (item # items) i location out =
     (if max_findings \<le> length out then out
      else scan_items G lower n items (i + 1) location
             (scan_recursive G lower n item (index_location location i) out))"
| "scan_members G lower n [] location out = out"
| "scan_members G lower n ((key, sub) # ms) location out =
     (if max_findings \<le> length out then out
      else
        (let k = gj_string G key; here = location @ ''.'' @ k;
             out' = note_id G lower k sub here out
         in if length out < length out' \<and> max_findings \<le> length out' then out'
            else scan_members G lower n ms location (scan_recursive G lower n sub here out')))"

text \<open>The depth that the text of a value allows.\<close>

definition scan_depth :: "gres \<Rightarrow> nat" where "scan_depth v = length (g_raw v) + 1"

definition scan_value :: "gjson \<Rightarrow> (nat \<Rightarrow> nat) \<Rightarrow> gres \<Rightarrow> string \<Rightarrow> finding list \<Rightarrow> finding list" where
  "scan_value G lower v location out =
     (if max_findings \<le> length out \<or> \<not> gj_exists G v then out
      else if g_type v = GString then scan_string (gj_string G v) location out
      else if gj_is_array G v then scan_items G lower (scan_depth v) (gj_array G v) 0 location out
      else if gj_is_object G v then scan_recursive G lower (scan_depth v) v location out
      else out)"

fun scan_messages :: "gjson \<Rightarrow> (nat \<Rightarrow> nat) \<Rightarrow> gres list \<Rightarrow> nat \<Rightarrow> finding list \<Rightarrow> finding list" where
  "scan_messages G lower [] i out = out"
| "scan_messages G lower (msg # msgs) i out =
     (if max_findings \<le> length out then out
      else scan_messages G lower msgs (i + 1)
             (scan_value G lower (gj_sub G msg ''content'') (''messages['' @ utoa i @ ''].content'') out))"

definition detect_volatile :: "gjson \<Rightarrow> (nat \<Rightarrow> nat) \<Rightarrow> string \<Rightarrow> finding list" where
  "detect_volatile G lower body =
     (let root = gj_parse G body in
      if \<not> gj_is_object G root then []
      else
        (let out = scan_value G lower (gj_sub G root ''system'') ''system'' []; msgs = gj_sub G root ''messages''
         in if gj_is_array G msgs then scan_messages G lower (gj_array G msgs) 0 out else out))"

section \<open>Depth\<close>

text \<open>Documented behaviour of gjson: an element or member value is a proper part of the raw text.\<close>

definition nested_shorter :: "gjson \<Rightarrow> bool" where
  "nested_shorter G \<longleftrightarrow> (\<forall>v. (\<forall>u\<in>set (gj_array G v). length (g_raw u) < length (g_raw v))
     \<and> (\<forall>(k, u)\<in>set (gj_for_each G v). length (g_raw u) < length (g_raw v)))"

lemma scan_items_cong:
  "(\<And>u l out. u \<in> set items \<Longrightarrow> scan_recursive G lower n u l out = scan_recursive G lower m u l out) \<Longrightarrow>
   scan_items G lower n items i location out = scan_items G lower m items i location out"
  by (induction items arbitrary: i out) auto

lemma scan_members_cong:
  "(\<And>k u l out. (k, u) \<in> set ms \<Longrightarrow> scan_recursive G lower n u l out = scan_recursive G lower m u l out) \<Longrightarrow>
   scan_members G lower n ms location out = scan_members G lower m ms location out"
  by (induction ms arbitrary: out) (force simp: Let_def)+

text \<open>More depth than the text allows changes nothing: the walk is the one without a bound.\<close>

lemma scan_depth_enough:
  assumes "nested_shorter G"
  shows "length (g_raw v) < n \<Longrightarrow> length (g_raw v) < m \<Longrightarrow>
    scan_recursive G lower n v location out = scan_recursive G lower m v location out"
proof (induction "length (g_raw v)" arbitrary: v n m location out rule: less_induct)
  case less
  obtain n' m' where n: "n = Suc n'" "m = Suc m'" using less.prems by (metis less_imp_Suc_add)
  have items: "scan_recursive G lower n' u l o1 = scan_recursive G lower m' u l o1" if "u \<in> set (gj_array G v)" for u l o1
  proof (rule less.hyps)
    show short: "length (g_raw u) < length (g_raw v)" using that assms by (auto simp: nested_shorter_def)
    show "length (g_raw u) < n'" "length (g_raw u) < m'" using short less.prems n by simp_all
  qed
  have members: "scan_recursive G lower n' u l o1 = scan_recursive G lower m' u l o1" if "(k, u) \<in> set (gj_for_each G v)" for k u l o1
  proof (rule less.hyps)
    show short: "length (g_raw u) < length (g_raw v)" using that assms by (auto simp: nested_shorter_def)
    show "length (g_raw u) < n'" "length (g_raw u) < m'" using short less.prems n by simp_all
  qed
  show ?case using scan_items_cong [OF items] scan_members_cong [OF members] by (simp add: n)
qed

section \<open>Bounds\<close>

lemma rune_cut_le: "rune_cut s n \<le> n"
  by (induction n) auto

lemma truncate_length: "length (truncate s) \<le> sample_bytes + 3"
  using rune_cut_le [of s sample_bytes] by (auto simp: truncate_def sample_bytes_def)

text \<open>What a scan adds: it extends the list, never beyond the cap, with short samples.\<close>

definition scans :: "finding list \<Rightarrow> finding list \<Rightarrow> bool" where
  "scans out out' \<longleftrightarrow> (\<exists>new. out' = out @ new \<and> length new \<le> max_findings - length out
     \<and> (\<forall>f\<in>set new. length (fi_sample f) \<le> sample_bytes + 3))"

lemma scans_refl [simp]: "scans out out"
  by (simp add: scans_def)

lemma scans_trans: "scans a b \<Longrightarrow> scans b c \<Longrightarrow> scans a c"
proof -
  assume "scans a b" "scans b c"
  then obtain u v where u: "b = a @ u" "length u \<le> max_findings - length a" "\<forall>f\<in>set u. length (fi_sample f) \<le> sample_bytes + 3"
    and v: "c = b @ v" "length v \<le> max_findings - length b" "\<forall>f\<in>set v. length (fi_sample f) \<le> sample_bytes + 3"
    unfolding scans_def by blast
  have "length (u @ v) \<le> max_findings - length a" using u v by simp
  then show "scans a c" unfolding scans_def using u v by (intro exI [of _ "u @ v"]) auto
qed

lemma scans_one: "length out < max_findings \<Longrightarrow> scans out (out @ [\<lparr>fi_kind = k, fi_location = l, fi_sample = truncate s\<rparr>])"
  using truncate_length [of s] by (simp add: scans_def)

lemma scan_string_scans: "scans out (scan_string s location out)"
proof (induction s location out rule: scan_string.induct)
  case (1 s location out)
  let ?ts = "out @ [\<lparr>fi_kind = KindTimestamp, fi_location = location, fi_sample = truncate (take 19 s)\<rparr>]"
  let ?id = "out @ [\<lparr>fi_kind = KindUUID, fi_location = location, fi_sample = truncate (take 36 s)\<rparr>]"
  show ?case
  proof (cases "s = [] \<or> max_findings \<le> length out")
    case True
    then show ?thesis by (subst scan_string.simps) simp
  next
    case False
    then have one: "scans out ?ts" "scans out ?id" by (simp_all add: scans_one)
    consider "19 \<le> length s \<and> looks_like_iso8601 (take 19 s)"
      | "\<not> (19 \<le> length s \<and> looks_like_iso8601 (take 19 s))" "36 \<le> length s \<and> looks_like_uuid_v4 (take 36 s)"
      | "\<not> (19 \<le> length s \<and> looks_like_iso8601 (take 19 s))" "\<not> (36 \<le> length s \<and> looks_like_uuid_v4 (take 36 s))" by blast
    then show ?thesis
    proof cases
      case 1
      have "scan_string s location out = scan_string (drop 19 s) location ?ts" using 1 False by (subst scan_string.simps) simp
      then show ?thesis using "1.IH"(1) [OF False 1] one(1) scans_trans by metis
    next
      case 2
      have "scan_string s location out = scan_string (drop 36 s) location ?id" using 2 False by (subst scan_string.simps) auto
      then show ?thesis using "1.IH"(2) [OF False 2] one(2) scans_trans by metis
    next
      case 3
      have "scan_string s location out = scan_string (tl s) location out" using 3 False by (subst scan_string.simps) auto
      then show ?thesis using "1.IH"(3) [OF False 3] by simp
    qed
  qed
qed

lemma scan_scans:
  "scans out (scan_recursive G lower n v location out)"
  "scans out (scan_items G lower n items i location out)"
  "scans out (scan_members G lower n ms location out)"
proof (induction G lower n v location out and G lower n items i location out and G lower n ms location out
    rule: scan_recursive_scan_items_scan_members.induct)
  case (2 G lower n v location out)
  then show ?case by (auto intro: scan_string_scans)
next
  case (4 G lower n item items i location out)
  then show ?case by (auto intro: scans_trans)
next
  case (6 G lower n key sub ms location out)
  let ?k = "gj_string G key" and ?here = "location @ ''.'' @ gj_string G key"
  let ?out = "note_id G lower ?k sub ?here out"
  show ?case
  proof (cases "max_findings \<le> length out")
    case False
    then have one: "scans out ?out" using scans_one by (simp add: note_id_def)
    show ?thesis
    proof (cases "length out < length ?out \<and> max_findings \<le> length ?out")
      case True
      then show ?thesis using one False by (simp add: Let_def)
    next
      case again: False
      have "scans ?out (scan_recursive G lower n sub ?here ?out)"
        "scans (scan_recursive G lower n sub ?here ?out) (scan_members G lower n ms location (scan_recursive G lower n sub ?here ?out))"
        using 6 [OF False HOL.refl HOL.refl HOL.refl again] by simp_all
      then have "scans out (scan_members G lower n ms location (scan_recursive G lower n sub ?here ?out))"
        using one scans_trans by blast
      then show ?thesis using False again by (auto simp: Let_def)
    qed
  qed simp
qed simp_all

lemma scan_value_scans: "scans out (scan_value G lower v location out)"
  by (auto simp: scan_value_def intro: scan_string_scans scan_scans)

lemma scan_messages_scans: "scans out (scan_messages G lower msgs i out)"
  by (induction msgs arbitrary: i out) (auto intro: scans_trans [OF scan_value_scans])

lemma detect_volatile_scans: "scans [] (detect_volatile G lower body)"
  by (auto simp: detect_volatile_def Let_def intro: scans_trans scan_value_scans scan_messages_scans)

section \<open>Properties\<close>

text \<open>Whatever the body, the scan reports at most ten findings, and no sample exceeds its cap by more than the
  ellipsis: the walk stops as soon as the list is full, in strings, arrays, objects and messages alike.\<close>

theorem volatile_scan_bounded:
  "length (detect_volatile G lower body) \<le> max_findings
   \<and> list_all (\<lambda>f. length (fi_sample f) \<le> sample_bytes + 3) (detect_volatile G lower body)"
  using detect_volatile_scans [of G lower body] by (auto simp: scans_def list_all_iff)

end
