(* ===== verification/Policy.thy ===== *)
theory Policy
  imports GoUnicode GoFloat
begin

text \<open>
  \<open>internal/policy\<close>: the auth mode of a request from its headers (\<open>authmode.go\<close>) and the compression
  policy of a mode (\<open>policy.go\<close>). \<open>lower\<close> is \<open>unicode.ToLower\<close> on runes from 128.
\<close>

section \<open>Auth modes\<close>

datatype auth_mode = PAYG | OAuth | Subscription

fun auth_mode_string :: "auth_mode \<Rightarrow> string" where
  "auth_mode_string OAuth = ''oauth''"
| "auth_mode_string Subscription = ''subscription''"
| "auth_mode_string PAYG = ''payg''"

definition subscription_ua_prefixes :: "string list" where
  "subscription_ua_prefixes = [''claude-cli/'', ''claude-code/'', ''codex-cli/'', ''cursor/'', ''grok/'', ''claude-vscode/'',
     ''github-copilot/'', ''anthropic-cli/'', ''antigravity/'']"

text \<open>The ordered rules: a substring of the User-Agent and the harness it names.\<close>

definition client_ua_map :: "(string \<times> string) list" where
  "client_ua_map =
    [(''claude-code/'', ''claude-code''), (''claude-cli/'', ''claude-code''), (''claude-vscode/'', ''claude-vscode''),
     (''anthropic-cli/'', ''anthropic-cli''), (''codex-cli/'', ''codex''), (''cursor/'', ''cursor''),
     (''grok/'', ''grok_build''), (''zed/'', ''zed''), (''aider/'', ''aider''), (''droid/'', ''droid''),
     (''opencode/'', ''opencode''), (''github-copilot/'', ''copilot''), (''antigravity/'', ''antigravity''),
     (''strands-agents/'', ''strands'')]"

record signals =
  sg_user_agent :: string
  sg_authorization :: string
  sg_x_api_key :: string
  sg_x_goog_api_key :: string
  sg_x_client :: string

definition bearer_prefix :: string where "bearer_prefix = ''Bearer ''"

text \<open>The rules on the token of a Bearer header, in order; \<open>None\<close> falls through.\<close>

definition bearer_mode :: "string \<Rightarrow> auth_mode option" where
  "bearer_mode token =
     (if has_prefix token ''sk-ant-oat'' then Some OAuth
      else if has_prefix token ''sk-ant-api'' \<or> has_prefix token ''sk-'' then Some PAYG
      else if 3 \<le> length (split_on CHR ''.'' token) then Some OAuth
      else None)"

definition classify_signals :: "(nat \<Rightarrow> nat) \<Rightarrow> signals \<Rightarrow> auth_mode" where
  "classify_signals lower s =
     (let ua = to_lower lower (sg_user_agent s); auth = sg_authorization s;
          rest = (if sg_x_api_key s \<noteq> [] then PAYG else if sg_x_goog_api_key s \<noteq> [] then PAYG else PAYG) in
      if list_ex (contains ua) subscription_ua_prefixes then Subscription
      else if has_prefix auth bearer_prefix then
        (case bearer_mode (drop (length bearer_prefix) auth) of Some m \<Rightarrow> m | None \<Rightarrow> rest)
      else if auth \<noteq> [] then OAuth
      else rest)"

definition classify_client_signals :: "(nat \<Rightarrow> nat) \<Rightarrow> signals \<Rightarrow> string option" where
  "classify_client_signals lower s =
     (let explicit = to_lower lower (trim_space (sg_x_client s)); ua = to_lower lower (sg_user_agent s) in
      if explicit \<noteq> [] then Some explicit
      else if ua = [] then None
      else map_option snd (find (\<lambda>(needle, name). contains ua needle) client_ua_map))"

section \<open>Policies\<close>

record compression_policy =
  cp_live_zone_only :: bool
  cp_cache_aligner_enabled :: bool
  cp_volatile_token_threshold :: int
  cp_max_lossy_ratio :: rat
  cp_toin_read_only :: bool

definition aggressive :: compression_policy where
  "aggressive = \<lparr>cp_live_zone_only = False, cp_cache_aligner_enabled = True, cp_volatile_token_threshold = 128,
     cp_max_lossy_ratio = f64 (45/100), cp_toin_read_only = False\<rparr>"

definition conservative :: compression_policy where
  "conservative = \<lparr>cp_live_zone_only = True, cp_cache_aligner_enabled = False, cp_volatile_token_threshold = 32,
     cp_max_lossy_ratio = f64 (25/100), cp_toin_read_only = True\<rparr>"

fun for_mode :: "auth_mode \<Rightarrow> compression_policy" where
  "for_mode Subscription = conservative"
| "for_mode OAuth = aggressive"
| "for_mode PAYG = aggressive"

definition default_payg :: compression_policy where "default_payg = for_mode PAYG"

section \<open>Lemmas\<close>

text \<open>A bearer session token is never billed as an API key, and only a first-party user agent gets the
  conservative policy.\<close>

lemma oauth_token_mode: "has_prefix token ''sk-ant-oat'' \<Longrightarrow> bearer_mode token = Some OAuth"
  by (simp add: bearer_mode_def)

lemma conservative_only_subscription:
  "for_mode (classify_signals lower s) = conservative
     \<longleftrightarrow> list_ex (contains (to_lower lower (sg_user_agent s))) subscription_ua_prefixes"
proof -
  have "aggressive \<noteq> conservative" by (simp add: aggressive_def conservative_def)
  moreover have "bearer_mode token \<noteq> Some Subscription" for token by (simp add: bearer_mode_def)
  ultimately show ?thesis
    by (auto simp: classify_signals_def Let_def split: option.split auth_mode.split) (metis auth_mode.exhaust for_mode.simps)+
qed

end
