(* ===== verification/ProxyServer.thy ===== *)
theory ProxyServer
  imports McpServer DispatchProps Drift Volatile Policy
begin

text \<open>
  \<open>internal/proxy\<close>: the request side of the proxy. \<open>forward.go\<close> chooses the bytes that go upstream and records
  the turn, \<open>retrieve.go\<close> and \<open>health.go\<close> are the proxy's own routes, \<open>server.go\<close> puts them together. The hop
  itself is \<open>httputil.ReverseProxy\<close>: what the code hands to it is the outcome of a request here. Requests are
  handled one at a time; in the program they share the store, the drift table and the replay state, each
  behind its lock.
\<close>

section \<open>Server\<close>

text \<open>The code that is not part of the program.\<close>

record proxy_env =
  pe_deps :: deps
  pe_lower :: "nat \<Rightarrow> nat"
  pe_sha :: "string \<Rightarrow> string"
  pe_num :: "string \<Rightarrow> string option"

record 's proxy_deps =
  pd_config :: proxy_settings
  pd_store :: "'s store_ops"
  pd_router :: "'s staging router"
  pd_tokenizer :: tokenizer
  pd_version :: string
  pd_ccr_path :: string
  pd_ledger :: bool

text \<open>The state: the store, the drift table, the replay table (nil when replay is off), the ledger file and the
  request counter.\<close>

record 's proxy_state =
  vs_store :: 's
  vs_drift :: drift_state
  vs_replay :: "replay_state option"
  vs_ledger :: "string option"
  vs_count :: "64 word"

definition new_proxy :: "'s proxy_deps \<Rightarrow> 's \<Rightarrow> string option \<Rightarrow> 's proxy_state" where
  "new_proxy P st file =
     \<lparr>vs_store = st, vs_drift = new_drift_state (int default_drift_capacity),
      vs_replay = (if px_replay (pd_config P) then Some (new_replay_state default_replay_capacity) else None),
      vs_ledger = file, vs_count = 0\<rparr>"

definition request_count :: "'s proxy_state \<Rightarrow> int" where
  "request_count s = sint (vs_count s)"

section \<open>Forwarding\<close>

definition anthropic_messages_path :: string where "anthropic_messages_path = ''/v1/messages''"
definition internal_header_prefix :: string where "internal_header_prefix = ''x-headroom-''"

text \<open>A request; its body is \<open>None\<close> when reading it fails.\<close>

record http_request =
  hr_method :: string
  hr_path :: string
  hr_header :: http_header
  hr_remote :: string
  hr_body :: "string option"

definition read_body :: "'s proxy_deps \<Rightarrow> http_request \<Rightarrow> string option" where
  "read_body P r =
     (case hr_body r of
        None \<Rightarrow> None
      | Some body \<Rightarrow>
          if 0 < px_max_body_bytes (pd_config P) \<and> px_max_body_bytes (pd_config P) < int (length body) then None else Some body)"

text \<open>\<open>policy.ClassifyHeader\<close>.\<close>

definition signals_from_header :: "http_header \<Rightarrow> signals" where
  "signals_from_header h =
     \<lparr>sg_user_agent = header_get h ''User-Agent'', sg_authorization = header_get h ''Authorization'',
      sg_x_api_key = header_get h ''X-Api-Key'', sg_x_goog_api_key = header_get h ''X-Goog-Api-Key'',
      sg_x_client = header_get h ''X-Client''\<rparr>"

definition classify_header :: "proxy_env \<Rightarrow> http_header \<Rightarrow> auth_mode" where
  "classify_header E h = classify_signals (pe_lower E) (signals_from_header h)"

text \<open>\<open>observeCacheStability\<close>: the findings it logs, the axes it reports and the updated drift table.\<close>

definition observe_cache_stability ::
  "proxy_env \<Rightarrow> string \<Rightarrow> string \<Rightarrow> drift_state \<Rightarrow> finding list \<times> string list \<times> drift_state" where
  "observe_cache_stability E key body ds =
     (let findings = detect_volatile (dp_gjson (pe_deps E)) (pe_lower E) body;
          (ob, ds') = observe (pe_sha E) key (compute_structural_hash (pe_sha E) (pe_num E) body) ds
      in (findings, if observation_drifted ob then ob_dims ob else [], ds'))"

text \<open>\<open>sessionReplay\<close>: a handle only for a session the client declared.\<close>

definition session_replay_of ::
  "proxy_env \<Rightarrow> http_header \<Rightarrow> string \<Rightarrow> replay_state option \<Rightarrow> session_replay option \<times> replay_state option" where
  "session_replay_of E h body replay =
     (case replay of
        None \<Rightarrow> (None, None)
      | Some rs \<Rightarrow>
          (case declared_session_key (pe_sha E) h of
             None \<Rightarrow> (None, Some rs)
           | Some key \<Rightarrow> (case begin_turn (dp_gjson (pe_deps E)) key body rs of (handle, rs') \<Rightarrow> (Some handle, Some rs'))))"

fun reason_string :: "reason \<Rightarrow> string" where
  "reason_string ReasonOK = ''ok''"
| "reason_string ReasonNotJSON = ''not_json''"
| "reason_string ReasonNoMessages = ''no_messages''"
| "reason_string ReasonNoLiveZone = ''no_live_zone''"
| "reason_string ReasonNoCandidates = ''no_candidates''"
| "reason_string ReasonAllRejected = ''all_rejected''"

text \<open>\<open>record\<close>: what a turn leaves in the ledger.\<close>

definition strategies_of :: "block_outcome list \<Rightarrow> string list" where
  "strategies_of blocks = sort (remdups (filter (\<lambda>s. s \<noteq> []) (map bo_strategy blocks)))"

definition turn_entry :: "proxy_env \<Rightarrow> string \<Rightarrow> string \<Rightarrow> string list \<Rightarrow> dispatch_result \<Rightarrow> auth_mode \<Rightarrow> ledger_entry" where
  "turn_entry E key body drift res mode =
     (let G = dp_gjson (pe_deps E)
      in \<lparr>le_ts = [], le_session = short_digest (pe_sha E) key, le_model = gj_string G (gj_get G body ''model''),
          le_messages = gj_int G (gj_get G body ''messages.#''), le_bytes_in = int (length body),
          le_bytes_out = int (length (dr_body res)), le_tokens_before = dr_tokens_before res,
          le_tokens_after = dr_tokens_after res, le_reason = reason_string (dr_reason res), le_mode = auth_mode_string mode,
          le_strategies = strategies_of (dr_blocks res),
          le_replayed = int (length (filter (\<lambda>b. bo_action b = ''replayed'') (dr_blocks res))), le_drift = drift\<rparr>)"

text \<open>The clock and the disk at one request.\<close>

record ledger_io =
  io_now :: string
  io_writable :: bool

definition eligible :: "'s proxy_deps \<Rightarrow> http_request \<Rightarrow> string \<Rightarrow> bool" where
  "eligible P r body \<longleftrightarrow>
     px_compress (pd_config P) \<and> hr_method r = ''POST'' \<and> body \<noteq> [] \<and> has_suffix (hr_path r) anthropic_messages_path"

definition options_for :: "'s proxy_deps \<Rightarrow> session_replay option \<Rightarrow> 's dispatch_options" where
  "options_for P replay =
     \<lparr>op_router = Some (pd_router P), op_store = Some (pd_store P), op_tokenizer = pd_tokenizer P,
      op_frozen_count = (case replay of None \<Rightarrow> - 1 | Some h \<Rightarrow> sr_floor h), op_query = [], op_replay = replay,
      op_image_fit = px_image_fit (pd_config P)\<rparr>"

text \<open>A nil replay table is not read: any state stands for it.\<close>

definition replay_table :: "replay_state option \<Rightarrow> replay_state" where
  "replay_table r = (case r of Some rs \<Rightarrow> rs | None \<Rightarrow> new_replay_state 0)"

definition maybe_compress ::
  "proxy_env \<Rightarrow> 's proxy_deps \<Rightarrow> ledger_io \<Rightarrow> http_request \<Rightarrow> string \<Rightarrow> 's proxy_state
     \<Rightarrow> (string \<times> dispatch_result option) \<times> 's proxy_state" where
  "maybe_compress E P io r body s =
     (if \<not> eligible P r body then ((body, None), s)
      else
        (let mode = classify_header E (hr_header r);
             key = session_key (dp_gjson (pe_deps E)) (pe_sha E) (pe_num E) (hr_header r) (hr_remote r) body;
             (findings, drift, ds) = observe_cache_stability E key body (vs_drift s);
             (handle, replay) = session_replay_of E (hr_header r) body (vs_replay s);
             (res, st, rs) = dispatch (pe_deps E) (options_for P handle) body (vs_store s) (replay_table replay);
             file = (if pd_ledger P
                     then ledger_append (io_writable io) (io_now io) (turn_entry E key body drift res mode) (vs_ledger s)
                     else vs_ledger s)
         in ((dr_body res, Some res),
             s\<lparr>vs_store := st, vs_drift := ds, vs_replay := map_option (\<lambda>_. rs) replay, vs_ledger := file\<rparr>)))"

text \<open>What a request gets: a 413, or the hop with these bytes and these response headers set beforehand.\<close>

datatype forward_outcome = TooLarge | Forwarded string "(string \<times> string) list"

definition report_headers :: "string \<Rightarrow> string \<Rightarrow> dispatch_result option \<Rightarrow> (string \<times> string) list" where
  "report_headers body sent result =
     (case result of
        None \<Rightarrow> []
      | Some res \<Rightarrow>
          if dr_applied res
          then [(''X-Headroom-Tokens-Before'', itoa (dr_tokens_before res)), (''X-Headroom-Tokens-After'', itoa (dr_tokens_after res)),
                (''X-Headroom-Bytes-Saved'', itoa (int (length body) - int (length sent)))]
          else [])"

definition handle_forward ::
  "proxy_env \<Rightarrow> 's proxy_deps \<Rightarrow> ledger_io \<Rightarrow> http_request \<Rightarrow> 's proxy_state \<Rightarrow> forward_outcome \<times> 's proxy_state" where
  "handle_forward E P io r s0 =
     (let s = s0\<lparr>vs_count := vs_count s0 + 1\<rparr>
      in case read_body P r of
           None \<Rightarrow> (TooLarge, s)
         | Some body \<Rightarrow>
             (let ((sent, result), s') = maybe_compress E P io r body s
              in (Forwarded sent (report_headers body sent result), s')))"

text \<open>
  The headers of the outgoing request. \<open>out\<close> is what \<open>SetURL\<close> left, \<open>set_xf\<close> is \<open>SetXForwarded\<close>.
\<close>

definition rewrite_header :: "(nat \<Rightarrow> nat) \<Rightarrow> (http_header \<Rightarrow> http_header) \<Rightarrow> http_header \<Rightarrow> http_header \<Rightarrow> http_header" where
  "rewrite_header lower set_xf inbound out =
     (let xf = (case inbound ''X-Forwarded-For'' of Some vs \<Rightarrow> vs | None \<Rightarrow> []);
          h = set_xf (out(''X-Forwarded-For'' \<mapsto> xf))
      in (\<lambda>name. if has_prefix (to_lower lower name) internal_header_prefix then None else h name))"

section \<open>Own routes\<close>

text \<open>A reply: the status and the body \<open>writeJSON\<close> writes, whose keys come in byte order because it is a Go map.\<close>

record http_reply =
  rp_status :: int
  rp_body :: string

definition json_reply :: "int \<Rightarrow> (string \<times> json) list \<Rightarrow> http_reply" where
  "json_reply status ms = \<lparr>rp_status = status, rp_body = marshal_json (JObj ms) @ [NL]\<rparr>"

text \<open>The hash of a retrieve request: the decoder sees the first 4096 bytes.\<close>

definition requested_hash :: "string \<Rightarrow> string option" where
  "requested_hash body =
     (case decode_struct (take 4096 body) of
        None \<Rightarrow> None
      | Some ms \<Rightarrow> decode_fields (\<lambda>key v r. if key = ''hash'' then string_field v (\<lambda>s. s) r else Some r) ms [])"

definition proxy_retrieve :: "'s proxy_deps \<Rightarrow> string \<Rightarrow> 's proxy_state \<Rightarrow> http_reply \<times> 's proxy_state" where
  "proxy_retrieve P body s =
     (case requested_hash body of
        None \<Rightarrow> (json_reply 400 [(''error'', JStr ''body must be JSON with a hash field''), (''found'', JBool False)], s)
      | Some hash \<Rightarrow>
          if \<not> is_key hash
          then (json_reply 400 [(''error'', JStr ''hash must be 24 lowercase hex characters''), (''found'', JBool False)], s)
          else
            (case st_get (pd_store P) hash (vs_store s) of
               (None, st) \<Rightarrow> (json_reply 404 [(''found'', JBool False), (''hash'', JStr hash)], s\<lparr>vs_store := st\<rparr>)
             | (Some payload, st) \<Rightarrow>
                 (json_reply 200 [(''content'', JStr payload), (''found'', JBool True), (''hash'', JStr hash)], s\<lparr>vs_store := st\<rparr>)))"

text \<open>\<open>Health\<close> is a struct: its fields come in declaration order.\<close>

record health =
  hl_status :: string
  hl_version :: string
  hl_replay :: bool
  hl_ccr_path :: string

definition health_members :: "health \<Rightarrow> (string \<times> json) list" where
  "health_members h =
     [(''status'', JStr (hl_status h)), (''version'', JStr (hl_version h)), (''replay'', JBool (hl_replay h)),
      (''ccr_path'', JStr (hl_ccr_path h))]"

definition health_of :: "'s proxy_deps \<Rightarrow> 's proxy_state \<Rightarrow> health" where
  "health_of P s = \<lparr>hl_status = ''ok'', hl_version = pd_version P, hl_replay = (vs_replay s \<noteq> None), hl_ccr_path = pd_ccr_path P\<rparr>"

definition handle_healthz :: "'s proxy_deps \<Rightarrow> 's proxy_state \<Rightarrow> http_reply" where
  "handle_healthz P s = json_reply 200 (health_members (health_of P s))"

text \<open>What the probe of the upstream meets.\<close>

datatype probe = BadUpstream string | Unreachable string | Answered int

definition handle_healthz_upstream :: "'s proxy_deps \<Rightarrow> probe \<Rightarrow> http_reply" where
  "handle_healthz_upstream P p =
     (case p of
        BadUpstream e \<Rightarrow> json_reply 502 [(''error'', JStr e), (''status'', JStr ''error'')]
      | Unreachable e \<Rightarrow> json_reply 502 [(''error'', JStr e), (''status'', JStr ''unreachable'')]
      | Answered code \<Rightarrow>
          json_reply 200 [(''status'', JStr ''ok''), (''upstream'', JStr (px_upstream (pd_config P))), (''upstream_status'', int_json code)])"

text \<open>The route table, for a path that the multiplexer does not have to clean. A \<open>GET\<close> pattern also takes \<open>HEAD\<close>.\<close>

datatype route = RouteHealthz | RouteHealthzUpstream | RouteRetrieve | RouteForward

definition route_of :: "string \<Rightarrow> string \<Rightarrow> route" where
  "route_of verb path =
     (if (verb = ''GET'' \<or> verb = ''HEAD'') \<and> path = ''/healthz'' then RouteHealthz
      else if (verb = ''GET'' \<or> verb = ''HEAD'') \<and> path = ''/healthz/upstream'' then RouteHealthzUpstream
      else if verb = ''POST'' \<and> path = ''/v1/retrieve'' then RouteRetrieve
      else RouteForward)"

section \<open>Sessions\<close>

text \<open>Requests of the forwarding route, each with the clock and the disk it meets.\<close>

fun forward_all ::
  "proxy_env \<Rightarrow> 's proxy_deps \<Rightarrow> (ledger_io \<times> http_request) list \<Rightarrow> 's proxy_state \<Rightarrow> forward_outcome list \<times> 's proxy_state" where
  "forward_all E P [] s = ([], s)"
| "forward_all E P ((io, r) # rs) s =
     (let (o1, s1) = handle_forward E P io r s; (os, s2) = forward_all E P rs s1 in (o1 # os, s2))"

end
