(* ===== verification/ProxyProps.thy ===== *)
theory ProxyProps
  imports ProxyServer
begin

text \<open>
  What the proxy guarantees about the bytes it sends: every alteration is spliced and reported, the observers do
  not reach them, a client that declares no session gets no replay, and the retrieve route agrees with the
  client in \<open>McpServer\<close>.
\<close>

section \<open>A dispatch without a replay handle\<close>

lemma add_outcome_replay: "add_outcome bo (p\<lparr>pa_replay := rs\<rparr>) = (add_outcome bo p)\<lparr>pa_replay := rs\<rparr>"
  by (simp add: add_outcome_def)

lemma record_replay_none: "op_replay opts = None \<Longrightarrow> record_replay opts hash t p = p"
  by (simp add: record_replay_def)

lemma fresh_slot_frame:
  assumes "op_replay opts = None"
  shows "fresh_slot E opts body tools claimed m s (p\<lparr>pa_replay := rs\<rparr>) = (fresh_slot E opts body tools claimed m s p)\<lparr>pa_replay := rs\<rparr>"
proof -
  have "fresh_image E opts body m s (p\<lparr>pa_replay := rs\<rparr>) = (fresh_image E opts body m s p)\<lparr>pa_replay := rs\<rparr>"
    by (simp add: fresh_image_def record_replay_none [OF assms] add_outcome_def Let_def split: option.splits prod.splits)
  moreover have "fresh_text E opts tools m s (p\<lparr>pa_replay := rs\<rparr>) = (fresh_text E opts tools m s p)\<lparr>pa_replay := rs\<rparr>"
    by (simp add: fresh_text_def record_replay_none [OF assms] add_outcome_def Let_def split: option.splits prod.splits)
  ultimately show ?thesis by (simp add: fresh_slot_def add_outcome_replay split: slot_kind.splits)
qed

lemma fold_fresh_frame:
  "op_replay opts = None \<Longrightarrow>
   fold (fresh_slot E opts body tools claimed m) ss (p\<lparr>pa_replay := rs\<rparr>)
     = (fold (fresh_slot E opts body tools claimed m) ss p)\<lparr>pa_replay := rs\<rparr>"
  by (induction ss arbitrary: p) (simp_all add: fresh_slot_frame)

lemma dispatch_no_replay:
  assumes "op_replay opts = None"
  shows "dispatch E opts body st rs
    = (case dispatch E opts body st rs' of (res, st', _) \<Rightarrow> (res, st', rs))"
proof -
  have s: "start_pass st rs = (start_pass st rs')\<lparr>pa_replay := rs\<rparr>" by (simp add: start_pass_def)
  have passes: "dispatch_passes E opts body st rs = (case dispatch_passes E opts body st rs' of (live, slots, p) \<Rightarrow> (live, slots, p\<lparr>pa_replay := rs\<rparr>))"
    using assms by (simp add: dispatch_passes_def replay_all_def Let_def s fold_fresh_frame)
  show ?thesis
    by (simp add: dispatch_def passes Let_def split: prod.splits)
qed

section \<open>A sample proxy\<close>

definition sample_env :: proxy_env where
  "sample_env = \<lparr>pe_deps = sample_deps, pe_lower = (\<lambda>c. c), pe_sha = (\<lambda>_. replicate 32 CHR 0x11), pe_num = (\<lambda>_. None)\<rparr>"

definition sample_proxy :: "bool \<Rightarrow> sqlite proxy_deps" where
  "sample_proxy replay =
     \<lparr>pd_config = \<lparr>px_upstream = ''u'', px_listen = ''l'', px_max_body_bytes = 0, px_request_timeout = 0, px_dial_timeout = 0,
        px_compress = True, px_replay = replay, px_image_fit = False\<rparr>,
      pd_store = sql_ops, pd_router = sample_router, pd_tokenizer = (\<lambda>s. int (length s)), pd_version = ''v'',
      pd_ccr_path = ''c'', pd_ledger = True\<rparr>"

definition sample_request :: http_request where
  "sample_request = \<lparr>hr_method = ''POST'', hr_path = ''/v1/messages'', hr_header = Map.empty, hr_remote = ''r'', hr_body = Some sample_body\<rparr>"

lemma frozen_selectors:
  "op_router (opts\<lparr>op_frozen_count := c\<rparr>) = op_router opts" "op_store (opts\<lparr>op_frozen_count := c\<rparr>) = op_store opts"
  "op_tokenizer (opts\<lparr>op_frozen_count := c\<rparr>) = op_tokenizer opts" "op_query (opts\<lparr>op_frozen_count := c\<rparr>) = op_query opts"
  "op_replay (opts\<lparr>op_frozen_count := c\<rparr>) = op_replay opts" "op_image_fit (opts\<lparr>op_frozen_count := c\<rparr>) = op_image_fit opts"
  by simp_all

lemma frozen_frame:
  "fresh_slot E (opts\<lparr>op_frozen_count := c\<rparr>) body tools claimed m = fresh_slot E opts body tools claimed m"
  "op_replay opts = None \<Longrightarrow> replay_all E (opts\<lparr>op_frozen_count := c\<rparr>) body p = replay_all E opts body p"
proof -
  have r: "record_replay (opts\<lparr>op_frozen_count := c\<rparr>) = record_replay opts" by (intro ext) (simp add: record_replay_def)
  show "fresh_slot E (opts\<lparr>op_frozen_count := c\<rparr>) body tools claimed m = fresh_slot E opts body tools claimed m"
    unfolding fun_eq_iff fresh_slot_def fresh_text_def fresh_image_def r frozen_selectors by simp
  show "op_replay opts = None \<Longrightarrow> replay_all E (opts\<lparr>op_frozen_count := c\<rparr>) body p = replay_all E opts body p"
    by (simp add: replay_all_def)
qed

lemma sample_frozen: "fst (compute_frozen_count sample_gjson sample_body) = 0"
  by (simp add: compute_frozen_count_def sample_gjson_def table_defs json_value_def walk_list_def Let_def)

lemma undeclared_handle:
  "declared_session_key (pe_sha E) h = None \<Longrightarrow> session_replay_of E h body replay = (None, replay)"
  by (simp add: session_replay_of_def split: option.splits)

lemma sample_forward:
  assumes "sq_up (vs_store s)"
  shows "\<exists>sent hs. fst (handle_forward sample_env (sample_proxy b) io sample_request s) = Forwarded sent hs \<and> hs \<noteq> []"
proof -
  let ?P = "sample_proxy b" and ?s = "s\<lparr>vs_count := vs_count s + 1\<rparr>"
  have o: "options_for ?P None = (sample_options None)\<lparr>op_frozen_count := - 1\<rparr>"
    by (simp add: options_for_def sample_proxy_def sample_options_def)
  have f: "frozen_floor sample_deps ((sample_options None)\<lparr>op_frozen_count := - 1\<rparr>) sample_body
      = frozen_floor sample_deps (sample_options None) sample_body"
    using sample_frozen by (simp add: frozen_floor_def sample_options_def sample_deps_def)
  have n: "op_replay (sample_options None) = None" by (simp add: sample_options_def)
  have "dispatch sample_deps (options_for ?P None) sample_body st rs = dispatch sample_deps (sample_options None) sample_body st rs" for st rs
    by (simp only: o dispatch_def dispatch_passes_def f frozen_frame(1) frozen_frame(2) [OF n])
  then have a: "dr_applied (fst (dispatch sample_deps (options_for ?P None) sample_body (vs_store s) rs))" for rs
    using sample_dispatch [OF assms] by simp
  have h: "session_replay_of sample_env (hr_header sample_request) body rs = (None, rs)" for body rs
    by (rule undeclared_handle) (simp add: declared_session_key_def header_get_def sample_request_def)
  have d: "pe_deps sample_env = sample_deps" by (simp add: sample_env_def)
  have ne: "sample_body \<noteq> []" by (simp add: sample_body_def)
  have e: "eligible ?P sample_request sample_body"
    using ne by (simp add: eligible_def sample_proxy_def sample_request_def anthropic_messages_path_def has_suffix_def)
  have "read_body ?P sample_request = Some sample_body" by (simp add: read_body_def sample_proxy_def sample_request_def)
  moreover have "\<exists>res. snd (fst (maybe_compress sample_env ?P io sample_request sample_body ?s)) = Some res \<and> dr_applied res"
    using e a by (simp add: maybe_compress_def h d Let_def case_prod_unfold)
  ultimately show ?thesis
    by (auto simp: handle_forward_def report_headers_def Let_def case_prod_unfold)
qed

definition sample_state :: "ledger_entry \<Rightarrow> sqlite proxy_state" where
  "sample_state e = (new_proxy (sample_proxy False) sample_store (Some (entry_line e)))\<lparr>vs_count := of_int (le_messages e)\<rparr>"

lemma sample_up: "sq_up (vs_store (sample_state e))"
  by (simp add: sample_state_def new_proxy_def sample_store_def)

section \<open>Observers\<close>

text \<open>Two states that hold the same store and the same replay table.\<close>

definition same_bytes :: "'s proxy_state \<Rightarrow> 's proxy_state \<Rightarrow> bool" where
  "same_bytes s t \<longleftrightarrow> vs_store s = vs_store t \<and> vs_replay s = vs_replay t"

lemma maybe_compress_agree:
  assumes "same_bytes s t"
  shows "fst (maybe_compress E P io r body s) = fst (maybe_compress E P io' r body t)
    \<and> same_bytes (snd (maybe_compress E P io r body s)) (snd (maybe_compress E P io' r body t))"
  using assms by (simp add: maybe_compress_def same_bytes_def Let_def split: prod.splits)

lemma handle_forward_agree:
  assumes "same_bytes s t"
  shows "fst (handle_forward E P io r s) = fst (handle_forward E P io' r t)
    \<and> same_bytes (snd (handle_forward E P io r s)) (snd (handle_forward E P io' r t))"
proof -
  have st: "same_bytes (s\<lparr>vs_count := a\<rparr>) (t\<lparr>vs_count := b\<rparr>)" for a b using assms by (simp add: same_bytes_def)
  show ?thesis
    using maybe_compress_agree [OF st] st
    by (simp add: handle_forward_def Let_def split: option.splits prod.splits) (metis fst_conv snd_conv prod.inject)
qed

text \<open>C7. Nothing the proxy observes reaches the bytes it sends. Run the same requests from two states that hold the
  same store and the same replay table, but any drift tables, ledgers, counters, clocks and disks: every request
  gets the same answer, byte for byte, and the two still hold the same store and the same replay table.\<close>

theorem observers_never_reach_bytes:
  assumes "vs_store s = vs_store t" and "vs_replay s = vs_replay t" and "map snd xs = map snd ys"
  shows "fst (forward_all E P xs s) = fst (forward_all E P ys t)
    \<and> vs_store (snd (forward_all E P xs s)) = vs_store (snd (forward_all E P ys t))
    \<and> vs_replay (snd (forward_all E P xs s)) = vs_replay (snd (forward_all E P ys t))"
proof -
  have "fst (forward_all E P xs s) = fst (forward_all E P ys t) \<and> same_bytes (snd (forward_all E P xs s)) (snd (forward_all E P ys t))"
    if "same_bytes s t" for s t
    using that assms(3)
  proof (induction xs arbitrary: ys s t)
    case (Cons x xs)
    obtain io r where x: "x = (io, r)" by (cases x)
    obtain io' ys' where y: "ys = (io', r) # ys'" and rest: "map snd xs = map snd ys'" using Cons.prems(2) by (auto simp: x)
    show ?case
      using handle_forward_agree [OF Cons.prems(1), of E P io r io'] Cons.IH [OF _ rest]
      by (simp add: x y case_prod_unfold Let_def)
  qed simp
  from this [of s t] show ?thesis using assms(1,2) by (simp add: same_bytes_def)
qed

text \<open>Two proxies whose ledgers and counters differ send the same bytes and the same report.\<close>

theorem observers_never_reach_bytes_witness:
  "\<exists>sent hs. hs \<noteq> []
    \<and> fst (forward_all sample_env (sample_proxy False) [(\<lparr>io_now = ''t'', io_writable = True\<rparr>, sample_request)] (sample_state zero_entry))
        = [Forwarded sent hs]
    \<and> fst (forward_all sample_env (sample_proxy False) [(\<lparr>io_now = ''u'', io_writable = False\<rparr>, sample_request)]
          (sample_state (zero_entry\<lparr>le_messages := 9\<rparr>))) = [Forwarded sent hs]"
proof -
  let ?io = "\<lparr>io_now = ''t'', io_writable = True\<rparr>" and ?io' = "\<lparr>io_now = ''u'', io_writable = False\<rparr>"
  obtain sent hs where f: "fst (handle_forward sample_env (sample_proxy False) ?io sample_request (sample_state zero_entry)) = Forwarded sent hs" "hs \<noteq> []"
    using sample_forward [OF sample_up] by blast
  then have "fst (forward_all sample_env (sample_proxy False) [(?io, sample_request)] (sample_state zero_entry)) = [Forwarded sent hs]"
    by (simp add: Let_def case_prod_unfold)
  moreover from this have "fst (forward_all sample_env (sample_proxy False) [(?io', sample_request)] (sample_state (zero_entry\<lparr>le_messages := 9\<rparr>))) = [Forwarded sent hs]"
    using observers_never_reach_bytes [of "sample_state zero_entry" "sample_state (zero_entry\<lparr>le_messages := 9\<rparr>)"
      "[(?io, sample_request)]" "[(?io', sample_request)]" sample_env "sample_proxy False"]
    by (simp add: sample_state_def new_proxy_def)
  ultimately show ?thesis using f(2) by blast
qed

section \<open>Alterations\<close>

lemma eligible_compress:
  assumes "eligible P r body" and "maybe_compress E P io r body s = ((sent, result), s')"
  obtains handle st rs res where "result = Some res" "sent = dr_body res"
    "res = fst (dispatch (pe_deps E) (options_for P handle) body st rs)"
    "handle = fst (session_replay_of E (hr_header r) body (vs_replay s))"
  using assms by (auto simp: maybe_compress_def Let_def split: prod.splits) (metis fst_conv)

lemma dispatch_unapplied:
  "\<not> dr_applied (fst (dispatch E opts body st rs)) \<Longrightarrow>
   dr_body (fst (dispatch E opts body st rs)) = body \<and> dr_rewritten (fst (dispatch E opts body st rs)) = []"
  by (cases rule: dispatch_cases [of E opts body st rs]) auto



section \<open>No declared session\<close>

text \<open>C8. A client that declares no session gets no replay: its answer does not depend on the replay table, the table
  stays as it is, and any rewriting strictly reduces the tokens of the blocks it touched.\<close>

theorem undeclared_session_no_replay:
  assumes "declared_session_key (pe_sha E) (hr_header r) = None"
  shows "fst (handle_forward E P io r (s\<lparr>vs_replay := table\<rparr>)) = fst (handle_forward E P io r s)
    \<and> vs_replay (snd (handle_forward E P io r s)) = vs_replay s
    \<and> (\<forall>sent hs. fst (handle_forward E P io r s) = Forwarded sent hs \<and> hs \<noteq> [] \<longrightarrow>
         (\<exists>before after. after < before \<and> map_of hs ''X-Headroom-Tokens-Before'' = Some (itoa before)
            \<and> map_of hs ''X-Headroom-Tokens-After'' = Some (itoa after)))"
proof (intro conjI)
  let ?f = "\<lambda>s. handle_forward E P io r s"
  have o: "op_replay (options_for P None) = None" by (simp add: options_for_def)
  have c: "fst (maybe_compress E P io r body (s\<lparr>vs_replay := table\<rparr>)) = fst (maybe_compress E P io r body s)" for body s
    using dispatch_no_replay [OF o, of "pe_deps E" body "vs_store s" "replay_table table" "replay_table (vs_replay s)"]
    by (simp add: maybe_compress_def undeclared_handle [OF assms] Let_def split: prod.splits)
  have k: "vs_replay (snd (maybe_compress E P io r body s)) = vs_replay s" for body s
    using dispatch_no_replay [OF o, of "pe_deps E" body "vs_store s" "replay_table (vs_replay s)" "replay_table (vs_replay s)"]
    by (cases "vs_replay s") (simp_all add: maybe_compress_def undeclared_handle [OF assms] replay_table_def Let_def split: prod.splits)
  have "s\<lparr>vs_replay := table, vs_count := n\<rparr> = s\<lparr>vs_count := n, vs_replay := table\<rparr>" for n by simp
  then have c': "fst (maybe_compress E P io r body (s\<lparr>vs_replay := table, vs_count := n\<rparr>)) = fst (maybe_compress E P io r body (s\<lparr>vs_count := n\<rparr>))" for body n
    by (simp only: c)
  show "fst (?f (s\<lparr>vs_replay := table\<rparr>)) = fst (?f s)"
    by (simp add: handle_forward_def Let_def c' case_prod_unfold split: option.splits)
  show "vs_replay (snd (?f s)) = vs_replay s"
    by (simp add: handle_forward_def Let_def k case_prod_unfold split: option.splits)
  show "\<forall>sent hs. fst (?f s) = Forwarded sent hs \<and> hs \<noteq> [] \<longrightarrow>
         (\<exists>before after. after < before \<and> map_of hs ''X-Headroom-Tokens-Before'' = Some (itoa before)
            \<and> map_of hs ''X-Headroom-Tokens-After'' = Some (itoa after))"
  proof (intro allI impI)
    fix sent hs assume f: "fst (?f s) = Forwarded sent hs \<and> hs \<noteq> []"
    let ?s = "s\<lparr>vs_count := vs_count s + 1\<rparr>"
    obtain body where bd: "read_body P r = Some body" using f by (auto simp: handle_forward_def Let_def split: option.splits)
    obtain result where b: "fst (maybe_compress E P io r body ?s) = (sent, result)" "hs = report_headers body sent result"
      using f by (cases "maybe_compress E P io r body ?s") (auto simp: handle_forward_def bd Let_def)
    obtain res where res: "result = Some res" "dr_applied res"
      using f b(2) by (auto simp: report_headers_def split: option.splits if_splits)
    have e: "eligible P r body" using b(1) res(1) by (auto simp: maybe_compress_def split: if_splits)
    obtain s' where m: "maybe_compress E P io r body ?s = ((sent, result), s')" using b(1) by (metis prod.collapse)
    have "\<exists>st rs. res = fst (dispatch (pe_deps E) (options_for P None) body st rs)"
      using eligible_compress [OF e m] res(1) by (simp add: undeclared_handle [OF assms]) blast
    then have "dr_tokens_after res < dr_tokens_before res" using dispatch_tokens [OF o] res(2) by metis
    then show "\<exists>before after. after < before \<and> map_of hs ''X-Headroom-Tokens-Before'' = Some (itoa before)
            \<and> map_of hs ''X-Headroom-Tokens-After'' = Some (itoa after)"
      using res by (intro exI) (auto simp: b(2) report_headers_def)
  qed
qed

theorem undeclared_session_no_replay_witness:
  "\<exists>sent hs before after. fst (handle_forward sample_env (sample_proxy True) \<lparr>io_now = ''t'', io_writable = True\<rparr> sample_request
         ((sample_state zero_entry)\<lparr>vs_replay := Some (new_replay_state 4)\<rparr>)) = Forwarded sent hs
    \<and> after < before \<and> map_of hs ''X-Headroom-Tokens-Before'' = Some (itoa before)
    \<and> map_of hs ''X-Headroom-Tokens-After'' = Some (itoa after)"
proof -
  let ?io = "\<lparr>io_now = ''t'', io_writable = True\<rparr>" and ?s = "(sample_state zero_entry)\<lparr>vs_replay := Some (new_replay_state 4)\<rparr>"
  have "sq_up (vs_store ?s)" using sample_up by simp
  then obtain sent hs where f: "fst (handle_forward sample_env (sample_proxy True) ?io sample_request ?s) = Forwarded sent hs" "hs \<noteq> []"
    using sample_forward by blast
  have "declared_session_key (pe_sha sample_env) (hr_header sample_request) = None"
    by (simp add: declared_session_key_def header_get_def sample_request_def)
  from undeclared_session_no_replay [OF this, where P = "sample_proxy True" and s = ?s and io = ?io] f show ?thesis by blast
qed

section \<open>Retrieval\<close>

text \<open>The proxy as the HTTP peer of the MCP server.\<close>

definition proxy_http :: "'s proxy_deps \<Rightarrow> 's proxy_state \<Rightarrow> http_post" where
  "proxy_http P s url body =
     (if has_suffix url ''/v1/retrieve''
      then (let reply = fst (proxy_retrieve P body s) in Some (rp_status reply, rp_body reply)) else None)"

lemma hex_append: "list_all is_lower_hex t \<Longrightarrow> append_string t = t"
proof (induction t)
  case (Cons c t)
  then have "ord c < 128" "esc_ascii c = [c]" by (auto simp: is_lower_hex_def is_digit_def esc_ascii_def)
  then show ?case using Cons by (subst append_string.simps(2)) (simp del: append_string.simps)
qed simp

lemma hex_literal: "is_key h \<Longrightarrow> html_escape (encode_json_string h) = CHR 0x22 # h @ [CHR 0x22]"
proof -
  assume k: "is_key h"
  then have "set h \<inter> html_special = {}" by (auto simp: is_key_def list_all_iff is_lower_hex_def is_digit_def html_special_def)
  then have "html_escape h = h" by (rule html_escape_plain)
  then show ?thesis
    using k hex_append [of h]
    by (simp add: is_key_def encode_json_string_def html_escape_append html_escape_Cons html_special_def del: append_string.simps)
qed

text \<open>The names of the members that the two ends write and read.\<close>

lemma reply_names: "k \<in> {''hash'', ''content'', ''found''} \<Longrightarrow> to_valid k = k \<and> fold_name k = k"
  by (auto intro!: fold_name_plain ascii_valid simp: lower_byte_def is_upper_def)

lemma requested_hash_of_client: "is_key h \<Longrightarrow> requested_hash (marshal_json (JObj [(''hash'', JStr h)])) = Some h"
proof -
  assume k: "is_key h"
  have w: "list_all2 (written marshal_json) [(''hash'', JStr h)] [(''hash'', JStr h)]"
    using escaped.written_leaf(1) [of "''hash''" h] reply_names [of "''hash''"] key_valid [OF k] by simp
  have "html_escape (encode_json_string ''hash'') = [CHR 0x22, CHR ''h'', CHR ''a'', CHR ''s'', CHR ''h'', CHR 0x22]"
    by code_simp
  moreover have "marshal_json (JStr h) = CHR 0x22 # h @ [CHR 0x22]" using hex_literal [OF k] by (simp add: marshal_json_def)
  ultimately have "length (marshal_json (JObj [(''hash'', JStr h)])) \<le> 4096"
    using k hex_literal [OF k] by (simp add: marshal_json_object object_text_def member_text_def is_key_def)
  then show ?thesis
    using escaped.read_back_first [OF w, of "[]"] reply_names [of "''hash''"] by (simp add: requested_hash_def)
qed

lemma proxy_fetch:
  assumes "ccr_store (pd_store P) sinv view" and "sinv (vs_store s)" and "is_key hash" and "proxy_url \<noteq> []"
  shows "fetch_from_proxy (proxy_http P s) proxy_url hash
    = (case view (vs_store s) hash of None \<Rightarrow> None | Some p \<Rightarrow> if p = [] then None else Some (to_valid p))"
proof -
  let ?reply = "fst (proxy_retrieve P (marshal_json (JObj [(''hash'', JStr hash)])) s)"
  have suffix: "has_suffix (trim_slashes proxy_url @ ''/v1/retrieve'') ''/v1/retrieve''" by (simp add: has_suffix_def has_prefix_iff)
  have v: "fst (st_get (pd_store P) hash (vs_store s)) = view (vs_store s) hash"
    using ccr_store.get_view [OF assms(1,2)] .
  have answer: "fetch_from_proxy (proxy_http P s) proxy_url hash
    = (if rp_status ?reply \<noteq> 200 then None else case decode_content (rp_body ?reply) of None \<Rightarrow> None | Some c \<Rightarrow> if c = [] then None else Some c)"
    using assms(4) suffix by (simp add: fetch_from_proxy_def proxy_http_def Let_def)
  show ?thesis
  proof (cases "view (vs_store s) hash")
    case None
    then have "rp_status ?reply = 404"
      using v assms(3) by (cases "st_get (pd_store P) hash (vs_store s)") (simp add: proxy_retrieve_def requested_hash_of_client json_reply_def)
    then show ?thesis by (simp add: answer None)
  next
    case (Some p)
    let ?ms = "\<lambda>p. [(''content'', JStr p), (''found'', JBool True), (''hash'', JStr hash)]"
    have r: "?reply = json_reply 200 (?ms p)"
      using v Some assms(3) by (cases "st_get (pd_store P) hash (vs_store s)") (simp add: proxy_retrieve_def requested_hash_of_client)
    have w: "list_all2 (written marshal_json) (?ms p) (?ms (to_valid p))"
      using escaped.written_leaf(1) [of "''content''" p] escaped.written_leaf(1) [of "''hash''" hash]
        escaped.written_leaf(3) [of "''found''" True] reply_names key_valid [OF assms(3)] by simp
    have "decode_content (rp_body ?reply) = Some (to_valid p)"
      using escaped.read_back_first [OF w, of "[NL]"] reply_names by (simp add: r json_reply_def decode_content_def)
    then show ?thesis by (simp add: answer Some r json_reply_def to_valid_Nil_iff)
  qed
qed

text \<open>C38. The two ends of a retrieve agree. What the MCP server fetches for a key is what the proxy's store holds under
  it: the payload, made valid UTF-8 by the JSON it travels in, and a miss when there is none or it is empty.\<close>

theorem retrieve_through_proxy:
  assumes "ccr_store (pd_store P) sinv view" and "sinv (vs_store s)" and "is_key hash" and "proxy_url \<noteq> []"
  shows "fetch_from_proxy (proxy_http P s) proxy_url hash
    = (case view (vs_store s) hash of None \<Rightarrow> None | Some p \<Rightarrow> if p = [] then None else Some (to_valid p))"
  by (rule proxy_fetch [OF assms])

theorem retrieve_through_proxy_witness:
  "let P = sample_proxy False; h = replicate 24 CHR ''a'';
       s = (sample_state zero_entry)\<lparr>vs_store := st_put sql_ops h ''abc'' sample_store\<rparr>
   in fetch_from_proxy (proxy_http P s) ''http://127.0.0.1:8787/'' h = Some ''abc''"
proof -
  let ?h = "replicate 24 CHR ''a''" and ?P = "sample_proxy False" and ?st = "st_put sql_ops (replicate 24 CHR ''a'') ''abc'' sample_store"
  have up: "sq_up sample_store" by (simp add: sample_store_def)
  have "ccr_store (pd_store ?P) sq_up sql_view" using sql.ccr_store_axioms by (simp add: sample_proxy_def)
  moreover have "sq_up (vs_store ((sample_state zero_entry)\<lparr>vs_store := ?st\<rparr>))" using sql.put_inv [OF up] by simp
  moreover have "is_key ?h" by (simp add: is_key_def list_all_iff is_lower_hex_def is_digit_def)
  moreover have "sql_view ?st ?h = Some ''abc''" using sql.put_same [OF up] .
  moreover have "to_valid ''abc'' = ''abc''" by (rule ascii_valid) simp
  ultimately show ?thesis
    using retrieve_through_proxy [of ?P sq_up sql_view "(sample_state zero_entry)\<lparr>vs_store := ?st\<rparr>" ?h "''http://127.0.0.1:8787/''"]
    by (simp add: Let_def)
qed

end
