(* ===== verification/WireMarkers.thy ===== *)
theory WireMarkers
  imports ProxyProps
begin

text \<open>
  From end to end: what the proxy puts on the wire can be fetched back. The two passes of the dispatcher over a
  store that loses nothing, and the retrieve route on the store they leave.
\<close>

section \<open>A pass over a lossless store\<close>

text \<open>The replacement is the literal of a text whose markers the store resolves.\<close>

definition carried :: "('s \<Rightarrow> string \<Rightarrow> string option) \<Rightarrow> 's \<Rightarrow> replacement \<Rightarrow> bool" where
  "carried view st u \<longleftrightarrow> (\<exists>s t. u = replace_slot s t \<and> set (hashes_in t) \<subseteq> dom (view st))"

lemma carried_mono: "carried view st u \<Longrightarrow> dom (view st) \<subseteq> dom (view st') \<Longrightarrow> carried view st' u"
  unfolding carried_def by blast

context lossless_store
begin

lemma fresh_text_keeps:
  assumes "inv (pa_store p)" and "op_store opts = Some ops" and "op_router opts = Some R" and "router_ok ops R"
    and "digests_ok (dp_digests E)"
  shows "dom (view (pa_store p)) \<subseteq> dom (view (pa_store (fresh_text E opts tools m s p)))"
proof -
  obtain br st where cb: "compress_block (dp_digests E) (ps_text s)
        (block_context (dp_gjson E) (op_query opts) tools (ps_tool_use_id s)) (Some R) (Some ops)
        (op_tokenizer opts) (pa_store p) = (br, st)" by fastforce
  have st: "inv st" "dom (view (pa_store p)) \<subseteq> dom (view st)"
    using compress_block_spec [OF assms(1) cb assms(4)] compress_block_keeps [OF assms(1) cb assms(4)] by simp_all
  obtain ok st2 where sr: "store_resolves ops (br_cache_key br) (ps_text s) (br_replacement br)
      (st_put ops (br_cache_key br) (ps_text s) st) = (ok, st2)" by fastforce
  have "view st2 = (view st)(br_cache_key br \<mapsto> ps_text s)"
    using store_resolves_spec [OF put_inv [OF st(1)], of "br_cache_key br" "ps_text s"] sr put_view [OF st(1)]
    by (metis snd_conv)
  then have "dom (view (pa_store p)) \<subseteq> dom (view st2)" using st(2) by auto
  then show ?thesis
    using st(2) by (simp add: fresh_text_def assms(2,3) cb sr Let_def)
qed

definition pass_ok :: "'a pass \<Rightarrow> bool" where
  "pass_ok p \<longleftrightarrow> inv (pa_store p) \<and> (\<forall>u\<in>set (pa_reps p). carried view (pa_store p) u)"

lemma pass_same:
  assumes "pass_ok p" and "inv (pa_store q)" and "dom (view (pa_store p)) \<subseteq> dom (view (pa_store q))" and "pa_reps q = pa_reps p"
  shows "pass_ok q"
  using assms carried_mono [where view = view and st = "pa_store p" and st' = "pa_store q"] by (simp add: pass_ok_def)

lemma pass_add:
  assumes "pass_ok p" and "inv (pa_store q)" and "dom (view (pa_store p)) \<subseteq> dom (view (pa_store q))"
    and "pa_reps q = pa_reps p @ [replace_slot s t]" and "\<forall>h\<in>set (hashes_in t). view (pa_store q) h \<noteq> None"
  shows "pass_ok q"
proof -
  have "carried view (pa_store q) (replace_slot s t)" using assms(5) unfolding carried_def by blast
  then show ?thesis
    using assms carried_mono [where view = view and st = "pa_store p" and st' = "pa_store q"] by (auto simp: pass_ok_def)
qed

lemma fresh_slot_ok:
  assumes "pass_ok p" and "op_store opts = Some ops" and "op_router opts = Some R" and "router_ok ops R"
    and "digests_ok (dp_digests E)" and "ps_kind s \<noteq> SlotImage"
  shows "pass_ok (fresh_slot E opts body tools claimed m s p)"
proof -
  have i: "inv (pa_store p)" using assms(1) by (simp add: pass_ok_def)
  have t: "pass_ok (fresh_text E opts tools m s p)"
  proof -
    note k = fresh_text_keeps [OF i assms(2-5), of tools m s]
    note f = fresh_text_spec [OF i assms(2-5) HOL.refl, of tools m s]
    then consider "pa_reps (fresh_text E opts tools m s p) = pa_reps p"
      | c where "pa_reps (fresh_text E opts tools m s p) = pa_reps p @ [replace_slot s c]"
          "resolves view E (pa_store (fresh_text E opts tools m s p)) (ps_text s) c" by blast
    then show ?thesis
    proof cases
      case 1
      show ?thesis by (rule pass_same [OF assms(1) f [THEN conjunct1] k 1])
    next
      case (2 c)
      show ?thesis
        by (rule pass_add [OF assms(1) f [THEN conjunct1] k 2(1)]) (use 2(2) in \<open>unfold resolves_def, blast\<close>)
    qed
  qed
  have o: "pass_ok (add_outcome bo p)" for bo using assms(1) by (simp add: pass_ok_def)
  show ?thesis using assms(1,6) t o by (cases "ps_kind s") (simp_all add: fresh_slot_def)
qed

lemma replay_slot_ok:
  assumes "pass_ok p" and "op_store opts = Some ops" and "ps_kind s \<noteq> SlotImage"
  shows "pass_ok (replay_slot E opts h body m s p)"
proof -
  have i: "inv (pa_store p)" using assms(1) by (simp add: pass_ok_def)
  let ?k = "replay_hash E body m s"
  obtain hit rs where l: "replay_lookup h ?k (pa_replay p) = (hit, rs)" by fastforce
  show ?thesis
  proof (cases hit)
    case None
    then show ?thesis using assms(1) l by (simp add: replay_slot_def pass_ok_def)
  next
    case (Some c)
    let ?st = "refresh_store (dp_digests E) ops ?k (ps_text s) c (pa_store p)"
    have st: "inv ?st" "dom (view (pa_store p)) \<subseteq> dom (view ?st)"
      using i by (auto simp: refresh_store_def Let_def put_inv put_view)
    obtain ok st2 where sr: "store_resolves ops ?k (ps_text s) c ?st = (ok, st2)" by fastforce
    have r: "inv st2" "view st2 = view ?st" "ok \<longrightarrow> (\<forall>h\<in>set (hashes_in c). view ?st h \<noteq> None)"
      using store_resolves_spec [OF st(1), of ?k "ps_text s" c] sr by (metis fst_conv snd_conv)+
    show ?thesis
    proof (cases "ps_kind s \<noteq> SlotCompressible \<and> ps_kind s \<noteq> SlotStringContent")
      case True
      then show ?thesis using assms(1,3) by (simp add: replay_slot_def)
    next
      case False
      let ?q = "replay_slot E opts h body m s p"
      have q: "pa_store ?q = st2" "pa_reps ?q = (if ok then pa_reps p @ [replace_slot s c] else pa_reps p)"
      proof -
        from False have kind: "ps_kind s = SlotCompressible \<or> ps_kind s = SlotStringContent" by blast
        show "pa_store ?q = st2" "pa_reps ?q = (if ok then pa_reps p @ [replace_slot s c] else pa_reps p)"
          using kind assms(2) l Some sr by (elim disjE; simp add: replay_slot_def Let_def)+
      qed
      then show ?thesis
      proof (cases ok)
        case True
        then show ?thesis using q r st(2) by (intro pass_add [OF assms(1), of _ s c]) simp_all
      next
        case False
        then show ?thesis using q r st(2) by (intro pass_same [OF assms(1)]) simp_all
      qed
    qed
  qed
qed

lemma fold_ok:
  assumes "\<And>s p. s \<in> set ss \<Longrightarrow> pass_ok p \<Longrightarrow> pass_ok (f s p)" and "pass_ok p"
  shows "pass_ok (fold f ss p)"
  using assms by (induction ss arbitrary: p) auto

lemma replay_messages_ok:
  assumes "op_store opts = Some ops" and "\<And>m s. s \<in> set (plan_blocks (dp_gjson E) body m) \<Longrightarrow> ps_kind s \<noteq> SlotImage"
  shows "pass_ok p \<Longrightarrow> pass_ok (replay_messages E opts h body i msgs p)"
proof (induction msgs arbitrary: i p)
  case (Cons msg msgs)
  then show ?case using assms by (auto intro!: Cons.IH fold_ok replay_slot_ok)
qed simp

lemma dispatch_passes_ok:
  assumes "inv st" and "op_store opts = Some ops" and "op_router opts = Some R" and "router_ok ops R"
    and "digests_ok (dp_digests E)" and "\<And>m s. s \<in> set (plan_blocks (dp_gjson E) body m) \<Longrightarrow> ps_kind s \<noteq> SlotImage"
    and "dispatch_passes E opts body st rs = (live, slots, p)"
  shows "pass_ok p"
proof -
  have start: "pass_ok (start_pass st rs)" using assms(1) by (simp add: pass_ok_def start_pass_def)
  have one: "pass_ok (replay_all E opts body (start_pass st rs))"
    using start replay_messages_ok [OF assms(2,6)] by (auto simp: replay_all_def Let_def split: option.splits)
  have "s \<in> set slots \<Longrightarrow> ps_kind s \<noteq> SlotImage" for s
    using assms(6,7) by (auto simp: dispatch_passes_def Let_def split: option.splits)
  moreover have "p = fold (fresh_slot E opts body (index_tools (dp_gjson E) body) (set (map rp_start (pa_reps (replay_all E opts body (start_pass st rs)))))
      (case live of None \<Rightarrow> 0 | Some i \<Rightarrow> i)) slots (replay_all E opts body (start_pass st rs))"
    using assms(7) by (auto simp: dispatch_passes_def Let_def)
  ultimately show ?thesis using fold_ok fresh_slot_ok [OF _ assms(2-5)] one by metis
qed

text \<open>The bytes of a dispatch, and the markers they carry.\<close>

lemma dispatch_wire:
  fixes E :: deps and opts :: "'a dispatch_options" and body :: string and st :: 'a and rs :: replay_state
  assumes "inv st" and "op_store opts = Some ops" and "op_router opts = Some R" and "router_ok ops R"
    and "digests_ok (dp_digests E)" and "\<And>m s. s \<in> set (plan_blocks (dp_gjson E) body m) \<Longrightarrow> ps_kind s \<noteq> SlotImage"
    and d: "dispatch E opts body st rs = (r, st', rs')"
  shows "inv st' \<and> (\<exists>texts. length texts = length (dr_rewritten r)
      \<and> dr_body r = weave (gaps_in body 0 (dr_rewritten r)) (map encode_json_string texts)
      \<and> (\<forall>t\<in>set texts. set (hashes_in t) \<subseteq> dom (view st')))"
proof -
  obtain live slots p where ps: "dispatch_passes E opts body st rs = (live, slots, p)" by (cases "dispatch_passes E opts body st rs")
  have ok: "pass_ok p" by (rule dispatch_passes_ok [OF assms(1-6) ps])
  show ?thesis
  proof (cases rule: dispatch_cases [of E opts body st rs])
    case same
    then have "st' = st \<or> st' = pa_store p"
      using d ps by (auto simp: dispatch_def Let_def split: if_splits)
    then show ?thesis using same d assms(1) ok by (auto simp: pass_ok_def)
  next
    case (spliced live' slots' p')
    let ?acc = "accepted body 0 (sort_key rp_start (pa_reps p))"
    have p: "p' = p" using spliced(1) ps by simp
    have st': "st' = pa_store p" using d ps spliced(4) by (auto simp: dispatch_def passthrough_def Let_def split: if_splits)
    have ch: "chained 0 (int (length body)) (map rng_of ?acc)" by (rule chained_accepted) simp
    have rw: "dr_rewritten r = map rng_of ?acc" "dr_body r = spliced body 0 ?acc"
      using spliced(3) d by (simp_all add: p apply_replacements_eq Let_def)
    have "\<forall>u\<in>set ?acc. \<exists>t. rp_repl u = encode_json_string t \<and> set (hashes_in t) \<subseteq> dom (view st')"
      using set_accepted [of body 0 "sort_key rp_start (pa_reps p)"] ok by (fastforce simp: pass_ok_def carried_def st')
    then obtain f where f: "\<forall>u\<in>set ?acc. rp_repl u = encode_json_string (f u) \<and> set (hashes_in (f u)) \<subseteq> dom (view st')" by metis
    then have "map rp_repl ?acc = map encode_json_string (map f ?acc)" by simp
    then have "dr_body r = weave (gaps_in body 0 (dr_rewritten r)) (map encode_json_string (map f ?acc))"
      using weave_out [of body 0 ?acc] ch rw by (simp del: map_map)
    moreover have "length (map f ?acc) = length (dr_rewritten r)" by (simp add: rw)
    moreover have "\<forall>t\<in>set (map f ?acc). set (hashes_in t) \<subseteq> dom (view st')" using f by auto
    moreover have "inv st'" using ok st' by (simp add: pass_ok_def)
    ultimately show ?thesis by blast
  qed
qed

end

section \<open>Properties\<close>


lemma sample_no_images: "x \<in> set (plan_blocks sample_gjson sample_body m) \<Longrightarrow> ps_kind x \<noteq> SlotImage"
proof (cases "m = 0")
  case True
  then show "x \<in> set (plan_blocks sample_gjson sample_body m) \<Longrightarrow> ps_kind x \<noteq> SlotImage"
    by (simp add: sample_plan) (simp add: sample_slot_def)
next
  case False
  have path: "path_content k = ''messages.'' @ utoa k @ ''.content''" for k by (simp add: path_content_def path_message_def itoa_def)
  have zero: "''messages.0.content'' = path_content 0" by code_simp
  have "path_content m \<noteq> ''messages.0.content''" unfolding zero path using False utoa_inject by auto
  moreover have "path_content m \<noteq> ''messages''"
  proof
    assume "path_content m = ''messages''"
    then have "length (path_content m) = length ''messages''" by (rule arg_cong)
    then show False by (simp add: path)
  qed
  ultimately have "gj_get sample_gjson sample_body (path_content m) = g_none" by (simp add: sample_gjson_def table_gjson_def)
  then show "x \<in> set (plan_blocks sample_gjson sample_body m) \<Longrightarrow> ps_kind x \<noteq> SlotImage"
    by (simp add: plan_blocks_def Let_def sample_gjson_def table_defs)
qed


end
