(* ===== verification/PerfReport.thy ===== *)
theory PerfReport
  imports Ledger Policy "HOL-Library.Word"
begin

text \<open>
  \<open>internal/perf\<close>: \<open>report.go\<close> joins the ledger to the usage records of the client, \<open>transcript.go\<close> totals a session. The
  loaded sessions and the parser of time stamps (\<open>time.Parse\<close>, as nanoseconds after Go's zero time) are
  arguments. Counters are Go's \<open>int\<close>, 64 bits wide. Products and sums of \<open>float64\<close> are rounded one by one.
\<close>

section \<open>Usage\<close>

record usage =
  us_input :: "64 word"
  us_creation :: "64 word"
  us_read :: "64 word"
  us_output :: "64 word"
  us_5m :: "64 word"
  us_1h :: "64 word"

definition zero_usage :: usage where
  "zero_usage = \<lparr>us_input = 0, us_creation = 0, us_read = 0, us_output = 0, us_5m = 0, us_1h = 0\<rparr>"

definition add_usage :: "usage \<Rightarrow> usage \<Rightarrow> usage" where
  "add_usage a b = \<lparr>us_input = us_input a + us_input b, us_creation = us_creation a + us_creation b, us_read = us_read a + us_read b,
     us_output = us_output a + us_output b, us_5m = us_5m a + us_5m b, us_1h = us_1h a + us_1h b\<rparr>"

record session =
  sn_id :: string
  sn_digest :: string
  sn_turns :: "usage list"

definition session_total :: "session \<Rightarrow> usage" where
  "session_total s = foldl add_usage zero_usage (sn_turns s)"

section \<open>Report\<close>

text \<open>A Go map of counters: the keys with their counts, in the order in which they were first counted.\<close>

type_synonym counters = "(string \<times> 64 word) list"

definition bump :: "string \<Rightarrow> counters \<Rightarrow> counters" where
  "bump k m = (if k \<in> fst ` set m then map (\<lambda>(k', n). (k', if k' = k then n + 1 else n)) m else m @ [(k, 1)])"

definition counted_at :: "counters \<Rightarrow> string \<Rightarrow> 64 word" where
  "counted_at m k = (case map_of m k of None \<Rightarrow> 0 | Some n \<Rightarrow> n)"

record report =
  rp_since :: int
  rp_until :: int
  rp_turns :: "64 word"
  rp_compressed_turns :: "64 word"
  rp_sessions :: "64 word"
  rp_bytes_in :: "64 word"
  rp_bytes_out :: "64 word"
  rp_tokens_before :: "64 word"
  rp_tokens_after :: "64 word"
  rp_strategies :: counters
  rp_replayed :: "64 word"
  rp_drift_turns :: "64 word"
  rp_drift_dims :: counters
  rp_reasons :: counters
  rp_modes :: counters
  rp_matched_sessions :: "64 word"
  rp_headroom :: usage
  rp_baseline_sessions :: "64 word"
  rp_baseline :: usage

definition empty_report :: report where
  "empty_report =
     \<lparr>rp_since = 0, rp_until = 0, rp_turns = 0, rp_compressed_turns = 0, rp_sessions = 0, rp_bytes_in = 0, rp_bytes_out = 0,
      rp_tokens_before = 0, rp_tokens_after = 0, rp_strategies = [], rp_replayed = 0, rp_drift_turns = 0, rp_drift_dims = [],
      rp_reasons = [], rp_modes = [], rp_matched_sessions = 0, rp_headroom = zero_usage, rp_baseline_sessions = 0,
      rp_baseline = zero_usage\<rparr>"

text \<open>The window of the turns: the zero time means that there is no start yet.\<close>

definition widen_window :: "int option \<Rightarrow> report \<Rightarrow> report" where
  "widen_window stamp r =
     (case stamp of
        None \<Rightarrow> r
      | Some ts \<Rightarrow>
          (let r1 = (if rp_since r = 0 \<or> ts < rp_since r then r\<lparr>rp_since := ts\<rparr> else r)
           in if rp_until r1 < ts then r1\<lparr>rp_until := ts\<rparr> else r1))"

definition count_entry :: "ledger_entry \<Rightarrow> report \<Rightarrow> report" where
  "count_entry e r =
     (let r1 = r\<lparr>rp_turns := rp_turns r + 1, rp_bytes_in := rp_bytes_in r + of_int (le_bytes_in e),
            rp_bytes_out := rp_bytes_out r + of_int (le_bytes_out e),
            rp_tokens_before := rp_tokens_before r + of_int (le_tokens_before e),
            rp_tokens_after := rp_tokens_after r + of_int (le_tokens_after e),
            rp_replayed := rp_replayed r + of_int (le_replayed e), rp_reasons := bump (le_reason e) (rp_reasons r),
            rp_modes := bump (le_mode e) (rp_modes r)\<rparr>;
          r2 = (if le_bytes_out e < le_bytes_in e then r1\<lparr>rp_compressed_turns := rp_compressed_turns r1 + 1\<rparr> else r1);
          r3 = r2\<lparr>rp_strategies := fold bump (le_strategies e) (rp_strategies r2)\<rparr>
      in if le_drift e \<noteq> []
         then r3\<lparr>rp_drift_turns := rp_drift_turns r3 + 1, rp_drift_dims := fold bump (le_drift e) (rp_drift_dims r3)\<rparr>
         else r3)"

definition add_turn :: "(string \<Rightarrow> int option) \<Rightarrow> ledger_entry \<Rightarrow> report \<times> string set \<Rightarrow> report \<times> string set" where
  "add_turn parse_time e rs =
     (let (r, seen) = rs;
          r1 = count_entry e r;
          (r2, seen') = (if le_session e \<notin> seen then (r1\<lparr>rp_sessions := rp_sessions r1 + 1\<rparr>, insert (le_session e) seen) else (r1, seen))
      in (widen_window (parse_time (le_ts e)) r2, seen'))"

definition join_session :: "string set \<Rightarrow> session \<Rightarrow> report \<Rightarrow> report" where
  "join_session seen s r =
     (let t = session_total s
      in if sn_digest s \<in> seen
         then r\<lparr>rp_matched_sessions := rp_matched_sessions r + 1, rp_headroom := add_usage (rp_headroom r) t\<rparr>
         else r\<lparr>rp_baseline_sessions := rp_baseline_sessions r + 1, rp_baseline := add_usage (rp_baseline r) t\<rparr>)"

definition build_report :: "(string \<Rightarrow> int option) \<Rightarrow> ledger_entry list \<Rightarrow> session list \<Rightarrow> report" where
  "build_report parse_time entries sessions =
     (let (r, seen) = fold (add_turn parse_time) entries (empty_report, {}) in fold (join_session seen) sessions r)"

text \<open>\<open>Since\<close>: a turn whose time stamp cannot be read is kept.\<close>

definition since_cutoff :: "(string \<Rightarrow> int option) \<Rightarrow> int \<Rightarrow> ledger_entry list \<Rightarrow> ledger_entry list" where
  "since_cutoff parse_time cutoff =
     filter (\<lambda>e. case parse_time (le_ts e) of None \<Rightarrow> True | Some ts \<Rightarrow> \<not> ts < cutoff)"

section \<open>Prices and shares\<close>

definition price_fresh_input :: fl where "price_fresh_input = Fin 1"
definition price_cache_read :: fl where "price_cache_read = round_fl (1 / 10)"
definition price_cache_write_5m :: fl where "price_cache_write_5m = Fin (5 / 4)"
definition price_cache_write_1h :: fl where "price_cache_write_1h = Fin 2"

definition fl_of_word :: "64 word \<Rightarrow> fl" where "fl_of_word w = fl_of_int (sint w)"

definition input_units :: "usage \<Rightarrow> fl" where
  "input_units u =
     (let split = us_5m u + us_1h u; rest0 = us_creation u - split; rest = (if sint rest0 < 0 then 0 else rest0);
          priced = (\<lambda>n p. fl_mul (fl_of_word n) p)
      in fl_add (fl_add (fl_add (fl_add (priced (us_input u) price_fresh_input) (priced (us_read u) price_cache_read))
           (priced (us_5m u) price_cache_write_5m)) (priced (us_1h u) price_cache_write_1h)) (priced rest price_cache_write_5m))"

definition input_tokens :: "usage \<Rightarrow> 64 word" where
  "input_tokens u = us_input u + us_read u + us_creation u"

definition cache_read_share :: "usage \<Rightarrow> fl" where
  "cache_read_share u = (if input_tokens u = 0 then Fin (- 1) else fl_div (fl_of_word (us_read u)) (fl_of_word (input_tokens u)))"

definition whole_body_saving :: "report \<Rightarrow> fl" where
  "whole_body_saving r =
     (if rp_bytes_in r = 0 then Fin (- 1) else fl_div (fl_of_word (rp_bytes_in r - rp_bytes_out r)) (fl_of_word (rp_bytes_in r)))"

definition tokens_removed :: "report \<Rightarrow> 64 word" where
  "tokens_removed r = rp_tokens_before r - rp_tokens_after r"

definition join_sound :: "report \<Rightarrow> bool" where
  "join_sound r \<longleftrightarrow> 0 < sint (rp_matched_sessions r) \<and> sint (tokens_removed r) \<le> sint (input_tokens (rp_headroom r))"

definition tokens_avoided_share :: "report \<Rightarrow> fl" where
  "tokens_avoided_share r =
     (if \<not> join_sound r \<or> sint (tokens_removed r) \<le> 0 then Fin (- 1)
      else fl_div (fl_of_word (tokens_removed r)) (fl_of_word (tokens_removed r + input_tokens (rp_headroom r))))"

definition cost_range :: "report \<Rightarrow> fl \<times> fl" where
  "cost_range r =
     (let units = input_units (rp_headroom r);
          share_at = (\<lambda>p. let a = fl_mul (fl_of_word (tokens_removed r)) p in fl_div a (fl_add units a))
      in if \<not> join_sound r \<or> sint (tokens_removed r) \<le> 0 \<or> fl_le units (Fin 0) then (Fin (- 1), Fin (- 1))
         else (share_at price_cache_read, share_at price_cache_write_1h))"

definition metered :: "report \<Rightarrow> bool" where
  "metered r \<longleftrightarrow> sint (counted_at (rp_modes r) (auth_mode_string Subscription)) < sint (rp_turns r)"

section \<open>Lemmas\<close>

interpretation usages: comm_monoid add_usage zero_usage
  by unfold_locales (simp_all add: add_usage_def zero_usage_def ac_simps)

lemma session_total_fields:
  "us_input (session_total s) = (\<Sum>u\<leftarrow>sn_turns s. us_input u)" "us_read (session_total s) = (\<Sum>u\<leftarrow>sn_turns s. us_read u)"
  "us_creation (session_total s) = (\<Sum>u\<leftarrow>sn_turns s. us_creation u)"
proof -
  have "us_input (foldl add_usage a us) = us_input a + (\<Sum>u\<leftarrow>us. us_input u)
    \<and> us_read (foldl add_usage a us) = us_read a + (\<Sum>u\<leftarrow>us. us_read u)
    \<and> us_creation (foldl add_usage a us) = us_creation a + (\<Sum>u\<leftarrow>us. us_creation u)" for a us
    by (induction us arbitrary: a) (simp_all add: add_usage_def ac_simps)
  then show "us_input (session_total s) = (\<Sum>u\<leftarrow>sn_turns s. us_input u)" "us_read (session_total s) = (\<Sum>u\<leftarrow>sn_turns s. us_read u)"
    "us_creation (session_total s) = (\<Sum>u\<leftarrow>sn_turns s. us_creation u)"
    by (simp_all add: session_total_def zero_usage_def)
qed

lemma map_of_bumped: "map_of (map (\<lambda>(k', n). (k', if k' = k then n + (1::64 word) else n)) m) q
    = map_option (\<lambda>n. if q = k then n + 1 else n) (map_of m q)"
  by (induction m) auto

lemma counted_at_bump: "counted_at (bump k m) q = counted_at m q + (if q = k then 1 else 0)"
proof -
  have "map_of m k = None \<longleftrightarrow> k \<notin> fst ` set m" by (rule map_of_eq_None_iff)
  then show ?thesis
    by (auto simp: counted_at_def bump_def map_of_bumped map_add_def split: option.splits)
qed

lemma counted_at_bumps: "counted_at (fold bump ks m) q = counted_at m q + of_nat (count_list ks q)"
  by (induction ks arbitrary: m) (simp_all add: counted_at_bump)

lemma widen_window_fields:
  "rp_turns (widen_window t r) = rp_turns r" "rp_bytes_in (widen_window t r) = rp_bytes_in r" "rp_bytes_out (widen_window t r) = rp_bytes_out r"
  "rp_tokens_before (widen_window t r) = rp_tokens_before r" "rp_tokens_after (widen_window t r) = rp_tokens_after r"
  "rp_sessions (widen_window t r) = rp_sessions r" "rp_reasons (widen_window t r) = rp_reasons r" "rp_strategies (widen_window t r) = rp_strategies r"
  "rp_matched_sessions (widen_window t r) = rp_matched_sessions r" "rp_baseline_sessions (widen_window t r) = rp_baseline_sessions r"
  "rp_headroom (widen_window t r) = rp_headroom r" "rp_baseline (widen_window t r) = rp_baseline r"
  by (simp_all add: widen_window_def Let_def split: option.splits)

text \<open>What one line adds.\<close>

lemma turn_step:
  assumes "add_turn pt e (r, seen) = (r1, seen1)"
  shows "seen1 = insert (le_session e) seen" "rp_sessions r1 = rp_sessions r + (if le_session e \<in> seen then 0 else 1)"
    "rp_turns r1 = rp_turns r + 1" "rp_bytes_in r1 = rp_bytes_in r + of_int (le_bytes_in e)"
    "rp_bytes_out r1 = rp_bytes_out r + of_int (le_bytes_out e)"
    "tokens_removed r1 = tokens_removed r + of_int (le_tokens_before e - le_tokens_after e)"
    "counted_at (rp_reasons r1) k = counted_at (rp_reasons r) k + (if k = le_reason e then 1 else 0)"
    "counted_at (rp_strategies r1) k = counted_at (rp_strategies r) k + of_nat (count_list (le_strategies e) k)"
    "rp_matched_sessions r1 = rp_matched_sessions r" "rp_baseline_sessions r1 = rp_baseline_sessions r"
    "rp_headroom r1 = rp_headroom r" "rp_baseline r1 = rp_baseline r"
  using assms
  by (auto simp: add_turn_def count_entry_def widen_window_fields counted_at_bump counted_at_bumps tokens_removed_def Let_def
      split: if_splits)

lemma turns_total:
  assumes "fold (add_turn pt) es (r, seen) = (r', seen')"
  shows "seen' = seen \<union> le_session ` set es \<and> rp_turns r' = rp_turns r + of_nat (length es)
    \<and> rp_bytes_in r' = rp_bytes_in r + of_int (\<Sum>e\<leftarrow>es. le_bytes_in e)
    \<and> rp_bytes_out r' = rp_bytes_out r + of_int (\<Sum>e\<leftarrow>es. le_bytes_out e)
    \<and> tokens_removed r' = tokens_removed r + of_int (\<Sum>e\<leftarrow>es. le_tokens_before e - le_tokens_after e)
    \<and> counted_at (rp_reasons r') k = counted_at (rp_reasons r) k + of_nat (length (filter (\<lambda>e. le_reason e = k) es))
    \<and> counted_at (rp_strategies r') k = counted_at (rp_strategies r) k + of_nat (count_list (concat (map le_strategies es)) k)
    \<and> rp_matched_sessions r' = rp_matched_sessions r \<and> rp_baseline_sessions r' = rp_baseline_sessions r
    \<and> rp_headroom r' = rp_headroom r \<and> rp_baseline r' = rp_baseline r"
  using assms
proof (induction es arbitrary: r seen)
  case (Cons e es)
  obtain r1 seen1 where a: "add_turn pt e (r, seen) = (r1, seen1)" by force
  then have f: "fold (add_turn pt) es (r1, seen1) = (r', seen')" using Cons.prems by simp
  show ?case using Cons.IH [OF f] turn_step [OF a] by auto
qed simp

lemma sessions_total:
  assumes "fold (add_turn pt) es (r, seen) = (r', seen')" and "finite seen"
  shows "rp_sessions r' = rp_sessions r + of_nat (card (seen' - seen))"
  using assms
proof (induction es arbitrary: r seen)
  case (Cons e es)
  obtain r1 seen1 where a: "add_turn pt e (r, seen) = (r1, seen1)" by force
  then have f: "fold (add_turn pt) es (r1, seen1) = (r', seen')" using Cons.prems by simp
  have s: "seen1 = insert (le_session e) seen" "rp_sessions r1 = rp_sessions r + (if le_session e \<in> seen then 0 else 1)"
    using turn_step [OF a] by simp_all
  have s': "seen' = seen1 \<union> le_session ` set es" using turns_total [OF f] by simp
  have "seen' - seen1 \<subseteq> le_session ` set es" using s' by auto
  then have "finite (seen' - seen1)" by (rule finite_subset) simp
  then have "card (seen' - seen) = card (seen' - seen1) + (if le_session e \<in> seen then 0 else 1)"
  proof (cases "le_session e \<in> seen")
    case False
    then have "seen' - seen = insert (le_session e) (seen' - seen1)" using s s' by auto
    moreover have "le_session e \<notin> seen' - seen1" using s by simp
    ultimately show ?thesis using False \<open>finite (seen' - seen1)\<close> by simp
  qed (simp add: s insert_absorb)
  moreover have "finite seen1" using s Cons.prems(2) by simp
  ultimately show ?case using Cons.IH [OF f] s by simp
qed simp

lemma join_fields:
  "rp_turns (join_session seen s r) = rp_turns r" "rp_bytes_in (join_session seen s r) = rp_bytes_in r"
  "rp_bytes_out (join_session seen s r) = rp_bytes_out r" "tokens_removed (join_session seen s r) = tokens_removed r"
  "rp_reasons (join_session seen s r) = rp_reasons r" "rp_strategies (join_session seen s r) = rp_strategies r"
  "rp_sessions (join_session seen s r) = rp_sessions r"
  by (simp_all add: join_session_def tokens_removed_def Let_def)

definition usage_total :: "usage list \<Rightarrow> usage" where
  "usage_total us = foldr add_usage us zero_usage"

lemma joins_total:
  "(\<forall>f \<in> {rp_turns, rp_bytes_in, rp_bytes_out, tokens_removed, rp_sessions}. f (fold (join_session seen) ss r) = f r)
   \<and> rp_reasons (fold (join_session seen) ss r) = rp_reasons r \<and> rp_strategies (fold (join_session seen) ss r) = rp_strategies r"
  by (induction ss arbitrary: r) (simp_all add: join_fields)

lemma joins_usage:
  "rp_matched_sessions (fold (join_session seen) ss r) = rp_matched_sessions r + of_nat (length (filter (\<lambda>s. sn_digest s \<in> seen) ss))
   \<and> rp_baseline_sessions (fold (join_session seen) ss r) = rp_baseline_sessions r + of_nat (length (filter (\<lambda>s. sn_digest s \<notin> seen) ss))
   \<and> rp_headroom (fold (join_session seen) ss r) = add_usage (rp_headroom r) (usage_total (map session_total (filter (\<lambda>s. sn_digest s \<in> seen) ss)))
   \<and> rp_baseline (fold (join_session seen) ss r) = add_usage (rp_baseline r) (usage_total (map session_total (filter (\<lambda>s. sn_digest s \<notin> seen) ss)))"
  by (induction ss arbitrary: r) (simp_all add: join_session_def usage_total_def usages.assoc Let_def)

section \<open>Properties\<close>

text \<open>C40. The report adds up. Every ledger line is counted once, in the totals and under its reason; every transcript is
  counted once, on the side of headroom exactly when one of the lines carries its digest and in the baseline
  otherwise; and the two sides together are the usage of all transcripts. Sums are modulo \<open>2 ^ 64\<close>.\<close>

theorem report_adds_up:
  "let r = build_report parse_time entries sessions; joined = (\<lambda>s. sn_digest s \<in> le_session ` set entries)
   in rp_turns r = of_nat (length entries) \<and> rp_sessions r = of_nat (card (le_session ` set entries))
    \<and> rp_bytes_in r = of_int (\<Sum>e\<leftarrow>entries. le_bytes_in e) \<and> rp_bytes_out r = of_int (\<Sum>e\<leftarrow>entries. le_bytes_out e)
    \<and> tokens_removed r = of_int (\<Sum>e\<leftarrow>entries. le_tokens_before e - le_tokens_after e)
    \<and> (\<forall>k. counted_at (rp_reasons r) k = of_nat (length (filter (\<lambda>e. le_reason e = k) entries)))
    \<and> rp_matched_sessions r = of_nat (length (filter joined sessions))
    \<and> rp_headroom r = usage_total (map session_total (filter joined sessions))
    \<and> rp_baseline_sessions r = of_nat (length (filter (\<lambda>s. \<not> joined s) sessions))
    \<and> rp_baseline r = usage_total (map session_total (filter (\<lambda>s. \<not> joined s) sessions))
    \<and> add_usage (rp_headroom r) (rp_baseline r) = usage_total (map session_total sessions)"
proof -
  obtain r0 seen where f: "fold (add_turn parse_time) entries (empty_report, {}) = (r0, seen)" by force
  note t = turns_total [OF f]
  let ?r = "build_report parse_time entries sessions" and ?joined = "\<lambda>s. sn_digest s \<in> le_session ` set entries"
  have r: "?r = fold (join_session seen) sessions r0" by (simp add: build_report_def f)
  have seen: "seen = le_session ` set entries" using t by simp
  have split: "add_usage (usage_total (map session_total (filter P ss))) (usage_total (map session_total (filter (\<lambda>s. \<not> P s) ss)))
      = usage_total (map session_total ss)" for P ss
    by (induction ss) (simp_all add: usage_total_def usages.assoc usages.left_commute)
  have z: "add_usage zero_usage u = u" for u by (rule usages.left_neutral)
  have turns: "rp_turns r0 = of_nat (length entries)" "rp_sessions r0 = of_nat (card (le_session ` set entries))"
    "rp_bytes_in r0 = of_int (\<Sum>e\<leftarrow>entries. le_bytes_in e)" "rp_bytes_out r0 = of_int (\<Sum>e\<leftarrow>entries. le_bytes_out e)"
    "tokens_removed r0 = of_int (\<Sum>e\<leftarrow>entries. le_tokens_before e - le_tokens_after e)"
    "counted_at (rp_reasons r0) k = of_nat (length (filter (\<lambda>e. le_reason e = k) entries))" for k
    using turns_total [OF f, of k] sessions_total [OF f] seen by (simp_all add: empty_report_def tokens_removed_def counted_at_def)
  have empty: "rp_matched_sessions r0 = 0" "rp_baseline_sessions r0 = 0" "rp_headroom r0 = zero_usage" "rp_baseline r0 = zero_usage"
    using t by (simp_all add: empty_report_def)
  show ?thesis
    using joins_total [of seen sessions r0] joins_usage [of seen sessions r0]
    by (simp add: Let_def r turns empty z seen split)
qed

end
