(* ===== verification/PerfFormat.thy ===== *)
theory PerfFormat
  imports PerfReport
begin

text \<open>
  \<open>internal/perf/format.go\<close>: the text of \<open>headroom perf\<close>. How an instant is written (\<open>time.Format\<close>) is an
  argument.
\<close>

section \<open>Numbers\<close>

text \<open>\<open>%.1f\<close> and \<open>%.2f\<close>: the exact binary value, rounded half to even.\<close>

definition decimals :: "nat \<Rightarrow> rat \<Rightarrow> string" where
  "decimals k x =
     (let n = nat (rne (\<bar>x\<bar> * 10 ^ k)); digits = rev (map (\<lambda>i. digit_char (n div 10 ^ i mod 10)) [0..<k])
      in (if x < 0 then ''-'' else []) @ utoa (n div 10 ^ k) @ ''.'' @ digits)"

definition sprintf_f :: "nat \<Rightarrow> fl \<Rightarrow> string" where
  "sprintf_f k x = (case x of Fin r \<Rightarrow> decimals k r | PInf \<Rightarrow> ''+Inf'' | NInf \<Rightarrow> ''-Inf'' | NaN \<Rightarrow> ''NaN'')"

definition usage_ratio :: "64 word \<Rightarrow> 64 word \<Rightarrow> fl" where
  "usage_ratio a b = (if b = 0 then Fin (- 1) else fl_div (fl_of_word a) (fl_of_word b))"

definition pct :: "fl \<Rightarrow> string" where
  "pct f = (if fl_lt f (Fin 0) then ''n/a'' else sprintf_f 1 (fl_mul f (Fin 100)) @ ''%'')"

definition bytes_of :: "64 word \<Rightarrow> string" where
  "bytes_of w =
     (let n = sint w; scaled = (\<lambda>u. sprintf_f 1 (fl_div (fl_of_word w) (Fin u)))
      in if 2 ^ 30 \<le> n then scaled (2 ^ 30) @ '' GB''
         else if 2 ^ 20 \<le> n then scaled (2 ^ 20) @ '' MB''
         else if 2 ^ 10 \<le> n then scaled (2 ^ 10) @ '' KB''
         else itoa n @ '' B'')"

text \<open>Groups of three digits, from the right.\<close>

function group_parts :: "string \<Rightarrow> string list \<Rightarrow> string list" where
  "group_parts s parts =
     (if 3 < length s then group_parts (take (length s - 3) s) (drop (length s - 3) s # parts) else s # parts)"
  by auto
termination group_parts by (relation "measure (\<lambda>(s, _). length s)") auto

declare group_parts.simps [simp del]

definition group_thousands :: "int \<Rightarrow> string" where
  "group_thousands n =
     (let s = itoa n; neg = has_prefix s ''-''; digits = (if neg then drop 1 s else s); out = join '','' (group_parts digits [])
      in if neg then ''-'' @ out else out)"

definition num_of :: "64 word \<Rightarrow> string" where
  "num_of w = group_thousands (sint w)"

text \<open>Most frequent first, then by name. The keys of a map are distinct, so the order is total.\<close>

definition counted :: "counters \<Rightarrow> string" where
  "counted m =
     (let keys = filter (\<lambda>k. k \<noteq> []) (map fst m);
          sorted_keys = sort_key (\<lambda>k. - sint (counted_at m k)) (sort keys)
      in join '', '' (map (\<lambda>k. k @ '' '' @ itoa (sint (counted_at m k))) sorted_keys))"

section \<open>The report\<close>

definition em_dash :: string where "em_dash = [CHR 0xE2, CHR 0x80, CHR 0x94]"

definition usage_line :: "string \<Rightarrow> 64 word \<Rightarrow> 64 word \<Rightarrow> string \<Rightarrow> string" where
  "usage_line title n total_in price =
     title @ num_of n @ '' tok   '' @ pct (usage_ratio n total_in) @ ''   billed '' @ price @ ''x'' @ [NL]"

definition write_usage :: "usage \<Rightarrow> string" where
  "write_usage u =
     (let t = input_tokens u
      in usage_line ''  cache read        '' (us_read u) t (sprintf_f 1 price_cache_read)
         @ (if 0 < sint (us_1h u) then usage_line ''  cache write 1h    '' (us_1h u) t (sprintf_f 2 price_cache_write_1h) else [])
         @ (if 0 < sint (us_5m u) then usage_line ''  cache write 5m    '' (us_5m u) t (sprintf_f 2 price_cache_write_5m) else [])
         @ usage_line ''  fresh input       '' (us_input u) t (sprintf_f 1 price_fresh_input))"

definition cache_sentences :: "report \<Rightarrow> string list" where
  "cache_sentences r =
     (let share = cache_read_share (rp_headroom r); base = cache_read_share (rp_baseline r)
      in [if rp_baseline_sessions r = 0 then ''Your cached prefix served '' @ pct share @ '' of input tokens.''
          else if fl_le base share
          then ''Your cached prefix served '' @ pct share @ '' of input tokens, against '' @ pct base @ '' without headroom. The prefix held.''
          else ''Your cached prefix served '' @ pct share @ '' of input tokens, against '' @ pct base @ '' without headroom. ''
            @ ''That gap is a cost headroom added; compare it against the saving above.'']
         @ (if 0 < sint (rp_baseline_sessions r)
            then [''The unproxied figure is a different set of sessions, not a control: read it as a sanity check, not a measurement.'']
            else []))"

definition sound_sentences :: "report \<Rightarrow> string list" where
  "sound_sentences r =
     (let removed = num_of (tokens_removed r); sent = num_of (tokens_removed r + input_tokens (rp_headroom r));
          share = pct (tokens_avoided_share r); (low, high) = cost_range r
      in if metered r
         then [''headroom kept '' @ removed @ '' input tokens out of the '' @ sent @ '' those sessions billed '' @ em_dash @ '' '' @ share @ '' of them.'',
               ''What that saved depends on what those tokens would have billed as, and the ledger cannot say: ''
                 @ ''between '' @ pct low @ '' and '' @ pct high @ '' of your input bill. The low end is a block headroom replays every turn, ''
                 @ ''which would have been a cached read at '' @ sprintf_f 1 price_cache_read
                 @ ''x; the high end is the turn a block is first removed, ''
                 @ ''which would have been a 1-hour cache write at '' @ sprintf_f 1 price_cache_write_1h @ ''x.'']
         else [''headroom kept '' @ removed @ '' input tokens out of the '' @ sent @ '' pushed through the context window '' @ em_dash @ '' '' @ share
                 @ '' of that traffic.'',
               ''Your plan has no per-token bill, so window space is the win, not money. ''
                 @ ''This is a share of cumulative input tokens, not of any single request's window: ''
                 @ ''the ledger records no per-turn context size, so it cannot say how much later a compaction arrives. ''
                 @ ''On a metered plan the same removal would have been worth '' @ pct low @ '' to '' @ pct high @ '' of the input bill.''])"

definition verdict :: "report \<Rightarrow> string list" where
  "verdict r =
     (let saving = whole_body_saving r
      in if fl_le saving (Fin 0) then [''headroom removed nothing from what you sent. It is not earning its place.'']
         else if rp_matched_sessions r = 0 then
           [''headroom removed '' @ num_of (tokens_removed r) @ '' tokens and '' @ pct saving @ '' of the bytes you sent, over ''
              @ num_of (rp_turns r) @ '' turns.'',
            ''No transcript joined a ledger session, so there is no denominator: the share ''
              @ ''that number is of your traffic, and what it was worth, are both withheld.'']
         else if \<not> join_sound r then
           [''headroom removed '' @ pct saving @ '' of the bytes you sent, over '' @ num_of (rp_turns r) @ '' turns.'',
            ''No cache verdict: headroom removed '' @ num_of (tokens_removed r) @ '' tokens but the matched sessions were billed for only ''
              @ num_of (input_tokens (rp_headroom r)) @ '' input tokens. ''
              @ ''The ledger and the usage records are not describing the same traffic, so every number that combines them is withheld.'']
         else sound_sentences r @ cache_sentences r
           @ [''The same turns sent '' @ pct saving @ '' fewer bytes on the wire. That is the larger number and the one that does not bill.''])"

definition did_section :: "report \<Rightarrow> string" where
  "did_section r =
     (let modes = counted (rp_modes r); share = tokens_avoided_share r; saving = whole_body_saving r;
          strategies = counted (rp_strategies r); outcomes = counted (rp_reasons r)
      in ''WHAT HEADROOM DID'' @ [NL]
         @ ''  turns             '' @ num_of (rp_turns r) @ ''   ('' @ num_of (rp_compressed_turns r) @ '' compressed)'' @ [NL]
         @ ''  sessions          '' @ num_of (rp_sessions r) @ [NL]
         @ (if modes \<noteq> [] then ''  auth modes        '' @ modes @ [NL] else [])
         @ (if 0 < sint (tokens_removed r)
            then ''  tokens removed    '' @ num_of (tokens_removed r) @ '' of '' @ num_of (rp_tokens_before r) @ '' in the blocks it rewrote'' @ [NL]
            else [])
         @ (if fl_le (Fin 0) share
            then (if metered r then ''  input tokens never sent   '' else ''  context-window headroom (cumulative)  '') @ pct share @ [NL]
            else [])
         @ ''  bytes sent        '' @ bytes_of (rp_bytes_out r) @ '' of '' @ bytes_of (rp_bytes_in r) @ [NL]
         @ (if fl_lt (Fin 0) saving then ''  bytes saved       '' @ pct saving @ ''   (wire bytes; not tokens, not the bill)'' @ [NL] else [])
         @ (if 0 < sint (rp_replayed r)
            then ''  blocks replayed   '' @ num_of (rp_replayed r) @ ''   (re-sent compressed, so the prefix stayed byte-stable)'' @ [NL]
            else [])
         @ (if strategies \<noteq> [] then ''  strategies        '' @ strategies @ [NL] else [])
         @ (if outcomes \<noteq> [] then ''  outcomes          '' @ outcomes @ [NL] else []))"

definition cache_section :: "report \<Rightarrow> string" where
  "cache_section r =
     [NL] @ ''WHAT THE CACHE DID          from Claude Code's own usage records'' @ [NL]
     @ (if rp_matched_sessions r = 0
        then ''  No transcript matched a ledger session, so the cache effect is unknown.'' @ [NL]
          @ ''  This is the half that decides whether headroom helped: bytes saved with'' @ [NL]
          @ ''  a busted cache is a loss. Check that the transcript directory is right.'' @ [NL]
        else ''  sessions joined   '' @ num_of (rp_matched_sessions r) @ [NL] @ write_usage (rp_headroom r)
          @ ''  cache-read share  '' @ pct (cache_read_share (rp_headroom r)) @ [NL]
          @ (if 0 < sint (rp_baseline_sessions r)
             then ''  same, unproxied   '' @ pct (cache_read_share (rp_baseline r)) @ ''   over '' @ num_of (rp_baseline_sessions r)
               @ '' sessions that did not go through headroom'' @ [NL]
             else []))
     @ (if 0 < sint (rp_drift_turns r)
        then ''  prefix rewrites   '' @ num_of (rp_drift_turns r) @ '' turns   '' @ counted (rp_drift_dims r) @ [NL]
          @ ''                    observed on the INBOUND body, so these are the'' @ [NL]
          @ ''                    client's own rewrites, not headroom's'' @ [NL]
        else ''  prefix rewrites   none observed'' @ [NL])"

text \<open>
  The window of the turns. \<open>fmt_time\<close> writes an instant as \<open>time.Format\<close> does (ledger stamps are in UTC). \<open>Sub\<close> saturates
  at the largest duration, and so does rounding; every other rounded duration is a whole number of minutes.
\<close>

definition max_duration :: int where "max_duration = 2 ^ 63 - 1"

definition round_minute :: "int \<Rightarrow> int" where
  "round_minute d =
     (let m = 60000000000; r = d mod m
      in if r + r < m then d - r else if d + m - r \<le> max_duration then d + m - r else max_duration)"

definition minutes_text :: "int \<Rightarrow> string" where
  "minutes_text d =
     (let mins = nat (d div 60000000000)
      in if d = max_duration then ''2562047h47m16.854775807s''
         else if mins = 0 then ''0s''
         else (if 60 \<le> mins then utoa (mins div 60) @ ''h'' else []) @ utoa (mins mod 60) @ ''m0s'')"

definition window_line :: "(int \<Rightarrow> string) \<Rightarrow> report \<Rightarrow> string" where
  "window_line fmt_time r =
     (if rp_since r = 0 then []
      else fmt_time (rp_since r) @ '' to '' @ fmt_time (rp_until r) @ ''  (''
        @ minutes_text (round_minute (min max_duration (rp_until r - rp_since r))) @ '')'')"

text \<open>The window is off by half a minute at most.\<close>

lemma round_minute_close:
  assumes "0 \<le> d" "d \<le> max_duration"
  shows "\<bar>round_minute d - d\<bar> \<le> 30000000000 \<and> round_minute d \<le> max_duration
    \<and> (round_minute d = max_duration \<or> 60000000000 dvd round_minute d)"
proof -
  have "0 \<le> d mod 60000000000" "d mod 60000000000 < 60000000000" by simp_all
  moreover have "60000000000 dvd d - d mod 60000000000" by (rule dvd_minus_mod)
  moreover from this have "60000000000 dvd d + 60000000000 - d mod 60000000000"
    by (metis add_diff_eq diff_add_eq dvd_add dvd_refl)
  ultimately show ?thesis using assms by (auto simp: round_minute_def Let_def)
qed

definition format_report :: "(int \<Rightarrow> string) \<Rightarrow> string \<Rightarrow> report \<Rightarrow> string" where
  "format_report fmt_time ledger_path r =
     ''headroom perf   '' @ ledger_path @ [NL]
     @ (if rp_turns r = 0
        then [NL] @ ''No turns recorded yet. Run an agent through `headroom wrap` and try again.'' @ [NL]
        else window_line fmt_time r @ [NL, NL] @ did_section r @ cache_section r
          @ [NL] @ ''VERDICT'' @ [NL] @ concat (map (\<lambda>line. ''  '' @ line @ [NL]) (verdict r)))"

section \<open>Properties\<close>

definition no_commas :: "string \<Rightarrow> string" where "no_commas s = filter (\<lambda>c. c \<noteq> CHR '','') s"

lemma group_parts_spec:
  "s \<noteq> [] \<Longrightarrow> concat (group_parts s parts) = s @ concat parts
    \<and> (\<exists>h t. group_parts s parts = h # t @ parts \<and> 0 < length h \<and> length h \<le> 3 \<and> (\<forall>p\<in>set t. length p = 3))"
proof (induction s parts rule: group_parts.induct)
  case (1 s parts)
  show ?case
  proof (cases "3 < length s")
    case True
    then have "take (length s - 3) s \<noteq> []" by auto
    from 1(1) [OF True this] obtain h t where
      "concat (group_parts (take (length s - 3) s) (drop (length s - 3) s # parts)) = s @ concat parts"
      "group_parts (take (length s - 3) s) (drop (length s - 3) s # parts) = h # t @ drop (length s - 3) s # parts"
      "0 < length h" "length h \<le> 3" "\<forall>p\<in>set t. length p = 3"
      by (auto simp flip: append_assoc)
    moreover have "length (drop (length s - 3) s) = 3" using True by simp
    ultimately show ?thesis
      using True by (subst group_parts.simps, subst group_parts.simps) (auto intro!: exI [of _ h] exI [of _ "t @ [drop (length s - 3) s]"])
  next
    case False
    then show ?thesis using 1(2) by (subst group_parts.simps, subst group_parts.simps) (auto simp: Suc_le_eq)
  qed
qed

lemma no_commas_join: "no_commas (join '','' ps) = concat (map no_commas ps)"
  by (induction ps rule: induct_list012) (simp_all add: no_commas_def)

lemma digits_no_commas: "list_all is_digit s \<Longrightarrow> no_commas s = s"
  by (induction s) (auto simp: no_commas_def is_digit_def)

lemma group_digits:
  assumes "group_parts (utoa n) [] = h # t" shows "no_commas (join '','' (h # t)) = utoa n"
proof -
  have "concat (h # t) = utoa n" using group_parts_spec [of "utoa n" "[]"] assms by simp
  moreover have "list_all is_digit (concat (h # t))" using utoa_digits [of n] calculation by simp
  moreover have "concat (map no_commas ps) = concat ps" if "list_all is_digit (concat ps)" for ps
    using that by (induction ps) (simp_all add: digits_no_commas)
  ultimately show ?thesis by (metis no_commas_join)
qed

lemma group_of_sign:
  "group_thousands n = (if n < 0 then ''-'' else []) @ join '','' (group_parts (utoa (nat \<bar>n\<bar>)) [])"
proof -
  have "\<not> has_prefix (utoa k) ''-''" for k using utoa_not_sign(1) [of k] by (cases "utoa k") simp_all
  then show ?thesis by (simp add: group_thousands_def itoa_def Let_def)
qed

text \<open>A printed number is the number: without its commas it is the decimal numeral, and the commas separate groups of
  three digits behind a group of one to three.\<close>

theorem grouped_number_exact:
  "no_commas (group_thousands n) = itoa n
   \<and> (\<exists>h t. group_thousands n = (if n < 0 then ''-'' else []) @ join '','' (h # t) \<and> 0 < length h \<and> length h \<le> 3
        \<and> (\<forall>p\<in>set t. length p = 3) \<and> list_all is_digit (concat (h # t)))"
proof -
  obtain h t where g: "group_parts (utoa (nat \<bar>n\<bar>)) [] = h # t" "0 < length h" "length h \<le> 3" "\<forall>p\<in>set t. length p = 3"
    and c: "concat (h # t) = utoa (nat \<bar>n\<bar>)"
    using group_parts_spec [of "utoa (nat \<bar>n\<bar>)" "[]"] by auto
  have d: "list_all is_digit (concat (h # t))" unfolding c by (rule utoa_digits)
  have e: "group_thousands n = (if n < 0 then ''-'' else []) @ join '','' (h # t)" by (simp only: group_of_sign g(1))
  have "no_commas (xs @ ys) = no_commas xs @ no_commas ys" for xs ys by (simp add: no_commas_def)
  then have "no_commas (group_thousands n) = (if n < 0 then ''-'' else []) @ utoa (nat \<bar>n\<bar>)"
    using group_digits [OF g(1)] by (simp add: e no_commas_def)
  then have "no_commas (group_thousands n) = itoa n" by (simp add: itoa_def)
  then show ?thesis using g e d by blast
qed

theorem grouped_number_exact_witness: "no_commas (group_thousands (- 1234567)) = itoa (- 1234567)"
  using grouped_number_exact [of "- 1234567"] by blast

end
