(* ===== verification/Transcript.thy ===== *)
theory Transcript
  imports PerfReport Drift
begin

text \<open>
  \<open>internal/perf/transcript.go\<close>: the usage records of the client's transcripts. A transcript is a stream of JSON
  values, each decoded into a struct that nests three others. The files below the root are given in the order in
  which \<open>filepath.WalkDir\<close> visits them.
\<close>

section \<open>Nested structs\<close>

text \<open>
  As \<open>read_members\<close>, but a member keeps the text of its value: a struct nested in a struct is decoded from it,
  so that a repeated key is visited twice at every level.
\<close>

fun span_members :: "nat \<Rightarrow> nat \<Rightarrow> string \<Rightarrow> ((string \<times> json \<times> string) list \<times> string) option" where
  "span_members 0 d s = None"
| "span_members (Suc n) d s =
     (case read_json_string (skip_ws s) of
        None \<Rightarrow> None
      | Some (key, r) \<Rightarrow>
          (case skip_ws r of
             [] \<Rightarrow> None
           | c # t \<Rightarrow>
               if c \<noteq> CHR '':'' then None
               else
                 (case parse_value n d t of
                    None \<Rightarrow> None
                  | Some (v, r2) \<Rightarrow>
                      (let m = (key, v, take (length t - length r2) t) in
                       case skip_ws r2 of
                         [] \<Rightarrow> None
                       | c2 # t2 \<Rightarrow>
                           if c2 = CHR '','' then map_option (\<lambda>(ms, q). (m # ms, q)) (span_members n d t2)
                           else if c2 = CHR ''}'' then Some ([m], t2) else None))))"

definition span_struct :: "string \<Rightarrow> ((string \<times> json \<times> string) list \<times> string) option" where
  "span_struct s =
     (case skip_ws s of
        [] \<Rightarrow> None
      | c # t \<Rightarrow>
          if c = CHR ''{'' then
            (if has_prefix (skip_ws t) ''}'' then Some ([], drop 1 (skip_ws t))
             else span_members (2 * length s + 2) (max_nesting - 1) t)
          else if has_prefix (c # t) ''null'' then Some ([], drop 3 t) else None)"

definition span_open :: "json \<times> string \<Rightarrow> (string \<times> json \<times> string) list option" where
  "span_open v = map_option fst (span_struct (snd v))"

text \<open>
  The setters are written for any representation of a value: \<open>js\<close> gives its JSON value and \<open>open_obj\<close> the members
  a struct decoder sees in it.
\<close>

type_synonym 'v opener = "'v \<Rightarrow> (string \<times> 'v) list option"

definition struct_field :: "'v opener \<Rightarrow> (string \<Rightarrow> 'v \<Rightarrow> 'r \<Rightarrow> 'r option) \<Rightarrow> 'v \<Rightarrow> 'r \<Rightarrow> 'r option" where
  "struct_field open_obj set_field v r = (case open_obj v of None \<Rightarrow> None | Some ms \<Rightarrow> decode_fields set_field ms r)"

definition set_creation_field :: "('v \<Rightarrow> json) \<Rightarrow> string \<Rightarrow> 'v \<Rightarrow> usage \<Rightarrow> usage option" where
  "set_creation_field js key v u =
     (if key = ''ephemeral_5m_input_tokens'' then int_field (js v) (\<lambda>n. u\<lparr>us_5m := of_int n\<rparr>) u
      else if key = ''ephemeral_1h_input_tokens'' then int_field (js v) (\<lambda>n. u\<lparr>us_1h := of_int n\<rparr>) u
      else Some u)"

definition set_usage_field :: "('v \<Rightarrow> json) \<Rightarrow> 'v opener \<Rightarrow> string \<Rightarrow> 'v \<Rightarrow> usage \<Rightarrow> usage option" where
  "set_usage_field js open_obj key v u =
     (if key = ''input_tokens'' then int_field (js v) (\<lambda>n. u\<lparr>us_input := of_int n\<rparr>) u
      else if key = ''cache_creation_input_tokens'' then int_field (js v) (\<lambda>n. u\<lparr>us_creation := of_int n\<rparr>) u
      else if key = ''cache_read_input_tokens'' then int_field (js v) (\<lambda>n. u\<lparr>us_read := of_int n\<rparr>) u
      else if key = ''output_tokens'' then int_field (js v) (\<lambda>n. u\<lparr>us_output := of_int n\<rparr>) u
      else if key = ''cache_creation'' then struct_field open_obj (set_creation_field js) v u
      else Some u)"

section \<open>Lines\<close>

record transcript_line =
  tl_type :: string
  tl_usage :: "usage option"

text \<open>\<open>usage\<close> is a pointer: \<open>null\<close> clears it, and an object is decoded into what it points to already.\<close>

definition set_message_field :: "('v \<Rightarrow> json) \<Rightarrow> 'v opener \<Rightarrow> string \<Rightarrow> 'v \<Rightarrow> transcript_line \<Rightarrow> transcript_line option" where
  "set_message_field js open_obj key v l =
     (if key = ''usage'' then
        (if js v = JNull then Some (l\<lparr>tl_usage := None\<rparr>)
         else map_option (\<lambda>u. l\<lparr>tl_usage := Some u\<rparr>)
                (struct_field open_obj (set_usage_field js open_obj) v
                   (case tl_usage l of None \<Rightarrow> zero_usage | Some u \<Rightarrow> u)))
      else Some l)"

definition set_line_field :: "('v \<Rightarrow> json) \<Rightarrow> 'v opener \<Rightarrow> string \<Rightarrow> 'v \<Rightarrow> transcript_line \<Rightarrow> transcript_line option" where
  "set_line_field js open_obj key v l =
     (if key = ''type'' then string_field (js v) (\<lambda>s. l\<lparr>tl_type := s\<rparr>) l
      else if key = ''message'' then struct_field open_obj (set_message_field js open_obj) v l
      else Some l)"

definition decode_line :: "('v \<Rightarrow> json) \<Rightarrow> 'v opener \<Rightarrow> (string \<times> 'v) list \<Rightarrow> transcript_line option" where
  "decode_line js open_obj ms = decode_fields (set_line_field js open_obj) ms \<lparr>tl_type = [], tl_usage = None\<rparr>"

section \<open>What a value consumes\<close>

lemma span_members_shorter: "span_members n d s = Some (ms, r) \<Longrightarrow> length r < length s"
proof (induction n d s arbitrary: ms r rule: span_members.induct)
  case (2 n d s)
  obtain key r1 where k: "read_json_string (skip_ws s) = Some (key, r1)" using 2(2) by (auto split: option.splits)
  obtain t where t: "skip_ws r1 = CHR '':'' # t" using 2(2) by (auto simp: k split: list.splits if_splits)
  obtain v r2 where v: "parse_value n d t = Some (v, r2)" using 2(2) by (auto simp: k t split: option.splits)
  obtain c2 t2 where c2: "skip_ws r2 = c2 # t2" using 2(2) by (auto simp: k t v Let_def split: list.splits)
  have "length t2 < length r2" "length t < length r1" using skip_ws_Cons_length c2 t by blast+
  moreover have "length r2 < length t" using parse_sound(1) [OF v] by simp
  moreover have "length r1 < length s"
    using read_json_string_sound [OF k] skip_ws_length [of s] by linarith
  ultimately have t2: "length t2 < length s" by linarith
  show ?case
  proof (cases "c2 = CHR '',''")
    case True
    then obtain ms' where "span_members n d t2 = Some (ms', r)" using 2(2) by (auto simp: k t v c2 Let_def)
    then show ?thesis using 2(1) [OF k _ t _ v] c2 True t2 by fastforce
  next
    case False
    then show ?thesis using 2(2) t2 by (auto simp: k t v c2 Let_def split: if_splits)
  qed
qed simp

lemma span_struct_shorter: "span_struct s = Some (ms, r) \<Longrightarrow> length r < length s"
proof -
  assume a: "span_struct s = Some (ms, r)"
  then obtain c t where s: "skip_ws s = c # t" by (auto simp: span_struct_def split: list.splits)
  have "length t < length s" using skip_ws_Cons_length [OF s] .
  then show ?thesis
    using a skip_ws_length [of t] span_members_shorter [of "2 * length s + 2" "max_nesting - 1" t ms r]
    by (auto simp: span_struct_def s simp del: span_members.simps split: if_splits)
qed

section \<open>Sessions\<close>

text \<open>The loop of \<open>loadSession\<close> ends at the first value that cannot be read or decoded.\<close>

function load_turns :: "string \<Rightarrow> usage list" where
  "load_turns s =
     (case span_struct s of
        None \<Rightarrow> []
      | Some (ms, r) \<Rightarrow>
          (case decode_line fst span_open ms of
             None \<Rightarrow> []
           | Some l \<Rightarrow> (case tl_usage l of None \<Rightarrow> [] | Some u \<Rightarrow> [u]) @ load_turns r))"
  by pat_completeness auto
termination by (relation "measure length") (auto dest: span_struct_shorter)

declare load_turns.simps [simp del]

text \<open>\<open>filepath.Base\<close>.\<close>

definition path_base :: "string \<Rightarrow> string" where
  "path_base p =
     (if p = [] then ''.''
      else let b = rev (takeWhile (\<lambda>c. c \<noteq> CHR ''/'') (dropWhile (\<lambda>c. c = CHR ''/'') (rev p))) in if b = [] then ''/'' else b)"

text \<open>\<open>None\<close> is a file that cannot be opened.\<close>

definition load_session :: "(string \<Rightarrow> string) \<Rightarrow> string \<Rightarrow> string option \<Rightarrow> session option" where
  "load_session sha path content =
     (case content of
        None \<Rightarrow> None
      | Some b \<Rightarrow>
          (let id = trim_suffix (path_base path) ''.jsonl'';
               s = \<lparr>sn_id = id, sn_digest = claude_session_digest sha id, sn_turns = load_turns b\<rparr>
           in if sn_turns s = [] then None else Some s))"

datatype visit = VisitError string | VisitDir string | VisitFile string "string option"

definition visit_session :: "(string \<Rightarrow> string) \<Rightarrow> visit \<Rightarrow> session option" where
  "visit_session sha v =
     (case v of
        VisitFile path content \<Rightarrow> if has_suffix path ''.jsonl'' then load_session sha path content else None
      | _ \<Rightarrow> None)"

text \<open>The callback never returns an error, so the walk reaches every file.\<close>

definition load_sessions :: "(string \<Rightarrow> string) \<Rightarrow> visit list \<Rightarrow> session list" where
  "load_sessions sha visits = List.map_filter (visit_session sha) visits"

section \<open>Reading what was written\<close>

text \<open>The members a struct decoder sees in a document, and the turns of a list of documents.\<close>

definition tree_open :: "json opener" where
  "tree_open v = (case v of JObj ms \<Rightarrow> Some ms | JNull \<Rightarrow> Some [] | _ \<Rightarrow> None)"

fun turns_of :: "json list \<Rightarrow> usage list" where
  "turns_of [] = []"
| "turns_of (v # vs) =
     (case tree_open v of
        None \<Rightarrow> []
      | Some ms \<Rightarrow>
          (case decode_line id tree_open ms of
             None \<Rightarrow> []
           | Some l \<Rightarrow> (case tl_usage l of None \<Rightarrow> [] | Some u \<Rightarrow> [u]) @ turns_of vs))"

definition transcript_text :: "json list \<Rightarrow> string" where
  "transcript_text vs = concat (map (\<lambda>v. encode_json v @ [NL]) vs)"

definition spelled :: "json \<Rightarrow> json \<times> string" where "spelled v = (v, encode_json v)"

abbreviation spelled_members :: "(string \<times> json) list \<Rightarrow> (string \<times> json \<times> string) list" where
  "spelled_members \<equiv> map (\<lambda>(k, v). (k, spelled v))"

lemma span_members_encode:
  assumes "ms \<noteq> []" and "\<forall>(k, v)\<in>set ms. valid_utf8 k \<and> json_ok v \<and> depth v \<le> d" and "(\<Sum>m\<leftarrow>ms. Suc (fuel (snd m))) \<le> n"
  shows "span_members n d (join '','' (map (\<lambda>(k, v). encode_json_string k @ '':'' @ encode_json v) ms) @ CHR ''}'' # r)
    = Some (spelled_members ms, r)"
  using assms
proof (induction ms arbitrary: n)
  case (Cons m ms)
  obtain k v where m: "m = (k, v)" by force
  obtain j where n: "n = Suc j" using Cons.prems(3) by (cases n) auto
  have key: "read_json_string (skip_ws (encode_json_string k @ q)) = Some (k, q)" for q
    using Cons.prems(2) read_encoded [of k q] by (simp add: m encode_json_string_def)
  have val: "parse_value j d (encode_json v @ q) = Some (v, q)" if "ends_value q" for q
    using Cons.prems that by (intro parse_encode) (auto simp: n m)
  show ?case
  proof (cases ms)
    case Nil
    then show ?thesis using key val by (simp add: n m spelled_def)
  next
    case (Cons m' ms')
    let ?rest = "join '','' (map (\<lambda>(k, v). encode_json_string k @ '':'' @ encode_json v) ms) @ CHR ''}'' # r"
    have "span_members j d ?rest = Some (spelled_members ms, r)"
      using Cons.prems \<open>ms = m' # ms'\<close> by (intro Cons.IH) (auto simp: n)
    moreover have "join '','' (map (\<lambda>(k, v). encode_json_string k @ '':'' @ encode_json v) (m # ms)) @ CHR ''}'' # r
        = encode_json_string k @ CHR '':'' # encode_json v @ CHR '','' # ?rest"
      using Cons by (simp add: m)
    ultimately show ?thesis using key val by (simp add: n m spelled_def)
  qed
qed simp

lemma member_depth: "(k, m) \<in> set ms \<Longrightarrow> depth (JObj ms) \<le> d \<Longrightarrow> depth m \<le> d - 1"
proof -
  assume m: "(k, m) \<in> set ms" "depth (JObj ms) \<le> d"
  then have "depth m \<in> insert 0 (set (map (\<lambda>(k, v). depth v) ms))" by force
  then have "depth m \<le> Max (insert 0 (set (map (\<lambda>(k, v). depth v) ms)))" by (intro Max_ge) auto
  then show ?thesis using m(2) by simp
qed

lemma span_struct_encode:
  assumes v: "json_ok v" "depth v \<le> max_nesting" and s: "skip_ws s = encode_json v @ r"
  shows "span_struct s = map_option (\<lambda>ms. (spelled_members ms, r)) (tree_open v)"
proof (cases v)
  case (JObj ms)
  let ?text = "join '','' (map (\<lambda>(k, v). encode_json_string k @ '':'' @ encode_json v) ms) @ CHR ''}'' # r"
  show ?thesis
  proof (cases "ms = []")
    case True
    then show ?thesis by (simp add: JObj span_struct_def s tree_open_def)
  next
    case False
    then obtain t where t: "?text = CHR 0x22 # t"
      by (cases ms; cases "tl ms") (auto simp: encode_json_string_def split: prod.splits)
    have "fuel (JObj ms) \<le> 2 * length (encode_json (JObj ms))" using v(1) by (intro fuel_bound) (simp add: JObj)
    moreover have "length (encode_json v) \<le> length s" using skip_ws_length [of s] by (simp add: s)
    ultimately have "span_members (2 * length s + 2) (max_nesting - 1) ?text = Some (spelled_members ms, r)"
      using v False member_depth [of _ _ ms max_nesting] by (intro span_members_encode) (auto simp: JObj)
    then show ?thesis using t by (simp add: JObj span_struct_def s tree_open_def del: span_members.simps)
  qed
next
  case (JNum m)
  then obtain c t where c: "m = c # t" "c = CHR ''-'' \<or> is_digit c"
    using v(1) number_head [of m m] by (auto simp: number_ok_def)
  then have "\<not> is_json_space c" "c \<noteq> CHR ''{''" "c \<noteq> CHR ''n''" using digit_not_space by (auto simp: is_digit_def)
  then show ?thesis by (simp add: JNum c(1) span_struct_def s tree_open_def)
qed (simp_all add: span_struct_def s tree_open_def encode_json_string_def)

lemma span_open_spelled:
  "json_ok v \<Longrightarrow> depth v \<le> max_nesting \<Longrightarrow> span_open (spelled v) = map_option spelled_members (tree_open v)"
  using span_struct_encode [of v "encode_json v" "[]"] skip_ws_encode [of v "[]"]
  by (simp add: span_open_def spelled_def option.map_comp comp_def)

text \<open>Decoding the spelled members is decoding the members, at every level.\<close>

definition readable :: "json \<Rightarrow> bool" where "readable v \<longleftrightarrow> json_ok v \<and> depth v \<le> max_nesting"

lemma readable_members: "readable v \<Longrightarrow> tree_open v = Some ms \<Longrightarrow> (k, m) \<in> set ms \<Longrightarrow> readable m"
  using member_depth [of k m ms max_nesting] by (cases v) (auto simp: readable_def tree_open_def)

lemma decode_spelled:
  assumes "\<And>k v r. v \<in> snd ` set ms \<Longrightarrow> f k (spelled v) r = g k v r"
  shows "decode_fields f (spelled_members ms) r = decode_fields g ms r"
  using assms by (induction ms arbitrary: r) (auto split: option.splits)

lemma struct_field_spelled:
  assumes "readable v" and "\<And>k m r. readable m \<Longrightarrow> f k (spelled m) r = g k m r"
  shows "struct_field span_open f (spelled v) r = struct_field tree_open g v r"
proof (cases "tree_open v")
  case None
  then show ?thesis using assms(1) span_open_spelled by (simp add: struct_field_def readable_def)
next
  case (Some ms)
  have "decode_fields f (spelled_members ms) r = decode_fields g ms r"
    using readable_members [OF assms(1) Some] by (intro decode_spelled assms(2)) auto
  then show ?thesis using assms(1) span_open_spelled Some by (simp add: struct_field_def readable_def)
qed

lemma fst_spelled [simp]: "fst (spelled v) = v"
  by (simp add: spelled_def)

lemma decode_line_spelled:
  assumes "readable v" "tree_open v = Some ms"
  shows "decode_line fst span_open (spelled_members ms) = decode_line id tree_open ms"
proof -
  have creation: "set_creation_field fst k (spelled m) u = set_creation_field id k m u" for k m u
    by (simp add: set_creation_field_def)
  have usage: "set_usage_field fst span_open k (spelled m) u = set_usage_field id tree_open k m u" if "readable m" for k m u
    using struct_field_spelled [OF that, of "set_creation_field fst" "set_creation_field id"] creation by (simp add: set_usage_field_def)
  have message: "set_message_field fst span_open k (spelled m) l = set_message_field id tree_open k m l" if "readable m" for k m l
    using struct_field_spelled [OF that, of "set_usage_field fst span_open" "set_usage_field id tree_open"] usage by (simp add: set_message_field_def)
  have "set_line_field fst span_open k (spelled m) l = set_line_field id tree_open k m l" if "readable m" for k m l
    using struct_field_spelled [OF that, of "set_message_field fst span_open" "set_message_field id tree_open"] message by (simp add: set_line_field_def)
  then show ?thesis
    unfolding decode_line_def using readable_members [OF assms] by (intro decode_spelled) auto
qed

lemma skip_transcript: "list_all readable docs \<Longrightarrow> skip_ws (transcript_text docs) = transcript_text docs"
proof (cases docs)
  case Nil
  then show ?thesis by (simp add: transcript_text_def skip_ws_def)
qed (simp add: transcript_text_def skip_ws_encode readable_def)

lemma load_turns_docs:
  "list_all readable docs \<Longrightarrow> skip_ws s = transcript_text docs \<Longrightarrow> load_turns s = turns_of docs"
proof (induction docs arbitrary: s)
  case Nil
  then show ?case by (simp add: load_turns.simps [of s] span_struct_def transcript_text_def)
next
  case (Cons v docs)
  have v: "readable v" and ok: "json_ok v" "depth v \<le> max_nesting" and docs: "list_all readable docs"
    using Cons.prems(1) by simp_all (simp_all add: readable_def)
  have "skip_ws s = encode_json v @ NL # transcript_text docs" using Cons.prems(2) by (simp add: transcript_text_def)
  then have raw: "span_struct s = map_option (\<lambda>ms. (spelled_members ms, NL # transcript_text docs)) (tree_open v)"
    using span_struct_encode [OF ok] by blast
  have "skip_ws (NL # transcript_text docs) = transcript_text docs"
    using skip_transcript [OF docs] by (simp add: skip_ws_def is_json_space_def)
  then have "load_turns (NL # transcript_text docs) = turns_of docs" using Cons.IH docs by blast
  then show ?case
    by (simp add: load_turns.simps [of s] raw decode_line_spelled [OF v] split: option.splits)
qed

lemma transcript_text_turns: "list_all readable docs \<Longrightarrow> load_turns (transcript_text docs) = turns_of docs"
  using load_turns_docs skip_transcript by blast

lemma path_base_file: "CHR ''/'' \<notin> set f \<Longrightarrow> f \<noteq> [] \<Longrightarrow> path_base (dir @ CHR ''/'' # f) = f"
proof -
  assume f: "CHR ''/'' \<notin> set f" "f \<noteq> []"
  then have "dropWhile (\<lambda>c. c = CHR ''/'') (rev f @ CHR ''/'' # rev dir) = rev f @ CHR ''/'' # rev dir"
    by (cases "rev f") auto
  moreover have "takeWhile (\<lambda>c. c \<noteq> CHR ''/'') (rev f @ CHR ''/'' # rev dir) = rev f"
    using f by (simp add: takeWhile_append)
  ultimately show ?thesis using f by (simp add: path_base_def Let_def)
qed

section \<open>Properties\<close>

text \<open>Reading a transcript is decoding its documents. The reader of the client's transcripts, which works on the bytes
  and decodes nested structs with repeated keys, returns for a file of one document per line exactly the usage records of
  the documents, in order, up to the first document that does not fit the struct.\<close>

theorem transcript_read_exactly:
  assumes "list_all readable docs"
  shows "load_turns (transcript_text docs) = turns_of docs"
  using assms by (rule transcript_text_turns)

text \<open>A turn of an assistant, a line without a usage record, and a line that does not fit.\<close>

definition sample_documents :: "json list" where
  "sample_documents =
     [JObj [(''type'', JStr ''user'')],
      JObj [(''type'', JStr ''assistant''),
        (''message'', JObj [(''usage'', JObj [(''input_tokens'', JNum ''3''), (''cache_creation'', JObj [(''ephemeral_1h_input_tokens'', JNum ''7'')])])])]]"

lemma sample_readable: "list_all readable sample_documents"
proof -
  have "number_ok ''3''" "number_ok ''7''" by code_simp+
  moreover have "valid_utf8 s" if "list_all (\<lambda>c. ord c < 128) s" for s
    using that by (induction s) (simp_all add: valid_ascii del: valid_utf8.simps(2))
  ultimately show ?thesis
    by (simp add: sample_documents_def readable_def max_nesting_def del: valid_utf8.simps)
qed

theorem transcript_read_exactly_witness:
  "list_all readable sample_documents \<and> load_turns (transcript_text sample_documents) = [zero_usage\<lparr>us_input := 3, us_1h := 7\<rparr>]"
proof -
  have "turns_of sample_documents = [zero_usage\<lparr>us_input := 3, us_1h := 7\<rparr>]" by code_simp
  then show ?thesis using transcript_read_exactly [OF sample_readable] sample_readable by simp
qed

text \<open>A document whose message is a text ends the reading: the turns after it are not counted.\<close>

lemma turns_lost: "turns_of (JObj [(''message'', JStr m)] # docs) = []"
proof -
  have "fold_name ''message'' = ''message''" by code_simp
  then show ?thesis
    by (simp add: tree_open_def decode_line_def set_line_field_def struct_field_def del: fold_name.simps)
qed

text \<open>C39. A proxied session is counted as one. When a client declares its session to the proxy by its Claude Code header
  and the proxy writes a ledger line for one of its requests, the transcript file named after that session is loaded with
  its turns and the digest of that line, and any report over a ledger with that line adds its usage to the side of headroom.\<close>

theorem proxied_session_joins:
  assumes "VisitFile (dir @ CHR ''/'' # sid @ ''.jsonl'') (Some (transcript_text docs)) \<in> set visits"
    and "CHR ''/'' \<notin> set sid" "sid \<noteq> []" and "list_all readable docs" "turns_of docs \<noteq> []"
    and "header_get h ''X-Headroom-Session-Id'' = []" "header_get h ''X-Claude-Code-Session-Id'' = sid"
    and "e \<in> set entries" "le_session e = short_digest sha (session_key G sha num h addr body)"
  shows "let s = \<lparr>sn_id = sid, sn_digest = le_session e, sn_turns = turns_of docs\<rparr>
    in s \<in> set (load_sessions sha visits)
     \<and> build_report parse_time entries [s] =
         (build_report parse_time entries [])\<lparr>rp_matched_sessions := 1, rp_headroom := foldl add_usage zero_usage (turns_of docs)\<rparr>"
proof -
  let ?s = "\<lparr>sn_id = sid, sn_digest = le_session e, sn_turns = turns_of docs\<rparr>"
  let ?path = "dir @ CHR ''/'' # sid @ ''.jsonl''"
  have digest: "le_session e = claude_session_digest sha sid"
    using assms(3,6,7,9) by (simp add: session_key_def declared_session_key_def claude_session_digest_def)
  have "has_suffix ?path ''.jsonl''" using has_suffix_append [of "dir @ CHR ''/'' # sid" "''.jsonl''"] by simp
  moreover have "trim_suffix (path_base ?path) ''.jsonl'' = sid"
    using path_base_file [of "sid @ ''.jsonl''" dir] assms(2) by (simp add: trim_suffix_def)
  ultimately have "visit_session sha (VisitFile ?path (Some (transcript_text docs))) = Some ?s"
    using assms(5) transcript_text_turns [OF assms(4)] digest by (simp add: visit_session_def load_session_def Let_def)
  then have loaded: "?s \<in> set (load_sessions sha visits)"
    using assms(1) by (force simp: load_sessions_def List.map_filter_def)
  obtain r seen where f: "fold (add_turn parse_time) entries (empty_report, {}) = (r, seen)" by force
  have "seen = le_session ` set entries" "rp_matched_sessions r = 0" "rp_headroom r = zero_usage"
    using turns_total [OF f] by (simp_all add: empty_report_def)
  then have "build_report parse_time entries [?s] =
      (build_report parse_time entries [])\<lparr>rp_matched_sessions := 1, rp_headroom := foldl add_usage zero_usage (turns_of docs)\<rparr>"
    using assms(8) usages.left_neutral by (simp add: build_report_def f join_session_def session_total_def Let_def)
  then show ?thesis using loaded by (simp add: Let_def)
qed

theorem proxied_session_joins_witness:
  "\<forall>G num. let h = [''X-Claude-Code-Session-Id'' \<mapsto> [''ab'']]; e = zero_entry\<lparr>le_session := short_digest id (session_key G id num h [] [])\<rparr>;
       visits = [VisitDir ''/p'', VisitFile ''/p/ab.jsonl'' (Some (transcript_text sample_documents))]
     in map sn_id (load_sessions id visits) = [''ab''] \<and> us_input (rp_headroom (build_report (\<lambda>_. None) [e] (load_sessions id visits))) = 3"
proof (intro allI)
  fix G num
  let ?h = "[''X-Claude-Code-Session-Id'' \<mapsto> [''ab'']] :: http_header"
  let ?e = "zero_entry\<lparr>le_session := short_digest id (session_key G id num ?h [] [])\<rparr>"
  let ?visits = "[VisitDir ''/p'', VisitFile ''/p/ab.jsonl'' (Some (transcript_text sample_documents))]"
  have turns: "turns_of sample_documents = [zero_usage\<lparr>us_input := 3, us_1h := 7\<rparr>]" by code_simp
  let ?s = "\<lparr>sn_id = ''ab'', sn_digest = le_session ?e, sn_turns = turns_of sample_documents\<rparr>"
  have j: "?s \<in> set (load_sessions id ?visits)
    \<and> build_report (\<lambda>_. None) [?e] [?s]
      = (build_report (\<lambda>_. None) [?e] [])\<lparr>rp_matched_sessions := 1, rp_headroom := foldl add_usage zero_usage (turns_of sample_documents)\<rparr>"
    by (rule proxied_session_joins [of "''/p''" "''ab''" sample_documents ?visits ?h ?e "[?e]" id G num "[]" "[]", unfolded Let_def])
      (use sample_readable turns in \<open>simp_all add: header_get_def\<close>)
  have "length (load_sessions id ?visits) \<le> 1" by (simp add: load_sessions_def List.map_filter_def visit_session_def)
  then have "load_sessions id ?visits = [?s]" using j by (cases "load_sessions id ?visits") auto
  then show "let h = [''X-Claude-Code-Session-Id'' \<mapsto> [''ab'']]; e = zero_entry\<lparr>le_session := short_digest id (session_key G id num h [] [])\<rparr>;
       visits = [VisitDir ''/p'', VisitFile ''/p/ab.jsonl'' (Some (transcript_text sample_documents))]
     in map sn_id (load_sessions id visits) = [''ab''] \<and> us_input (rp_headroom (build_report (\<lambda>_. None) [e] (load_sessions id visits))) = 3"
    using j turns by (simp add: Let_def add_usage_def zero_usage_def)
qed

end
