(* ===== verification/Wrap.thy ===== *)
theory Wrap
  imports ProxyProps PerfFormat Transcript
begin

text \<open>
  \<open>cmd/headroom\<close>: the commands that put the parts together. \<open>server.go\<close> and \<open>mcp.go\<close> open the store a configuration
  names, \<open>proxy.go\<close> runs the proxy, and \<open>wrap.go\<close> launches an agent behind one. The flag parser is a library: what
  it sets is an argument here. What the commands ask the host is a record.
\<close>

section \<open>Opening a server\<close>

record command_host =
  ch_env :: host_env
  ch_lower :: "nat \<Rightarrow> nat"
  ch_ensure_dir :: "string \<Rightarrow> bool"
  ch_open :: "backend_choice \<Rightarrow> bool"
  ch_get :: "string \<Rightarrow> (int \<times> string) option"
  ch_healthy :: bool
  ch_self :: "string + string"
  ch_look_path :: "string \<Rightarrow> string option"

datatype command_error = SettingsError settings_error | CreateDirectory string | NoBackend config_error | OpenStore backend_choice

text \<open>The store of a configuration: its directory first, then the back end.\<close>

definition open_ccr :: "command_host \<Rightarrow> settings \<Rightarrow> command_error + backend_choice" where
  "open_ccr C cfg =
     (if se_ccr_path cfg \<noteq> [] \<and> \<not> ch_ensure_dir C (se_ccr_path cfg) then Inl (CreateDirectory (se_ccr_path cfg))
      else (case from_config True True (backend_config_of cfg) of
              Inl e \<Rightarrow> Inl (NoBackend e)
            | Inr choice \<Rightarrow> if ch_open C choice then Inr choice else Inl (OpenStore choice)))"

text \<open>\<open>mcp serve\<close>: the configuration it runs with and the store it opened.\<close>

definition serve_mcp :: "command_host \<Rightarrow> overrides \<Rightarrow> command_error + (settings \<times> backend_choice)" where
  "serve_mcp C ov =
     (case load_settings (ch_env C) ov of
        Inl e \<Rightarrow> Inl (SettingsError e)
      | Inr cfg \<Rightarrow> (case open_ccr C cfg of Inl e \<Rightarrow> Inl e | Inr choice \<Rightarrow> Inr (cfg, choice)))"

definition new_proxy_server :: "command_host \<Rightarrow> proxy_settings \<Rightarrow> settings \<Rightarrow> command_error + (proxy_settings \<times> settings \<times> backend_choice)" where
  "new_proxy_server C pcfg cfg = (case open_ccr C cfg of Inl e \<Rightarrow> Inl e | Inr choice \<Rightarrow> Inr (pcfg, cfg, choice))"

text \<open>\<open>headroom proxy\<close>; a dry run stops after the configuration.\<close>

definition proxy_command ::
  "command_host \<Rightarrow> proxy_overrides \<Rightarrow> overrides \<Rightarrow> bool \<Rightarrow> command_error + (proxy_settings \<times> settings \<times> backend_choice) option" where
  "proxy_command C pov ov dry_run =
     (case load_proxy_settings (ch_lower C) (ch_env C) pov of
        Inl e \<Rightarrow> Inl (SettingsError e)
      | Inr pcfg \<Rightarrow>
          (case load_settings (ch_env C) ov of
             Inl e \<Rightarrow> Inl (SettingsError e)
           | Inr cfg \<Rightarrow>
               if dry_run then Inr None
               else (case new_proxy_server C pcfg cfg of Inl e \<Rightarrow> Inl e | Inr srv \<Rightarrow> Inr (Some srv))))"

text \<open>The ledger of a proxy: without one it runs unrecorded.\<close>

definition ledger_default_path :: "host_env \<Rightarrow> string option" where
  "ledger_default_path H = map_option (\<lambda>h. he_join H h ''ledger.jsonl'') (headroom_home H)"

definition open_ledger :: "command_host \<Rightarrow> string option" where
  "open_ledger C =
     (case ledger_default_path (ch_env C) of None \<Rightarrow> None | Some path \<Rightarrow> if ch_ensure_dir C path then Some path else None)"

definition default_transcript_root :: "host_env \<Rightarrow> string option" where
  "default_transcript_root H = map_option (\<lambda>h. he_join H (he_join H h ''.claude'') ''projects'') (he_user_home H)"

text \<open>
  \<open>headroom perf\<close>, as text. \<open>read_file\<close> gives the content of the ledger file, \<open>walk\<close> what lies below a directory; \<open>fmt_time\<close>
  writes an instant. An empty argument is a flag that is not given. Reading the transcripts
  returns no error, so its error branch is not taken.
\<close>

datatype perf_error = NoLedgerPath | NoTranscriptRoot | UnreadableLedger

definition perf_command ::
  "command_host \<Rightarrow> (string \<Rightarrow> string option + unit) \<Rightarrow> (string \<Rightarrow> string) \<Rightarrow> (string \<Rightarrow> visit list) \<Rightarrow> (string \<Rightarrow> int option) \<Rightarrow> int
     \<Rightarrow> (int \<Rightarrow> string) \<Rightarrow> string \<Rightarrow> string \<Rightarrow> int \<Rightarrow> perf_error + string" where
  "perf_command C read_file sha walk parse_time now fmt_time ledger_flag transcripts_flag since =
     (case (if ledger_flag = [] then ledger_default_path (ch_env C) else Some ledger_flag) of
        None \<Rightarrow> Inl NoLedgerPath
      | Some path \<Rightarrow>
          (case (if transcripts_flag = []
                 then default_transcript_root (ch_env C)
                 else Some transcripts_flag) of
             None \<Rightarrow> Inl NoTranscriptRoot
           | Some dir \<Rightarrow>
               (case read_file path of
                  Inr _ \<Rightarrow> Inl UnreadableLedger
                | Inl file \<Rightarrow>
                    (let entries = read_ledger file;
                         kept = (if 0 < since then since_cutoff parse_time (now - since) entries else entries);
                         r = build_report parse_time kept (load_sessions sha (walk dir))
                     in Inr (format_report fmt_time path r)))))"

section \<open>Agents\<close>

record agent_spec =
  as_binary :: string
  as_env_var :: string
  as_url_path :: string
  as_upstream :: string
  as_mcp_flag :: string

definition agents :: "(string \<times> agent_spec) list" where
  "agents =
     [(''claude'', \<lparr>as_binary = ''claude'', as_env_var = ''ANTHROPIC_BASE_URL'', as_url_path = [],
        as_upstream = ''https://api.anthropic.com'', as_mcp_flag = ''--mcp-config''\<rparr>),
      (''codex'', \<lparr>as_binary = ''codex'', as_env_var = ''OPENAI_BASE_URL'', as_url_path = ''/v1'',
        as_upstream = ''https://api.openai.com'', as_mcp_flag = []\<rparr>)]"

definition agent_spec_for :: "(nat \<Rightarrow> nat) \<Rightarrow> string \<Rightarrow> agent_spec option" where
  "agent_spec_for lower name = map_of agents (to_lower lower (trim_space name))"

definition is_truthy :: "(nat \<Rightarrow> nat) \<Rightarrow> string \<Rightarrow> bool" where
  "is_truthy lower s \<longleftrightarrow> to_lower lower (trim_space s) \<in> set [''1'', ''true'', ''yes'', ''on'']"

definition agent_base_url :: "agent_spec \<Rightarrow> string \<Rightarrow> string" where
  "agent_base_url spec base = trim_slashes base @ as_url_path spec"

section \<open>Health\<close>

definition decode_health :: "string \<Rightarrow> health option" where
  "decode_health body =
     (case decode_struct body of
        None \<Rightarrow> None
      | Some ms \<Rightarrow>
          decode_fields (\<lambda>key v h.
            if key = ''status'' then string_field v (\<lambda>s. h\<lparr>hl_status := s\<rparr>) h
            else if key = ''version'' then string_field v (\<lambda>s. h\<lparr>hl_version := s\<rparr>) h
            else if key = ''replay'' then bool_field v (\<lambda>b. h\<lparr>hl_replay := b\<rparr>) h
            else if key = ''ccr_path'' then string_field v (\<lambda>s. h\<lparr>hl_ccr_path := s\<rparr>) h
            else Some h) ms \<lparr>hl_status = [], hl_version = [], hl_replay = False, hl_ccr_path = []\<rparr>)"

definition probe_proxy :: "command_host \<Rightarrow> string \<Rightarrow> health option" where
  "probe_proxy C base =
     (case ch_get C (trim_slashes base @ ''/healthz'') of
        None \<Rightarrow> None
      | Some (status, body) \<Rightarrow> if status \<noteq> 200 then None else decode_health body)"

definition proxy_healthy :: "command_host \<Rightarrow> string \<Rightarrow> bool" where
  "proxy_healthy C base \<longleftrightarrow> probe_proxy C base \<noteq> None"

section \<open>Wrapping an agent\<close>

text \<open>The proxy listens exactly where the agent is pointed.\<close>

definition proxy_config_for :: "command_host \<Rightarrow> agent_spec \<Rightarrow> string \<Rightarrow> string \<Rightarrow> settings_error + proxy_settings" where
  "proxy_config_for C spec base upstream =
     (case he_parse_url (ch_env C) base of
        None \<Rightarrow> Inl (NoHost base)
      | Some (scheme, host) \<Rightarrow>
          if host = [] then Inl (NoHost base)
          else
            (let up = (if upstream = [] \<and> he_getenv (ch_env C) ''HEADROOM_PROXY_UPSTREAM'' = [] then as_upstream spec else upstream)
             in load_proxy_settings (ch_lower C) (ch_env C) \<lparr>po_upstream = up, po_listen = host\<rparr>))"

text \<open>The inline MCP definition; the encoder writes the keys of a Go map in byte order.\<close>

definition mcp_document :: "string \<Rightarrow> string \<Rightarrow> string \<Rightarrow> json" where
  "mcp_document self store_path proxy_url =
     JObj [(''mcpServers'', JObj [(''headroom'', JObj
       [(''args'', strings_json [''mcp'', ''serve'', ''--ccr-path'', store_path, ''--proxy-url'', proxy_url]),
        (''command'', JStr self)])])]"

text \<open>The flags, or why there are none.\<close>

definition mcp_flags :: "command_host \<Rightarrow> agent_spec \<Rightarrow> string \<Rightarrow> string \<Rightarrow> string + string list" where
  "mcp_flags C spec store_path proxy_url =
     (if as_mcp_flag spec = [] then Inl (as_binary spec @ '' takes no inline MCP configuration flag'')
      else if store_path = [] then Inl (''the CCR store is in memory, so the proxy and the MCP server cannot share it '' @
        ''(set HEADROOM_CCR_BACKEND=sqlite)'')
      else (case ch_self C of
              Inl e \<Rightarrow> Inl (''cannot locate the headroom executable: '' @ e)
            | Inr self \<Rightarrow> Inr [as_mcp_flag spec, marshal_json (mcp_document self store_path proxy_url)]))"

datatype wrap_notice =
    BypassWarning string string
  | ReusingProxy string
  | ListeningOn string string
  | RetrievalWired string
  | NoRetrieval string string
  | ZeroRequests string

record launch =
  la_binary :: string
  la_args :: "string list"
  la_env :: "string \<times> string"
  la_store_path :: string
  la_replay :: bool
  la_own_proxy :: bool

datatype wrap_outcome =
    UnknownAgent string
  | WrapSettings settings_error
  | WrapServer command_error
  | NeverHealthy
  | RefusedReplay string
  | NotOnPath string
  | Launched launch

definition bypass_variable :: "command_host \<Rightarrow> string option" where
  "bypass_variable C =
     (let truthy = (\<lambda>key. is_truthy (ch_lower C) (he_getenv (ch_env C) key))
      in if truthy ''HEADROOM_BYPASS_OK'' then None
         else if truthy ''CLAUDE_CODE_USE_BEDROCK'' then Some ''CLAUDE_CODE_USE_BEDROCK''
         else if truthy ''CLAUDE_CODE_USE_VERTEX'' then Some ''CLAUDE_CODE_USE_VERTEX'' else None)"

text \<open>The proxy that will serve the session: one that runs already, else one of its own. The store path, whether replay is
  on, whether the proxy is its own, and what is reported.\<close>

definition serving_proxy ::
  "command_host \<Rightarrow> agent_spec \<Rightarrow> settings \<Rightarrow> string \<Rightarrow> wrap_outcome + (string \<times> bool \<times> bool \<times> wrap_notice)" where
  "serving_proxy C spec cfg upstream =
     (let base = se_proxy_url cfg in
      case probe_proxy C base of
        Some h \<Rightarrow> Inr (hl_ccr_path h, hl_replay h, False, ReusingProxy base)
      | None \<Rightarrow>
          (case proxy_config_for C spec base upstream of
             Inl e \<Rightarrow> Inl (WrapSettings e)
           | Inr pcfg \<Rightarrow>
               (case new_proxy_server C pcfg cfg of
                  Inl e \<Rightarrow> Inl (WrapServer e)
                | Inr srv \<Rightarrow>
                    if \<not> ch_healthy C then Inl NeverHealthy
                    else Inr (se_ccr_path cfg, px_replay pcfg, True, ListeningOn (px_listen pcfg) (px_upstream pcfg)))))"

definition launch_agent ::
  "command_host \<Rightarrow> agent_spec \<Rightarrow> string \<Rightarrow> string \<Rightarrow> bool \<Rightarrow> bool \<Rightarrow> string list \<Rightarrow> wrap_notice list \<times> wrap_outcome" where
  "launch_agent C spec base store_path replay_on own rest =
     (let start = (\<lambda>flags notes.
            case ch_look_path C (as_binary spec) of
              None \<Rightarrow> (notes, NotOnPath (as_binary spec))
            | Some bin \<Rightarrow> (notes, Launched \<lparr>la_binary = bin, la_args = flags @ rest,
                la_env = (as_env_var spec, agent_base_url spec base), la_store_path = store_path, la_replay = replay_on,
                la_own_proxy = own\<rparr>))
      in case mcp_flags C spec store_path base of
           Inr flags \<Rightarrow> start flags [RetrievalWired store_path]
         | Inl blocked \<Rightarrow> if replay_on then ([], RefusedReplay blocked) else start [] [NoRetrieval (as_binary spec) blocked])"

definition wrap_run :: "command_host \<Rightarrow> string \<Rightarrow> string \<Rightarrow> string list \<Rightarrow> wrap_notice list \<times> wrap_outcome" where
  "wrap_run C upstream name rest =
     (case agent_spec_for (ch_lower C) name of
        None \<Rightarrow> ([], UnknownAgent name)
      | Some spec \<Rightarrow>
          (case from_env (ch_env C) of
             Inl e \<Rightarrow> ([], WrapSettings e)
           | Inr cfg \<Rightarrow>
               (let warn = (case bypass_variable C of None \<Rightarrow> [] | Some v \<Rightarrow> [BypassWarning v (as_env_var spec)])
                in case serving_proxy C spec cfg upstream of
                     Inl out \<Rightarrow> (warn, out)
                   | Inr (store_path, replay_on, own, note) \<Rightarrow>
                       (let (notes, out) = launch_agent C spec (se_proxy_url cfg) store_path replay_on own rest
                        in (warn @ [note] @ notes, out)))))"

text \<open>What is said when the agent has exited: its own proxy should have seen a request.\<close>

definition exit_notices :: "launch \<Rightarrow> 's proxy_state \<Rightarrow> wrap_notice list" where
  "exit_notices la s = (if la_own_proxy la \<and> request_count s = 0 then [ZeroRequests (fst (la_env la))] else [])"

section \<open>Properties\<close>

text \<open>The flags of the definition, as \<open>mcp serve\<close> receives them.\<close>

definition wrapped_overrides :: "string \<Rightarrow> string \<Rightarrow> overrides" where
  "wrapped_overrides store_path proxy_url = \<lparr>ov_ccr_backend = [], ov_ccr_path = store_path, ov_proxy_url = proxy_url, ov_model = []\<rparr>"

lemma launch_agent_launched:
  assumes "launch_agent C spec base store_path replay_on own rest = (notes, Launched la)"
  shows "la_store_path la = store_path \<and> la_replay la = replay_on \<and> la_own_proxy la = own
    \<and> la_env la = (as_env_var spec, agent_base_url spec base)
    \<and> (replay_on \<longrightarrow> store_path \<noteq> [] \<and> as_mcp_flag spec \<noteq> []
        \<and> (\<exists>self. la_args la = [as_mcp_flag spec, marshal_json (mcp_document self store_path base)] @ rest))"
  using assms by (auto simp: launch_agent_def mcp_flags_def Let_def split: sum.splits option.splits if_splits)

text \<open>The configuration of the environment with the store and the address that the flags name.\<close>

lemma wrapped_settings:
  assumes "from_env H = Inr cfg" and "he_getenv H ''HEADROOM_CCR_BACKEND'' \<in> {[], ''sqlite''}" and "path \<noteq> []"
  shows "load_settings H (wrapped_overrides path (se_proxy_url cfg)) = Inr (cfg\<lparr>se_ccr_path := path\<rparr>)"
    "se_ccr_backend cfg = ''sqlite''"
proof -
  let ?ov = "\<lparr>ov_ccr_backend = [], ov_ccr_path = [], ov_proxy_url = [], ov_model = []\<rparr>"
  from load_settings_cases [OF assms(1) [unfolded from_env_def]] obtain backend p ttl capacity url where
    b: "backend = pick H [] ''HEADROOM_CCR_BACKEND'' default_backend"
    and t: "positive_int H ''HEADROOM_CCR_TTL_SECONDS'' default_ttl_seconds = Inr ttl"
      "positive_int H ''HEADROOM_CCR_CAPACITY'' default_capacity = Inr capacity"
    and u: "url = pick H [] ''HEADROOM_PROXY_URL'' default_proxy_url" "url_error H url = None"
    and c: "cfg = \<lparr>se_ccr_backend = backend, se_ccr_path = p, se_ccr_ttl = nanos ttl, se_ccr_capacity = capacity,
        se_proxy_url = url, se_model = pick H [] ''HEADROOM_MODEL'' default_model\<rparr>"
    by (metis overrides.select_convs)
  have s: "backend = ''sqlite''" using assms(2) by (auto simp: b pick_def default_backend_def)
  have "url \<noteq> []" by (auto simp: u(1) pick_def default_proxy_url_def)
  then show "load_settings H (wrapped_overrides path (se_proxy_url cfg)) = Inr (cfg\<lparr>se_ccr_path := path\<rparr>)"
    using assms(3) t u(2) b s by (simp add: c wrapped_overrides_def load_settings_def resolve_path_def pick_def Let_def)
  show "se_ccr_backend cfg = ''sqlite''" by (simp add: c s)
qed

lemma serving_proxy_probed:
  assumes "serving_proxy C spec cfg upstream = Inr (store_path, replay_on, own, note)"
  shows "case probe_proxy C (se_proxy_url cfg) of
      Some h \<Rightarrow> store_path = hl_ccr_path h \<and> replay_on = hl_replay h \<and> \<not> own
    | None \<Rightarrow> store_path = se_ccr_path cfg \<and> own"
  using assms by (auto simp: serving_proxy_def Let_def split: option.splits sum.splits if_splits)

text \<open>What a proxy says about itself is what the prober reads.\<close>

lemma health_roundtrip:
  "decode_health (rp_body (handle_healthz P s)) =
     Some \<lparr>hl_status = ''ok'', hl_version = to_valid (pd_version P), hl_replay = (vs_replay s \<noteq> None), hl_ccr_path = to_valid (pd_ccr_path P)\<rparr>"
proof -
  have n: "k \<in> {''status'', ''version'', ''replay'', ''ccr_path''} \<Longrightarrow> to_valid k = k \<and> fold_name k = k" for k
    by (auto intro!: fold_name_plain ascii_valid simp: lower_byte_def is_upper_def)
  have ok: "to_valid ''ok'' = ''ok''" by (rule ascii_valid) simp
  let ?h = "health_of P s"
  have w: "list_all2 (written marshal_json) (health_members ?h)
      (health_members (?h\<lparr>hl_status := to_valid (hl_status ?h), hl_version := to_valid (hl_version ?h), hl_ccr_path := to_valid (hl_ccr_path ?h)\<rparr>))"
    using escaped.written_leaf(1) [of "''status''" "hl_status ?h"] escaped.written_leaf(1) [of "''version''" "hl_version ?h"]
      escaped.written_leaf(3) [of "''replay''" "hl_replay ?h"] escaped.written_leaf(1) [of "''ccr_path''" "hl_ccr_path ?h"] n
    by (simp add: health_members_def)
  show ?thesis
    using escaped.read_back_first [OF w, of "[NL]"] n
    by (simp add: handle_healthz_def json_reply_def decode_health_def health_members_def health_of_def ok bool_field_def)
qed


text \<open>With another back end in the environment the flags are not enough: the server keeps its entries in memory, and
  reaches those of the proxy over HTTP only.\<close>

lemma wrapped_backend:
  "he_getenv H ''HEADROOM_CCR_BACKEND'' = ''memory'' \<Longrightarrow> pick H (ov_ccr_backend (wrapped_overrides path url)) ''HEADROOM_CCR_BACKEND'' def = ''memory''"
  by (simp add: wrapped_overrides_def pick_def)

lemma wrapped_memory:
  assumes "he_getenv (ch_env D) ''HEADROOM_CCR_BACKEND'' = ''memory''" and "serve_mcp D (wrapped_overrides path url) = Inr (cfg', choice)"
  shows "\<exists>cap ttl. choice = UseInMemory cap ttl"
proof -
  obtain cfg' where l: "load_settings (ch_env D) (wrapped_overrides path url) = Inr cfg'" and o: "open_ccr D cfg' = Inr choice"
    using assms(2) by (auto simp: serve_mcp_def split: sum.splits)
  have "se_ccr_backend cfg' = ''memory''"
    using load_settings_cases [OF l] by (metis assms(1) settings.select_convs(1) wrapped_backend)
  then show ?thesis using o by (auto simp: open_ccr_def from_config_def backend_config_of_def Let_def split: if_splits)
qed

text \<open>A host on which a replaying proxy with its store in \<open>/s/ccr.db\<close> runs.\<close>

definition sample_host :: command_host where
  "sample_host =
     \<lparr>ch_env = bare_host, ch_lower = (\<lambda>c. c), ch_ensure_dir = (\<lambda>_. True), ch_open = (\<lambda>_. True),
      ch_get = (\<lambda>url. if url = ''http://127.0.0.1:8787/healthz''
        then Some (200, rp_body (handle_healthz ((sample_proxy True)\<lparr>pd_ccr_path := ''/s/ccr.db''\<rparr>) (new_proxy (sample_proxy True) sample_store None)))
        else None),
      ch_healthy = True, ch_self = Inr ''/bin/headroom'', ch_look_path = Some\<rparr>"


end
